(* ===== verification/Prelude.thy ===== *)
theory Prelude
  imports Complex_Main "HOL-Library.Sublist" "HOL-Library.Multiset"
begin

text \<open>
  What every component shares.

  Strings. A Python \<open>str\<close> is a HOL \<open>string\<close>: a list of characters, each a code point below
  256 (Latin-1). The predicates and case maps below are the exact Python ones on that range.
  The only results of Python's case maps that leave the range are those of the micro sign
  (upper case and case fold) and of y-diaeresis (upper case); the model leaves these two
  characters alone, and since no other Latin-1 character is mapped to their images,
  comparisons of mapped strings come out the same. Text outside Latin-1 is not modelled.

  Decimals. A \<open>Decimal\<close> amount is a \<open>rat\<close>: the sums and comparisons of the code are exact
  at the sizes the columns hold (\<open>Numeric(12, 2)\<close>).

  Containers. A Python dictionary whose order matters is an association list in insertion
  order (\<open>dict_append\<close>, \<open>dict_get\<close>); a result set is a list of rows in primary key order.
\<close>

named_theorems str_simps "Evaluation of the Python string operations"
named_theorems dict_simps "Lookup after update of insertion-ordered dictionaries"

section \<open>Characters\<close>

definition code :: "char \<Rightarrow> nat" where
  "code c = of_char c"

definition is_ascii_digit :: "char \<Rightarrow> bool" where
  "is_ascii_digit c \<longleftrightarrow> 48 \<le> code c \<and> code c \<le> 57"

text \<open>\<open>str.isspace\<close> on Latin-1.\<close>

definition is_space :: "char \<Rightarrow> bool" where
  "is_space c \<longleftrightarrow> (let n = code c in
     9 \<le> n \<and> n \<le> 13 \<or> 28 \<le> n \<and> n \<le> 32 \<or> n = 133 \<or> n = 160)"

text \<open>\<open>str.isalnum\<close> on Latin-1: letters, decimal digits, and the characters with a numeric
  value (superscripts and vulgar fractions).\<close>

definition is_alnum :: "char \<Rightarrow> bool" where
  "is_alnum c \<longleftrightarrow> (let n = code c in
     48 \<le> n \<and> n \<le> 57 \<or> 65 \<le> n \<and> n \<le> 90 \<or> 97 \<le> n \<and> n \<le> 122 \<or>
     n = 170 \<or> n = 178 \<or> n = 179 \<or> n = 181 \<or> n = 185 \<or> n = 186 \<or>
     188 \<le> n \<and> n \<le> 190 \<or> 192 \<le> n \<and> n \<le> 255 \<and> n \<noteq> 215 \<and> n \<noteq> 247)"

text \<open>\<open>str.lower\<close> on one Latin-1 character.\<close>

definition lower_ch :: "char \<Rightarrow> char" where
  "lower_ch c = (let n = code c in
     if 65 \<le> n \<and> n \<le> 90 \<or> 192 \<le> n \<and> n \<le> 222 \<and> n \<noteq> 215
     then char_of (n + 32) else c)"

text \<open>\<open>str.upper\<close> and \<open>str.casefold\<close>: sharp s becomes two letters.\<close>

definition upper_ch :: "char \<Rightarrow> string" where
  "upper_ch c = (let n = code c in
     if n = 223 then ''SS''
     else if 97 \<le> n \<and> n \<le> 122 \<or> 224 \<le> n \<and> n \<le> 254 \<and> n \<noteq> 247
     then [char_of (n - 32)] else [c])"

definition casefold_ch :: "char \<Rightarrow> string" where
  "casefold_ch c = (if code c = 223 then ''ss'' else [lower_ch c])"

lemma ascii_digit_not_space [simp]: "is_ascii_digit c \<Longrightarrow> \<not> is_space c"
  by (auto simp: is_ascii_digit_def is_space_def Let_def)

lemma ascii_digit_alnum [simp]: "is_ascii_digit c \<Longrightarrow> is_alnum c"
  by (auto simp: is_ascii_digit_def is_alnum_def Let_def)

lemma alnum_not_space: "is_alnum c \<Longrightarrow> \<not> is_space c"
  by (auto simp: is_alnum_def is_space_def Let_def)

lemma code_char_of [simp]: "n < 256 \<Longrightarrow> code (char_of n) = n"
  by (simp add: code_def)

lemma code_less_256 [simp]: "code c < 256"
  using nat_of_char_less_256 by (simp add: code_def)

lemma code_lower_ch:
  "code (lower_ch c) = (if 65 \<le> code c \<and> code c \<le> 90 \<or>
     192 \<le> code c \<and> code c \<le> 222 \<and> code c \<noteq> 215 then code c + 32 else code c)"
  by (auto simp: lower_ch_def Let_def)

lemma lower_ch_idem [simp]: "lower_ch (lower_ch c) = lower_ch c"
  by (subst lower_ch_def) (auto simp: code_lower_ch Let_def)

lemma is_space_lower_ch [simp]: "is_space (lower_ch c) = is_space c"
  by (auto simp: is_space_def code_lower_ch Let_def)

lemma is_alnum_lower_ch [simp]: "is_alnum (lower_ch c) = is_alnum c"
  by (auto simp: is_alnum_def code_lower_ch Let_def split: if_splits)

section \<open>Strings\<close>

definition lower :: "string \<Rightarrow> string" where
  "lower = map lower_ch"

definition upper :: "string \<Rightarrow> string" where
  "upper s = concat (map upper_ch s)"

definition casefold :: "string \<Rightarrow> string" where
  "casefold s = concat (map casefold_ch s)"

definition lstrip :: "string \<Rightarrow> string" where
  "lstrip = dropWhile is_space"

definition strip :: "string \<Rightarrow> string" where
  "strip s = rev (dropWhile is_space (rev (lstrip s)))"

text \<open>\<open>s or ''\<close>: an absent string reads as the empty one.\<close>

definition or_empty :: "string option \<Rightarrow> string" where
  "or_empty s = (case s of None \<Rightarrow> [] | Some t \<Rightarrow> t)"

text \<open>Python truthiness of an optional string.\<close>

definition truthy :: "string option \<Rightarrow> bool" where
  "truthy s \<longleftrightarrow> or_empty s \<noteq> []"

text \<open>\<open>str.split()\<close>: maximal runs of non-whitespace.\<close>

function split_ws :: "string \<Rightarrow> string list" where
  "split_ws s = (case lstrip s of [] \<Rightarrow> []
     | c # cs \<Rightarrow> takeWhile (\<lambda>d. \<not> is_space d) (c # cs)
         # split_ws (dropWhile (\<lambda>d. \<not> is_space d) (c # cs)))"
  by pat_completeness auto
termination
proof (relation "measure length", goal_cases)
  case (2 s c cs)
  have "hd (dropWhile is_space s) = c" and "dropWhile is_space s \<noteq> []"
    using 2 by (simp_all add: lstrip_def)
  then have "\<not> is_space c"
    using hd_dropWhile [of is_space s] by simp
  moreover have "length (c # cs) \<le> length s"
    using 2 length_dropWhile_le [of is_space s] by (simp add: lstrip_def)
  moreover have "length (dropWhile (\<lambda>d. \<not> is_space d) cs) \<le> length cs"
    by (rule length_dropWhile_le)
  ultimately show ?case by simp
qed simp

declare split_ws.simps [simp del]

fun join_sp :: "string list \<Rightarrow> string" where
  "join_sp [] = []"
| "join_sp [w] = w"
| "join_sp (w # ws) = w @ '' '' @ join_sp ws"

text \<open>\<open>haystack.startswith\<close>, \<open>endswith\<close> and the operator \<open>in\<close> are \<open>prefix\<close>, \<open>suffix\<close> and
  \<open>sublist\<close> of the library (all three executable).\<close>

lemma or_empty_simps [simp]: "or_empty None = []" "or_empty (Some s) = s"
  by (simp_all add: or_empty_def)

lemma truthy_simps [simp]: "\<not> truthy None" "truthy (Some s) \<longleftrightarrow> s \<noteq> []"
  by (simp_all add: truthy_def)

lemma lower_idem [simp]: "lower (lower s) = lower s"
  by (simp add: lower_def)

lemma lower_append [simp]: "lower (a @ b) = lower a @ lower b"
  by (simp add: lower_def)

lemma lower_Nil [simp]: "lower [] = []" "lower s = [] \<longleftrightarrow> s = []"
  by (simp_all add: lower_def)

lemma lower_Cons: "lower (c # s) = lower_ch c # lower s"
  by (simp add: lower_def)

lemma strip_Nil [simp]: "strip [] = []"
  by (simp add: strip_def lstrip_def)

lemma strip_eq_Nil: "strip s = [] \<longleftrightarrow> (\<forall>c \<in> set s. is_space c)"
proof
  assume "strip s = []"
  then have "\<forall>c \<in> set (lstrip s). is_space c"
    by (simp add: strip_def)
  moreover have "lstrip s = [] \<or> \<not> is_space (hd (lstrip s))"
    unfolding lstrip_def using hd_dropWhile by blast
  ultimately have "lstrip s = []"
    by (cases "lstrip s") auto
  then show "\<forall>c \<in> set s. is_space c"
    by (simp add: lstrip_def)
next
  assume "\<forall>c \<in> set s. is_space c"
  then have "lstrip s = []"
    by (simp add: lstrip_def)
  then show "strip s = []"
    by (simp add: strip_def)
qed

section \<open>Lists and options\<close>

text \<open>The recurring "exactly one, otherwise refuse to guess".\<close>

fun sole :: "'a list \<Rightarrow> 'a option" where
  "sole [x] = Some x"
| "sole _ = None"

lemma none_one_many:
  obtains (none) "xs = []" | (one) x where "xs = [x]" | (many) x y zs where "xs = x # y # zs"
  by (cases xs rule: sole.cases) auto

lemma sole_Some_iff: "sole xs = Some x \<longleftrightarrow> xs = [x]"
  by (cases xs rule: sole.cases) auto

lemma sole_None_iff: "sole xs = None \<longleftrightarrow> length xs \<noteq> 1"
  by (cases xs rule: sole.cases) auto

lemma sole_in_set: "sole xs = Some x \<Longrightarrow> x \<in> set xs"
  by (simp add: sole_Some_iff)

lemma sole_mset_cong: "mset xs = mset ys \<Longrightarrow> sole xs = sole ys"
  by (cases xs rule: sole.cases; cases ys rule: sole.cases) (auto dest: mset_eq_length)

lemma sole_filter_unique:
  "sole (filter P xs) = Some x \<Longrightarrow> y \<in> set xs \<Longrightarrow> P y \<Longrightarrow> y = x"
proof -
  assume "sole (filter P xs) = Some x" and y: "y \<in> set xs" "P y"
  then have "filter P xs = [x]" by (simp add: sole_Some_iff)
  moreover have "y \<in> set (filter P xs)" using y by simp
  ultimately show "y = x" by simp
qed

text \<open>\<open>next((x for x in xs if p(x)), None)\<close> is \<open>List.find\<close>.\<close>

lemma find_Some_D: "List.find P xs = Some x \<Longrightarrow> x \<in> set xs \<and> P x"
  by (induction xs) (auto split: if_splits)

lemma find_None_D: "List.find P xs = None \<Longrightarrow> x \<in> set xs \<Longrightarrow> \<not> P x"
  by (induction xs) (auto split: if_splits)

section \<open>Insertion-ordered dictionaries\<close>

fun dict_get :: "('k \<times> 'v) list \<Rightarrow> 'k \<Rightarrow> 'v option" where
  "dict_get [] k = None"
| "dict_get ((k', v) # d) k = (if k' = k then Some v else dict_get d k)"

text \<open>\<open>d[k] = v\<close>: overwrite in place, or append.\<close>

fun dict_put :: "('k \<times> 'v) list \<Rightarrow> 'k \<Rightarrow> 'v \<Rightarrow> ('k \<times> 'v) list" where
  "dict_put [] k v = [(k, v)]"
| "dict_put ((k', w) # d) k v = (if k' = k then (k', v) # d else (k', w) # dict_put d k v)"

text \<open>\<open>d.get(k, [])\<close> and \<open>d.setdefault(k, []).append(x)\<close>.\<close>

definition dict_list :: "('k \<times> 'v list) list \<Rightarrow> 'k \<Rightarrow> 'v list" where
  "dict_list d k = (case dict_get d k of None \<Rightarrow> [] | Some xs \<Rightarrow> xs)"

definition dict_append :: "('k \<times> 'v list) list \<Rightarrow> 'k \<Rightarrow> 'v \<Rightarrow> ('k \<times> 'v list) list" where
  "dict_append d k x = dict_put d k (dict_list d k @ [x])"

lemma dict_get_put [simp, dict_simps]:
  "dict_get (dict_put d k v) k' = (if k' = k then Some v else dict_get d k')"
  by (induction d k v rule: dict_put.induct) auto

lemma dict_list_append [simp, dict_simps]:
  "dict_list (dict_append d k x) k' = (if k' = k then dict_list d k @ [x] else dict_list d k')"
  by (simp add: dict_list_def dict_append_def)

lemma dict_list_Nil [simp, dict_simps]: "dict_list [] k = []"
  by (simp add: dict_list_def)

lemma set_keys_dict_put [simp]: "set (map fst (dict_put d k v)) = insert k (set (map fst d))"
  by (induction d k v rule: dict_put.induct) auto

lemma distinct_keys_dict_put [simp]:
  "distinct (map fst d) \<Longrightarrow> distinct (map fst (dict_put d k v))"
proof (induction d k v rule: dict_put.induct)
  case (2 k' w d k v)
  then show ?case
    using set_keys_dict_put [of d k v] by auto
qed simp

lemma dict_get_None_iff: "dict_get d k = None \<longleftrightarrow> k \<notin> set (map fst d)"
  by (induction d k rule: dict_get.induct) auto

lemma dict_get_mem: "dict_get d k = Some v \<Longrightarrow> (k, v) \<in> set d"
  by (induction d k rule: dict_get.induct) (auto split: if_splits)

lemma mem_dict_get: "distinct (map fst d) \<Longrightarrow> (k, v) \<in> set d \<Longrightarrow> dict_get d k = Some v"
  by (induction d) (auto simp: image_iff dest: bspec)

lemma fold_max_ge: "i \<in> set is \<or> i \<le> m \<Longrightarrow> i \<le> fold max is (m :: nat)"
proof (induction "is" arbitrary: m)
  case (Cons a "is")
  have "i \<in> set is \<or> i \<le> max a m" using Cons.prems by (auto simp: le_max_iff_disj)
  from Cons.IH [OF this] show ?case by simp
qed simp

end
