(* ===== verification/Dates.thy ===== *)
theory Dates
  imports Prelude
begin

text \<open>
  Calendar dates and \<open>core/dates.py\<close>.

  A \<open>datetime.date\<close> is its proleptic Gregorian ordinal (\<open>date.toordinal()\<close>), so that
  \<open>timedelta(days=k)\<close> is addition and comparison is \<open>\<le>\<close> on \<open>int\<close>; \<open>year_of\<close>,
  \<open>month_of\<close> and \<open>day_of\<close> read the calendar fields and \<open>ord_of\<close> builds a date
  from them (\<open>date(y, m, d)\<close>), and the two are inverse on valid fields (\<open>ord_of_fields\<close>,
  \<open>fields_of_ord\<close>). A \<open>datetime.time\<close> is its number of microseconds since midnight, a
  naive \<open>datetime\<close> the number of microseconds since day zero. Python's range check on the
  years 1 to 9999 is not modelled.

  \<open>dateutil.relativedelta\<close> is third-party code: it is the parameter \<open>rd\<close> of the month
  helpers, and \<open>relativedelta_doc\<close> is its documented behaviour.
\<close>

type_synonym date = int
type_synonym time_of_day = int
type_synonym datetime = int

definition day_us :: int where
  "day_us = 86400000000"

definition minute_us :: int where
  "minute_us = 60000000"

definition hour_us :: int where
  "hour_us = 3600000000"

text \<open>\<open>datetime.combine(d, t)\<close>, \<open>x.date()\<close>, \<open>t.hour\<close>.\<close>

definition combine :: "date \<Rightarrow> time_of_day \<Rightarrow> datetime" where
  "combine d t = d * day_us + t"

definition date_of :: "datetime \<Rightarrow> date" where
  "date_of x = x div day_us"

definition hour_of :: "time_of_day \<Rightarrow> int" where
  "hour_of t = t div hour_us"

definition valid_time :: "time_of_day \<Rightarrow> bool" where
  "valid_time t \<longleftrightarrow> 0 \<le> t \<and> t < day_us"

lemma day_us_pos [simp]: "0 < day_us" "0 \<le> day_us" "day_us \<noteq> 0"
  by (simp_all add: day_us_def)

lemma date_of_combine [simp]: "valid_time t \<Longrightarrow> date_of (combine d t) = d"
  by (simp add: date_of_def combine_def valid_time_def)

lemma date_of_mono: "x \<le> y \<Longrightarrow> date_of x \<le> date_of y"
  by (simp add: date_of_def zdiv_mono1)

lemma combine_midnight [simp]: "date_of (combine d 0) = d"
  by (simp add: date_of_def combine_def)

lemma combine_le_iff: "combine d 0 \<le> x \<longleftrightarrow> d \<le> date_of x"
proof
  assume "combine d 0 \<le> x"
  then have "date_of (combine d 0) \<le> date_of x" by (rule date_of_mono)
  then show "d \<le> date_of x" by simp
next
  assume "d \<le> date_of x"
  then have "d * day_us \<le> (x div day_us) * day_us"
    by (simp add: date_of_def)
  also have "\<dots> \<le> x"
    using div_mult_mod_eq [of x day_us] pos_mod_sign [OF day_us_pos(1), of x] by linarith
  finally show "combine d 0 \<le> x" by (simp add: combine_def)
qed

section \<open>The calendar\<close>

definition is_leap :: "int \<Rightarrow> bool" where
  "is_leap y \<longleftrightarrow> y mod 4 = 0 \<and> (y mod 100 \<noteq> 0 \<or> y mod 400 = 0)"

definition days_before_year :: "int \<Rightarrow> int" where
  "days_before_year y = (y - 1) * 365 + (y - 1) div 4 - (y - 1) div 100 + (y - 1) div 400"

definition leap_day :: "int \<Rightarrow> int" where
  "leap_day y = (if is_leap y then 1 else 0)"

definition days_before_month :: "int \<Rightarrow> int \<Rightarrow> int" where
  "days_before_month y m =
     (if m \<le> 1 then 0 else if m = 2 then 31
      else (if m = 3 then 59 else if m = 4 then 90 else if m = 5 then 120
        else if m = 6 then 151 else if m = 7 then 181 else if m = 8 then 212
        else if m = 9 then 243 else if m = 10 then 273 else if m = 11 then 304
        else if m = 12 then 334 else 365) + leap_day y)"

definition days_in_month :: "int \<Rightarrow> int \<Rightarrow> int" where
  "days_in_month y m = days_before_month y (m + 1) - days_before_month y m"

definition ord_of :: "int \<Rightarrow> int \<Rightarrow> int \<Rightarrow> date" where
  "ord_of y m d = days_before_year y + days_before_month y m + d"

definition year_of :: "date \<Rightarrow> int" where
  "year_of n = (let y = (400 * n) div 146097 + 2 in
     if days_before_year y < n then y
     else if days_before_year (y - 1) < n then y - 1 else y - 2)"

definition month_of :: "date \<Rightarrow> int" where
  "month_of n = (let y = year_of n; k = n - days_before_year y; l = leap_day y in
     if k \<le> 31 then 1 else if k \<le> 59 + l then 2 else if k \<le> 90 + l then 3
     else if k \<le> 120 + l then 4 else if k \<le> 151 + l then 5 else if k \<le> 181 + l then 6
     else if k \<le> 212 + l then 7 else if k \<le> 243 + l then 8 else if k \<le> 273 + l then 9
     else if k \<le> 304 + l then 10 else if k \<le> 334 + l then 11 else 12)"

definition day_of :: "date \<Rightarrow> int" where
  "day_of n = n - days_before_year (year_of n) - days_before_month (year_of n) (month_of n)"

definition valid_fields :: "int \<Rightarrow> int \<Rightarrow> int \<Rightarrow> bool" where
  "valid_fields y m d \<longleftrightarrow> 1 \<le> m \<and> m \<le> 12 \<and> 1 \<le> d \<and> d \<le> days_in_month y m"

text \<open>The month as one number, so that months can be counted.\<close>

definition month_index :: "date \<Rightarrow> int" where
  "month_index n = year_of n * 12 + (month_of n - 1)"

lemma leap_day_bounds [simp]: "0 \<le> leap_day y" "leap_day y \<le> 1"
  by (simp_all add: leap_day_def)

lemma leap_day_cases: "leap_day y = 0 \<or> leap_day y = 1"
  by (simp add: leap_day_def)

lemma mod12_bounds [simp]: "0 \<le> (i::int) mod 12" "(i::int) mod 12 \<le> 11"
  by presburger+

lemma days_before_year_bounds:
  "146097 * y - 146797 \<le> 400 * days_before_year y"
  "400 * days_before_year y \<le> 146097 * y - 145697"
proof -
  define a where "a = y - 1"
  have y: "y = a + 1" by (simp add: a_def)
  have b: "4 * (a div 4) \<le> a" "a \<le> 4 * (a div 4) + 3"
    "100 * (a div 100) \<le> a" "a \<le> 100 * (a div 100) + 99"
    "400 * (a div 400) \<le> a" "a \<le> 400 * (a div 400) + 399"
    by presburger+
  show "146097 * y - 146797 \<le> 400 * days_before_year y"
    unfolding days_before_year_def y using b by (simp add: algebra_simps)
  show "400 * days_before_year y \<le> 146097 * y - 145697"
    unfolding days_before_year_def y using b by (simp add: algebra_simps)
qed

lemma div_step:
  fixes z k :: int
  assumes k: "0 < k"
  shows "z div k = (z - 1) div k + (if z mod k = 0 then 1 else 0)"
proof -
  define q r where "q = (z - 1) div k" and "r = (z - 1) mod k"
  have z: "z = q * k + (r + 1)"
    using div_mult_mod_eq [of "z - 1" k] by (simp add: q_def r_def)
  have r: "0 \<le> r" "r < k" using k by (simp_all add: r_def)
  show ?thesis
  proof (cases "r + 1 = k")
    case True
    then have "z = (q + 1) * k" using z by (simp add: algebra_simps)
    then have "z div k = q + 1" "z mod k = 0" using k by simp_all
    then show ?thesis by (simp add: q_def)
  next
    case False
    then have "r + 1 < k" using r by simp
    then have "z div k = q" "z mod k = r + 1" using z r by simp_all
    then show ?thesis using r by (simp add: q_def)
  qed
qed

lemma days_before_year_Suc: "days_before_year (y + 1) = days_before_year y + 365 + leap_day y"
proof -
  have m: "y mod 100 = 0 \<Longrightarrow> y mod 4 = 0" "y mod 400 = 0 \<Longrightarrow> y mod 100 = 0"
    using dvd_trans [of 4 100 y] dvd_trans [of 100 400 y] by (simp_all add: dvd_eq_mod_eq_0)
  have d: "y div 4 = (y - 1) div 4 + (if y mod 4 = 0 then 1 else 0)"
    "y div 100 = (y - 1) div 100 + (if y mod 100 = 0 then 1 else 0)"
    "y div 400 = (y - 1) div 400 + (if y mod 400 = 0 then 1 else 0)"
    by (rule div_step, simp)+
  have "y div 4 - y div 100 + y div 400 =
      (y - 1) div 4 - (y - 1) div 100 + (y - 1) div 400 + leap_day y"
    unfolding d leap_day_def is_leap_def using m
    by (cases "y mod 4 = 0"; cases "y mod 100 = 0"; cases "y mod 400 = 0") (simp_all only: if_True if_False, simp_all)
  then show ?thesis by (simp add: days_before_year_def algebra_simps)
qed

lemma year_of_bounds:
  "days_before_year (year_of n) < n" "n \<le> days_before_year (year_of n + 1)"
proof -
  define q where "q = (400 * n) div 146097"
  have q: "146097 * q \<le> 400 * n" "400 * n < 146097 * q + 146097"
    using div_mult_mod_eq [of "400 * n" 146097] pos_mod_sign [of 146097 "400 * n"]
      pos_mod_bound [of 146097 "400 * n"] unfolding q_def by linarith+
  have lo: "days_before_year q < n"
    using days_before_year_bounds(2) [of q] q by linarith
  have hi: "n \<le> days_before_year (q + 3)"
    using days_before_year_bounds(1) [of "q + 3"] q by (simp add: algebra_simps)
  have y: "year_of n = (if days_before_year (q + 2) < n then q + 2
     else if days_before_year (q + 1) < n then q + 1 else q)"
    unfolding year_of_def Let_def q_def [symmetric] by (simp add: add.commute)
  show "days_before_year (year_of n) < n" using lo y by (auto split: if_splits)
  show "n \<le> days_before_year (year_of n + 1)" using hi y by (auto simp: algebra_simps split: if_splits)
qed

lemma days_before_year_mono: "x \<le> y \<Longrightarrow> days_before_year x \<le> days_before_year y"
proof -
  have "days_before_year x \<le> days_before_year (x + int k)" for k
  proof (induction k)
    case (Suc k)
    have "x + int (Suc k) = (x + int k) + 1" by simp
    then have "days_before_year (x + int (Suc k)) = days_before_year (x + int k) + 365 + leap_day (x + int k)"
      by (simp only: days_before_year_Suc)
    then show ?case using Suc leap_day_bounds(1) [of "x + int k"] by linarith
  qed simp
  then show "x \<le> y \<Longrightarrow> days_before_year x \<le> days_before_year y"
    using zle_iff_zadd by auto
qed

lemma year_of_unique:
  "days_before_year y < n \<Longrightarrow> n \<le> days_before_year (y + 1) \<Longrightarrow> year_of n = y"
proof (rule ccontr)
  assume a: "days_before_year y < n" "n \<le> days_before_year (y + 1)" "year_of n \<noteq> y"
  consider "year_of n + 1 \<le> y" | "y + 1 \<le> year_of n" using a(3) by linarith
  then show False
    using a(1,2) year_of_bounds [of n] days_before_year_mono by cases fastforce+
qed

lemma month_of_bounds:
  "1 \<le> month_of n" "month_of n \<le> 12"
  "days_before_month (year_of n) (month_of n) < n - days_before_year (year_of n)"
  "n - days_before_year (year_of n) \<le> days_before_month (year_of n) (month_of n + 1)"
proof -
  define k where "k = n - days_before_year (year_of n)"
  define l where "l = leap_day (year_of n)"
  have k: "1 \<le> k" "k \<le> 365 + l"
    using year_of_bounds [of n] days_before_year_Suc [of "year_of n"] by (simp_all add: k_def l_def)
  have l: "0 \<le> l" "l \<le> 1" by (simp_all add: l_def)
  note m = month_of_def [of n, unfolded Let_def, folded k_def l_def]
  show "1 \<le> month_of n" "month_of n \<le> 12" by (simp_all add: m)
  show "days_before_month (year_of n) (month_of n) < n - days_before_year (year_of n)"
    using k l unfolding k_def [symmetric] days_before_month_def l_def [symmetric] m by simp
  show "n - days_before_year (year_of n) \<le> days_before_month (year_of n) (month_of n + 1)"
    using k l unfolding k_def [symmetric] days_before_month_def l_def [symmetric] m by simp
qed

lemma day_of_bounds: "1 \<le> day_of n" "day_of n \<le> days_in_month (year_of n) (month_of n)"
  using month_of_bounds(3,4) [of n] by (simp_all add: day_of_def days_in_month_def)

lemma valid_fields_of [simp]: "valid_fields (year_of n) (month_of n) (day_of n)"
  by (simp add: valid_fields_def month_of_bounds day_of_bounds)

lemma ord_of_fields [simp]: "ord_of (year_of n) (month_of n) (day_of n) = n"
  by (simp add: ord_of_def day_of_def)

lemma days_before_month_mono:
  "1 \<le> m \<Longrightarrow> m \<le> 12 \<Longrightarrow> 0 \<le> days_before_month y m \<and>
   days_before_month y (m + 1) \<le> 365 + leap_day y"
  by (simp add: days_before_month_def)

lemma month_cases:
  fixes m :: int
  assumes "1 \<le> m" "m \<le> 12"
  shows "m = 1 \<or> m = 2 \<or> m = 3 \<or> m = 4 \<or> m = 5 \<or> m = 6 \<or> m = 7 \<or> m = 8 \<or> m = 9 \<or>
    m = 10 \<or> m = 11 \<or> m = 12"
  using assms by presburger

lemma fields_of_ord:
  assumes "valid_fields y m d"
  shows "year_of (ord_of y m d) = y" "month_of (ord_of y m d) = m" "day_of (ord_of y m d) = d"
proof -
  have v: "1 \<le> m" "m \<le> 12" "1 \<le> d" "d \<le> days_in_month y m"
    using assms by (simp_all add: valid_fields_def)
  have b: "0 \<le> days_before_month y m" "days_before_month y m + d \<le> 365 + leap_day y"
    using days_before_month_mono [of m y] v by (simp_all add: days_in_month_def)
  show y: "year_of (ord_of y m d) = y"
    by (rule year_of_unique) (use b v days_before_year_Suc [of y] in \<open>simp_all add: ord_of_def\<close>)
  have k: "ord_of y m d - days_before_year y = days_before_month y m + d"
    by (simp add: ord_of_def)
  show m: "month_of (ord_of y m d) = m"
    using month_cases [OF v(1,2)] v(3,4) leap_day_cases [of y]
    unfolding month_of_def y Let_def k
    by (elim disjE) (simp_all add: days_before_month_def days_in_month_def)
  show "day_of (ord_of y m d) = d"
    by (simp add: day_of_def y m) (simp add: ord_of_def)
qed

lemma days_in_month_bounds: "1 \<le> m \<Longrightarrow> m \<le> 12 \<Longrightarrow> 28 \<le> days_in_month y m \<and> days_in_month y m \<le> 31"
  using month_cases [of m] leap_day_cases [of y]
  by (auto simp: days_in_month_def days_before_month_def)

text \<open>The first day of the month with a given index; consecutive firsts tile the calendar.\<close>

definition month_first :: "int \<Rightarrow> date" where
  "month_first i = ord_of (i div 12) (i mod 12 + 1) 1"

lemma month_first_valid: "valid_fields (i div 12) (i mod 12 + 1) 1"
  using days_in_month_bounds [of "i mod 12 + 1" "i div 12"] by (simp add: valid_fields_def)

lemma month_index_div_mod [simp]:
  "month_index n div 12 = year_of n" "month_index n mod 12 = month_of n - 1"
  using month_of_bounds(1,2) [of n] by (simp_all add: month_index_def)

lemma month_first_fields:
  "year_of (month_first i) = i div 12" "month_of (month_first i) = i mod 12 + 1"
  "day_of (month_first i) = 1" "month_index (month_first i) = i"
  using fields_of_ord [OF month_first_valid [of i]]
  by (simp_all add: month_first_def month_index_def)

lemma mod12_Suc: "((i::int) + 1) mod 12 = (if i mod 12 = 11 then 0 else i mod 12 + 1)"
proof -
  have "(i + 1) mod 12 = (i mod 12 + 1) mod 12" by (simp add: mod_add_left_eq)
  also have "\<dots> = (if i mod 12 = 11 then 0 else i mod 12 + 1)"
    using mod12_bounds [of i] by auto
  finally show ?thesis .
qed

lemma div12_Suc: "((i::int) + 1) div 12 = i div 12 + (if i mod 12 = 11 then 1 else 0)"
  using div_step [of 12 "i + 1"] mod12_Suc [of i] mod12_bounds(1) [of i]
  by (auto split: if_splits)

lemma month_first_Suc:
  "month_first (i + 1) = month_first i + days_in_month (i div 12) (i mod 12 + 1)"
proof (cases "i mod 12 = 11")
  case True
  show ?thesis
    unfolding month_first_def mod12_Suc div12_Suc using True
    by (simp add: ord_of_def days_in_month_def days_before_month_def days_before_year_Suc)
next
  case False
  show ?thesis
    unfolding month_first_def mod12_Suc div12_Suc using False
    by (simp add: ord_of_def days_in_month_def)
qed

lemma month_first_le: "month_first (month_index n) \<le> n" "n < month_first (month_index n + 1)"
proof -
  have f: "month_first (month_index n) = ord_of (year_of n) (month_of n) 1"
    by (simp add: month_first_def)
  have n: "n = ord_of (year_of n) (month_of n) (day_of n)" by simp
  show "month_first (month_index n) \<le> n"
    unfolding f using n day_of_bounds(1) [of n] by (simp add: ord_of_def)
  show "n < month_first (month_index n + 1)"
    unfolding month_first_Suc f using n day_of_bounds(2) [of n] by (simp add: ord_of_def)
qed

lemma month_first_less: "i < j \<Longrightarrow> month_first i < month_first j"
proof -
  have "month_first i < month_first (i + 1 + int k)" for k
  proof (induction k)
    case 0
    show ?case
      using month_first_Suc [of i] days_in_month_bounds [of "i mod 12 + 1" "i div 12"] by simp
  next
    case (Suc k)
    have "month_first (i + 1 + int (Suc k)) = month_first ((i + 1 + int k) + 1)" by (simp add: ac_simps)
    then show ?case
      using Suc month_first_Suc [of "i + 1 + int k"]
        days_in_month_bounds [of "(i + 1 + int k) mod 12 + 1" "(i + 1 + int k) div 12"] by simp
  qed
  from this [of "nat (j - i - 1)"] show "i < j \<Longrightarrow> month_first i < month_first j" by simp
qed

lemma month_first_mono: "i \<le> j \<Longrightarrow> month_first i \<le> month_first j"
  using month_first_less [of i j] by (cases "i = j") auto

lemma month_index_iff: "month_index n = i \<longleftrightarrow> month_first i \<le> n \<and> n < month_first (i + 1)"
proof
  assume "month_index n = i"
  then show "month_first i \<le> n \<and> n < month_first (i + 1)" using month_first_le [of n] by auto
next
  assume r: "month_first i \<le> n \<and> n < month_first (i + 1)"
  show "month_index n = i"
  proof (rule linorder_cases [of "month_index n" i])
    assume "month_index n < i"
    then have "month_first (month_index n + 1) \<le> month_first i" by (intro month_first_mono) simp
    then show ?thesis using r month_first_le(2) [of n] by simp
  next
    assume "i < month_index n"
    then have "month_first (i + 1) \<le> month_first (month_index n)" by (intro month_first_mono) simp
    then show ?thesis using r month_first_le(1) [of n] by simp
  qed
qed

lemma month_index_mono: "n \<le> n' \<Longrightarrow> month_index n \<le> month_index n'"
proof (rule ccontr)
  assume a: "n \<le> n'" "\<not> month_index n \<le> month_index n'"
  then have "month_first (month_index n' + 1) \<le> month_first (month_index n)"
    by (intro month_first_mono) simp
  then show False using a(1) month_first_le(1) [of n] month_first_le(2) [of n'] by simp
qed

section \<open>Month helpers of core/dates.py\<close>

text \<open>\<open>day.replace(day=k)\<close>; the code only replaces by 1, which is always valid.\<close>

definition replace_day :: "date \<Rightarrow> int \<Rightarrow> date" where
  "replace_day n k = ord_of (year_of n) (month_of n) k"

text \<open>The documented behaviour of \<open>day + relativedelta(months=m, days=k)\<close>: the months are
  added first, the day of the month clipped to the length of the target month, and then the
  days are added.\<close>

definition relativedelta_doc :: "(date \<Rightarrow> int \<Rightarrow> int \<Rightarrow> date) \<Rightarrow> bool" where
  "relativedelta_doc rd \<longleftrightarrow>
     (\<forall>n m k. rd n m k = rd n m 0 + k) \<and>
     (\<forall>n m. month_index (rd n m 0) = month_index n + m \<and>
        day_of (rd n m 0) = min (day_of n) (days_in_month (year_of (rd n m 0)) (month_of (rd n m 0))))"

text \<open>A concrete function with that behaviour, for the witnesses.\<close>

definition relativedelta_ref :: "date \<Rightarrow> int \<Rightarrow> int \<Rightarrow> date" where
  "relativedelta_ref n m k = (let i = month_index n + m; y = i div 12; mo = i mod 12 + 1
     in ord_of y mo (min (day_of n) (days_in_month y mo)) + k)"

definition month_start :: "(date \<Rightarrow> int \<Rightarrow> int \<Rightarrow> date) \<Rightarrow> date \<Rightarrow> int \<Rightarrow> date" where
  "month_start rd day back = replace_day (rd day (- back) 0) 1"

definition month_end :: "(date \<Rightarrow> int \<Rightarrow> int \<Rightarrow> date) \<Rightarrow> date \<Rightarrow> date" where
  "month_end rd day = rd (replace_day day 1) 1 (- 1)"

definition quarter_start :: "date \<Rightarrow> date" where
  "quarter_start day = (let first_month = (month_of day - 1) div 3 * 3 + 1
     in ord_of (year_of day) first_month 1)"

definition financial_year_start :: "date \<Rightarrow> date" where
  "financial_year_start day =
     (let year = (if 4 \<le> month_of day then year_of day else year_of day - 1)
      in ord_of year 4 1)"

text \<open>\<open>f"{y:04d}-{m:02d}"\<close> for a year of four digits.\<close>

definition digit_ch :: "int \<Rightarrow> char" where
  "digit_ch k = char_of (nat (48 + k mod 10))"

definition month_key :: "date \<Rightarrow> string" where
  "month_key day = (let y = year_of day; m = month_of day in
     [digit_ch (y div 1000), digit_ch (y div 100), digit_ch (y div 10), digit_ch y,
      CHR ''-'', digit_ch (m div 10), digit_ch m])"

definition trailing_month_starts ::
  "(date \<Rightarrow> int \<Rightarrow> int \<Rightarrow> date) \<Rightarrow> date \<Rightarrow> int \<Rightarrow> date list" where
  "trailing_month_starts rd day months =
     map (\<lambda>back. month_start rd day back) (rev [0 .. months - 1])"

lemma replace_day_one: "replace_day n 1 = month_first (month_index n)"
  by (simp add: replace_day_def month_first_def)

lemma month_index_ord_of: "valid_fields y m d \<Longrightarrow> month_index (ord_of y m d) = y * 12 + (m - 1)"
  by (simp add: month_index_def fields_of_ord)

lemma relativedelta_ref_month:
  "month_index (relativedelta_ref n m 0) = month_index n + m \<and>
   day_of (relativedelta_ref n m 0) = min (day_of n)
     (days_in_month (year_of (relativedelta_ref n m 0)) (month_of (relativedelta_ref n m 0)))"
proof -
  define i where "i = month_index n + m"
  define y mo where "y = i div 12" and "mo = i mod 12 + 1"
  define d where "d = min (day_of n) (days_in_month y mo)"
  have mo: "1 \<le> mo" "mo \<le> 12" by (simp_all add: mo_def)
  have v: "valid_fields y mo d"
    using mo day_of_bounds(1) [of n] days_in_month_bounds [OF mo, of y]
    by (simp add: valid_fields_def d_def)
  have r: "relativedelta_ref n m 0 = ord_of y mo d"
    unfolding relativedelta_ref_def Let_def i_def [symmetric] y_def [symmetric]
      mo_def [symmetric] d_def [symmetric] by simp
  have i: "y * 12 + (mo - 1) = i" unfolding y_def mo_def by (simp add: div_mult_mod_eq)
  show ?thesis
    unfolding r month_index_ord_of [OF v] fields_of_ord [OF v] i i_def [symmetric]
    by (simp only: d_def)
qed

lemma relativedelta_ref_doc: "relativedelta_doc relativedelta_ref"
  unfolding relativedelta_doc_def using relativedelta_ref_month
  by (simp add: relativedelta_ref_def Let_def)

lemma relativedelta_docD:
  assumes "relativedelta_doc rd"
  shows "rd n m k = rd n m 0 + k" "month_index (rd n m 0) = month_index n + m"
    "day_of (rd n m 0) = min (day_of n) (days_in_month (year_of (rd n m 0)) (month_of (rd n m 0)))"
  using assms unfolding relativedelta_doc_def by blast+

lemma first_of_month: "day_of n = 1 \<Longrightarrow> n = month_first (month_index n)"
  using ord_of_fields [of n] by (simp add: month_first_def)

lemma month_start_eq:
  "relativedelta_doc rd \<Longrightarrow> month_start rd day back = month_first (month_index day - back)"
  by (simp add: month_start_def replace_day_one relativedelta_docD(2))

lemma month_end_eq:
  assumes rd: "relativedelta_doc rd"
  shows "month_end rd day = month_first (month_index day + 1) - 1"
proof -
  let ?f = "month_first (month_index day)"
  let ?g = "rd ?f 1 0"
  have i: "month_index ?g = month_index day + 1"
    using relativedelta_docD(2) [OF rd, of ?f 1] by (simp add: month_first_fields)
  have "day_of ?g = 1"
    using relativedelta_docD(3) [OF rd, of ?f 1]
      days_in_month_bounds [OF month_of_bounds(1) [of ?g] month_of_bounds(2) [of ?g], of "year_of ?g"]
    by (simp add: month_first_fields min_def)
  then have "?g = month_first (month_index day + 1)" using first_of_month i by metis
  then show ?thesis
    unfolding month_end_def replace_day_one
    using relativedelta_docD(1) [OF rd, of ?f 1 "- 1"] by simp
qed

text \<open>The window from \<open>month_start\<close> to \<open>month_end\<close> holds exactly the days of the month.\<close>

lemma month_window:
  "relativedelta_doc rd \<Longrightarrow>
   month_start rd day 0 \<le> x \<and> x \<le> month_end rd day \<longleftrightarrow> month_index x = month_index day"
  by (auto simp: month_start_eq month_end_eq month_index_iff)

lemma trailing_month_starts_eq:
  "relativedelta_doc rd \<Longrightarrow> trailing_month_starts rd day months =
     map (\<lambda>back. month_first (month_index day - back)) (rev [0 .. months - 1])"
  by (simp add: trailing_month_starts_def month_start_eq)

lemma length_trailing_month_starts [simp]:
  "length (trailing_month_starts rd day months) = nat months"
  by (simp add: trailing_month_starts_def)

lemma sorted_wrt_rev_upto: "sorted_wrt (\<lambda>x y. y < x) (rev [i .. j])"
  by (simp add: sorted_wrt_rev)

lemma trailing_month_starts_sorted:
  assumes "relativedelta_doc rd"
  shows "sorted_wrt (<) (trailing_month_starts rd day months)"
  unfolding trailing_month_starts_eq [OF assms] sorted_wrt_map
  by (rule sorted_wrt_mono_rel [OF _ sorted_wrt_rev_upto]) (simp add: month_first_less)

lemma trailing_month_starts_last:
  assumes "relativedelta_doc rd" "1 \<le> months"
  shows "last (trailing_month_starts rd day months) = replace_day day 1"
proof -
  have "[0 .. months - 1] = 0 # [1 .. months - 1]" using assms(2) by (simp add: upto_rec1)
  then show ?thesis by (simp add: trailing_month_starts_eq assms(1) replace_day_one)
qed

text \<open>Two dates share a key exactly when they share a month (years 0 to 9999).\<close>

lemma code_digit_ch_mod: "int (code (digit_ch k)) = 48 + k mod 10"
proof -
  have k: "0 \<le> k mod 10" "k mod 10 < 10" by simp_all
  then have "nat (48 + k mod 10) < 256" by (simp add: nat_less_iff)
  then have "code (digit_ch k) = nat (48 + k mod 10)" unfolding digit_ch_def by (rule code_char_of)
  then show ?thesis using k(1) by simp
qed

lemma digit_ch_eq_iff: "digit_ch a = digit_ch b \<longleftrightarrow> a mod 10 = b mod 10"
proof
  assume "digit_ch a = digit_ch b"
  then have "48 + a mod 10 = 48 + b mod 10" using code_digit_ch_mod by metis
  then show "a mod 10 = b mod 10" by simp
qed (simp add: digit_ch_def)

lemma four_digits:
  fixes x :: int
  assumes "0 \<le> x" "x \<le> 9999"
  shows "x = 1000 * (x div 1000 mod 10) + 100 * (x div 100 mod 10) + 10 * (x div 10 mod 10) + x mod 10"
proof -
  have s: "y = 10 * (y div 10) + y mod 10" for y :: int by simp
  have d: "x div 10 div 10 = x div 100" "x div 100 div 10 = x div 1000"
    by (simp_all add: zdiv_zmult2_eq [symmetric])
  have "x div 1000 \<le> 9999 div 1000" by (rule zdiv_mono1) (use assms in simp_all)
  then have "x div 1000 mod 10 = x div 1000"
    using assms by (intro mod_pos_pos_trivial) (simp_all add: pos_imp_zdiv_nonneg_iff)
  then show ?thesis
    using s [of x] s [of "x div 10"] s [of "x div 100"] unfolding d by linarith
qed

lemma two_digits:
  fixes x :: int
  assumes "0 \<le> x" "x \<le> 99"
  shows "x = 10 * (x div 10 mod 10) + x mod 10"
proof -
  have "x div 10 \<le> 99 div 10" by (rule zdiv_mono1) (use assms in simp_all)
  then have "x div 10 mod 10 = x div 10"
    using assms by (intro mod_pos_pos_trivial) (simp_all add: pos_imp_zdiv_nonneg_iff)
  then show ?thesis by simp
qed

lemma month_key_fields:
  assumes "0 \<le> year_of a" "year_of a \<le> 9999" "0 \<le> year_of b" "year_of b \<le> 9999"
    and "month_key a = month_key b"
  shows "year_of a = year_of b" "month_of a = month_of b"
proof -
  note d = assms(5) [unfolded month_key_def Let_def list.inject digit_ch_eq_iff]
  have "year_of a = 1000 * (year_of a div 1000 mod 10) + 100 * (year_of a div 100 mod 10) +
      10 * (year_of a div 10 mod 10) + year_of a mod 10"
    by (rule four_digits [OF assms(1,2)])
  also have "\<dots> = 1000 * (year_of b div 1000 mod 10) + 100 * (year_of b div 100 mod 10) +
      10 * (year_of b div 10 mod 10) + year_of b mod 10"
    by (simp only: d)
  also have "\<dots> = year_of b" by (rule four_digits [OF assms(3,4), symmetric])
  finally show "year_of a = year_of b" .
  have m: "0 \<le> month_of n" "month_of n \<le> 99" for n
    using month_of_bounds(1,2) [of n] by simp_all
  have "month_of a = 10 * (month_of a div 10 mod 10) + month_of a mod 10"
    by (rule two_digits [OF m])
  also have "\<dots> = 10 * (month_of b div 10 mod 10) + month_of b mod 10"
    by (simp only: d)
  also have "\<dots> = month_of b" by (rule two_digits [OF m, symmetric])
  finally show "month_of a = month_of b" .
qed

lemma month_key_eq_iff:
  assumes "0 \<le> year_of a" "year_of a \<le> 9999" "0 \<le> year_of b" "year_of b \<le> 9999"
  shows "month_key a = month_key b \<longleftrightarrow> month_index a = month_index b"
proof
  assume "month_key a = month_key b"
  then show "month_index a = month_index b"
    using month_key_fields [OF assms] by (simp add: month_index_def)
next
  assume "month_index a = month_index b"
  then have "year_of a = year_of b" "month_of a = month_of b"
    using month_index_div_mod [of a] month_index_div_mod [of b] by simp_all
  then show "month_key a = month_key b" by (simp add: month_key_def)
qed


lemma month_index_month_first [simp]: "month_index (month_first i) = i"
  by (simp add: month_first_fields)

lemma month_first_le_iff: "month_first i \<le> x \<longleftrightarrow> i \<le> month_index x"
  using month_index_mono [of "month_first i" x] month_first_mono [of i "month_index x"]
    month_first_le(1) [of x] by auto

text \<open>The trailing window of a trend chart: \<open>months\<close> strictly ascending firsts of months, the
  last of them the month of the day itself; and a day lies between the first start and the
  end of the current month exactly when it lies in the month of one start, and of only one.\<close>

theorem trailing_months_cover_window:
  assumes "relativedelta_doc rd" "1 \<le> months"
  shows "sorted_wrt (<) (trailing_month_starts rd day months) \<and>
    length (trailing_month_starts rd day months) = nat months \<and>
    last (trailing_month_starts rd day months) = replace_day day 1 \<and>
    (hd (trailing_month_starts rd day months) \<le> x \<and> x \<le> month_end rd day) =
      (\<exists>!s. s \<in> set (trailing_month_starts rd day months) \<and> month_start rd s 0 \<le> x \<and> x \<le> month_end rd s)"
proof -
  let ?ts = "trailing_month_starts rd day months"
  have "[0 .. months - 1] = [0 .. months - 2] @ [months - 1]"
    using assms(2) upto_rec2 [of 0 "months - 1"] by simp
  then have h: "hd ?ts = month_first (month_index day - (months - 1))"
    by (simp add: trailing_month_starts_eq [OF assms(1)])
  have w: "month_start rd (month_first i) 0 \<le> x \<and> x \<le> month_end rd (month_first i) \<longleftrightarrow> month_index x = i" for i
    using month_window [OF assms(1), of "month_first i" x] by simp
  have "(hd ?ts \<le> x \<and> x \<le> month_end rd day) \<longleftrightarrow>
      month_index day - (months - 1) \<le> month_index x \<and> month_index x \<le> month_index day"
  proof -
    have "x \<le> month_end rd day \<longleftrightarrow> \<not> month_first (month_index day + 1) \<le> x"
      by (auto simp: month_end_eq [OF assms(1)])
    then show ?thesis by (auto simp: h month_first_le_iff)
  qed
  also have "\<dots> \<longleftrightarrow> (\<exists>back \<in> {0 .. months - 1}. month_index x = month_index day - back)"
    by (auto intro!: bexI [of _ "month_index day - month_index x"])
  also have "\<dots> \<longleftrightarrow> (\<exists>!s. s \<in> set ?ts \<and> month_start rd s 0 \<le> x \<and> x \<le> month_end rd s)"
  proof -
    have m: "s \<in> set ?ts \<and> month_start rd s 0 \<le> x \<and> x \<le> month_end rd s \<longleftrightarrow>
        s = month_first (month_index x) \<and> (\<exists>back \<in> {0 .. months - 1}. month_index x = month_index day - back)" for s
    proof -
      have "s \<in> set ?ts \<longleftrightarrow> (\<exists>back \<in> {0 .. months - 1}. s = month_first (month_index day - back))"
        by (simp add: trailing_month_starts_eq [OF assms(1)] image_iff)
      then show ?thesis using w by (metis month_index_month_first)
    qed
    show ?thesis unfolding m by blast
  qed
  finally show ?thesis
    using trailing_month_starts_sorted [OF assms(1)] trailing_month_starts_last [OF assms] by simp
qed

theorem trailing_months_cover_window_witness:
  "last (trailing_month_starts relativedelta_ref 739000 12) = replace_day 739000 1"
  using trailing_months_cover_window [OF relativedelta_ref_doc, of 12 739000 0] by simp

end
