(* ===== verification/Models.thy ===== *)
theory Models
  imports Dates
begin

text \<open>
  The tables of \<open>db/models.py\<close> that the modelled services read and write, one record per
  ORM class, one field per column (a nullable column is an \<open>option\<close>). Primary keys are
  naturals, a JSON column is the value it spells, \<open>Numeric(12, 2)\<close> columns rationals, dates ordinals, datetimes microseconds.
  \<open>db\<close> is one session's view of the tables, each a list of rows in primary key order.
\<close>

record account =
  a_id :: nat
  a_bank :: string
  a_label :: string
  a_type :: string
  a_account_number :: "string option"
  a_active :: "bool option"

record card =
  c_id :: nat
  c_account_id :: nat
  c_card_mask :: string

datatype payment_status = UNPAID | PARTIALLY_PAID | PAID | LATE

record statement_upload =
  u_id :: nat
  u_account_id :: nat
  u_bank :: string
  u_source_kind :: string
  u_status :: string
  u_card_number :: "string option"
  u_due_date :: "string option"
  u_total_amount_due :: "string option"
  u_minimum_amount_due :: "string option"
  u_parsed_txn_count :: nat
  u_matched_count :: nat
  u_missing_count :: nat
  u_imported_count :: nat
  u_error :: "string option"
  u_created_at :: "datetime option"
  u_payment_status :: "payment_status option"
  u_sent_offsets :: "int list"
  u_last_reminded_at :: "datetime option"
  u_payment_paid_at :: "datetime option"
  u_payment_paid_amount :: "rat option"

record transaction =
  t_id :: nat
  t_email_id :: "nat option"
  t_account_id :: "nat option"
  t_card_id :: "nat option"
  t_statement_upload_id :: "nat option"
  t_bank_statement_upload_id :: "nat option"
  t_bank :: string
  t_email_type :: string
  t_direction :: string
  t_amount :: rat
  t_currency :: "string option"
  t_transaction_date :: "date option"
  t_transaction_time :: "time_of_day option"
  t_identifies_by :: string
  t_time_is_received :: bool
  t_counterparty :: "string option"
  t_card_mask :: "string option"
  t_account_mask :: "string option"
  t_reference_number :: "string option"
  t_channel :: "string option"
  t_balance :: "rat option"
  t_raw_description :: "string option"
  t_exclude_from_cashflow :: "bool option"
  t_category :: "string option"
  t_category_method :: "string option"
  t_category_confidence :: "rat option"
  t_category_model :: "string option"
  t_category_input_hash :: "string option"
  t_category_vocab_version :: "int option"
  t_categorized_at :: "datetime option"
  t_review_status :: "string option"
  t_review_reason :: "string option"
  t_sms_message_id :: "nat option"
  t_source :: "string option"
  t_notified_channel :: "string option"
  t_enriched_at :: "datetime option"
  t_created_at :: "datetime option"

record db =
  accounts :: "account list"
  cards :: "card list"
  uploads :: "statement_upload list"
  transactions :: "transaction list"

text \<open>Rows that hold the column defaults.\<close>

definition blank_txn :: transaction where
  "blank_txn = \<lparr>t_id = 0, t_email_id = None, t_account_id = None, t_card_id = None,
     t_statement_upload_id = None, t_bank_statement_upload_id = None,
     t_bank = '''', t_email_type = '''', t_direction = '''', t_amount = 0,
     t_currency = Some ''INR'', t_transaction_date = None, t_transaction_time = None,
     t_identifies_by = ''counterparty'', t_time_is_received = False,
     t_counterparty = None, t_card_mask = None, t_account_mask = None,
     t_reference_number = None, t_channel = None, t_balance = None, t_raw_description = None,
     t_exclude_from_cashflow = Some False, t_category = None, t_category_method = None,
     t_category_confidence = None, t_category_model = None, t_category_input_hash = None,
     t_category_vocab_version = None, t_categorized_at = None, t_review_status = None,
     t_review_reason = None, t_sms_message_id = None, t_source = None,
     t_notified_channel = None, t_enriched_at = None, t_created_at = None\<rparr>"

definition blank_upload :: statement_upload where
  "blank_upload = \<lparr>u_id = 0, u_account_id = 0, u_bank = [], u_source_kind = ''pdf'', u_status = ''parsed'',
     u_card_number = None, u_due_date = None, u_total_amount_due = None, u_minimum_amount_due = None,
     u_parsed_txn_count = 0, u_matched_count = 0, u_missing_count = 0, u_imported_count = 0, u_error = None,
     u_created_at = None, u_payment_status = None, u_sent_offsets = [], u_last_reminded_at = None,
     u_payment_paid_at = None, u_payment_paid_amount = Some 0\<rparr>"

definition empty_db :: db where
  "empty_db = \<lparr>accounts = [], cards = [], uploads = [], transactions = []\<rparr>"

text \<open>Primary keys are unique in every table.\<close>

definition keys_ok :: "db \<Rightarrow> bool" where
  "keys_ok s \<longleftrightarrow> distinct (map a_id (accounts s)) \<and> distinct (map c_id (cards s)) \<and>
     distinct (map u_id (uploads s)) \<and> distinct (map t_id (transactions s))"

text \<open>\<open>session.get(Account, id)\<close>; and a row update by primary key.\<close>

definition get_account :: "db \<Rightarrow> nat \<Rightarrow> account option" where
  "get_account s i = List.find (\<lambda>a. a_id a = i) (accounts s)"

definition put_txn :: "transaction \<Rightarrow> db \<Rightarrow> db" where
  "put_txn t s = s\<lparr>transactions := map (\<lambda>r. if t_id r = t_id t then t else r) (transactions s)\<rparr>"

lemma get_account_Some: "get_account s i = Some a \<Longrightarrow> a \<in> set (accounts s) \<and> a_id a = i"
  unfolding get_account_def by (rule find_Some_D)

lemma ids_put_txn [simp]: "map t_id (transactions (put_txn t s)) = map t_id (transactions s)"
  by (simp add: put_txn_def)

lemma length_put_txn [simp]: "length (transactions (put_txn t s)) = length (transactions s)"
  by (simp add: put_txn_def)

lemma put_txn_frame [simp]:
  "accounts (put_txn t s) = accounts s" "cards (put_txn t s) = cards s"
  "uploads (put_txn t s) = uploads s"
  by (simp_all add: put_txn_def)

lemma keys_ok_put_txn [simp]: "keys_ok s \<Longrightarrow> keys_ok (put_txn t s)"
  by (simp add: keys_ok_def)

text \<open>Equality of accounts and rows is by all columns; keys identify rows.\<close>

lemma keys_ok_account_eq:
  "keys_ok s \<Longrightarrow> a \<in> set (accounts s) \<Longrightarrow> b \<in> set (accounts s) \<Longrightarrow> a_id a = a_id b \<Longrightarrow> a = b"
  by (auto simp: keys_ok_def distinct_map inj_on_def)

lemma keys_ok_txn_eq:
  "keys_ok s \<Longrightarrow> a \<in> set (transactions s) \<Longrightarrow> b \<in> set (transactions s) \<Longrightarrow> t_id a = t_id b \<Longrightarrow> a = b"
  by (auto simp: keys_ok_def distinct_map inj_on_def)

lemma keys_ok_get_account:
  assumes "keys_ok s" "a \<in> set (accounts s)"
  shows "get_account s (a_id a) = Some a"
proof (cases "get_account s (a_id a)")
  case None
  then show ?thesis
    using find_None_D [of "\<lambda>x. a_id x = a_id a" "accounts s" a] assms(2)
    by (simp add: get_account_def)
next
  case (Some b)
  then show ?thesis using get_account_Some [OF Some] keys_ok_account_eq [OF assms(1)] assms(2) by auto
qed

end
