(* ===== verification/Masks.thy ===== *)
theory Masks
  imports Prelude
begin

text \<open>
  \<open>core/masks.py\<close>: card and account masks. A mask is a right-aligned pattern of digits and
  wildcards; \<open>mask_matches\<close> asks whether two masks can stand for one number. The
  abstract reading is \<open>denotes m n\<close> (the mask \<open>m\<close> can stand for the digit string \<open>n\<close>), and
  \<open>mask_matches_iff_denotes\<close> proves that the loop of the code decides exactly the existence
  of a common number.
\<close>

definition WILDCARD :: char where
  "WILDCARD = CHR ''X''"

definition WILDCARD_CHARS :: "char list" where
  "WILDCARD_CHARS = ''Xx*#''"

definition is_separator :: "char \<Rightarrow> bool" where
  "is_separator ch \<longleftrightarrow> is_space ch \<or> ch = CHR ''-''"

text \<open>The loop of \<open>normalize_mask\<close>; \<open>None\<close> is the early \<open>return ""\<close>.\<close>

fun normalize_loop :: "string \<Rightarrow> string option" where
  "normalize_loop [] = Some []"
| "normalize_loop (ch # s) =
     (if is_ascii_digit ch then map_option ((#) ch) (normalize_loop s)
      else if ch \<in> set WILDCARD_CHARS then map_option ((#) WILDCARD) (normalize_loop s)
      else if \<not> is_separator ch then None
      else normalize_loop s)"

definition normalize_mask :: "string option \<Rightarrow> string" where
  "normalize_mask s = (if \<not> truthy s then []
     else case normalize_loop (or_empty s) of None \<Rightarrow> [] | Some out \<Rightarrow> out)"

fun count_digits :: "string \<Rightarrow> nat" where
  "count_digits [] = 0"
| "count_digits (ch # s) = (if \<not> is_ascii_digit ch then 0 else Suc (count_digits s))"

definition trailing_visible_digits :: "string \<Rightarrow> nat" where
  "trailing_visible_digits normalized = count_digits (rev normalized)"

text \<open>The comparison loop, on the reversed masks: position \<open>i\<close> of the list is index \<open>-i-1\<close>.\<close>

fun overlap_agrees :: "string \<Rightarrow> string \<Rightarrow> bool" where
  "overlap_agrees (p # ps) (s # ss) =
     (if p = WILDCARD \<or> s = WILDCARD then overlap_agrees ps ss
      else if p \<noteq> s then False
      else overlap_agrees ps ss)"
| "overlap_agrees _ _ = True"

definition mask_matches :: "string \<Rightarrow> string \<Rightarrow> bool" where
  "mask_matches pattern stored =
     (if pattern = [] \<or> stored = [] then False else overlap_agrees (rev pattern) (rev stored))"

definition mask_digits :: "string option \<Rightarrow> string" where
  "mask_digits s = (if \<not> truthy s then [] else filter is_ascii_digit (or_empty s))"

text \<open>\<open>digits[-4:]\<close>.\<close>

definition last4 :: "string \<Rightarrow> string" where
  "last4 s = drop (length s - 4) s"

definition mask_last4 :: "bool \<Rightarrow> string option \<Rightarrow> string option" where
  "mask_last4 partial s = (let digits = mask_digits s in
     if 4 \<le> length digits then Some (last4 digits)
     else if partial then (if digits = [] then None else Some digits)
     else None)"

definition display_mask :: "string option \<Rightarrow> string option" where
  "display_mask value = (case mask_last4 True value of
     None \<Rightarrow> None
   | Some last_digits \<Rightarrow> if last_digits = [] then None else Some (''XXXX'' @ last_digits))"

section \<open>What a mask denotes\<close>

definition is_mask_char :: "char \<Rightarrow> bool" where
  "is_mask_char c \<longleftrightarrow> is_ascii_digit c \<or> c = WILDCARD"

definition normal_mask :: "string \<Rightarrow> bool" where
  "normal_mask m \<longleftrightarrow> (\<forall>c \<in> set m. is_mask_char c)"

text \<open>The mask, right-aligned, agrees with every digit of the number it shows.\<close>

definition denotes :: "string \<Rightarrow> string \<Rightarrow> bool" where
  "denotes m n \<longleftrightarrow> length m \<le> length n \<and>
     (\<forall>i < length m. rev m ! i = WILDCARD \<or> rev m ! i = rev n ! i)"

lemma wildcard_code: "code WILDCARD = 88"
  by (simp add: WILDCARD_def code_def)

lemma wildcard_not_digit [simp]: "\<not> is_ascii_digit WILDCARD"
  by (simp add: is_ascii_digit_def wildcard_code)

lemma wildcard_in_chars [simp]: "WILDCARD \<in> set WILDCARD_CHARS"
  by (simp add: WILDCARD_def WILDCARD_CHARS_def)

lemma normalize_loop_normal: "normalize_loop s = Some m \<Longrightarrow> normal_mask m"
  by (induction s arbitrary: m) (auto simp: normal_mask_def is_mask_char_def split: if_splits)

lemma normalize_loop_id: "normal_mask m \<Longrightarrow> normalize_loop m = Some m"
  by (induction m) (auto simp: normal_mask_def is_mask_char_def)

lemma normalize_mask_normal [simp]: "normal_mask (normalize_mask s)"
  by (auto simp: normalize_mask_def normalize_loop_normal split: option.splits)
    (auto simp: normal_mask_def)

lemma normalize_mask_id: "normal_mask m \<Longrightarrow> normalize_mask (Some m) = m"
  by (simp add: normalize_mask_def normalize_loop_id)

lemma normalize_mask_idem: "normalize_mask (Some (normalize_mask s)) = normalize_mask s"
  by (simp add: normalize_mask_id)

lemma normalize_mask_absent [simp]: "normalize_mask None = []" "normalize_mask (Some []) = []"
  by (simp_all add: normalize_mask_def)

text \<open>A character that is neither digit, wildcard nor separator rejects the whole mask.\<close>

lemma normalize_loop_reject:
  "c \<in> set s \<Longrightarrow> \<not> is_ascii_digit c \<Longrightarrow> c \<notin> set WILDCARD_CHARS \<Longrightarrow> \<not> is_separator c \<Longrightarrow>
   normalize_loop s = None"
  by (induction s) auto

lemma normalize_mask_reject:
  "c \<in> set s \<Longrightarrow> \<not> is_ascii_digit c \<Longrightarrow> c \<notin> set WILDCARD_CHARS \<Longrightarrow> \<not> is_separator c \<Longrightarrow>
   normalize_mask (Some s) = []"
  by (simp add: normalize_mask_def normalize_loop_reject)

lemma count_digits_takeWhile: "count_digits s = length (takeWhile is_ascii_digit s)"
  by (induction s) auto

lemma overlap_agrees_nth:
  "overlap_agrees p s \<longleftrightarrow>
   (\<forall>i. i < length p \<and> i < length s \<longrightarrow> p ! i = WILDCARD \<or> s ! i = WILDCARD \<or> p ! i = s ! i)"
proof (induction p s rule: overlap_agrees.induct)
  case (1 p ps s ss)
  have "(\<forall>i. i < length (p # ps) \<and> i < length (s # ss) \<longrightarrow>
      (p # ps) ! i = WILDCARD \<or> (s # ss) ! i = WILDCARD \<or> (p # ps) ! i = (s # ss) ! i) \<longleftrightarrow>
    (p = WILDCARD \<or> s = WILDCARD \<or> p = s) \<and> (\<forall>i. i < length ps \<and> i < length ss \<longrightarrow>
      ps ! i = WILDCARD \<or> ss ! i = WILDCARD \<or> ps ! i = ss ! i)"
    by (auto simp: All_less_Suc2 nth_Cons split: nat.splits)
  then show ?case using 1 by auto
qed auto

lemma overlap_agrees_sym: "overlap_agrees p s = overlap_agrees s p"
  by (auto simp: overlap_agrees_nth)

lemma overlap_agrees_refl [simp]: "overlap_agrees p p"
  by (simp add: overlap_agrees_nth)

lemma mask_matches_sym: "mask_matches p s = mask_matches s p"
  by (auto simp: mask_matches_def overlap_agrees_sym)

lemma mask_matches_refl: "mask_matches p p \<longleftrightarrow> p \<noteq> []"
  by (simp add: mask_matches_def)

lemma mask_matches_empty [simp]: "\<not> mask_matches [] s" "\<not> mask_matches p []"
  by (simp_all add: mask_matches_def)

section \<open>Soundness and completeness of the comparison\<close>

text \<open>The number two agreeing masks have in common: each visible digit, zeros elsewhere.\<close>

definition meet_digit :: "string \<Rightarrow> string \<Rightarrow> nat \<Rightarrow> char" where
  "meet_digit p s i =
     (if i < length p \<and> p ! i \<noteq> WILDCARD then p ! i
      else if i < length s \<and> s ! i \<noteq> WILDCARD then s ! i else CHR ''0'')"

definition meet_number :: "string \<Rightarrow> string \<Rightarrow> string" where
  "meet_number p s = rev (map (meet_digit (rev p) (rev s)) [0 ..< max (length p) (length s)])"

lemma length_meet_number [simp]: "length (meet_number p s) = max (length p) (length s)"
  by (simp add: meet_number_def)

lemma meet_number_nth:
  "i < max (length p) (length s) \<Longrightarrow> rev (meet_number p s) ! i = meet_digit (rev p) (rev s) i"
  by (simp add: meet_number_def)

lemma normal_mask_nth:
  "normal_mask m \<Longrightarrow> i < length m \<Longrightarrow> rev m ! i \<noteq> WILDCARD \<Longrightarrow> is_ascii_digit (rev m ! i)"
  unfolding normal_mask_def is_mask_char_def
  by (metis length_rev nth_mem set_rev)

lemma meet_number_digits:
  assumes "normal_mask p" "normal_mask s"
  shows "\<forall>c \<in> set (meet_number p s). is_ascii_digit c"
proof -
  have "is_ascii_digit (CHR ''0'')" by (simp add: is_ascii_digit_def code_def)
  then show ?thesis
    using normal_mask_nth [OF assms(1)] normal_mask_nth [OF assms(2)]
    by (auto simp: meet_number_def meet_digit_def)
qed

lemma overlap_agrees_denotes_meet:
  assumes "overlap_agrees (rev p) (rev s)"
  shows "denotes p (meet_number p s)" "denotes s (meet_number p s)"
proof -
  have a: "i < length p \<Longrightarrow> i < length s \<Longrightarrow>
      rev p ! i = WILDCARD \<or> rev s ! i = WILDCARD \<or> rev p ! i = rev s ! i" for i
    using assms by (simp add: overlap_agrees_nth)
  show "denotes p (meet_number p s)"
    by (auto simp: denotes_def meet_number_nth meet_digit_def)
  show "denotes s (meet_number p s)"
    unfolding denotes_def
  proof (intro conjI allI impI)
    show "length s \<le> length (meet_number p s)" by simp
    fix i assume "i < length s"
    then show "rev s ! i = WILDCARD \<or> rev s ! i = rev (meet_number p s) ! i"
      using a [of i] by (auto simp: meet_number_nth meet_digit_def)
  qed
qed

lemma denotes_overlap_agrees:
  "denotes p n \<Longrightarrow> denotes s n \<Longrightarrow> overlap_agrees (rev p) (rev s)"
  unfolding denotes_def overlap_agrees_nth by (metis length_rev)

text \<open>C7. Two normalized masks match exactly when some account number is denoted by both:
  the comparison loop neither misses a shared number nor accepts a pair that has none.\<close>

theorem mask_matches_iff_denotes:
  assumes "normal_mask p" "normal_mask s"
  shows "mask_matches p s \<longleftrightarrow> p \<noteq> [] \<and> s \<noteq> [] \<and>
    (\<exists>n. (\<forall>c \<in> set n. is_ascii_digit c) \<and> denotes p n \<and> denotes s n)"
proof
  assume m: "mask_matches p s"
  then have "p \<noteq> []" "s \<noteq> []" "overlap_agrees (rev p) (rev s)"
    by (auto simp: mask_matches_def split: if_splits)
  then show "p \<noteq> [] \<and> s \<noteq> [] \<and>
      (\<exists>n. (\<forall>c \<in> set n. is_ascii_digit c) \<and> denotes p n \<and> denotes s n)"
    using overlap_agrees_denotes_meet meet_number_digits [OF assms] by blast
next
  assume "p \<noteq> [] \<and> s \<noteq> [] \<and>
      (\<exists>n. (\<forall>c \<in> set n. is_ascii_digit c) \<and> denotes p n \<and> denotes s n)"
  then show "mask_matches p s"
    using denotes_overlap_agrees by (auto simp: mask_matches_def)
qed

lemma mask_matches_iff_denotes_witness:
  "mask_matches ''73XXXXXX3942'' ''730055113942'' \<longleftrightarrow>
   (\<exists>n. (\<forall>c \<in> set n. is_ascii_digit c) \<and> denotes ''73XXXXXX3942'' n \<and> denotes ''730055113942'' n)"
proof -
  have "normal_mask ''73XXXXXX3942''" "normal_mask ''730055113942''" by code_simp+
  then show ?thesis
    using mask_matches_iff_denotes [of "''73XXXXXX3942''" "''730055113942''"] by simp
qed

text \<open>Visible tails: where both masks show their last \<open>k\<close> digits, a match forces them equal.\<close>

lemma trailing_visible_nth:
  assumes "i < trailing_visible_digits m"
  shows "i < length m" "is_ascii_digit (rev m ! i)"
proof -
  have i: "i < length (takeWhile is_ascii_digit (rev m))"
    using assms by (simp add: trailing_visible_digits_def count_digits_takeWhile)
  then show "i < length m"
    using length_takeWhile_le [of is_ascii_digit "rev m"] by simp
  show "is_ascii_digit (rev m ! i)"
    using i by (metis nth_mem set_takeWhileD takeWhile_nth)
qed

lemma trailing_visible_le: "trailing_visible_digits m \<le> length m"
  using length_takeWhile_le [of is_ascii_digit "rev m"]
  by (simp add: trailing_visible_digits_def count_digits_takeWhile)

lemma digit_not_wildcard: "is_ascii_digit c \<Longrightarrow> c \<noteq> WILDCARD"
  using wildcard_not_digit by blast

lemma mask_matches_same_tail:
  assumes m: "mask_matches p s"
    and k: "k \<le> trailing_visible_digits p" "k \<le> trailing_visible_digits s"
  shows "take k (rev p) = take k (rev s)"
proof (rule nth_equalityI)
  have "k \<le> length p" "k \<le> length s"
    using k trailing_visible_le [of p] trailing_visible_le [of s] by simp_all
  then show "length (take k (rev p)) = length (take k (rev s))" by simp
  fix i assume "i < length (take k (rev p))"
  then have i: "i < k" by simp
  have "rev p ! i = rev s ! i"
    using m i k trailing_visible_nth [of i p] trailing_visible_nth [of i s] digit_not_wildcard
    by (auto simp: mask_matches_def overlap_agrees_nth split: if_splits)
  then show "take k (rev p) ! i = take k (rev s) ! i" using i by simp
qed

text \<open>Bare numbers match exactly when one is a suffix of the other.\<close>

lemma overlap_agrees_digits:
  assumes "\<forall>c \<in> set p. c \<noteq> WILDCARD" "\<forall>c \<in> set s. c \<noteq> WILDCARD"
  shows "overlap_agrees p s \<longleftrightarrow> prefix p s \<or> prefix s p"
  using assms by (induction p s rule: overlap_agrees.induct) auto

lemma mask_matches_bare:
  assumes "\<forall>c \<in> set p. is_ascii_digit c" "\<forall>c \<in> set s. is_ascii_digit c"
  shows "mask_matches p s \<longleftrightarrow> p \<noteq> [] \<and> s \<noteq> [] \<and> (suffix p s \<or> suffix s p)"
proof -
  have "overlap_agrees (rev p) (rev s) \<longleftrightarrow> suffix p s \<or> suffix s p"
    unfolding suffix_to_prefix
    by (rule overlap_agrees_digits) (use assms digit_not_wildcard in auto)
  then show ?thesis by (simp add: mask_matches_def)
qed

text \<open>Display: at most four digits, all of them the last ones of the value.\<close>

lemma set_mask_digits: "c \<in> set (mask_digits s) \<Longrightarrow> is_ascii_digit c"
  by (auto simp: mask_digits_def split: if_splits)

lemma suffix_last4: "suffix (last4 s) s"
  by (simp add: last4_def suffix_drop)

lemma length_last4: "length (last4 s) = min 4 (length s)"
  by (simp add: last4_def)

lemma mask_last4_strict:
  "mask_last4 False s = Some d \<Longrightarrow> length d = 4 \<and> suffix d (mask_digits s)"
  by (auto simp: mask_last4_def Let_def suffix_last4 length_last4 split: if_splits)

end
