(* ===== verification/Linker.thy ===== *)
theory Linker
  imports Models Masks
begin

text \<open>
  \<open>services/linker.py\<close>: resolving a transaction's account and card from its masks.
  \<open>link_context\<close> is the preloaded index, \<open>build_link_context\<close> the two loops that fill it,
  \<open>link_transaction\<close> the cascade of four lookups and \<open>relink_orphans\<close> the batch over the
  table. The locale \<open>link_index\<close> is the interface between them: what the index answers about
  the tables. The cascade's soundness is proved against that interface and holds of the built
  index by interpretation.
\<close>

section \<open>The index\<close>

definition MIN_MASK_DIGITS :: nat where
  "MIN_MASK_DIGITS = 3"

definition usable :: "string \<Rightarrow> bool" where
  "usable normalized \<longleftrightarrow> MIN_MASK_DIGITS \<le> trailing_visible_digits normalized"

record link_context =
  cards_by_bank :: "(string \<times> (string \<times> nat \<times> nat) list) list"
  accounts_by_bank_with_masks :: "(string \<times> (string \<times> nat) list) list"
  accounts_by_bank :: "(string \<times> nat list) list"
  account_types :: "(nat \<times> string) list"

definition empty_context :: link_context where
  "empty_context = \<lparr>cards_by_bank = [], accounts_by_bank_with_masks = [],
     accounts_by_bank = [], account_types = []\<rparr>"

definition bank_key :: "string \<Rightarrow> string" where
  "bank_key b = lower (strip b)"

definition expected_account_type :: "string \<Rightarrow> string option" where
  "expected_account_type email_type =
     (if email_type = [] then None
      else if sublist ''_cc_'' email_type then Some ''credit_card''
      else if sublist ''_account_'' email_type \<or> sublist ''_dc_'' email_type
      then Some ''bank_account''
      else None)"

definition add_account :: "link_context \<Rightarrow> account \<Rightarrow> link_context" where
  "add_account ctx acct = (let k = bank_key (a_bank acct);
     ctx = ctx\<lparr>accounts_by_bank := dict_append (accounts_by_bank ctx) k (a_id acct)\<rparr>;
     ctx = (if a_type acct \<noteq> []
       then ctx\<lparr>account_types := dict_put (account_types ctx) (a_id acct) (a_type acct)\<rparr> else ctx)
   in if truthy (a_account_number acct) then
        let stored = normalize_mask (a_account_number acct) in
        if stored \<noteq> [] then ctx\<lparr>accounts_by_bank_with_masks :=
            dict_append (accounts_by_bank_with_masks ctx) k (stored, a_id acct)\<rparr>
        else ctx
      else ctx)"

definition add_card :: "account list \<Rightarrow> link_context \<Rightarrow> card \<Rightarrow> link_context" where
  "add_card accts ctx crd = (let stored = normalize_mask (Some (c_card_mask crd)) in
     if stored = [] then ctx
     else case List.find (\<lambda>a. a_id a = c_account_id crd) accts of
       None \<Rightarrow> ctx
     | Some acct \<Rightarrow> ctx\<lparr>cards_by_bank :=
         dict_append (cards_by_bank ctx) (bank_key (a_bank acct))
           (stored, c_account_id crd, c_id crd)\<rparr>)"

definition build_link_context :: "db \<Rightarrow> link_context" where
  "build_link_context s =
     foldl (add_card (accounts s)) (foldl add_account empty_context (accounts s)) (cards s)"

section \<open>The cascade\<close>

definition find_card_match :: "link_context \<Rightarrow> string \<Rightarrow> string \<Rightarrow> (nat \<times> nat) option" where
  "find_card_match ctx k incoming =
     sole (map snd (filter (\<lambda>(stored, _). mask_matches incoming stored)
       (dict_list (cards_by_bank ctx) k)))"

definition find_account_match :: "link_context \<Rightarrow> string \<Rightarrow> string \<Rightarrow> nat option" where
  "find_account_match ctx k incoming =
     sole (map snd (filter (\<lambda>(stored, _). mask_matches incoming stored)
       (dict_list (accounts_by_bank_with_masks ctx) k)))"

definition bank_only_candidates :: "link_context \<Rightarrow> transaction \<Rightarrow> nat list" where
  "bank_only_candidates ctx txn = (let acct_ids = dict_list (accounts_by_bank ctx) (bank_key (t_bank txn))
     in case expected_account_type (t_email_type txn) of
          None \<Rightarrow> acct_ids
        | Some ty \<Rightarrow> filter (\<lambda>a. dict_get (account_types ctx) a = Some ty) acct_ids)"

definition link_transaction :: "link_context \<Rightarrow> transaction \<Rightarrow> bool \<times> transaction" where
  "link_transaction ctx txn =
     (if t_account_id txn \<noteq> None then (True, txn)
      else let k = (if t_bank txn \<noteq> [] then bank_key (t_bank txn) else []);
               card_mask = normalize_mask (t_card_mask txn);
               account_mask = normalize_mask (t_account_mask txn)
      in case (if usable card_mask then find_card_match ctx k card_mask else None) of
           Some (acct, cid) \<Rightarrow> (True, txn\<lparr>t_account_id := Some acct, t_card_id := Some cid\<rparr>)
         | None \<Rightarrow>
      (case (if usable card_mask then find_account_match ctx k card_mask else None) of
           Some hit \<Rightarrow> (True, txn\<lparr>t_account_id := Some hit\<rparr>)
         | None \<Rightarrow>
      (case (if usable account_mask then find_account_match ctx k account_mask else None) of
           Some hit \<Rightarrow> (True, txn\<lparr>t_account_id := Some hit\<rparr>)
         | None \<Rightarrow>
      (if \<not> truthy (t_card_mask txn) \<and> \<not> truthy (t_account_mask txn) then
         (case sole (bank_only_candidates ctx txn) of
            Some hit \<Rightarrow> (True, txn\<lparr>t_account_id := Some hit\<rparr>)
          | None \<Rightarrow> (False, txn))
       else (False, txn)))))"

text \<open>Every unlinked row is offered to the linker; the result counts the rows linked and the
  rows still unlinked.\<close>

definition relink_orphans :: "db \<Rightarrow> (nat \<times> nat) \<times> db" where
  "relink_orphans s = (let ctx = build_link_context s;
     orphans = filter (\<lambda>t. t_account_id t = None) (transactions s);
     linked = length (filter (\<lambda>t. fst (link_transaction ctx t)) orphans);
     s' = s\<lparr>transactions := map (\<lambda>t. if t_account_id t = None
        then snd (link_transaction ctx t) else t) (transactions s)\<rparr>;
     remaining = length (filter (\<lambda>t. t_account_id t = None) (transactions s'))
   in ((linked, remaining), s'))"

section \<open>What the built index holds\<close>

definition card_entries :: "db \<Rightarrow> string \<Rightarrow> (string \<times> nat \<times> nat) list" where
  "card_entries s k = map (\<lambda>c. (normalize_mask (Some (c_card_mask c)), c_account_id c, c_id c))
     (filter (\<lambda>c. normalize_mask (Some (c_card_mask c)) \<noteq> [] \<and>
        (case get_account s (c_account_id c) of None \<Rightarrow> False | Some a \<Rightarrow> bank_key (a_bank a) = k))
      (cards s))"

definition account_entries :: "db \<Rightarrow> string \<Rightarrow> (string \<times> nat) list" where
  "account_entries s k = map (\<lambda>a. (normalize_mask (a_account_number a), a_id a))
     (filter (\<lambda>a. bank_key (a_bank a) = k \<and> normalize_mask (a_account_number a) \<noteq> []) (accounts s))"

definition bank_accounts :: "db \<Rightarrow> string \<Rightarrow> nat list" where
  "bank_accounts s k = map a_id (filter (\<lambda>a. bank_key (a_bank a) = k) (accounts s))"

lemma normalize_mask_truthy: "normalize_mask m \<noteq> [] \<Longrightarrow> truthy m"
  by (auto simp: normalize_mask_def split: if_splits)

lemma add_account_fields [simp]:
  "cards_by_bank (add_account ctx a) = cards_by_bank ctx"
  "dict_list (accounts_by_bank (add_account ctx a)) k =
     dict_list (accounts_by_bank ctx) k @ (if bank_key (a_bank a) = k then [a_id a] else [])"
  "dict_list (accounts_by_bank_with_masks (add_account ctx a)) k =
     dict_list (accounts_by_bank_with_masks ctx) k @
       (if bank_key (a_bank a) = k \<and> normalize_mask (a_account_number a) \<noteq> []
        then [(normalize_mask (a_account_number a), a_id a)] else [])"
  "dict_get (account_types (add_account ctx a)) i =
     (if a_id a = i \<and> a_type a \<noteq> [] then Some (a_type a) else dict_get (account_types ctx) i)"
  by (auto simp: add_account_def Let_def dest: normalize_mask_truthy)

lemma foldl_add_account:
  "cards_by_bank (foldl add_account ctx as) = cards_by_bank ctx"
  "dict_list (accounts_by_bank (foldl add_account ctx as)) k =
     dict_list (accounts_by_bank ctx) k @ map a_id (filter (\<lambda>a. bank_key (a_bank a) = k) as)"
  "dict_list (accounts_by_bank_with_masks (foldl add_account ctx as)) k =
     dict_list (accounts_by_bank_with_masks ctx) k @
       map (\<lambda>a. (normalize_mask (a_account_number a), a_id a))
         (filter (\<lambda>a. bank_key (a_bank a) = k \<and> normalize_mask (a_account_number a) \<noteq> []) as)"
  by (induction as arbitrary: ctx) auto

lemma foldl_add_account_types:
  "dict_get (account_types (foldl add_account ctx as)) i = Some ty \<Longrightarrow>
   dict_get (account_types ctx) i = Some ty \<or> (\<exists>a \<in> set as. a_id a = i \<and> a_type a = ty)"
  by (induction as arbitrary: ctx) (force split: if_splits)+

lemma foldl_add_account_types_other:
  "i \<notin> a_id ` set as \<Longrightarrow>
   dict_get (account_types (foldl add_account ctx as)) i = dict_get (account_types ctx) i"
  by (induction as arbitrary: ctx) auto

lemma foldl_add_account_types_mem:
  "distinct (map a_id as) \<Longrightarrow> a \<in> set as \<Longrightarrow> a_type a \<noteq> [] \<Longrightarrow>
   dict_get (account_types (foldl add_account ctx as)) (a_id a) = Some (a_type a)"
  by (induction as arbitrary: ctx) (auto simp: foldl_add_account_types_other)

lemma add_card_fields [simp]:
  "accounts_by_bank (add_card as ctx c) = accounts_by_bank ctx"
  "accounts_by_bank_with_masks (add_card as ctx c) = accounts_by_bank_with_masks ctx"
  "account_types (add_card as ctx c) = account_types ctx"
  by (auto simp: add_card_def Let_def split: option.splits)

lemma foldl_add_card:
  "accounts_by_bank (foldl (add_card as) ctx cs) = accounts_by_bank ctx"
  "accounts_by_bank_with_masks (foldl (add_card as) ctx cs) = accounts_by_bank_with_masks ctx"
  "account_types (foldl (add_card as) ctx cs) = account_types ctx"
  "dict_list (cards_by_bank (foldl (add_card as) ctx cs)) k =
     dict_list (cards_by_bank ctx) k @
       map (\<lambda>c. (normalize_mask (Some (c_card_mask c)), c_account_id c, c_id c))
         (filter (\<lambda>c. normalize_mask (Some (c_card_mask c)) \<noteq> [] \<and>
           (case List.find (\<lambda>a. a_id a = c_account_id c) as of
              None \<Rightarrow> False | Some a \<Rightarrow> bank_key (a_bank a) = k)) cs)"
  by (induction cs arbitrary: ctx) (auto simp: add_card_def Let_def split: option.splits)

section \<open>What counts as evidence for a link\<close>

text \<open>By card: the mask shows enough trailing digits, the named card matches it, belongs to
  the account, and no other card of the bank matches.\<close>

definition linked_by_card :: "db \<Rightarrow> transaction \<Rightarrow> transaction \<Rightarrow> account \<Rightarrow> bool" where
  "linked_by_card s t t' a \<longleftrightarrow> bank_key (a_bank a) = bank_key (t_bank t) \<and>
     usable (normalize_mask (t_card_mask t)) \<and>
     (\<exists>c \<in> set (cards s). t_card_id t' = Some (c_id c) \<and> c_account_id c = a_id a \<and>
        mask_matches (normalize_mask (t_card_mask t)) (normalize_mask (Some (c_card_mask c)))) \<and>
     (\<forall>d \<in> set (cards s). \<forall>b. get_account s (c_account_id d) = Some b \<and>
        bank_key (a_bank b) = bank_key (t_bank t) \<and>
        mask_matches (normalize_mask (t_card_mask t)) (normalize_mask (Some (c_card_mask d)))
        \<longrightarrow> t_card_id t' = Some (c_id d))"

text \<open>By number: one of the two masks matches the account's number and no other account's.\<close>

definition linked_by_number :: "db \<Rightarrow> transaction \<Rightarrow> transaction \<Rightarrow> account \<Rightarrow> bool" where
  "linked_by_number s t t' a \<longleftrightarrow> bank_key (a_bank a) = bank_key (t_bank t) \<and>
     t_card_id t' = t_card_id t \<and>
     (\<exists>m \<in> {normalize_mask (t_card_mask t), normalize_mask (t_account_mask t)}. usable m \<and>
        mask_matches m (normalize_mask (a_account_number a)) \<and>
        (\<forall>b \<in> set (accounts s). bank_key (a_bank b) = bank_key (t_bank t) \<and>
           mask_matches m (normalize_mask (a_account_number b)) \<longrightarrow> a_id b = a_id a))"

text \<open>By bank: the row carries no mask and the account is the only one of its bank with the
  type the email type implies.\<close>

definition bank_candidate :: "transaction \<Rightarrow> account \<Rightarrow> bool" where
  "bank_candidate t a \<longleftrightarrow> bank_key (a_bank a) = bank_key (t_bank t) \<and>
     (case expected_account_type (t_email_type t) of None \<Rightarrow> True | Some ty \<Rightarrow> a_type a = ty)"

definition linked_by_bank :: "db \<Rightarrow> transaction \<Rightarrow> transaction \<Rightarrow> account \<Rightarrow> bool" where
  "linked_by_bank s t t' a \<longleftrightarrow> t_card_id t' = t_card_id t \<and>
     \<not> truthy (t_card_mask t) \<and> \<not> truthy (t_account_mask t) \<and> bank_candidate t a \<and>
     (\<forall>b \<in> set (accounts s). bank_candidate t b \<longrightarrow> a_id b = a_id a)"

lemma expected_account_type_nonempty: "expected_account_type e \<noteq> Some []"
  by (simp add: expected_account_type_def)

text \<open>The five shapes of the result.\<close>

lemma link_transaction_cases:
  obtains (linked) "t_account_id t \<noteq> None" "link_transaction ctx t = (True, t)"
  | (crd) i j where "t_account_id t = None" "usable (normalize_mask (t_card_mask t))"
      "find_card_match ctx (bank_key (t_bank t)) (normalize_mask (t_card_mask t)) = Some (i, j)"
      "link_transaction ctx t = (True, t\<lparr>t_account_id := Some i, t_card_id := Some j\<rparr>)"
  | (number) i m where "t_account_id t = None"
      "m \<in> {normalize_mask (t_card_mask t), normalize_mask (t_account_mask t)}" "usable m"
      "find_account_match ctx (bank_key (t_bank t)) m = Some i"
      "link_transaction ctx t = (True, t\<lparr>t_account_id := Some i\<rparr>)"
  | (bank) i where "t_account_id t = None" "\<not> truthy (t_card_mask t)" "\<not> truthy (t_account_mask t)"
      "sole (bank_only_candidates ctx t) = Some i"
      "link_transaction ctx t = (True, t\<lparr>t_account_id := Some i\<rparr>)"
  | (failed) "t_account_id t = None" "link_transaction ctx t = (False, t)"
proof (cases "t_account_id t")
  case (Some a)
  then show ?thesis by (intro linked) (simp_all add: link_transaction_def)
next
  case None
  let ?k = "bank_key (t_bank t)"
  let ?cm = "normalize_mask (t_card_mask t)" and ?am = "normalize_mask (t_account_mask t)"
  have k: "(if t_bank t \<noteq> [] then ?k else []) = ?k" by (simp add: bank_key_def)
  note l = link_transaction_def [of ctx t, unfolded Let_def k]
  define r1 r2 r3 where "r1 = (if usable ?cm then find_card_match ctx ?k ?cm else None)"
    and "r2 = (if usable ?cm then find_account_match ctx ?k ?cm else None)"
    and "r3 = (if usable ?am then find_account_match ctx ?k ?am else None)"
  note l' = l [folded r1_def r2_def r3_def]
  show ?thesis
  proof (cases r1)
    case (Some p)
    obtain i j where "p = (i, j)" by (cases p)
    then show ?thesis using Some None l' r1_def
      by (intro crd [of i j]) (simp_all split: if_splits)
  next
    case n1: None
    show ?thesis
    proof (cases r2)
      case (Some i)
      then show ?thesis using None n1 l' r2_def
        by (intro number [of ?cm i]) (simp_all split: if_splits)
    next
      case n2: None
      show ?thesis
      proof (cases r3)
        case (Some i)
        then show ?thesis using None n1 n2 l' r3_def
          by (intro number [of ?am i]) (simp_all split: if_splits)
      next
        case n3: None
        show ?thesis
        proof (cases "truthy (t_card_mask t) \<or> truthy (t_account_mask t)")
          case True
          then show ?thesis using None n1 n2 n3 l' by (intro failed) auto
        next
          case False
          then show ?thesis
            using None n1 n2 n3 l' failed bank
            by (cases "sole (bank_only_candidates ctx t)") simp_all
        qed
      qed
    qed
  qed
qed

section \<open>The interface between the cascade and the index\<close>

text \<open>What the cascade relies on: each answer of the index comes from the tables, and the
  answers are all of them.\<close>

locale link_index =
  fixes s :: db and ctx :: link_context
  assumes cards_law: "dict_list (cards_by_bank ctx) k = card_entries s k"
    and accounts_law: "dict_list (accounts_by_bank_with_masks ctx) k = account_entries s k"
    and banks_law: "dict_list (accounts_by_bank ctx) k = bank_accounts s k"
    and types_law: "dict_get (account_types ctx) i = Some ty \<Longrightarrow>
      \<exists>a \<in> set (accounts s). a_id a = i \<and> a_type a = ty"
    and types_complete: "keys_ok s \<Longrightarrow> a \<in> set (accounts s) \<Longrightarrow> a_type a \<noteq> [] \<Longrightarrow>
      dict_get (account_types ctx) (a_id a) = Some (a_type a)"
begin

lemma find_card_match_sound:
  assumes "find_card_match ctx k m = Some (i, j)"
  shows "\<exists>c \<in> set (cards s). \<exists>a. get_account s (c_account_id c) = Some a \<and>
    i = c_account_id c \<and> j = c_id c \<and> bank_key (a_bank a) = k \<and>
    mask_matches m (normalize_mask (Some (c_card_mask c)))"
proof -
  have "(i, j) \<in> set (map snd (filter (\<lambda>(stored, _). mask_matches m stored) (card_entries s k)))"
    using assms unfolding find_card_match_def cards_law by (rule sole_in_set)
  then show ?thesis
    by (fastforce simp: card_entries_def split: option.splits)
qed

lemma find_card_match_unique:
  assumes "find_card_match ctx k m = Some (i, j)" and "c \<in> set (cards s)"
    and "get_account s (c_account_id c) = Some a" "bank_key (a_bank a) = k"
    and "mask_matches m (normalize_mask (Some (c_card_mask c)))"
  shows "c_id c = j \<and> c_account_id c = i"
proof -
  have "normalize_mask (Some (c_card_mask c)) \<noteq> []" using assms(5) by auto
  then have e: "(normalize_mask (Some (c_card_mask c)), c_account_id c, c_id c) \<in> set (card_entries s k)"
    using assms(2-4) by (auto simp: card_entries_def)
  have "map snd (filter (\<lambda>(stored, _). mask_matches m stored) (card_entries s k)) = [(i, j)]"
    using assms(1) unfolding find_card_match_def cards_law by (simp add: sole_Some_iff)
  moreover have "(c_account_id c, c_id c) \<in>
      set (map snd (filter (\<lambda>(stored, _). mask_matches m stored) (card_entries s k)))"
    using e assms(5) by force
  ultimately show ?thesis by simp
qed

lemma find_account_match_sound:
  assumes "find_account_match ctx k m = Some i"
  shows "\<exists>a \<in> set (accounts s). a_id a = i \<and> bank_key (a_bank a) = k \<and>
    mask_matches m (normalize_mask (a_account_number a)) \<and>
    (\<forall>b \<in> set (accounts s). bank_key (a_bank b) = k \<and>
      mask_matches m (normalize_mask (a_account_number b)) \<longrightarrow> a_id b = i)"
proof -
  have u: "map snd (filter (\<lambda>(stored, _). mask_matches m stored) (account_entries s k)) = [i]"
    using assms unfolding find_account_match_def accounts_law by (simp add: sole_Some_iff)
  then have "i \<in> set (map snd (filter (\<lambda>(stored, _). mask_matches m stored) (account_entries s k)))"
    by simp
  then obtain a where a: "a \<in> set (accounts s)" "a_id a = i" "bank_key (a_bank a) = k"
      "mask_matches m (normalize_mask (a_account_number a))"
    by (auto simp: account_entries_def)
  have "a_id b = i" if "b \<in> set (accounts s)" "bank_key (a_bank b) = k"
    "mask_matches m (normalize_mask (a_account_number b))" for b
  proof -
    have "normalize_mask (a_account_number b) \<noteq> []" using that(3) by auto
    then have "a_id b \<in> set (map snd (filter (\<lambda>(stored, _). mask_matches m stored) (account_entries s k)))"
      using that by (force simp: account_entries_def)
    then show ?thesis using u by simp
  qed
  then show ?thesis using a by blast
qed

lemma bank_only_sound:
  assumes "sole (bank_only_candidates ctx t) = Some i" and keys: "keys_ok s"
  shows "\<exists>a \<in> set (accounts s). a_id a = i \<and> bank_candidate t a \<and>
    (\<forall>b \<in> set (accounts s). bank_candidate t b \<longrightarrow> a_id b = i)"
proof -
  have l: "bank_only_candidates ctx t = [i]" using assms(1) by (simp add: sole_Some_iff)
  then have i: "i \<in> set (bank_only_candidates ctx t)" by simp
  obtain a where a: "a \<in> set (accounts s)" "a_id a = i" "bank_key (a_bank a) = bank_key (t_bank t)"
    using i by (auto simp: bank_only_candidates_def Let_def banks_law bank_accounts_def
        split: option.splits)
  have "a_type a = ty" if ty: "expected_account_type (t_email_type t) = Some ty" for ty
  proof -
    have "dict_get (account_types ctx) i = Some ty"
      using i ty by (simp add: bank_only_candidates_def Let_def)
    then obtain b where "b \<in> set (accounts s)" "a_id b = i" "a_type b = ty"
      using types_law by blast
    then show ?thesis using keys_ok_account_eq [OF keys a(1)] a(2) by metis
  qed
  then have c: "bank_candidate t a" using a(3) by (simp add: bank_candidate_def split: option.split)
  have "a_id b = i" if b: "b \<in> set (accounts s)" "bank_candidate t b" for b
  proof -
    have "a_id b \<in> set (bank_only_candidates ctx t)"
      using b types_complete [OF keys b(1)] expected_account_type_nonempty
      by (fastforce simp: bank_only_candidates_def Let_def banks_law bank_accounts_def
          bank_candidate_def split: option.splits)
    then show ?thesis using l by simp
  qed
  then show ?thesis using a c by blast
qed

lemma link_transaction_sound:
  assumes "link_transaction ctx t = (True, t')" "t_account_id t = None" "keys_ok s"
  shows "\<exists>a \<in> set (accounts s). t_account_id t' = Some (a_id a) \<and>
    (linked_by_card s t t' a \<or> linked_by_number s t t' a \<or> linked_by_bank s t t' a)"
proof -
  let ?k = "bank_key (t_bank t)"
  let ?cm = "normalize_mask (t_card_mask t)" and ?am = "normalize_mask (t_account_mask t)"
  show ?thesis
  proof (cases rule: link_transaction_cases [of t ctx])
    case (crd i j)
    then have t': "t' = t\<lparr>t_account_id := Some i, t_card_id := Some j\<rparr>" using assms(1) by simp
    obtain c a where c: "c \<in> set (cards s)" "get_account s (c_account_id c) = Some a"
        "i = c_account_id c" "j = c_id c" "bank_key (a_bank a) = ?k"
        "mask_matches ?cm (normalize_mask (Some (c_card_mask c)))"
      using find_card_match_sound [OF crd(3)] by blast
    have "linked_by_card s t t' a"
      unfolding linked_by_card_def using c crd(2) t' get_account_Some [OF c(2)]
        find_card_match_unique [OF crd(3)] by auto
    moreover have "a \<in> set (accounts s)" "t_account_id t' = Some (a_id a)"
      using c t' get_account_Some [OF c(2)] by simp_all
    ultimately show ?thesis by blast
  next
    case (number i m)
    then have t': "t' = t\<lparr>t_account_id := Some i\<rparr>" using assms(1) by simp
    obtain a where a: "a \<in> set (accounts s)" "a_id a = i" "bank_key (a_bank a) = ?k"
        "mask_matches m (normalize_mask (a_account_number a))"
        "\<forall>b \<in> set (accounts s). bank_key (a_bank b) = ?k \<and>
          mask_matches m (normalize_mask (a_account_number b)) \<longrightarrow> a_id b = i"
      using find_account_match_sound [OF number(4)] by blast
    then have "linked_by_number s t t' a"
      unfolding linked_by_number_def using number(2,3) t' by (intro conjI bexI [of _ m]) simp_all
    then show ?thesis using a t' by auto
  next
    case (bank i)
    then have t': "t' = t\<lparr>t_account_id := Some i\<rparr>" using assms(1) by simp
    obtain a where a: "a \<in> set (accounts s)" "a_id a = i" "bank_candidate t a"
        "\<forall>b \<in> set (accounts s). bank_candidate t b \<longrightarrow> a_id b = i"
      using bank_only_sound [OF bank(4) assms(3)] by blast
    then have "linked_by_bank s t t' a"
      unfolding linked_by_bank_def using bank(2,3) t' by simp
    then show ?thesis using a t' by auto
  qed (use assms in simp_all)
qed

end

interpretation built: link_index s "build_link_context s" for s
proof
  fix k
  show "dict_list (cards_by_bank (build_link_context s)) k = card_entries s k"
    by (simp add: build_link_context_def foldl_add_card foldl_add_account card_entries_def
        empty_context_def get_account_def)
  show "dict_list (accounts_by_bank_with_masks (build_link_context s)) k = account_entries s k"
    by (simp add: build_link_context_def foldl_add_card foldl_add_account account_entries_def
        empty_context_def)
  show "dict_list (accounts_by_bank (build_link_context s)) k = bank_accounts s k"
    by (simp add: build_link_context_def foldl_add_card foldl_add_account bank_accounts_def
        empty_context_def)
next
  fix i ty assume "dict_get (account_types (build_link_context s)) i = Some ty"
  then show "\<exists>a \<in> set (accounts s). a_id a = i \<and> a_type a = ty"
    using foldl_add_account_types [of empty_context "accounts s" i ty]
    by (simp add: build_link_context_def foldl_add_card empty_context_def)
next
  fix a assume "keys_ok s" "a \<in> set (accounts s)" "a_type a \<noteq> []"
  then show "dict_get (account_types (build_link_context s)) (a_id a) = Some (a_type a)"
    by (simp add: build_link_context_def foldl_add_card foldl_add_account_types_mem keys_ok_def)
qed

section \<open>Properties\<close>

text \<open>C8. A link the cascade establishes is always backed by unambiguous evidence in the tables:
  the account is of the transaction's bank, and it was found through a card that is the only
  one of the bank matching the card mask, or through an account number that is the only one
  matching a mask, or, for a row with no mask at all, as the bank's only account of the
  implied type.\<close>

theorem link_transaction_evidence:
  assumes "keys_ok s" "t_account_id t = None"
    and "link_transaction (build_link_context s) t = (True, t')"
  shows "\<exists>a \<in> set (accounts s). t_account_id t' = Some (a_id a) \<and>
    (linked_by_card s t t' a \<or> linked_by_number s t t' a \<or> linked_by_bank s t t' a)"
  by (rule built.link_transaction_sound [OF assms(3,2,1)])

definition link_demo_db :: db where
  "link_demo_db = empty_db\<lparr>
     accounts := [\<lparr>a_id = 1, a_bank = ''HDFC'', a_label = ''Savings'', a_type = ''bank_account'',
                    a_account_number = Some ''730055113942'', a_active = Some True\<rparr>,
                  \<lparr>a_id = 2, a_bank = ''hdfc '', a_label = ''Card'', a_type = ''credit_card'',
                    a_account_number = None, a_active = Some True\<rparr>],
     cards := [\<lparr>c_id = 7, c_account_id = 2, c_card_mask = ''4000 XXXX XXXX 1234''\<rparr>]\<rparr>"

definition link_demo_txn :: transaction where
  "link_demo_txn = blank_txn\<lparr>t_id := 5, t_bank := ''hdfc'', t_card_mask := Some ''XX1234''\<rparr>"

lemma link_transaction_evidence_witness:
  "\<exists>a \<in> set (accounts link_demo_db). t_account_id (link_demo_txn\<lparr>t_account_id := Some 2, t_card_id := Some 7\<rparr>)
      = Some (a_id a)"
proof -
  have "keys_ok link_demo_db" "t_account_id link_demo_txn = None"
    "link_transaction (build_link_context link_demo_db) link_demo_txn =
      (True, link_demo_txn\<lparr>t_account_id := Some 2, t_card_id := Some 7\<rparr>)"
    by code_simp+
  then show ?thesis using link_transaction_evidence by blast
qed

lemma link_transaction_frame:
  "snd (link_transaction ctx t) =
     t\<lparr>t_account_id := t_account_id (snd (link_transaction ctx t)),
       t_card_id := t_card_id (snd (link_transaction ctx t))\<rparr>"
  by (cases rule: link_transaction_cases [of t ctx]) simp_all

lemma link_transaction_iff:
  "fst (link_transaction ctx t) \<longleftrightarrow> t_account_id (snd (link_transaction ctx t)) \<noteq> None"
  by (cases rule: link_transaction_cases [of t ctx]) auto

lemma link_transaction_failed: "\<not> fst (link_transaction ctx t) \<Longrightarrow> snd (link_transaction ctx t) = t"
  by (cases rule: link_transaction_cases [of t ctx]) auto

lemma link_transaction_id [simp]: "t_id (snd (link_transaction ctx t)) = t_id t"
  by (subst link_transaction_frame) simp

lemma link_transaction_linked: "t_account_id t \<noteq> None \<Longrightarrow> link_transaction ctx t = (True, t)"
  by (simp add: link_transaction_def)

definition relink_row :: "link_context \<Rightarrow> transaction \<Rightarrow> transaction" where
  "relink_row ctx t = (if t_account_id t = None then snd (link_transaction ctx t) else t)"

lemma relink_row_None:
  "t_account_id (relink_row ctx t) = None \<longleftrightarrow> t_account_id t = None \<and> \<not> fst (link_transaction ctx t)"
  by (auto simp: relink_row_def link_transaction_iff)

lemma relink_row_idem [simp]: "relink_row ctx (relink_row ctx t) = relink_row ctx t"
proof (cases "t_account_id t = None \<and> \<not> fst (link_transaction ctx t)")
  case True
  then show ?thesis by (simp add: relink_row_def link_transaction_failed)
next
  case False
  then have "t_account_id (relink_row ctx t) \<noteq> None" by (simp add: relink_row_None)
  then show ?thesis by (subst relink_row_def) (simp del: not_None_eq)
qed

lemma relink_orphans_eq:
  "relink_orphans s = (let ctx = build_link_context s in
     ((length (filter (\<lambda>t. t_account_id t = None \<and> fst (link_transaction ctx t)) (transactions s)),
       length (filter (\<lambda>t. t_account_id t = None \<and> \<not> fst (link_transaction ctx t)) (transactions s))),
      s\<lparr>transactions := map (relink_row ctx) (transactions s)\<rparr>))"
  by (simp add: relink_orphans_def Let_def relink_row_None [symmetric] relink_row_def [symmetric]
      filter_map o_def conj_commute)

lemma build_link_context_transactions [simp]:
  "build_link_context (s\<lparr>transactions := ts\<rparr>) = build_link_context s"
  by (simp add: build_link_context_def)

lemma length_filter_split:
  "length (filter (\<lambda>x. P x \<and> Q x) xs) + length (filter (\<lambda>x. P x \<and> \<not> Q x) xs) = length (filter P xs)"
  by (induction xs) auto

lemma relink_row_frame:
  "relink_row ctx t = t\<lparr>t_account_id := t_account_id (relink_row ctx t),
     t_card_id := t_card_id (relink_row ctx t)\<rparr>"
  using link_transaction_frame [of ctx t] by (simp add: relink_row_def)

lemma relink_row_id [simp]: "t_id (relink_row ctx t) = t_id t"
  by (simp add: relink_row_def)

lemma relink_row_None_id:
  "t_account_id (relink_row ctx t) = None \<Longrightarrow>
   relink_row ctx t = t \<and> \<not> fst (link_transaction ctx t)"
  by (simp add: relink_row_None) (simp add: relink_row_def link_transaction_failed)

lemma relink_orphans_again:
  "relink_orphans (snd (relink_orphans s)) = ((0, snd (fst (relink_orphans s))), snd (relink_orphans s))"
proof -
  let ?ctx = "build_link_context s"
  have f: "filter (\<lambda>t. t_account_id (relink_row ?ctx t) = None \<and> fst (link_transaction ?ctx (relink_row ?ctx t)))
      (transactions s) = []"
    unfolding filter_empty_conv using relink_row_None_id [of ?ctx] by metis
  have g: "t_account_id (relink_row ?ctx t) = None \<and> \<not> fst (link_transaction ?ctx (relink_row ?ctx t)) \<longleftrightarrow>
      t_account_id t = None \<and> \<not> fst (link_transaction ?ctx t)" for t
    using relink_row_None_id [of ?ctx t] relink_row_None [of ?ctx t] by metis
  show ?thesis
    by (simp add: relink_orphans_eq Let_def filter_map o_def f g)
qed

text \<open>Relinking is a batch of the single-row linker with honest counts: the two numbers it
  reports add up to the orphans it was given, rows already linked keep every column, no row
  changes in another column than its account and card, each row keeps its key and its place,
  and a second run over the result links nothing and changes nothing.\<close>

theorem relink_orphans_correct:
  "case relink_orphans s of ((linked, remaining), s') \<Rightarrow>
     linked + remaining = length (filter (\<lambda>t. t_account_id t = None) (transactions s)) \<and>
     remaining = length (filter (\<lambda>t. t_account_id t = None) (transactions s')) \<and>
     list_all2 (\<lambda>r r'. t_id r' = t_id r \<and> (t_account_id r = None \<or> r' = r) \<and>
       r' = r\<lparr>t_account_id := t_account_id r', t_card_id := t_card_id r'\<rparr>)
       (transactions s) (transactions s') \<and>
     accounts s' = accounts s \<and> cards s' = cards s \<and> uploads s' = uploads s \<and>
     relink_orphans s' = ((0, remaining), s')"
proof -
  have "list_all2 (\<lambda>r r'. t_id r' = t_id r \<and> (t_account_id r = None \<or> r' = r) \<and>
       r' = r\<lparr>t_account_id := t_account_id r', t_card_id := t_card_id r'\<rparr>)
       ts (map (relink_row ctx) ts)" for ts ctx
    unfolding list_all2_map2 using relink_row_frame
    by (intro list.rel_refl_strong) (auto simp: relink_row_def)
  then show ?thesis
    using relink_orphans_again [of s]
    by (simp add: relink_orphans_eq Let_def length_filter_split relink_row_None filter_map o_def)
qed

end
