(* ===== verification/Txn_Match.thy ===== *)
theory Txn_Match
  imports Models Masks
begin

text \<open>
  The matching half of \<open>services/txn_merge.py\<close>: does an incoming message describe a stored
  transaction, a new one, or is it too ambiguous to decide? \<open>txn_data\<close> is the dictionary the
  parsers hand over, \<open>gather_fuzzy_candidates\<close> the time-window candidate list, \<open>decide\<close>
  the balance and slot decision, \<open>find_am_pm_alias\<close> the twelve-hour retry and
  \<open>find_match\<close> the whole cascade with the evidence it records. The session is the table
  \<open>transaction list\<close> in primary key order; matching only reads it.
\<close>

section \<open>Data\<close>

datatype channel = Sms | Email

fun channel_name :: "channel \<Rightarrow> string" where
  "channel_name Sms = ''sms''"
| "channel_name Email = ''email''"

record txn_data =
  d_bank :: string
  d_email_type :: string
  d_direction :: string
  d_amount :: rat
  d_currency :: "string option"
  d_transaction_date :: "date option"
  d_transaction_time :: "time_of_day option"
  d_counterparty :: "string option"
  d_card_mask :: "string option"
  d_account_mask :: "string option"
  d_reference_number :: "string option"
  d_channel :: "string option"
  d_balance :: "rat option"
  d_raw_description :: "string option"
  d_time_is_received :: bool
  d_identifies_by :: "string option"

datatype match_kind = Standard | Am_pm_alias | Ref_amount_mismatch

datatype deferral_reason =
    Reference_amount_mismatch | Reference_balance_mismatch | Multiple_reference_candidates
  | Balance_ambiguous | Multiple_candidates | Source_slot_filled | Source_slot_conflict

datatype match_decision =
    Match transaction match_kind
  | Insert
  | Defer "match_kind option" deferral_reason "nat list"

datatype match_path = No_path | Reference_path | Fuzzy_path | Am_pm_path

record match_evidence =
  ev_path :: match_path
  ev_candidate_ids :: "nat list"
  ev_observed :: nat
  ev_truncated :: bool
  ev_gates :: "string list"
  ev_reason :: string

definition MATCH_EVIDENCE_LIMIT :: nat where
  "MATCH_EVIDENCE_LIMIT = 10"

definition initial_evidence :: match_evidence where
  "initial_evidence = \<lparr>ev_path = No_path, ev_candidate_ids = [], ev_observed = 0,
     ev_truncated = False, ev_gates = [], ev_reason = ''not_evaluated''\<rparr>"

definition record_match_evidence ::
  "match_path \<Rightarrow> transaction list \<Rightarrow> string list \<Rightarrow> string \<Rightarrow> match_evidence" where
  "record_match_evidence path candidates gates reason =
     \<lparr>ev_path = path,
      ev_candidate_ids = map t_id (take MATCH_EVIDENCE_LIMIT candidates),
      ev_observed = length candidates,
      ev_truncated = (MATCH_EVIDENCE_LIMIT < length candidates),
      ev_gates = gates, ev_reason = reason\<rparr>"

text \<open>\<open>Decimal.quantize(Decimal("0.01"))\<close>: two places, halves to even.\<close>

definition quantize2 :: "rat \<Rightarrow> rat" where
  "quantize2 r = (let x = r * 100; f = \<lfloor>x\<rfloor>; d = x - of_int f;
     n = (if d < 1 / 2 then f else if 1 / 2 < d then f + 1 else if even f then f else f + 1)
   in of_int n / 100)"

definition quantize_balance :: "rat option \<Rightarrow> rat option" where
  "quantize_balance v = map_option quantize2 v"

definition slot_open :: "transaction \<Rightarrow> channel \<Rightarrow> bool" where
  "slot_open candidate ch = (case ch of
     Sms \<Rightarrow> t_sms_message_id candidate = None
   | Email \<Rightarrow> t_email_id candidate = None)"

section \<open>Counterparties, masks, references\<close>

definition normalize_cp :: "string option \<Rightarrow> string" where
  "normalize_cp s = (if \<not> truthy s then [] else filter is_alnum (lower (or_empty s)))"

definition counterparty_match :: "string option \<Rightarrow> string option \<Rightarrow> bool" where
  "counterparty_match a b = (let na = normalize_cp a; nb = normalize_cp b in
     if na = [] \<or> nb = [] then False else sublist na nb \<or> sublist nb na)"

definition card_payment_mask_match :: "transaction \<Rightarrow> txn_data \<Rightarrow> bool" where
  "card_payment_mask_match existing d =
     (if t_identifies_by existing \<noteq> ''card_mask'' then False
      else if d_identifies_by d \<noteq> Some ''card_mask'' then False
      else let stored = normalize_mask (t_card_mask existing);
               incoming = normalize_mask (d_card_mask d)
      in if stored = [] \<or> incoming = [] then False
         else if last stored = WILDCARD \<or> last incoming = WILDCARD then False
         else mask_matches incoming stored \<or> mask_matches stored incoming)"

definition no_field_identifies :: "transaction \<Rightarrow> txn_data \<Rightarrow> bool" where
  "no_field_identifies existing d \<longleftrightarrow>
     t_identifies_by existing = ''none'' \<and> d_identifies_by d = Some ''none''"

definition shortened_reference_match :: "string option \<Rightarrow> string option \<Rightarrow> bool" where
  "shortened_reference_match first second =
     (let f = filter is_alnum (upper (or_empty first));
          g = filter is_alnum (upper (or_empty second))
      in if min (length f) (length g) < 4 then False
         else prefix g f \<or> prefix f g \<or> suffix g f \<or> suffix f g)"

definition references_prove_distinct ::
  "string \<Rightarrow> string \<Rightarrow> channel \<Rightarrow> transaction \<Rightarrow> bool" where
  "references_prove_distinct incoming_ref incoming_email_type ch candidate =
     (let candidate_ref = strip (or_empty (t_reference_number candidate)) in
      if candidate_ref = [] \<or> incoming_ref = [] then False
      else if t_email_type candidate \<noteq> incoming_email_type then False
      else if t_source candidate \<noteq> Some (channel_name ch) then False
      else if candidate_ref = incoming_ref then False
      else \<not> shortened_reference_match (Some incoming_ref) (Some candidate_ref))"

definition is_source_row :: "transaction \<Rightarrow> channel \<Rightarrow> nat option \<Rightarrow> bool" where
  "is_source_row candidate ch source_id = (case source_id of
     None \<Rightarrow> False
   | Some i \<Rightarrow> (case ch of
       Sms \<Rightarrow> t_sms_message_id candidate = Some i
     | Email \<Rightarrow> t_email_id candidate = Some i))"

section \<open>The fuzzy candidate list\<close>

definition FUZZY_MINUTES :: int where
  "FUZZY_MINUTES = 10"

definition RECEIVED_MINUTES :: int where
  "RECEIVED_MINUTES = 1"

definition or_inr :: "string option \<Rightarrow> string" where
  "or_inr c = (if truthy c then or_empty c else ''INR'')"

text \<open>\<open>coalesce(currency, 'INR')\<close>: only NULL is replaced.\<close>

definition coalesce_inr :: "string option \<Rightarrow> string" where
  "coalesce_inr c = (case c of None \<Rightarrow> ''INR'' | Some x \<Rightarrow> x)"

definition window_minutes :: "txn_data \<Rightarrow> int" where
  "window_minutes d = (if d_time_is_received d then RECEIVED_MINUTES else FUZZY_MINUTES)"

definition same_event_key :: "txn_data \<Rightarrow> string \<Rightarrow> transaction \<Rightarrow> bool" where
  "same_event_key d currency t \<longleftrightarrow> t_bank t = d_bank d \<and> t_direction t = d_direction d \<and>
     t_amount t = d_amount d \<and> coalesce_inr (t_currency t) = currency"

definition date_between :: "date \<Rightarrow> date \<Rightarrow> transaction \<Rightarrow> bool" where
  "date_between lo hi t = (case t_transaction_date t of None \<Rightarrow> False | Some x \<Rightarrow> lo \<le> x \<and> x \<le> hi)"

definition in_window :: "datetime \<Rightarrow> datetime \<Rightarrow> datetime \<Rightarrow> transaction \<Rightarrow> bool" where
  "in_window anchor lower_t upper_t c = (case (t_transaction_date c, t_transaction_time c) of
     (_, None) \<Rightarrow> True
   | (None, Some _) \<Rightarrow> False
   | (Some cd, Some ct) \<Rightarrow> let c_dt = combine cd ct in
       if t_time_is_received c \<and>
          \<not> (c_dt - RECEIVED_MINUTES * minute_us \<le> anchor \<and>
             anchor \<le> c_dt + RECEIVED_MINUTES * minute_us)
       then False
       else lower_t \<le> c_dt \<and> c_dt \<le> upper_t)"

definition account_compatible :: "txn_data \<Rightarrow> transaction \<Rightarrow> bool" where
  "account_compatible d c = (let incoming = normalize_mask (d_account_mask d);
       stored = normalize_mask (t_account_mask c)
     in stored = [] \<or> mask_matches incoming stored \<or> mask_matches stored incoming)"

text \<open>The counterparty, card mask and "no field" gates: filters, each used when it leaves
  something.\<close>

definition date_only_gate :: "txn_data \<Rightarrow> transaction list \<Rightarrow> transaction list" where
  "date_only_gate d cs =
     (let by_cp = filter (\<lambda>c. counterparty_match (t_counterparty c) (d_counterparty d)) cs in
      if by_cp \<noteq> [] then by_cp
      else let by_mask = filter (\<lambda>c. card_payment_mask_match c d) cs in
      if by_mask \<noteq> [] then by_mask
      else filter (\<lambda>c. no_field_identifies c d) cs)"

definition timed_gate :: "txn_data \<Rightarrow> transaction list \<Rightarrow> transaction list" where
  "timed_gate d cs =
     (if 1 < length cs then
        let by_cp = filter (\<lambda>c. counterparty_match (t_counterparty c) (d_counterparty d)) cs in
        if by_cp \<noteq> [] then by_cp else cs
      else cs)"

definition gather_fuzzy_candidates ::
  "transaction list \<Rightarrow> txn_data \<Rightarrow> string option \<Rightarrow> transaction list" where
  "gather_fuzzy_candidates rows d currency_filter =
     (case d_transaction_date d of
        None \<Rightarrow> []
      | Some txn_date \<Rightarrow>
        let incoming_currency =
              (case currency_filter of None \<Rightarrow> or_inr (d_currency d) | Some c \<Rightarrow> c);
            w = window_minutes d * minute_us;
            candidates = (case d_transaction_time d of
                Some tm \<Rightarrow>
                  let anchor = combine txn_date tm; lo = anchor - w; hi = anchor + w
                  in filter (in_window anchor lo hi)
                       (filter (\<lambda>t. same_event_key d incoming_currency t \<and>
                          date_between (date_of lo) (date_of hi) t) rows)
              | None \<Rightarrow>
                  filter (\<lambda>t. same_event_key d incoming_currency t \<and>
                    date_between txn_date txn_date t) rows)
        in if candidates = [] then []
           else let candidates = (if normalize_mask (d_account_mask d) \<noteq> []
                  then filter (account_compatible d) candidates else candidates)
           in if candidates = [] then []
              else if d_transaction_time d = None \<or>
                      (\<exists>c \<in> set candidates. t_transaction_time c = None)
              then date_only_gate d candidates
              else timed_gate d candidates)"

section \<open>The balance and slot decision\<close>

definition decide ::
  "transaction list \<Rightarrow> txn_data \<Rightarrow> channel \<Rightarrow> nat option \<Rightarrow> match_decision" where
  "decide candidates d ch source_id =
     (if candidates = [] then Insert
      else case quantize_balance (d_balance d) of
        Some b \<Rightarrow>
          let survivors = filter (\<lambda>c. t_balance c = None \<or>
                quantize_balance (t_balance c) = Some b) candidates
          in if survivors = [] then Insert
             else let eq = filter (\<lambda>c. t_balance c \<noteq> None \<and>
                    quantize_balance (t_balance c) = Some b) survivors
             in (case sole eq of
                   Some t \<Rightarrow> Match t Standard
                 | None \<Rightarrow> Defer None Balance_ambiguous (map t_id survivors))
      | None \<Rightarrow>
          let incoming_ref = strip (or_empty (d_reference_number d));
              survivors = (if incoming_ref \<noteq> [] then
                 filter (\<lambda>c. is_source_row c ch source_id \<or>
                   \<not> references_prove_distinct incoming_ref (d_email_type d) ch c) candidates
                 else candidates)
          in if survivors = [] then Insert
             else let balanceless = filter (\<lambda>c. t_balance c = None) survivors;
                      open_bl = filter (\<lambda>c. slot_open c ch) balanceless
             in if length survivors = 1 \<and> length balanceless = 1 \<and> length open_bl = 1
                then Match (hd survivors) Standard
                else Defer None
                  (if 1 < length survivors then Multiple_candidates
                   else if open_bl = [] then Source_slot_filled
                   else Balance_ambiguous)
                  (map t_id survivors))"

section \<open>Explicit targets\<close>

definition normalized_currency :: "string option \<Rightarrow> string" where
  "normalized_currency v = concat (map upper_ch (strip (or_inr v)))"

definition plausible_event_time :: "transaction \<Rightarrow> txn_data \<Rightarrow> bool" where
  "plausible_event_time target d = (case (d_transaction_date d, t_transaction_date target) of
     (Some inc_date, Some tgt_date) \<Rightarrow>
       (case d_transaction_time d of
          None \<Rightarrow> tgt_date = inc_date
        | Some inc_time \<Rightarrow>
          let p = combine inc_date inc_time; w = FUZZY_MINUTES * minute_us in
          (case t_transaction_time target of
             None \<Rightarrow> date_of (p - w) \<le> tgt_date \<and> tgt_date \<le> date_of (p + w)
           | Some tgt_time \<Rightarrow> \<bar>combine tgt_date tgt_time - p\<bar> \<le> w))
   | _ \<Rightarrow> False)"

definition balances_differ :: "rat option \<Rightarrow> rat option \<Rightarrow> bool" where
  "balances_differ a b = (case (quantize_balance a, quantize_balance b) of
     (Some x, Some y) \<Rightarrow> x \<noteq> y | _ \<Rightarrow> False)"

definition qualifies_as_explicit_match :: "transaction list \<Rightarrow> transaction \<Rightarrow> txn_data \<Rightarrow> bool" where
  "qualifies_as_explicit_match rows target d =
     (if t_bank target \<noteq> d_bank d \<or> t_direction target \<noteq> d_direction d \<or>
         t_amount target \<noteq> d_amount d \<or>
         normalized_currency (t_currency target) \<noteq> normalized_currency (d_currency d) \<or>
         \<not> plausible_event_time target d
      then False
      else if balances_differ (d_balance d) (t_balance target) then False
      else let candidates = gather_fuzzy_candidates rows d (Some (coalesce_inr (t_currency target)))
      in if \<exists>c \<in> set candidates. t_id c = t_id target then True
         else shortened_reference_match (t_reference_number target) (d_reference_number d))"

section \<open>The twelve-hour retry\<close>

definition AMBIGUOUS_12H_TIME_EMAIL_TYPES :: "string list" where
  "AMBIGUOUS_12H_TIME_EMAIL_TYPES = [''icici_cc_transaction_alert'']"

text \<open>The candidate lies in the window around the shifted time, and its stored hour has the
  shape of the storage bug: 1 to 11 for an afternoon stored as morning, exactly 12 for a
  midnight stored as noon.\<close>

definition alias_hit :: "date \<Rightarrow> time_of_day \<Rightarrow> transaction \<Rightarrow> bool" where
  "alias_hit txn_date incoming_time c = (case (t_transaction_date c, t_transaction_time c) of
     (Some cd, Some ct) \<Rightarrow>
       let search_minus = 12 \<le> hour_of incoming_time;
           search_plus = hour_of incoming_time < 12;
           anchor = combine txn_date incoming_time;
           w = FUZZY_MINUTES * minute_us;
           minus_center = anchor - 12 * hour_us; plus_center = anchor + 12 * hour_us;
           c_dt = combine cd ct
       in (search_minus \<and> 1 \<le> hour_of ct \<and> hour_of ct < 12 \<and>
             minus_center - w \<le> c_dt \<and> c_dt \<le> minus_center + w) \<or>
          (search_plus \<and> hour_of ct = 12 \<and>
             plus_center - w \<le> c_dt \<and> c_dt \<le> plus_center + w)
   | _ \<Rightarrow> False)"

text \<open>The date range the query fetches before the per-row test above.\<close>

definition alias_dates :: "date \<Rightarrow> time_of_day \<Rightarrow> transaction \<Rightarrow> bool" where
  "alias_dates txn_date incoming_time c =
     (let anchor = combine txn_date incoming_time; w = FUZZY_MINUTES * minute_us;
          center = (if 12 \<le> hour_of incoming_time then anchor - 12 * hour_us
                    else anchor + 12 * hour_us)
      in date_between (date_of (center - w)) (date_of (center + w)) c)"

definition find_am_pm_alias ::
  "transaction list \<Rightarrow> txn_data \<Rightarrow> date \<Rightarrow> time_of_day \<Rightarrow> transaction option \<times> match_evidence" where
  "find_am_pm_alias rows d txn_date incoming_time =
     (if \<not> truthy (d_counterparty d) then
        (None, record_match_evidence Am_pm_path []
           [''known_ambiguous_type'', ''counterparty''] ''missing_counterparty'')
      else let fetched = filter (\<lambda>t. same_event_key d (or_inr (d_currency d)) t \<and>
                 t_email_type t \<in> set AMBIGUOUS_12H_TIME_EMAIL_TYPES \<and>
                 t_transaction_time t \<noteq> None \<and> t_transaction_date t \<noteq> None \<and>
                 alias_dates txn_date incoming_time t) rows;
               candidates = filter (\<lambda>c. counterparty_match (t_counterparty c) (d_counterparty d))
                 (filter (alias_hit txn_date incoming_time) fetched)
      in (sole candidates,
          record_match_evidence Am_pm_path candidates
            [''bank_direction_amount_currency'', ''known_ambiguous_type'',
             ''twelve_hour_window'', ''counterparty'', ''balance'']
            (if length candidates = 1 then ''alias_candidate''
             else if candidates = [] then ''alias_no_candidates''
             else ''alias_multiple_candidates'')))"

section \<open>The cascade\<close>

fun decision_name :: "match_decision \<Rightarrow> string" where
  "decision_name (Match _ _) = ''match''"
| "decision_name Insert = ''insert''"
| "decision_name (Defer _ _ _) = ''defer''"

definition reference_rows :: "transaction list \<Rightarrow> txn_data \<Rightarrow> string \<Rightarrow> transaction list" where
  "reference_rows rows d ref = take 2 (filter (\<lambda>t. t_bank t = d_bank d \<and>
     t_direction t = d_direction d \<and> t_reference_number t = Some ref) rows)"

text \<open>The reference stage: \<open>None\<close> when there is no reference or no row carries it.\<close>

definition match_by_reference ::
  "transaction list \<Rightarrow> txn_data \<Rightarrow> (match_decision \<times> match_evidence) option" where
  "match_by_reference rows d = (let ref = strip (or_empty (d_reference_number d)) in
     if ref = [] then None
     else case reference_rows rows d ref of
       [] \<Rightarrow> None
     | [r] \<Rightarrow>
         if t_amount r \<noteq> d_amount d then
           Some (Defer (Some Ref_amount_mismatch) Reference_amount_mismatch [],
             record_match_evidence Reference_path [r]
               [''bank_direction_reference'', ''amount''] ''reference_amount_mismatch'')
         else if balances_differ (d_balance d) (t_balance r) then
           Some (Defer (Some Ref_amount_mismatch) Reference_balance_mismatch [],
             record_match_evidence Reference_path [r]
               [''bank_direction_reference'', ''amount'', ''balance''] ''reference_balance_mismatch'')
         else
           Some (Match r Standard,
             record_match_evidence Reference_path [r]
               [''bank_direction_reference'', ''amount'', ''balance''] ''reference_match'')
     | rs \<Rightarrow>
         Some (Defer None Multiple_reference_candidates
             (map t_id (filter (\<lambda>r. qualifies_as_explicit_match rows r d) rs)),
           record_match_evidence Reference_path rs
             [''bank_direction_reference'', ''unique_candidate''] ''multiple_reference_candidates''))"

definition match_by_alias :: "transaction list \<Rightarrow> txn_data \<Rightarrow> match_decision \<times> match_evidence" where
  "match_by_alias rows d = (case (d_transaction_date d, d_transaction_time d) of
     (Some txn_date, Some incoming_time) \<Rightarrow>
       (case find_am_pm_alias rows d txn_date incoming_time of
          (None, ev) \<Rightarrow> (Insert, ev)
        | (Some c, ev) \<Rightarrow>
            if balances_differ (d_balance d) (t_balance c)
            then (Insert, ev\<lparr>ev_reason := ''alias_balance_mismatch''\<rparr>)
            else (Match c Am_pm_alias, ev\<lparr>ev_reason := ''alias_match''\<rparr>))
   | _ \<Rightarrow> (Insert, record_match_evidence No_path []
            [''transaction_date'', ''transaction_time''] ''insufficient_time_evidence''))"

definition find_match ::
  "transaction list \<Rightarrow> txn_data \<Rightarrow> channel \<Rightarrow> nat option \<Rightarrow> match_decision \<times> match_evidence" where
  "find_match rows d ch source_id = (case match_by_reference rows d of
     Some r \<Rightarrow> r
   | None \<Rightarrow>
       let candidates = gather_fuzzy_candidates rows d None in
       if candidates \<noteq> [] then
         let decision = decide candidates d ch source_id in
         (decision, record_match_evidence Fuzzy_path candidates
            [''bank_direction_amount_currency'', ''date_time_window'',
             ''counterparty_or_card_mask'', ''balance'', ''source_slot'']
            (''fuzzy_'' @ decision_name decision))
       else match_by_alias rows d)"

definition match_decision_of ::
  "transaction list \<Rightarrow> txn_data \<Rightarrow> channel \<Rightarrow> nat option \<Rightarrow> match_decision" where
  "match_decision_of rows d ch source_id = fst (find_match rows d ch source_id)"

section \<open>Gathered candidates\<close>

lemma set_date_only_gate: "set (date_only_gate d cs) \<subseteq> set cs"
  by (auto simp: date_only_gate_def Let_def split: if_splits)

lemma set_timed_gate: "set (timed_gate d cs) \<subseteq> set cs"
  by (auto simp: timed_gate_def Let_def split: if_splits)

definition event_currency :: "txn_data \<Rightarrow> string option \<Rightarrow> string" where
  "event_currency d cur = (case cur of None \<Rightarrow> or_inr (d_currency d) | Some c \<Rightarrow> c)"

text \<open>The base list, before the gates.\<close>

definition gather_base :: "transaction list \<Rightarrow> txn_data \<Rightarrow> string option \<Rightarrow> date \<Rightarrow> transaction list" where
  "gather_base rows d cur x = (case d_transaction_time d of
     Some tm \<Rightarrow>
       filter (in_window (combine x tm) (combine x tm - window_minutes d * minute_us)
           (combine x tm + window_minutes d * minute_us))
         (filter (\<lambda>t. same_event_key d (event_currency d cur) t \<and>
            date_between (date_of (combine x tm - window_minutes d * minute_us))
              (date_of (combine x tm + window_minutes d * minute_us)) t) rows)
   | None \<Rightarrow> filter (\<lambda>t. same_event_key d (event_currency d cur) t \<and> date_between x x t) rows)"

lemma gather_at:
  assumes x: "d_transaction_date d = Some x"
  shows "gather_fuzzy_candidates rows d cur =
    (let cs = gather_base rows d cur x;
         cs' = (if normalize_mask (d_account_mask d) \<noteq> [] then filter (account_compatible d) cs else cs)
     in if cs = [] then [] else if cs' = [] then []
        else if d_transaction_time d = None \<or> (\<exists>c \<in> set cs'. t_transaction_time c = None)
        then date_only_gate d cs' else timed_gate d cs')"
  unfolding gather_fuzzy_candidates_def x option.case Let_def event_currency_def [symmetric] gather_base_def [symmetric]
  by (rule refl)

lemma gather_fuzzy_base:
  assumes "c \<in> set (gather_fuzzy_candidates rows d cur)"
  obtains x where "d_transaction_date d = Some x" "c \<in> set (gather_base rows d cur x)"
    "normalize_mask (d_account_mask d) = [] \<or> account_compatible d c"
proof -
  obtain x where x: "d_transaction_date d = Some x"
    using assms by (cases "d_transaction_date d") (simp_all add: gather_fuzzy_candidates_def)
  define cs where "cs = gather_base rows d cur x"
  define cs' where "cs' = (if normalize_mask (d_account_mask d) \<noteq> []
     then filter (account_compatible d) cs else cs)"
  have "gather_fuzzy_candidates rows d cur = (if cs = [] then [] else if cs' = [] then []
      else if d_transaction_time d = None \<or> (\<exists>c \<in> set cs'. t_transaction_time c = None)
      then date_only_gate d cs' else timed_gate d cs')"
    unfolding gather_at [OF x] Let_def cs_def [symmetric] cs'_def [symmetric] by (rule refl)
  then have "c \<in> set cs'"
    using assms set_date_only_gate [of d cs'] set_timed_gate [of d cs'] by (auto split: if_splits)
  then show ?thesis
    using that [OF x] by (auto simp: cs'_def cs_def split: if_splits)
qed

lemma gather_fuzzy_timed:
  assumes "c \<in> set (gather_fuzzy_candidates rows d cur)" "d_transaction_time d = Some tm"
  shows "c \<in> set rows \<and> same_event_key d (event_currency d cur) c \<and>
    (\<exists>x y. d_transaction_date d = Some x \<and> t_transaction_date c = Some y \<and>
       in_window (combine x tm) (combine x tm - window_minutes d * minute_us)
         (combine x tm + window_minutes d * minute_us) c) \<and>
    (normalize_mask (d_account_mask d) = [] \<or> account_compatible d c)"
proof (rule gather_fuzzy_base [OF assms(1)])
  fix x assume x: "d_transaction_date d = Some x" "c \<in> set (gather_base rows d cur x)"
    "normalize_mask (d_account_mask d) = [] \<or> account_compatible d c"
  then show ?thesis
    using assms(2) by (auto simp: gather_base_def date_between_def split: option.splits)
qed

lemma gather_fuzzy_mem:
  assumes "c \<in> set (gather_fuzzy_candidates rows d cur)"
  shows "c \<in> set rows" "same_event_key d (event_currency d cur) c"
  by (rule gather_fuzzy_base [OF assms]; auto simp: gather_base_def split: option.splits)+

text \<open>A timed candidate of the fuzzy path lies at most ten minutes from the incoming event,
  and at most one minute when the arrival of a message supplied either of the two times; its
  bank, direction, amount and currency are those of the message, and a readable account mask
  on both sides does not contradict it.\<close>

theorem gather_fuzzy_window:
  assumes "c \<in> set (gather_fuzzy_candidates rows d None)"
    and "d_transaction_date d = Some x" "d_transaction_time d = Some tm"
    and "t_transaction_date c = Some y" "t_transaction_time c = Some tc"
  shows "c \<in> set rows \<and> t_bank c = d_bank d \<and> t_direction c = d_direction d \<and>
    t_amount c = d_amount d \<and> coalesce_inr (t_currency c) = or_inr (d_currency d) \<and>
    \<bar>combine y tc - combine x tm\<bar> \<le>
      (if d_time_is_received d \<or> t_time_is_received c then 1 else 10) * minute_us \<and>
    (normalize_mask (d_account_mask d) = [] \<or> normalize_mask (t_account_mask c) = [] \<or>
     mask_matches (normalize_mask (d_account_mask d)) (normalize_mask (t_account_mask c)))"
proof -
  note g = gather_fuzzy_timed [OF assms(1,3)]
  have w: "in_window (combine x tm) (combine x tm - window_minutes d * minute_us)
      (combine x tm + window_minutes d * minute_us) c"
    using g assms(2) by auto
  have "\<bar>combine y tc - combine x tm\<bar> \<le>
      (if d_time_is_received d \<or> t_time_is_received c then 1 else 10) * minute_us"
    using w assms(4,5)
    by (auto simp: in_window_def Let_def window_minutes_def FUZZY_MINUTES_def RECEIVED_MINUTES_def
        minute_us_def abs_le_iff split: if_splits)
  then show ?thesis
    using g by (auto simp: same_event_key_def event_currency_def account_compatible_def Let_def
        mask_matches_sym)
qed

section \<open>The decision\<close>

text \<open>With a known balance the decision is exactly the balance: match the one candidate
  whose balance is equal (to the paisa), insert when every candidate has a different known
  balance, and otherwise defer to the operator.\<close>

theorem decide_with_balance:
  assumes "d_balance d = Some b"
  shows "decide candidates d ch src =
    (let eq = filter (\<lambda>c. quantize_balance (t_balance c) = Some (quantize2 b)) candidates;
         unknown = filter (\<lambda>c. t_balance c = None) candidates
     in if eq = [] \<and> unknown = [] then Insert
        else case eq of [t] \<Rightarrow> Match t Standard
          | _ \<Rightarrow> Defer None Balance_ambiguous (map t_id (filter (\<lambda>c. t_balance c = None \<or>
              quantize_balance (t_balance c) = Some (quantize2 b)) candidates)))"
proof -
  let ?s = "filter (\<lambda>c. t_balance c = None \<or> quantize_balance (t_balance c) = Some (quantize2 b)) candidates"
  let ?eq = "filter (\<lambda>c. quantize_balance (t_balance c) = Some (quantize2 b)) candidates"
  have e: "filter (\<lambda>c. t_balance c \<noteq> None \<and> quantize_balance (t_balance c) = Some (quantize2 b)) ?s = ?eq"
    by (auto simp: quantize_balance_def intro!: filter_cong)
  have n: "?s = [] \<longleftrightarrow> ?eq = [] \<and> filter (\<lambda>c. t_balance c = None) candidates = []"
    by (auto simp: filter_empty_conv)
  have q: "quantize_balance (d_balance d) = Some (quantize2 b)"
    using assms by (simp add: quantize_balance_def)
  show ?thesis
    unfolding decide_def q option.case Let_def e n
    by (cases ?eq rule: sole.cases) (auto simp: filter_empty_conv)
qed


text \<open>A witness for the window: an SMS dated by its arrival, and the stored row it belongs to.\<close>

definition demo_data :: txn_data where
  "demo_data = \<lparr>d_bank = ''hdfc'', d_email_type = ''hdfc_upi'', d_direction = ''debit'',
     d_amount = 500, d_currency = None, d_transaction_date = Some 739000,
     d_transaction_time = Some 36000000000, d_counterparty = Some ''Shop'', d_card_mask = None,
     d_account_mask = Some ''XX1234'', d_reference_number = Some ''512345678901'',
     d_channel = None, d_balance = None, d_raw_description = None,
     d_time_is_received = True, d_identifies_by = Some ''counterparty''\<rparr>"

definition demo_row :: transaction where
  "demo_row = blank_txn\<lparr>t_id := 7, t_email_id := Some 1, t_bank := ''hdfc'',
     t_email_type := ''hdfc_upi'', t_direction := ''debit'', t_amount := 500,
     t_transaction_date := Some 739000, t_transaction_time := Some 36030000000,
     t_counterparty := Some ''SHOP'', t_account_mask := Some ''1234'',
     t_source := Some ''email''\<rparr>"

theorem gather_fuzzy_window_witness:
  "demo_row \<in> set [demo_row] \<and> \<bar>combine 739000 36030000000 - combine 739000 36000000000\<bar> \<le> 1 * minute_us"
proof -
  have 1: "demo_row \<in> set (gather_fuzzy_candidates [demo_row] demo_data None)"
    by code_simp
  have 2: "d_transaction_date demo_data = Some 739000" "d_transaction_time demo_data = Some 36000000000"
    "t_transaction_date demo_row = Some 739000" "t_transaction_time demo_row = Some 36030000000"
    "d_time_is_received demo_data"
    by (simp_all add: demo_data_def demo_row_def)
  show ?thesis using gather_fuzzy_window [OF 1 2(1-4)] 2(5) by simp
qed

theorem decide_with_balance_witness:
  "decide [demo_row\<lparr>t_balance := Some 100\<rparr>, demo_row\<lparr>t_id := 8, t_balance := Some 90\<rparr>]
     (demo_data\<lparr>d_balance := Some (90001 / 1000)\<rparr>) Sms None =
   Match (demo_row\<lparr>t_id := 8, t_balance := Some 90\<rparr>) Standard"
proof -
  have 1: "d_balance (demo_data\<lparr>d_balance := Some (90001 / 1000)\<rparr>) = Some (90001 / 1000)" by simp
  have 2: "\<lfloor>90001 / 10 :: rat\<rfloor> = 9000" by (simp add: floor_eq_iff)
  show ?thesis
    unfolding decide_with_balance [OF 1]
    by (simp add: 2 quantize_balance_def quantize2_def Let_def floor_divide_of_int_eq demo_row_def
        blank_txn_def)
qed


section \<open>What a decision certifies\<close>

lemma balances_differ_None [simp]: "\<not> balances_differ None b" "\<not> balances_differ a None"
  by (simp_all add: balances_differ_def quantize_balance_def split: option.splits)

lemma balances_differ_Some [simp]: "balances_differ (Some x) (Some y) \<longleftrightarrow> quantize2 x \<noteq> quantize2 y"
  by (simp add: balances_differ_def quantize_balance_def)

lemma quantize_balance_eq: "quantize_balance b = Some q \<longleftrightarrow> (\<exists>x. b = Some x \<and> q = quantize2 x)"
  by (auto simp: quantize_balance_def)

text \<open>The candidates that the reference split keeps. Of the three reasons the last branch of
  \<open>_decide\<close> names, \<open>balance_ambiguous\<close> never occurs: a lone survivor that is not matched
  is always reported as \<open>source_slot_filled\<close>, even when it is its known balance, and not a
  filled slot, that prevents the match.\<close>

definition reference_survivors ::
  "txn_data \<Rightarrow> channel \<Rightarrow> nat option \<Rightarrow> transaction list \<Rightarrow> transaction list" where
  "reference_survivors d ch src cs = (let ref = strip (or_empty (d_reference_number d)) in
     if ref \<noteq> [] then filter (\<lambda>c. is_source_row c ch src \<or>
       \<not> references_prove_distinct ref (d_email_type d) ch c) cs else cs)"

lemma set_reference_survivors: "set (reference_survivors d ch src cs) \<subseteq> set cs"
  by (auto simp: reference_survivors_def Let_def split: if_splits)

lemma decide_no_balance:
  assumes "d_balance d = None" "cs \<noteq> []"
  shows "decide cs d ch src = (case reference_survivors d ch src cs of
      [] \<Rightarrow> Insert
    | [c] \<Rightarrow> if t_balance c = None \<and> slot_open c ch then Match c Standard
        else Defer None Source_slot_filled [t_id c]
    | s \<Rightarrow> Defer None Multiple_candidates (map t_id s))"
proof -
  define s where "s = reference_survivors d ch src cs"
  have q: "quantize_balance (d_balance d) = None"
    using assms(1) by (simp add: quantize_balance_def)
  have "decide cs d ch src = (if s = [] then Insert
     else let balanceless = filter (\<lambda>c. t_balance c = None) s;
              open_bl = filter (\<lambda>c. slot_open c ch) balanceless
          in if length s = 1 \<and> length balanceless = 1 \<and> length open_bl = 1
             then Match (hd s) Standard
             else Defer None (if 1 < length s then Multiple_candidates
               else if open_bl = [] then Source_slot_filled else Balance_ambiguous) (map t_id s))"
    unfolding decide_def q option.case s_def reference_survivors_def Let_def
    using assms(2) by simp
  then show ?thesis
    unfolding s_def [symmetric] by (cases s rule: sole.cases) (auto simp: Let_def)
qed

lemma decide_Match:
  assumes "decide cs d ch src = Match t k"
  shows "t \<in> set cs \<and> k = Standard \<and> \<not> balances_differ (d_balance d) (t_balance t) \<and>
    (d_balance d = None \<longrightarrow> t_balance t = None \<and> slot_open t ch)"
proof (cases "d_balance d")
  case None
  have ne: "cs \<noteq> []" using assms by (auto simp: decide_def)
  define s where "s = reference_survivors d ch src cs"
  have "set s \<subseteq> set cs" unfolding s_def by (rule set_reference_survivors)
  moreover have "s = [t] \<and> t_balance t = None \<and> slot_open t ch \<and> k = Standard"
    using assms decide_no_balance [OF None ne, of ch src, folded s_def]
    by (cases s rule: sole.cases) (auto split: if_splits)
  ultimately show ?thesis using None by auto
next
  case (Some b)
  let ?eq = "filter (\<lambda>c. quantize_balance (t_balance c) = Some (quantize2 b)) cs"
  have "?eq = [t] \<and> k = Standard"
    using assms unfolding decide_with_balance [OF Some] Let_def
    by (cases ?eq rule: sole.cases) (auto split: if_splits)
  then have "t \<in> set ?eq" "k = Standard" by simp_all
  then show ?thesis using Some by (auto simp: quantize_balance_eq)
qed

lemma decide_Insert:
  assumes "decide cs d ch src = Insert" "c \<in> set cs"
  shows "balances_differ (d_balance d) (t_balance c) \<or>
    (d_balance d = None \<and> \<not> is_source_row c ch src \<and>
     references_prove_distinct (strip (or_empty (d_reference_number d))) (d_email_type d) ch c)"
proof (cases "d_balance d")
  case None
  have ne: "cs \<noteq> []" using assms(2) by auto
  define s where "s = reference_survivors d ch src cs"
  have "s = []"
    using assms(1) decide_no_balance [OF None ne, of ch src, folded s_def]
    by (cases s rule: sole.cases) (auto split: if_splits)
  then show ?thesis
    using assms(2) ne None by (auto simp: s_def reference_survivors_def Let_def filter_empty_conv split: if_splits)
next
  case (Some b)
  have "filter (\<lambda>c. quantize_balance (t_balance c) = Some (quantize2 b)) cs = [] \<and>
        filter (\<lambda>c. t_balance c = None) cs = []"
    using assms(1) unfolding decide_with_balance [OF Some] Let_def
    by (cases "filter (\<lambda>c. quantize_balance (t_balance c) = Some (quantize2 b)) cs" rule: sole.cases)
       (auto split: if_splits)
  then show ?thesis
    using assms(2) Some by (cases "t_balance c") (auto simp: filter_empty_conv quantize_balance_eq)
qed

lemma decide_Defer:
  assumes "decide cs d ch src = Defer k r ids"
  shows "set ids \<subseteq> t_id ` set cs"
proof (cases "d_balance d")
  case None
  have ne: "cs \<noteq> []" using assms by (auto simp: decide_def)
  define s where "s = reference_survivors d ch src cs"
  have "set s \<subseteq> set cs" unfolding s_def by (rule set_reference_survivors)
  moreover have "ids = map t_id s"
    using assms decide_no_balance [OF None ne, of ch src, folded s_def]
    by (cases s rule: sole.cases) (auto split: if_splits)
  ultimately show ?thesis by auto
next
  case (Some b)
  have "ids = map t_id (filter (\<lambda>c. t_balance c = None \<or>
              quantize_balance (t_balance c) = Some (quantize2 b)) cs)"
    using assms unfolding decide_with_balance [OF Some] Let_def
    by (cases "filter (\<lambda>c. quantize_balance (t_balance c) = Some (quantize2 b)) cs" rule: sole.cases)
       (auto split: if_splits)
  then show ?thesis by auto
qed


text \<open>The reference stage reads at most two rows with the message's bank, direction and
  reference.\<close>

lemma reference_rows_mem:
  "r \<in> set (reference_rows rows d ref) \<Longrightarrow> r \<in> set rows \<and> t_bank r = d_bank d \<and>
     t_direction r = d_direction d \<and> t_reference_number r = Some ref"
  using set_take_subset [of 2] by (fastforce simp: reference_rows_def)

lemma reference_rows_Nil:
  "reference_rows rows d ref = [] \<longleftrightarrow> (\<forall>r \<in> set rows. \<not> (t_bank r = d_bank d \<and>
     t_direction r = d_direction d \<and> t_reference_number r = Some ref))"
  by (auto simp: reference_rows_def filter_empty_conv)

lemma match_by_reference_None:
  "match_by_reference rows d = None \<longleftrightarrow> (let ref = strip (or_empty (d_reference_number d)) in
     ref = [] \<or> reference_rows rows d ref = [])"
  by (cases "reference_rows rows d (strip (or_empty (d_reference_number d)))" rule: sole.cases)
     (auto simp: match_by_reference_def Let_def)

lemma match_by_reference_cases:
  assumes "match_by_reference rows d = Some (dec, ev)"
  obtains (match) r where "strip (or_empty (d_reference_number d)) \<noteq> []"
      "reference_rows rows d (strip (or_empty (d_reference_number d))) = [r]" "dec = Match r Standard"
      "t_amount r = d_amount d" "\<not> balances_differ (d_balance d) (t_balance r)"
    | (mismatch) reason where "dec = Defer (Some Ref_amount_mismatch) reason []"
    | (several) ref where "dec = Defer None Multiple_reference_candidates
         (map t_id (filter (\<lambda>r. qualifies_as_explicit_match rows r d) (reference_rows rows d ref)))"
proof -
  define ref where "ref = strip (or_empty (d_reference_number d))"
  show ?thesis
  proof (cases "reference_rows rows d ref" rule: none_one_many)
    case (one r)
    then show ?thesis
      using assms match [of r] mismatch
      by (auto simp: match_by_reference_def Let_def ref_def [symmetric] split: if_splits)
  next
    case none
    then show ?thesis using assms by (simp add: match_by_reference_def Let_def ref_def [symmetric] split: if_splits)
  next
    case (many v vb vc)
    then have "dec = Defer None Multiple_reference_candidates
         (map t_id (filter (\<lambda>r. qualifies_as_explicit_match rows r d) (reference_rows rows d ref)))"
      using assms unfolding match_by_reference_def Let_def ref_def [symmetric]
      by (simp split: if_splits)
    then show ?thesis by (rule several)
  qed
qed

lemma find_am_pm_alias_Some:
  assumes "find_am_pm_alias rows d x tm = (Some c, ev)"
  shows "c \<in> set rows \<and> same_event_key d (or_inr (d_currency d)) c \<and>
    t_email_type c \<in> set AMBIGUOUS_12H_TIME_EMAIL_TYPES \<and> alias_hit x tm c \<and>
    counterparty_match (t_counterparty c) (d_counterparty d)"
  using assms
  by (auto simp: find_am_pm_alias_def Let_def sole_Some_iff filter_eq_Cons_iff split: if_splits)

lemma match_by_alias_cases:
  assumes "match_by_alias rows d = (dec, ev)"
  obtains (insert) "dec = Insert"
    | (match) x tm c where "dec = Match c Am_pm_alias" "d_transaction_date d = Some x"
      "d_transaction_time d = Some tm" "fst (find_am_pm_alias rows d x tm) = Some c"
      "\<not> balances_differ (d_balance d) (t_balance c)"
  using assms
  by (auto simp: match_by_alias_def split: option.splits prod.splits if_splits)

lemma match_decision_cases:
  obtains (reference) ev where "match_by_reference rows d = Some (match_decision_of rows d ch src, ev)"
    | (fuzzy) "match_by_reference rows d = None" "gather_fuzzy_candidates rows d None \<noteq> []"
      "match_decision_of rows d ch src = decide (gather_fuzzy_candidates rows d None) d ch src"
    | (twelve_hour) ev where "match_by_reference rows d = None"
      "gather_fuzzy_candidates rows d None = []"
      "match_by_alias rows d = (match_decision_of rows d ch src, ev)"
proof (cases "match_by_reference rows d")
  case None
  show ?thesis
  proof (cases "gather_fuzzy_candidates rows d None = []")
    case True
    then have "match_decision_of rows d ch src = fst (match_by_alias rows d)"
      using None by (simp add: match_decision_of_def find_match_def)
    then show ?thesis using None True twelve_hour by (metis prod.collapse)
  next
    case False
    then have "match_decision_of rows d ch src = decide (gather_fuzzy_candidates rows d None) d ch src"
      using None by (simp add: match_decision_of_def find_match_def Let_def)
    then show ?thesis using None False fuzzy by blast
  qed
next
  case (Some r)
  then have "match_decision_of rows d ch src = fst r"
    by (simp add: match_decision_of_def find_match_def)
  then show ?thesis using Some reference [of "snd r"] by simp
qed

lemma match_decision_sound:
  assumes "match_decision_of rows d ch src = Match t k"
  shows "t \<in> set rows \<and> t_bank t = d_bank d \<and> t_direction t = d_direction d \<and>
    t_amount t = d_amount d \<and> \<not> balances_differ (d_balance d) (t_balance t) \<and>
    k \<noteq> Ref_amount_mismatch"
proof (cases rule: match_decision_cases [of rows d ch src])
  case (reference ev)
  then show ?thesis
  proof (cases rule: match_by_reference_cases)
    case (match r)
    then show ?thesis
      using assms reference_rows_mem [of r rows d "strip (or_empty (d_reference_number d))"] by auto
  qed (use assms in auto)
next
  case fuzzy
  then show ?thesis
    using assms decide_Match [of "gather_fuzzy_candidates rows d None" d ch src t k]
      gather_fuzzy_mem [of t rows d None]
    by (auto simp: same_event_key_def)
next
  case (twelve_hour ev)
  from twelve_hour(3) show ?thesis
  proof (cases rule: match_by_alias_cases)
    case (match x tm c)
    then show ?thesis
      using assms find_am_pm_alias_Some [of rows d x tm c "snd (find_am_pm_alias rows d x tm)"]
      by (auto simp: same_event_key_def prod_eq_iff)
  qed (use assms in auto)
qed

text \<open>The reference stage settles a message whose reference is stored: the row matched is then the
  only row that carries it.\<close>

lemma match_decision_ref_unique:
  assumes "match_decision_of rows d ch src = Match t k" "r \<in> set rows" "t_bank r = d_bank d"
    "t_direction r = d_direction d" "t_reference_number r = Some (strip (or_empty (d_reference_number d)))"
    "strip (or_empty (d_reference_number d)) \<noteq> []"
  shows "r = t"
proof -
  let ?ref = "strip (or_empty (d_reference_number d))"
  let ?f = "filter (\<lambda>t. t_bank t = d_bank d \<and> t_direction t = d_direction d \<and>
      t_reference_number t = Some ?ref) rows"
  have r: "r \<in> set ?f" using assms by simp
  have "match_by_reference rows d \<noteq> None"
    using assms by (auto simp: match_by_reference_None reference_rows_Nil Let_def)
  then obtain ev where "match_by_reference rows d = Some (Match t k, ev)"
    using assms(1) by (cases rule: match_decision_cases [of rows d ch src]) auto
  then show ?thesis
  proof (cases rule: match_by_reference_cases)
    case (match q)
    then have "take 2 ?f = [q]" by (simp add: reference_rows_def)
    then have "?f = [q]" by (cases ?f rule: sole.cases) auto
    then show ?thesis using r match by simp
  qed auto
qed

lemma match_decision_insert:
  assumes "match_decision_of rows d ch src = Insert"
  shows "strip (or_empty (d_reference_number d)) \<noteq> [] \<Longrightarrow> r \<in> set rows \<Longrightarrow> t_bank r = d_bank d \<Longrightarrow>
      t_direction r = d_direction d \<Longrightarrow>
      t_reference_number r \<noteq> Some (strip (or_empty (d_reference_number d)))"
    and "c \<in> set (gather_fuzzy_candidates rows d None) \<Longrightarrow>
      balances_differ (d_balance d) (t_balance c) \<or> (d_balance d = None \<and>
       \<not> is_source_row c ch src \<and> references_prove_distinct
         (strip (or_empty (d_reference_number d))) (d_email_type d) ch c)"
proof -
  have n: "match_by_reference rows d = None"
  proof (cases rule: match_decision_cases [of rows d ch src])
    case (reference ev)
    then show ?thesis by (cases rule: match_by_reference_cases) (use assms in auto)
  qed
  then show "strip (or_empty (d_reference_number d)) \<noteq> [] \<Longrightarrow> r \<in> set rows \<Longrightarrow> t_bank r = d_bank d \<Longrightarrow>
      t_direction r = d_direction d \<Longrightarrow>
      t_reference_number r \<noteq> Some (strip (or_empty (d_reference_number d)))"
    by (auto simp: match_by_reference_None reference_rows_Nil Let_def)
  show "c \<in> set (gather_fuzzy_candidates rows d None) \<Longrightarrow>
      balances_differ (d_balance d) (t_balance c) \<or> (d_balance d = None \<and>
       \<not> is_source_row c ch src \<and> references_prove_distinct
         (strip (or_empty (d_reference_number d))) (d_email_type d) ch c)"
    using n assms decide_Insert
    by (cases rule: match_decision_cases [of rows d ch src]) auto
qed

lemma match_decision_defer_ids:
  assumes "match_decision_of rows d ch src = Defer k r ids"
  shows "set ids \<subseteq> t_id ` set rows"
proof (cases rule: match_decision_cases [of rows d ch src])
  case (reference ev)
  then show ?thesis
  proof (cases rule: match_by_reference_cases)
    case (several ref)
    then show ?thesis using assms reference_rows_mem [of _ rows d ref] by auto
  qed (use assms in auto)
next
  case fuzzy
  then show ?thesis
    using assms decide_Defer gather_fuzzy_mem(1) by (metis (no_types, lifting) image_mono subset_iff)
next
  case (twelve_hour ev)
  from twelve_hour(3) show ?thesis by (cases rule: match_by_alias_cases) (use assms in auto)
qed


text \<open>C2. What a match certifies. The row matched is stored, has the message's bank, direction
  and amount, and no known balance contradicts it. It was found in one of three ways: it is
  the only row with the message's bank, direction and reference; or it is a candidate of the
  time window, and then without an incoming balance it has no balance either and its slot of
  the channel is free; or nothing lies in the window and it is a row of a twelve-hour clock
  email whose shifted time does, with an agreeing counterparty.\<close>

theorem find_match_certificate:
  assumes "find_match rows d ch src = (Match t k, ev)"
  shows "t \<in> set rows \<and> t_bank t = d_bank d \<and> t_direction t = d_direction d \<and>
    t_amount t = d_amount d \<and> \<not> balances_differ (d_balance d) (t_balance t) \<and>
    (k = Standard \<and> strip (or_empty (d_reference_number d)) \<noteq> [] \<and>
       t_reference_number t = Some (strip (or_empty (d_reference_number d))) \<and>
       filter (\<lambda>r. t_bank r = d_bank d \<and> t_direction r = d_direction d \<and>
         t_reference_number r = Some (strip (or_empty (d_reference_number d)))) rows = [t] \<or>
     k = Standard \<and> t \<in> set (gather_fuzzy_candidates rows d None) \<and>
       (d_balance d = None \<longrightarrow> t_balance t = None \<and> slot_open t ch) \<or>
     k = Am_pm_alias \<and> gather_fuzzy_candidates rows d None = [] \<and>
       t_email_type t \<in> set AMBIGUOUS_12H_TIME_EMAIL_TYPES \<and>
       counterparty_match (t_counterparty t) (d_counterparty d) \<and>
       (\<exists>x tm. d_transaction_date d = Some x \<and> d_transaction_time d = Some tm \<and> alias_hit x tm t))"
proof -
  have m: "match_decision_of rows d ch src = Match t k"
    using assms by (simp add: match_decision_of_def)
  note base = match_decision_sound [OF m]
  show ?thesis
  proof (cases rule: match_decision_cases [of rows d ch src])
    case (reference ev)
    from reference show ?thesis
    proof (cases rule: match_by_reference_cases)
      case (match r)
      let ?ref = "strip (or_empty (d_reference_number d))"
      let ?f = "filter (\<lambda>t. t_bank t = d_bank d \<and> t_direction t = d_direction d \<and>
        t_reference_number t = Some ?ref) rows"
      have "take 2 ?f = [r]" using match by (simp add: reference_rows_def)
      then have f: "?f = [r]" by (cases ?f rule: sole.cases) auto
      have "r = t" "k = Standard" using match m by simp_all
      moreover have "t_reference_number r = Some ?ref"
        using match reference_rows_mem [of r rows d ?ref] by auto
      ultimately show ?thesis using base match(1) f by blast
    qed (use m in auto)
  next
    case fuzzy
    then show ?thesis
      using m base decide_Match [of "gather_fuzzy_candidates rows d None" d ch src t k] by auto
  next
    case (twelve_hour ev)
    from twelve_hour(3) show ?thesis
    proof (cases rule: match_by_alias_cases)
      case (match x tm c)
      then show ?thesis
        using m base twelve_hour(2)
          find_am_pm_alias_Some [of rows d x tm c "snd (find_am_pm_alias rows d x tm)"]
        by (auto simp: prod_eq_iff)
    qed (use m in auto)
  qed
qed

theorem find_match_certificate_witness:
  "t_amount demo_row = d_amount demo_data \<and> slot_open demo_row Sms"
proof -
  have "fst (find_match [demo_row] demo_data Sms (Some 3)) = Match demo_row Standard"
    by code_simp
  then have "find_match [demo_row] demo_data Sms (Some 3) =
      (Match demo_row Standard, snd (find_match [demo_row] demo_data Sms (Some 3)))"
    by (simp add: prod_eq_iff)
  from find_match_certificate [OF this] show ?thesis
    by (auto simp: demo_row_def demo_data_def blank_txn_def strip_def)
qed

text \<open>The rows that could be the event: same bank, direction, amount and currency, in the time
  window (the day, when the message has no time), with a compatible account mask. They are
  compared by the day's identifying fields alone when some of the times is unknown.\<close>

definition in_event_window :: "txn_data \<Rightarrow> transaction \<Rightarrow> bool" where
  "in_event_window d t \<longleftrightarrow> (case d_transaction_date d of None \<Rightarrow> False
     | Some x \<Rightarrow> same_event_key d (or_inr (d_currency d)) t \<and>
         (case d_transaction_time d of None \<Rightarrow> date_between x x t
          | Some tm \<Rightarrow> let anchor = combine x tm; w = window_minutes d * minute_us in
              date_between (date_of (anchor - w)) (date_of (anchor + w)) t \<and> in_window anchor (anchor - w) (anchor + w) t) \<and>
         (normalize_mask (d_account_mask d) = [] \<or> account_compatible d t))"

definition day_only :: "transaction list \<Rightarrow> txn_data \<Rightarrow> bool" where
  "day_only rows d \<longleftrightarrow> d_transaction_time d = None \<or>
     (\<exists>c \<in> set rows. in_event_window d c \<and> t_transaction_time c = None)"

lemma gather_gates:
  "gather_fuzzy_candidates rows d None =
    (let ws = filter (in_event_window d) rows in
     if ws = [] then [] else if day_only rows d then date_only_gate d ws else timed_gate d ws)"
proof (cases "d_transaction_date d")
  case None
  then have "filter (in_event_window d) rows = []" by (simp add: in_event_window_def)
  then show ?thesis using None by (simp only: Let_def if_True) (simp add: gather_fuzzy_candidates_def)
next
  case (Some x)
  define cs where "cs = gather_base rows d None x"
  define cs' where "cs' = (if normalize_mask (d_account_mask d) \<noteq> []
     then filter (account_compatible d) cs else cs)"
  have g: "gather_fuzzy_candidates rows d None = (if cs = [] then [] else if cs' = [] then []
      else if d_transaction_time d = None \<or> (\<exists>c \<in> set cs'. t_transaction_time c = None)
      then date_only_gate d cs' else timed_gate d cs')"
    unfolding gather_at [OF Some] Let_def cs_def [symmetric] cs'_def [symmetric] by (rule refl)
  have ws: "cs' = filter (in_event_window d) rows"
    unfolding cs'_def cs_def gather_base_def
    by (cases "d_transaction_time d")
      (auto simp: in_event_window_def Some event_currency_def Let_def intro!: filter_cong)
  have "cs = [] \<Longrightarrow> cs' = []" by (simp add: cs'_def)
  moreover have "(d_transaction_time d = None \<or> (\<exists>c \<in> set cs'. t_transaction_time c = None)) = day_only rows d"
    by (auto simp: ws day_only_def)
  ultimately show ?thesis unfolding g ws [symmetric] Let_def by auto
qed

text \<open>A row of the window that is not compared: another one shares more with the message, or, when
  the time cannot tell, no field of the row identifies it as the message's.\<close>

lemma gather_leaves_out:
  assumes "r \<in> set rows" "in_event_window d r" "r \<notin> set (gather_fuzzy_candidates rows d None)"
  shows "\<not> counterparty_match (t_counterparty r) (d_counterparty d) \<and>
    ((\<exists>c \<in> set (gather_fuzzy_candidates rows d None). counterparty_match (t_counterparty c) (d_counterparty d)) \<or>
     day_only rows d \<and> \<not> card_payment_mask_match r d \<and>
       ((\<exists>c \<in> set (gather_fuzzy_candidates rows d None). card_payment_mask_match c d) \<or> \<not> no_field_identifies r d))"
proof -
  define ws where "ws = filter (in_event_window d) rows"
  have r: "r \<in> set ws" using assms by (simp add: ws_def)
  then have n: "ws \<noteq> []" by auto
  have ex: "\<exists>c \<in> set xs. P c" if "filter P xs \<noteq> []" for P and xs :: "transaction list"
    using that by (auto simp: filter_empty_conv)
  show ?thesis
  proof (cases "day_only rows d")
    case True
    then have g: "gather_fuzzy_candidates rows d None = date_only_gate d ws"
      using n by (simp add: gather_gates ws_def [symmetric])
    show ?thesis
      using assms(3) r True unfolding g
      by (auto simp: date_only_gate_def Let_def filter_empty_conv split: if_splits)
  next
    case False
    then have g: "gather_fuzzy_candidates rows d None = timed_gate d ws"
      using n by (simp add: gather_gates ws_def [symmetric])
    show ?thesis
      using assms(3) r False unfolding g
      by (auto simp: timed_gate_def Let_def filter_empty_conv split: if_splits)
  qed
qed

text \<open>What proves that a row records another event than the message.\<close>

definition proven_distinct :: "txn_data \<Rightarrow> channel \<Rightarrow> nat option \<Rightarrow> transaction \<Rightarrow> bool" where
  "proven_distinct d ch src c \<longleftrightarrow> balances_differ (d_balance d) (t_balance c) \<or>
     d_balance d = None \<and> \<not> is_source_row c ch src \<and> references_prove_distinct
       (strip (or_empty (d_reference_number d))) (d_email_type d) ch c"

text \<open>C3. What an insert certifies. No stored row has the message's bank, direction and reference;
  and every stored row of the same bank, direction, amount and currency in the time window, with
  a compatible account mask, is proven to be another event (by a different known balance or, when
  the message has none, by a reference of the same kind that differs), or does not share the
  message's counterparty and is set aside for that: either a row that does share it is proven to
  be another event, or the comparison is by the day alone, and neither the card mask nor the
  absence of any identifying field links this row to the message (or such a link exists to a row
  proven to be another event).\<close>

theorem find_match_insert_certificate:
  assumes "find_match rows d ch src = (Insert, ev)"
  shows "(strip (or_empty (d_reference_number d)) \<noteq> [] \<longrightarrow> (\<forall>r \<in> set rows.
      \<not> (t_bank r = d_bank d \<and> t_direction r = d_direction d \<and>
        t_reference_number r = Some (strip (or_empty (d_reference_number d)))))) \<and>
    (\<forall>r \<in> set rows. in_event_window d r \<longrightarrow> proven_distinct d ch src r \<or>
      \<not> counterparty_match (t_counterparty r) (d_counterparty d) \<and>
      ((\<exists>c \<in> set rows. in_event_window d c \<and> counterparty_match (t_counterparty c) (d_counterparty d) \<and>
          proven_distinct d ch src c) \<or>
       day_only rows d \<and> \<not> card_payment_mask_match r d \<and>
         ((\<exists>c \<in> set rows. in_event_window d c \<and> card_payment_mask_match c d \<and> proven_distinct d ch src c) \<or>
          \<not> no_field_identifies r d)))"
proof -
  let ?g = "gather_fuzzy_candidates rows d None"
  have i: "match_decision_of rows d ch src = Insert" using assms by (simp add: match_decision_of_def)
  have p: "proven_distinct d ch src c" if "c \<in> set ?g" for c
    using match_decision_insert(2) [OF i that] by (simp add: proven_distinct_def)
  have "set ?g \<subseteq> set (filter (in_event_window d) rows)"
    using set_date_only_gate [of d "filter (in_event_window d) rows"] set_timed_gate [of d "filter (in_event_window d) rows"]
    by (simp add: gather_gates Let_def)
  then have g: "c \<in> set rows" "in_event_window d c" "proven_distinct d ch src c" if "c \<in> set ?g" for c
    using that p by auto
  have ex: "(\<exists>c \<in> set ?g. P c) \<Longrightarrow> \<exists>c \<in> set rows. in_event_window d c \<and> P c \<and> proven_distinct d ch src c" for P
    using g by blast
  show ?thesis
  proof (intro conjI ballI impI)
    fix r assume r: "r \<in> set rows" "in_event_window d r"
    show "proven_distinct d ch src r \<or>
      \<not> counterparty_match (t_counterparty r) (d_counterparty d) \<and>
      ((\<exists>c \<in> set rows. in_event_window d c \<and> counterparty_match (t_counterparty c) (d_counterparty d) \<and>
          proven_distinct d ch src c) \<or>
       day_only rows d \<and> \<not> card_payment_mask_match r d \<and>
         ((\<exists>c \<in> set rows. in_event_window d c \<and> card_payment_mask_match c d \<and> proven_distinct d ch src c) \<or>
          \<not> no_field_identifies r d))"
    proof (cases "r \<in> set ?g")
      case False
      then show ?thesis
        using gather_leaves_out [OF r False]
          ex [of "\<lambda>c. counterparty_match (t_counterparty c) (d_counterparty d)"] ex [of "\<lambda>c. card_payment_mask_match c d"]
        by meson
    qed (use p in blast)
  qed (use match_decision_insert(1) [OF i] in blast)
qed

theorem find_match_insert_certificate_witness:
  "let r = demo_row\<lparr>t_reference_number := Some ''999988887777'', t_source := Some ''sms''\<rparr> in
   fst (find_match [r] demo_data Sms (Some 3)) = Insert \<and> in_event_window demo_data r \<and>
   proven_distinct demo_data Sms (Some 3) r"
proof -
  let ?r = "demo_row\<lparr>t_reference_number := Some ''999988887777'', t_source := Some ''sms''\<rparr>"
  have i: "fst (find_match [?r] demo_data Sms (Some 3)) = Insert"
    and w: "in_event_window demo_data ?r" "counterparty_match (t_counterparty ?r) (d_counterparty demo_data)"
    by code_simp+
  have "find_match [?r] demo_data Sms (Some 3) = (Insert, snd (find_match [?r] demo_data Sms (Some 3)))"
    using i by (simp add: prod_eq_iff)
  from find_match_insert_certificate [OF this] i w show ?thesis
    by (auto simp: Let_def)
qed

definition bounded_evidence :: "transaction list \<Rightarrow> match_evidence \<Rightarrow> bool" where
  "bounded_evidence rows e \<longleftrightarrow> length (ev_candidate_ids e) \<le> 10 \<and>
     set (ev_candidate_ids e) \<subseteq> t_id ` set rows \<and>
     ev_truncated e = (length (ev_candidate_ids e) < ev_observed e)"

lemma bounded_record_evidence:
  "set cs \<subseteq> set rows \<Longrightarrow> bounded_evidence rows (record_match_evidence p cs gs r)"
  using set_take_subset [of 10 cs]
  by (auto simp: bounded_evidence_def record_match_evidence_def MATCH_EVIDENCE_LIMIT_def)

lemma bounded_evidence_reason [simp]:
  "bounded_evidence rows (e\<lparr>ev_reason := r\<rparr>) = bounded_evidence rows e"
  by (simp add: bounded_evidence_def)

lemma bounded_reference_evidence:
  assumes "match_by_reference rows d = Some x"
  shows "bounded_evidence rows (snd x)"
proof -
  define ref where "ref = strip (or_empty (d_reference_number d))"
  define rs where "rs = reference_rows rows d ref"
  have "set rs \<subseteq> set rows"
    using reference_rows_mem rs_def by blast
  then have b: "bounded_evidence rows (record_match_evidence Reference_path rs gs w)" for gs w
    by (rule bounded_record_evidence)
  show ?thesis
  proof (cases rs rule: none_one_many)
    case (one r)
    show ?thesis
      using assms unfolding match_by_reference_def Let_def ref_def [symmetric] rs_def [symmetric] one
      by (auto simp: b [unfolded one] split: if_splits)
  next
    case none
    show ?thesis
      using assms unfolding match_by_reference_def Let_def ref_def [symmetric] rs_def [symmetric] none
      by (auto simp: b [unfolded none] split: if_splits)
  next
    case (many v vb vc)
    show ?thesis
      using assms unfolding match_by_reference_def Let_def ref_def [symmetric] rs_def [symmetric] many
      by (auto simp: b [unfolded many] split: if_splits)
  qed
qed

lemma bounded_alias_evidence: "bounded_evidence rows (snd (find_am_pm_alias rows d x tm))"
  unfolding find_am_pm_alias_def Let_def
  by (auto intro!: bounded_record_evidence)

lemma bounded_match_by_alias: "bounded_evidence rows (snd (match_by_alias rows d))"
  using bounded_alias_evidence [of rows d]
  by (simp add: match_by_alias_def bounded_record_evidence split: option.split prod.split)
     (metis snd_conv)

text \<open>The evidence kept with a decision never names more than ten rows, every one of them a
  stored row, while the true number of candidates is still reported.\<close>

theorem find_match_evidence_bounded:
  "length (ev_candidate_ids (snd (find_match rows d ch src))) \<le> 10 \<and>
   set (ev_candidate_ids (snd (find_match rows d ch src))) \<subseteq> t_id ` set rows \<and>
   ev_truncated (snd (find_match rows d ch src)) =
     (length (ev_candidate_ids (snd (find_match rows d ch src))) <
      ev_observed (snd (find_match rows d ch src)))"
proof -
  have g: "set (gather_fuzzy_candidates rows d None) \<subseteq> set rows"
    using gather_fuzzy_mem(1) by blast
  have "bounded_evidence rows (snd (find_match rows d ch src))"
  proof (cases "match_by_reference rows d")
    case (Some x)
    then show ?thesis using bounded_reference_evidence [OF Some] by (simp add: find_match_def)
  next
    case None
    then show ?thesis
      using bounded_match_by_alias [of rows d] bounded_record_evidence [OF g]
      by (simp add: find_match_def Let_def)
  qed
  then show ?thesis by (simp add: bounded_evidence_def)
qed

end
