(* ===== verification/Cat_Text.thy ===== *)
theory Cat_Text
  imports Models Masks
begin

text \<open>
  The text layer of \<open>services/categorization\<close>: \<open>normalize.py\<close> (the comparison forms of a
  narration and of a counterparty), \<open>slugs.py\<close>, the slug half of \<open>vocabulary.py\<close>
  (\<open>canonicalize_slug\<close>, \<open>is_valid_slug\<close>), the direction guard of \<open>polarity.py\<close>, and the
  content hash of \<open>hashing.py\<close>, whose digest (JSON and SHA-256) is a parameter.
\<close>

section \<open>\<open>normalize.py\<close>\<close>

text \<open>\<open>re.sub("[P]+", r, s)\<close>: every maximal run of characters of the class becomes \<open>r\<close>.\<close>

function sub_runs :: "(char \<Rightarrow> bool) \<Rightarrow> string \<Rightarrow> string \<Rightarrow> string" where
  "sub_runs P r [] = []"
| "sub_runs P r (c # cs) = (if P c then r @ sub_runs P r (dropWhile P cs) else c # sub_runs P r cs)"
  by pat_completeness auto
termination
  by (relation "measure (\<lambda>(P, r, s). length s)") (auto simp: le_imp_less_Suc length_dropWhile_le)

definition is_lower_ascii :: "char \<Rightarrow> bool" where
  "is_lower_ascii c \<longleftrightarrow> 97 \<le> code c \<and> code c \<le> 122"

definition is_slug_ch :: "char \<Rightarrow> bool" where
  "is_slug_ch c \<longleftrightarrow> is_lower_ascii c \<or> is_ascii_digit c"

definition normalize_text :: "string option \<Rightarrow> string" where
  "normalize_text s = (if \<not> truthy s then []
     else join_sp (split_ws (sub_runs (\<lambda>c. \<not> (is_slug_ch c \<or> c = CHR '' '')) '' ''
       (lower (or_empty s)))))"

definition normalize_counterparty :: "string option \<Rightarrow> string" where
  "normalize_counterparty s = (if \<not> truthy s then [] else filter is_alnum (lower (or_empty s)))"

section \<open>\<open>slugs.py\<close> and the vocabulary's slugs\<close>

definition REPAYMENT_SLUG :: string where "REPAYMENT_SLUG = ''repayment''"
definition CREDIT_CARD_PAYMENT_SLUG :: string where "CREDIT_CARD_PAYMENT_SLUG = ''credit_card_payment''"
definition REFUND_SLUG :: string where "REFUND_SLUG = ''refund''"
definition UNKNOWN_SLUG :: string where "UNKNOWN_SLUG = ''unknown''"
definition CREDIT_CARD_ACCOUNT_TYPE :: string where "CREDIT_CARD_ACCOUNT_TYPE = ''credit_card''"

definition strip_ch :: "char \<Rightarrow> string \<Rightarrow> string" where
  "strip_ch x s = rev (dropWhile (\<lambda>c. c = x) (rev (dropWhile (\<lambda>c. c = x) s)))"

definition canonicalize_slug :: "string \<Rightarrow> string" where
  "canonicalize_slug raw =
     strip_ch CHR ''_'' (sub_runs (\<lambda>c. \<not> is_slug_ch c) ''_'' (lower (strip raw)))"

text \<open>\<open>SLUG_RE = ^[a-z][a-z0-9_]{1,40}$\<close>. Python's \<open>$\<close> also matches just before a final
  newline.\<close>

definition slug_shape :: "string \<Rightarrow> bool" where
  "slug_shape s = (case s of [] \<Rightarrow> False
     | c # cs \<Rightarrow> is_lower_ascii c \<and> list_all (\<lambda>x. is_slug_ch x \<or> x = CHR ''_'') cs \<and>
         1 \<le> length cs \<and> length cs \<le> 40)"

definition is_valid_slug :: "string \<Rightarrow> bool" where
  "is_valid_slug s \<longleftrightarrow> slug_shape s \<or>
     (s \<noteq> [] \<and> last s = CHR 0x0A \<and> slug_shape (butlast s))"

definition SEED_CATEGORIES :: "string list" where
  "SEED_CATEGORIES = [''salary'', ''interest'', ''refund'', ''cashback_rewards'', ''reimbursement'',
     ''other_income'', ''repayment'', ''expense'', ''investment'', ''investment_redemption'',
     ''self_transfer'', ''family'', ''credit_card_payment'', ''bill_payment'', ''groceries'',
     ''dining'', ''fuel'', ''car_maintenance'', ''transport'', ''shopping'', ''utilities'',
     ''subscriptions'', ''rent'', ''emi_loan'', ''insurance'', ''healthcare'', ''entertainment'',
     ''travel'', ''education'', ''personal_care'', ''fees_charges'', ''tax'', ''tax_refund'',
     ''cash_withdrawal'', ''charity_gift'', ''gift'', ''misc'', ''unknown'']"

section \<open>\<open>polarity.py\<close>\<close>

definition EXPENSE_SLUGS :: "string list" where
  "EXPENSE_SLUGS = [''expense'', ''bill_payment'', ''groceries'', ''dining'', ''fuel'',
     ''car_maintenance'', ''transport'', ''shopping'', ''utilities'', ''subscriptions'', ''rent'',
     ''emi_loan'', ''insurance'', ''healthcare'', ''entertainment'', ''travel'', ''education'',
     ''personal_care'', ''fees_charges'', ''tax'', ''cash_withdrawal'', ''charity_gift'', ''gift'']"

definition INCOME_SLUGS :: "string list" where
  "INCOME_SLUGS = [''salary'', ''interest'', ''refund'', ''cashback_rewards'', ''other_income'',
     ''repayment'', ''investment_redemption'', ''tax_refund'']"

definition DEBIT_DEFAULT :: string where "DEBIT_DEFAULT = ''expense''"
definition CREDIT_DEFAULT :: string where "CREDIT_DEFAULT = REPAYMENT_SLUG"
definition CC_CREDIT_DEFAULT :: string where "CC_CREDIT_DEFAULT = CREDIT_CARD_PAYMENT_SLUG"

definition CC_IMPOSSIBLE_CREDIT_SLUGS :: "string list" where
  "CC_IMPOSSIBLE_CREDIT_SLUGS = [REPAYMENT_SLUG, ''salary'', ''other_income'', ''interest'']"

definition resolve_direction :: "string \<Rightarrow> string \<Rightarrow> string option \<Rightarrow> string \<times> bool" where
  "resolve_direction slug direction account_type =
     (if direction = ''debit'' then
        (if slug \<in> set INCOME_SLUGS \<or> slug = UNKNOWN_SLUG then (DEBIT_DEFAULT, True) else (slug, False))
      else if direction = ''credit'' then
        (if account_type = Some CREDIT_CARD_ACCOUNT_TYPE then
           (if slug \<in> set EXPENSE_SLUGS \<or> slug \<in> set CC_IMPOSSIBLE_CREDIT_SLUGS \<or> slug = UNKNOWN_SLUG
            then (CC_CREDIT_DEFAULT, True) else (slug, False))
         else if slug \<in> set EXPENSE_SLUGS \<or> slug = UNKNOWN_SLUG then (CREDIT_DEFAULT, True)
         else (slug, False))
      else (slug, False))"

section \<open>\<open>hashing.py\<close>\<close>

record input_payload =
  p_raw_description :: string
  p_counterparty :: string
  p_direction :: string
  p_amount :: rat
  p_currency :: string
  p_channel :: string
  p_bank :: string
  p_email_type :: string
  p_account_type :: string

definition build_input_payload :: "transaction \<Rightarrow> string option \<Rightarrow> input_payload" where
  "build_input_payload t account_type =
     \<lparr>p_raw_description = normalize_text (t_raw_description t),
      p_counterparty = normalize_counterparty (t_counterparty t),
      p_direction = t_direction t, p_amount = t_amount t,
      p_currency = (if truthy (t_currency t) then or_empty (t_currency t) else ''INR''),
      p_channel = or_empty (t_channel t), p_bank = t_bank t, p_email_type = t_email_type t,
      p_account_type = or_empty account_type\<rparr>"

section \<open>Lemmas\<close>

lemmas slug_names = REPAYMENT_SLUG_def CREDIT_CARD_PAYMENT_SLUG_def REFUND_SLUG_def
  UNKNOWN_SLUG_def CREDIT_CARD_ACCOUNT_TYPE_def DEBIT_DEFAULT_def CREDIT_DEFAULT_def
  CC_CREDIT_DEFAULT_def CC_IMPOSSIBLE_CREDIT_SLUGS_def

text \<open>Which slugs a direction and an account type admit at all.\<close>

definition admissible :: "string \<Rightarrow> string \<Rightarrow> string option \<Rightarrow> bool" where
  "admissible slug direction account_type \<longleftrightarrow>
     (direction = ''debit'' \<longrightarrow> slug \<notin> set INCOME_SLUGS \<and> slug \<noteq> UNKNOWN_SLUG) \<and>
     (direction = ''credit'' \<longrightarrow> slug \<notin> set EXPENSE_SLUGS \<and> slug \<noteq> UNKNOWN_SLUG) \<and>
     (direction = ''credit'' \<and> account_type = Some CREDIT_CARD_ACCOUNT_TYPE \<longrightarrow>
        slug \<notin> set CC_IMPOSSIBLE_CREDIT_SLUGS)"

lemma defaults_admissible:
  "admissible DEBIT_DEFAULT ''debit'' a" "admissible CC_CREDIT_DEFAULT ''credit'' a"
  "a \<noteq> Some CREDIT_CARD_ACCOUNT_TYPE \<Longrightarrow> admissible CREDIT_DEFAULT ''credit'' a"
  by (auto simp: admissible_def slug_names INCOME_SLUGS_def EXPENSE_SLUGS_def)

text \<open>The guard is the projection onto the admissible slugs: its answer is always admissible
  for the direction and the account, it says \<open>changed\<close> exactly when the slug was not, it
  leaves an admissible slug alone, and applying it again changes nothing.\<close>

theorem resolve_direction_projection:
  "admissible (fst (resolve_direction slug dir acct)) dir acct \<and>
   snd (resolve_direction slug dir acct) = (\<not> admissible slug dir acct) \<and>
   (\<not> snd (resolve_direction slug dir acct)) = (fst (resolve_direction slug dir acct) = slug) \<and>
   resolve_direction (fst (resolve_direction slug dir acct)) dir acct =
     (fst (resolve_direction slug dir acct), False)"
proof -
  have r: "resolve_direction slug dir acct = (if admissible slug dir acct then (slug, False)
      else if dir = ''debit'' then (DEBIT_DEFAULT, True)
      else if acct = Some CREDIT_CARD_ACCOUNT_TYPE then (CC_CREDIT_DEFAULT, True)
      else (CREDIT_DEFAULT, True))" for slug
    by (auto simp: resolve_direction_def admissible_def)
  have d: "\<not> admissible slug dir acct \<Longrightarrow> dir \<noteq> ''debit'' \<Longrightarrow> dir = ''credit''"
    by (auto simp: admissible_def)
  have "fst (resolve_direction slug dir acct) = slug \<and> admissible slug dir acct \<or>
      fst (resolve_direction slug dir acct) \<noteq> slug \<and> \<not> admissible slug dir acct \<and>
      admissible (fst (resolve_direction slug dir acct)) dir acct"
    using d defaults_admissible by (auto simp: r)
  then show ?thesis by (auto simp: r)
qed

subsection \<open>Replacing runs\<close>

lemma set_sub_runs: "set (sub_runs P r s) \<subseteq> {c \<in> set s. \<not> P c} \<union> set r"
proof (induction P r s rule: sub_runs.induct)
  case (2 P r c cs)
  have d: "set (dropWhile P cs) \<subseteq> set cs" by (auto dest: set_dropWhileD)
  show ?case
  proof (cases "P c")
    case True
    then show ?thesis using 2(1) d by auto
  next
    case False
    then show ?thesis using 2(2) by auto
  qed
qed simp

lemma sub_runs_none: "\<forall>c \<in> set s. \<not> P c \<Longrightarrow> sub_runs P r s = s"
  by (induction s) auto

lemma dropWhile_hd: "s \<noteq> [] \<Longrightarrow> \<not> P (hd s) \<Longrightarrow> dropWhile P s = s"
  by (cases s) auto

lemma hd_strip_ch: "strip_ch x s \<noteq> [] \<Longrightarrow> hd (strip_ch x s) \<noteq> x \<and> last (strip_ch x s) \<noteq> x"
proof -
  assume n: "strip_ch x s \<noteq> []"
  define u where "u = dropWhile (\<lambda>c. c = x) s"
  define v where "v = dropWhile (\<lambda>c. c = x) (rev u)"
  have s: "strip_ch x s = rev v" by (simp add: strip_ch_def u_def v_def)
  then have "v \<noteq> []" using n by auto
  then have "hd v \<noteq> x" unfolding v_def using hd_dropWhile by blast
  moreover have "last v \<noteq> x"
  proof -
    have "last v = last (rev u)"
      using \<open>v \<noteq> []\<close> unfolding v_def by (metis last_appendR takeWhile_dropWhile_id)
    moreover have "u \<noteq> []" using \<open>v \<noteq> []\<close> by (auto simp: v_def)
    moreover have "hd u \<noteq> x" using \<open>u \<noteq> []\<close> unfolding u_def using hd_dropWhile by blast
    ultimately show ?thesis by (simp add: last_rev)
  qed
  ultimately show ?thesis by (simp add: s \<open>v \<noteq> []\<close> hd_rev last_rev)
qed

lemma set_strip_ch: "set (strip_ch x s) \<subseteq> set s"
  unfolding strip_ch_def by (metis set_dropWhileD set_rev subsetI)

lemma strip_ch_id: "s = [] \<or> hd s \<noteq> x \<and> last s \<noteq> x \<Longrightarrow> strip_ch x s = s"
  by (cases "s = []") (auto simp: strip_ch_def dropWhile_hd hd_rev)


lemma sublist_strip_ch: "sublist (strip_ch x s) s"
proof -
  have d: "sublist (dropWhile (\<lambda>c. c = x) t) t" for t
    by (metis sublist_append_leftI sublist_order.order_refl takeWhile_dropWhile_id)
  have "sublist (strip_ch x s) (rev (rev (dropWhile (\<lambda>c. c = x) s)))"
    unfolding strip_ch_def by (subst sublist_rev) (rule d)
  then show ?thesis using d sublist_order.order_trans by fastforce
qed

lemma sub_runs_fixed:
  assumes "\<And>a b. sublist [a, b] u \<Longrightarrow> \<not> (P a \<and> P b)" and "\<forall>c \<in> set u. P c \<longrightarrow> c = x"
  shows "sub_runs P [x] u = u"
  using assms
proof (induction u)
  case (Cons c cs)
  have ih: "sub_runs P [x] cs = cs"
    using Cons.prems by (intro Cons.IH) (auto simp: sublist_Cons_right)
  show ?case
  proof (cases cs)
    case Nil
    then show ?thesis using Cons.prems(2) by auto
  next
    case (Cons e es)
    have "sublist [c, e] (c # cs)" unfolding Cons by (simp add: sublist_Cons_right)
    then have "P c \<Longrightarrow> \<not> P e" using Cons.prems(1) by blast
    then show ?thesis using ih Cons.prems(2) Cons by auto
  qed
qed simp

lemma hd_sub_runs_dropWhile:
  "sub_runs P r (dropWhile P s) = [] \<or> \<not> P (hd (sub_runs P r (dropWhile P s)))"
proof (cases "dropWhile P s")
  case (Cons c cs)
  then have "\<not> P c" by (simp add: dropWhile_eq_Cons_conv)
  then show ?thesis by (simp add: Cons)
next
  case Nil
  show ?thesis unfolding Nil by simp
qed

lemma sub_runs_no_adjacent: "sublist [a, b] (sub_runs P [x] s) \<Longrightarrow> \<not> (P a \<and> P b)"
proof (induction P "[x]" s rule: sub_runs.induct)
  case (2 P c cs)
  show ?case
  proof (cases "P c")
    case True
    then show ?thesis
      using 2 hd_sub_runs_dropWhile [of P "[x]" cs]
      by (cases "sub_runs P [x] (dropWhile P cs)") (auto simp: sublist_Cons_right)
  next
    case False
    then show ?thesis using 2 by (auto simp: sublist_Cons_right)
  qed
qed simp

definition slug_clean :: "string \<Rightarrow> bool" where
  "slug_clean s \<longleftrightarrow> list_all (\<lambda>c. is_slug_ch c \<or> c = CHR ''_'') s \<and>
     (s \<noteq> [] \<longrightarrow> hd s \<noteq> CHR ''_'' \<and> last s \<noteq> CHR ''_'') \<and> \<not> sublist ''__'' s"

lemma not_slug_underscore [simp]: "\<not> is_slug_ch CHR ''_''"
  by (simp add: is_slug_ch_def is_lower_ascii_def is_ascii_digit_def code_def)

lemma slug_ch_facts: "is_slug_ch c \<Longrightarrow> \<not> is_space c \<and> lower_ch c = c"
  by (auto simp: is_slug_ch_def is_lower_ascii_def is_ascii_digit_def is_space_def lower_ch_def Let_def)

lemma lower_id: "\<forall>c \<in> set s. lower_ch c = c \<Longrightarrow> lower s = s"
  by (simp add: lower_def map_idI)

lemma strip_id: "\<forall>c \<in> set s. \<not> is_space c \<Longrightarrow> strip s = s"
  by (cases "s = []") (auto simp: strip_def lstrip_def dropWhile_hd hd_rev)

lemma canonical_clean: "slug_clean (canonicalize_slug raw)"
proof -
  define P where "P = (\<lambda>c. \<not> is_slug_ch c)"
  define u where "u = sub_runs P [CHR ''_''] (lower (strip raw))"
  have c: "canonicalize_slug raw = strip_ch CHR ''_'' u"
    by (simp add: canonicalize_slug_def u_def P_def)
  have "set u \<subseteq> {c. is_slug_ch c} \<union> {CHR ''_''}"
    unfolding u_def using set_sub_runs [of P "[CHR ''_'']"] by (fastforce simp: P_def)
  then have "list_all (\<lambda>c. is_slug_ch c \<or> c = CHR ''_'') (strip_ch CHR ''_'' u)"
    using set_strip_ch [of "CHR ''_''" u] by (fastforce simp: list_all_iff)
  moreover have "\<not> sublist ''__'' (strip_ch CHR ''_'' u)"
  proof
    assume "sublist ''__'' (strip_ch CHR ''_'' u)"
    then have "sublist ''__'' u" using sublist_strip_ch sublist_order.order_trans by blast
    then show False
      unfolding u_def using sub_runs_no_adjacent [of "CHR ''_''" "CHR ''_''" P]
      by (auto simp: P_def)
  qed
  ultimately show ?thesis using hd_strip_ch [of "CHR ''_''" u] by (simp add: slug_clean_def c)
qed

lemma clean_canonical: 
  assumes "slug_clean s"
  shows "canonicalize_slug s = s"
proof -
  have m: "is_slug_ch c \<or> c = CHR ''_''" if "c \<in> set s" for c
    using assms that by (auto simp: slug_clean_def list_all_iff)
  have "\<not> is_space CHR ''_''" "lower_ch CHR ''_'' = CHR ''_''"
    by (simp_all add: is_space_def lower_ch_def code_def Let_def)
  then have "lower (strip s) = s"
    using m slug_ch_facts by (metis lower_id strip_id)
  moreover have "sub_runs (\<lambda>c. \<not> is_slug_ch c) [CHR ''_''] s = s"
  proof (rule sub_runs_fixed)
    fix a b assume ab: "sublist [a, b] s"
    then have "a \<in> set s" "b \<in> set s" using set_mono_sublist by fastforce+
    then show "\<not> (\<not> is_slug_ch a \<and> \<not> is_slug_ch b)"
      using m ab assms by (metis slug_clean_def)
  qed (use m in auto)
  moreover have "strip_ch CHR ''_'' s = s"
    using assms by (intro strip_ch_id) (auto simp: slug_clean_def)
  ultimately show ?thesis by (simp add: canonicalize_slug_def)
qed

text \<open>\<open>canonicalize_slug\<close> is a normal form: what it returns consists of lower-case ASCII
  letters, digits and single inner underscores, exactly the strings of that form are its
  fixed points, and it is idempotent. A seed category is its own canonical form, and every
  one of them is a valid slug.\<close>

theorem canonicalize_slug_normal_form:
  "slug_clean (canonicalize_slug raw) \<and>
   canonicalize_slug (canonicalize_slug raw) = canonicalize_slug raw \<and>
   (canonicalize_slug raw = raw) = slug_clean raw \<and>
   map canonicalize_slug SEED_CATEGORIES = SEED_CATEGORIES \<and>
   list_all is_valid_slug SEED_CATEGORIES"
proof -
  have c: "list_all slug_clean SEED_CATEGORIES" and "list_all slug_shape SEED_CATEGORIES"
    by code_simp+
  then have "list_all is_valid_slug SEED_CATEGORIES"
    by (simp add: list_all_iff is_valid_slug_def)
  moreover have "map canonicalize_slug SEED_CATEGORIES = SEED_CATEGORIES"
    using c clean_canonical by (intro map_idI) (simp add: list_all_iff)
  moreover have "canonicalize_slug (canonicalize_slug raw) = canonicalize_slug raw"
    by (rule clean_canonical [OF canonical_clean])
  moreover have "(canonicalize_slug raw = raw) = slug_clean raw"
    using canonical_clean [of raw] clean_canonical [of raw] by auto
  ultimately show ?thesis using canonical_clean [of raw] by blast
qed

text \<open>The anchor of \<open>SLUG_RE\<close> lets one line feed through: what the pattern accepts besides
  the intended slugs is exactly a slug followed by a line feed.\<close>

lemma is_valid_slug_newline:
  "is_valid_slug (s @ [CHR 0x0A]) \<longleftrightarrow> slug_shape s"
proof -
  have "\<not> slug_shape (s @ [CHR 0x0A])"
    by (cases s) (auto simp: slug_shape_def is_slug_ch_def is_lower_ascii_def is_ascii_digit_def
        code_def)
  then show ?thesis by (simp add: is_valid_slug_def)
qed

end
