(* ===== verification/Self_Transfer.thy ===== *)
theory Self_Transfer
  imports Cat_Text
begin

text \<open>
  \<open>services/categorization/self_transfer.py\<close>: two stored legs of opposite direction that carry
  the same reference and belong to different accounts are one movement of the owner's own
  money. The rule reads and writes the transaction table; \<open>cat_env\<close> holds what it takes from
  outside the row: the digest function, the vocabulary version of the settings, the clock.
  \<open>is_fd_counterparty\<close> is from \<open>rules.py\<close>.
\<close>

section \<open>The rule\<close>

record cat_env =
  env_hash :: "input_payload \<Rightarrow> string"
  env_vocab :: int
  env_now :: datetime

definition is_fd_counterparty :: "string option \<Rightarrow> string option \<Rightarrow> bool" where
  "is_fd_counterparty counterparty bank = (let bank_norm = lower (strip (or_empty bank)) in
     if bank_norm = [] then False
     else lower (strip (or_empty counterparty)) = bank_norm @ '' fd'')"

definition REFERENCE_PAIR_RULESET_VERSION :: string where
  "REFERENCE_PAIR_RULESET_VERSION = ''reference-pair-v1''"

definition OPPOSITE_DIRECTION :: "string \<Rightarrow> string option" where
  "OPPOSITE_DIRECTION d = (if d = ''credit'' then Some ''debit''
     else if d = ''debit'' then Some ''credit'' else None)"

definition MIN_ACCOUNT_MASK_DIGITS :: nat where
  "MIN_ACCOUNT_MASK_DIGITS = 3"

definition account_type_of :: "db \<Rightarrow> transaction \<Rightarrow> string option" where
  "account_type_of s t = (case t_account_id t of None \<Rightarrow> None
     | Some i \<Rightarrow> map_option a_type (get_account s i))"

definition different_accounts :: "transaction \<Rightarrow> transaction \<Rightarrow> bool" where
  "different_accounts x y = (case (t_account_id x, t_account_id y) of
     (Some i, Some j) \<Rightarrow> i \<noteq> j
   | _ \<Rightarrow> let f = mask_digits (t_account_mask x); g = mask_digits (t_account_mask y) in
       if length f < MIN_ACCOUNT_MASK_DIGITS \<or> length g < MIN_ACCOUNT_MASK_DIGITS then False
       else \<not> (suffix g f \<or> suffix f g))"

definition already_marked :: "cat_env \<Rightarrow> string \<Rightarrow> transaction \<Rightarrow> bool" where
  "already_marked env h t \<longleftrightarrow> t_category t = Some ''self_transfer'' \<and>
     t_category_method t = Some ''rule'' \<and> t_category_confidence t = Some 1 \<and>
     t_category_model t = Some REFERENCE_PAIR_RULESET_VERSION \<and>
     t_category_input_hash t = Some h \<and> t_category_vocab_version t = Some (env_vocab env) \<and>
     t_review_status t = None \<and> t_review_reason t = None"

definition mark_self_transfer :: "cat_env \<Rightarrow> db \<Rightarrow> transaction \<Rightarrow> transaction" where
  "mark_self_transfer env s t =
     (let h = env_hash env (build_input_payload t (account_type_of s t)) in
      if already_marked env h t then t
      else t\<lparr>t_category := Some ''self_transfer'', t_category_method := Some ''rule'',
             t_category_confidence := Some 1,
             t_category_model := Some REFERENCE_PAIR_RULESET_VERSION,
             t_category_input_hash := Some h, t_category_vocab_version := Some (env_vocab env),
             t_categorized_at := Some (env_now env), t_review_status := None,
             t_review_reason := None\<rparr>)"

definition self_transfer_matches :: "db \<Rightarrow> transaction \<Rightarrow> transaction list" where
  "self_transfer_matches s t =
     (if is_fd_counterparty (t_counterparty t) (Some (t_bank t)) then []
      else case (t_reference_number t, OPPOSITE_DIRECTION (t_direction t)) of
        (Some r, Some opposite) \<Rightarrow>
          if strip r = [] then []
          else filter (\<lambda>m. different_accounts t m \<and>
                 \<not> is_fd_counterparty (t_counterparty m) (Some (t_bank m)))
               (filter (\<lambda>m. t_reference_number m = Some r \<and> t_direction m = opposite)
                 (transactions s))
      | _ \<Rightarrow> [])"

definition apply_reference_self_transfer_rule ::
  "cat_env \<Rightarrow> db \<Rightarrow> transaction \<Rightarrow> bool \<times> db" where
  "apply_reference_self_transfer_rule env s t =
     (let ms = self_transfer_matches s t in
      if ms = [] then (False, s)
      else (True, fold (\<lambda>m s'. put_txn (mark_self_transfer env s m) s') (t # ms) s))"

section \<open>What it does\<close>

lemma different_accounts_sym: "different_accounts x y = different_accounts y x"
  by (auto simp: different_accounts_def Let_def split: option.split)

lemma different_accounts_irrefl [simp]: "\<not> different_accounts x x"
  by (auto simp: different_accounts_def Let_def split: option.split)

lemma OPPOSITE_DIRECTION_involution:
  "OPPOSITE_DIRECTION d = Some e \<Longrightarrow> OPPOSITE_DIRECTION e = Some d \<and> e \<noteq> d"
  by (auto simp: OPPOSITE_DIRECTION_def split: if_splits)

definition self_transfer_pair :: "transaction \<Rightarrow> transaction \<Rightarrow> bool" where
  "self_transfer_pair t m \<longleftrightarrow>
     t_reference_number t = t_reference_number m \<and> strip (or_empty (t_reference_number t)) \<noteq> [] \<and>
     OPPOSITE_DIRECTION (t_direction t) = Some (t_direction m) \<and> different_accounts t m \<and>
     \<not> is_fd_counterparty (t_counterparty t) (Some (t_bank t)) \<and>
     \<not> is_fd_counterparty (t_counterparty m) (Some (t_bank m))"

lemma set_self_transfer_matches:
  "set (self_transfer_matches s t) = {m \<in> set (transactions s). self_transfer_pair t m}"
  by (cases "t_reference_number t"; cases "OPPOSITE_DIRECTION (t_direction t)")
     (auto simp: self_transfer_matches_def self_transfer_pair_def)

lemma self_transfer_pair_sym: "self_transfer_pair t m = self_transfer_pair m t"
  by (auto simp: self_transfer_pair_def different_accounts_sym dest: OPPOSITE_DIRECTION_involution)

text \<open>Marking writes only the categorization columns, so it changes neither the key of the row
  nor anything the rule looks at.\<close>

lemma mark_keeps [simp]:
  "t_id (mark_self_transfer env s t) = t_id t"
  "t_reference_number (mark_self_transfer env s t) = t_reference_number t"
  "t_direction (mark_self_transfer env s t) = t_direction t"
  "t_account_id (mark_self_transfer env s t) = t_account_id t"
  "t_account_mask (mark_self_transfer env s t) = t_account_mask t"
  "t_counterparty (mark_self_transfer env s t) = t_counterparty t"
  "t_bank (mark_self_transfer env s t) = t_bank t"
  "t_raw_description (mark_self_transfer env s t) = t_raw_description t"
  "t_amount (mark_self_transfer env s t) = t_amount t"
  "t_currency (mark_self_transfer env s t) = t_currency t"
  "t_channel (mark_self_transfer env s t) = t_channel t"
  "t_email_type (mark_self_transfer env s t) = t_email_type t"
  "t_sms_message_id (mark_self_transfer env s t) = t_sms_message_id t"
  "t_email_id (mark_self_transfer env s t) = t_email_id t"
  "t_balance (mark_self_transfer env s t) = t_balance t"
  "t_source (mark_self_transfer env s t) = t_source t"
  "t_transaction_date (mark_self_transfer env s t) = t_transaction_date t"
  "t_transaction_time (mark_self_transfer env s t) = t_transaction_time t"
  "t_card_mask (mark_self_transfer env s t) = t_card_mask t"
  by (simp_all add: mark_self_transfer_def Let_def)

lemma build_input_payload_mark [simp]:
  "build_input_payload (mark_self_transfer env s t) a = build_input_payload t a"
  by (simp add: build_input_payload_def)

lemma pair_mark [simp]:
  "self_transfer_pair (mark_self_transfer env s t) m = self_transfer_pair t m"
  "self_transfer_pair t (mark_self_transfer env s m) = self_transfer_pair t m"
  by (simp_all add: self_transfer_pair_def different_accounts_def Let_def cong: option.case_cong)

lemma account_type_of_cong:
  "accounts s' = accounts s \<Longrightarrow> t_account_id t' = t_account_id t \<Longrightarrow> account_type_of s' t' = account_type_of s t"
  by (simp add: account_type_of_def get_account_def cong: option.case_cong)

lemma mark_self_transfer_db_cong:
  "accounts s' = accounts s \<Longrightarrow> mark_self_transfer env s' t = mark_self_transfer env s t"
  by (simp add: mark_self_transfer_def account_type_of_cong [of s' s t t])

lemma mark_idem [simp]:
  "mark_self_transfer env s (mark_self_transfer env s t) = mark_self_transfer env s t"
proof -
  let ?m = "mark_self_transfer env s t"
  let ?h = "env_hash env (build_input_payload t (account_type_of s t))"
  have "account_type_of s ?m = account_type_of s t" by (rule account_type_of_cong) simp_all
  then have "env_hash env (build_input_payload ?m (account_type_of s ?m)) = ?h" by simp
  moreover have "already_marked env ?h ?m"
    by (simp add: mark_self_transfer_def Let_def already_marked_def)
  ultimately show ?thesis by (simp add: mark_self_transfer_def [of env s ?m] Let_def)
qed

lemma fold_put_txn:
  assumes "\<And>m. m \<in> set ms \<Longrightarrow> t_id (f m) = t_id m" and "keys_ok s" and "set ms \<subseteq> set (transactions s)"
  shows "fold (\<lambda>m s'. put_txn (f m) s') ms s = s\<lparr>transactions :=
     map (\<lambda>r. if r \<in> set ms then f r else r) (transactions s)\<rparr>"
  using assms
proof (induction ms rule: rev_induct)
  case (snoc m ms)
  have ih: "fold (\<lambda>m s'. put_txn (f m) s') ms s = s\<lparr>transactions :=
     map (\<lambda>r. if r \<in> set ms then f r else r) (transactions s)\<rparr>"
    using snoc by auto
  have m: "m \<in> set (transactions s)" using snoc by simp
  have "(if t_id (if r \<in> set ms then f r else r) = t_id (f m) then f m
         else if r \<in> set ms then f r else r) =
        (if r \<in> set (ms @ [m]) then f r else r)" if "r \<in> set (transactions s)" for r
    using that m keys_ok_txn_eq [OF snoc.prems(2) that m] snoc.prems(1) by auto
  then have "put_txn (f m) (s\<lparr>transactions := map (\<lambda>r. if r \<in> set ms then f r else r) (transactions s)\<rparr>) =
      s\<lparr>transactions := map (\<lambda>r. if r \<in> set (ms @ [m]) then f r else r) (transactions s)\<rparr>"
    by (simp add: put_txn_def)
  then show ?case by (simp add: ih)
qed simp

text \<open>The rule in closed form: it maps the table, marking the row and its counterparts.\<close>

lemma apply_rule_closed:
  assumes "keys_ok s" "t \<in> set (transactions s)"
  shows "apply_reference_self_transfer_rule env s t =
    (let hit = (\<exists>m \<in> set (transactions s). self_transfer_pair t m) in
     (hit, s\<lparr>transactions := map (\<lambda>r. if hit \<and> (r = t \<or> self_transfer_pair t r)
        then mark_self_transfer env s r else r) (transactions s)\<rparr>))"
proof -
  let ?ms = "self_transfer_matches s t"
  have ms: "set ?ms = {m \<in> set (transactions s). self_transfer_pair t m}"
    by (rule set_self_transfer_matches)
  have e: "?ms = [] \<longleftrightarrow> \<not> (\<exists>m \<in> set (transactions s). self_transfer_pair t m)"
    using ms by (metis (mono_tags, lifting) empty_Collect_eq set_empty)
  have "fold (\<lambda>m s'. put_txn (mark_self_transfer env s m) s') (t # ?ms) s = s\<lparr>transactions :=
      map (\<lambda>r. if r \<in> set (t # ?ms) then mark_self_transfer env s r else r) (transactions s)\<rparr>"
    by (rule fold_put_txn) (use assms ms in auto)
  also have "\<dots> = s\<lparr>transactions := map (\<lambda>r. if r = t \<or> self_transfer_pair t r
      then mark_self_transfer env s r else r) (transactions s)\<rparr>"
    using ms by auto
  finally show ?thesis
    using e by (auto simp: apply_reference_self_transfer_rule_def Let_def simp del: fold_simps)
qed


text \<open>The reference rule. It fires exactly when the table holds a leg with the same nonblank
  reference, the opposite direction and a provably different account, neither leg being a
  fixed deposit. Then the row and every such leg are marked, and only the categorization
  columns of exactly those rows change; otherwise the table is untouched. Since the pairing
  is symmetric, it does not matter which leg arrives last.\<close>

theorem reference_rule_marks_pairs:
  assumes "keys_ok s" "t \<in> set (transactions s)"
  shows "fst (apply_reference_self_transfer_rule env s t) =
      (\<exists>m \<in> set (transactions s). self_transfer_pair t m) \<and>
    snd (apply_reference_self_transfer_rule env s t) = s\<lparr>transactions :=
      map (\<lambda>r. if (\<exists>m \<in> set (transactions s). self_transfer_pair t m) \<and> (r = t \<or> self_transfer_pair t r)
        then mark_self_transfer env s r else r) (transactions s)\<rparr> \<and>
    self_transfer_pair t m = self_transfer_pair m t \<and> \<not> self_transfer_pair t t"
  using apply_rule_closed [OF assms, of env] self_transfer_pair_sym [of t m]
  by (simp add: Let_def) (simp add: self_transfer_pair_def)

lemma apply_rule_idem:
  assumes "keys_ok s" "t \<in> set (transactions s)"
    and r: "apply_reference_self_transfer_rule env s t = (b, s')"
    and t': "t' \<in> set (transactions s')" "t_id t' = t_id t"
  shows "apply_reference_self_transfer_rule env s' t' = (b, s')"
proof -
  define f where "f = (\<lambda>r. if b \<and> (r = t \<or> self_transfer_pair t r)
    then mark_self_transfer env s r else r)"
  have c: "b = (\<exists>m \<in> set (transactions s). self_transfer_pair t m)"
    "s' = s\<lparr>transactions := map f (transactions s)\<rparr>"
    using r apply_rule_closed [OF assms(1,2), of env] by (auto simp: Let_def f_def)
  have fid: "t_id (f r) = t_id r" for r by (simp add: f_def)
  have fp: "self_transfer_pair (f u) (f v) = self_transfer_pair u v" for u v by (simp add: f_def)
  have k: "keys_ok s'" using assms(1) by (simp add: keys_ok_def c(2) fid comp_def)
  have tf: "t' = f t"
  proof -
    obtain u where u: "u \<in> set (transactions s)" "t' = f u" using t'(1) by (auto simp: c(2))
    then show ?thesis using keys_ok_txn_eq [OF assms(1) u(1) assms(2)] t'(2) by (simp add: fid)
  qed
  have b': "(\<exists>m \<in> set (transactions s'). self_transfer_pair t' m) = b"
    by (simp add: c tf fp)
  have "(if b \<and> (f r = t' \<or> self_transfer_pair t' (f r)) then mark_self_transfer env s' (f r) else f r) = f r"
    if m: "r \<in> set (transactions s)" for r
  proof -
    have "f r = t' \<longleftrightarrow> r = t"
      using keys_ok_txn_eq [OF assms(1) m assms(2)] fid [of r] fid [of t] tf by metis
    moreover have "mark_self_transfer env s' (f r) = mark_self_transfer env s (f r)"
      by (rule mark_self_transfer_db_cong) (simp add: c)
    ultimately show ?thesis by (simp add: tf fp) (simp add: f_def)
  qed
  then show ?thesis
    using apply_rule_closed [OF k t'(1), of env] b' by (simp add: Let_def c(2) comp_def)
qed

text \<open>Running the rule again on the row it has just marked changes nothing, not even the
  time of categorization, and gives the same answer: a replayed message is harmless.\<close>

theorem reference_rule_idempotent:
  assumes "keys_ok s" "t \<in> set (transactions s)"
    and "apply_reference_self_transfer_rule env s t = (b, s')"
    and "t' \<in> set (transactions s')" "t_id t' = t_id t"
  shows "apply_reference_self_transfer_rule env s' t' = (b, s')"
  using assms by (rule apply_rule_idem)

text \<open>Two legs of one IMPS transfer, for the witnesses.\<close>

definition demo_env :: cat_env where
  "demo_env = \<lparr>env_hash = p_bank, env_vocab = 1, env_now = 5\<rparr>"

definition legs_row :: "nat \<Rightarrow> string \<Rightarrow> string \<Rightarrow> transaction" where
  "legs_row i dir msk = blank_txn\<lparr>t_id := i, t_bank := ''hdfc'', t_direction := dir, t_amount := 900,
     t_account_mask := Some msk, t_reference_number := Some ''512345678901''\<rparr>"

definition legs_db :: db where
  "legs_db = empty_db\<lparr>transactions := [legs_row 11 ''debit'' ''XX1234'', legs_row 12 ''credit'' ''XX9876'',
     (legs_row 13 ''credit'' ''1234'')\<lparr>t_bank := ''icici''\<rparr>]\<rparr>"

theorem reference_rule_marks_pairs_witness:
  "map t_category (transactions (snd (apply_reference_self_transfer_rule demo_env legs_db
     (legs_row 11 ''debit'' ''XX1234'')))) = [Some ''self_transfer'', Some ''self_transfer'', None]"
proof -
  have 1: "keys_ok legs_db" and 2: "legs_row 11 ''debit'' ''XX1234'' \<in> set (transactions legs_db)"
    by code_simp+
  show ?thesis
    unfolding conjunct1 [OF conjunct2 [OF reference_rule_marks_pairs [OF 1 2]]]
    by code_simp
qed

theorem reference_rule_idempotent_witness:
  "let (b, s') = apply_reference_self_transfer_rule demo_env legs_db (legs_row 11 ''debit'' ''XX1234'')
   in b \<and> apply_reference_self_transfer_rule demo_env s' (hd (transactions s')) = (b, s')"
proof -
  have 1: "keys_ok legs_db" and 2: "legs_row 11 ''debit'' ''XX1234'' \<in> set (transactions legs_db)"
    by code_simp+
  define r where "r = apply_reference_self_transfer_rule demo_env legs_db (legs_row 11 ''debit'' ''XX1234'')"
  have 3: "fst r" "transactions (snd r) \<noteq> []" "t_id (hd (transactions (snd r))) = t_id (legs_row 11 ''debit'' ''XX1234'')"
    unfolding r_def by code_simp+
  have "apply_reference_self_transfer_rule demo_env legs_db (legs_row 11 ''debit'' ''XX1234'') = (fst r, snd r)"
    by (simp add: r_def)
  from reference_rule_idempotent [OF 1 2 this, of "hd (transactions (snd r))"] 3
  show ?thesis by (simp add: r_def [symmetric] case_prod_unfold prod_eq_iff)
qed

end
