(* ===== verification/Txn_Merge.thy ===== *)
theory Txn_Merge
  imports Txn_Match Self_Transfer
begin

text \<open>
  The writing half of \<open>services/txn_merge.py\<close> and \<open>services/email_attachments.py\<close>: what a second
  source may change in a stored row (\<open>compute_enrichment_diff\<close>), how a source slot is claimed
  (\<open>claim_transaction_source_slot\<close>), and \<open>merge_transaction\<close>, which inserts, enriches or
  defers. The columns the diff ranges over have different types, so a value is an \<open>fval\<close>
  and the loop of the code over field names is a loop over \<open>field\<close>.

  The unique index \<open>uq_transactions_ref\<close> is \<open>ref_index_ok\<close>; a statement that would break it
  fails with \<open>Duplicate_reference\<close>. A new row takes the next primary key.
\<close>

section \<open>Enrichment\<close>

datatype field = F_transaction_date | F_transaction_time | F_counterparty | F_card_mask
  | F_account_mask | F_reference_number | F_channel | F_balance | F_raw_description

datatype fval = V_date date | V_time time_of_day | V_str string | V_num rat

definition ENRICHMENT_FIELDS :: "field list" where
  "ENRICHMENT_FIELDS = [F_transaction_date, F_transaction_time, F_counterparty, F_card_mask,
     F_account_mask, F_reference_number, F_channel, F_balance, F_raw_description]"

definition MASK_FIELDS :: "field list" where
  "MASK_FIELDS = [F_card_mask, F_account_mask]"

text \<open>\<open>getattr(existing, f)\<close>, \<open>incoming[f]\<close>, \<open>setattr(match, f, v)\<close>.\<close>

fun get_field :: "transaction \<Rightarrow> field \<Rightarrow> fval option" where
  "get_field t F_transaction_date = map_option V_date (t_transaction_date t)"
| "get_field t F_transaction_time = map_option V_time (t_transaction_time t)"
| "get_field t F_counterparty = map_option V_str (t_counterparty t)"
| "get_field t F_card_mask = map_option V_str (t_card_mask t)"
| "get_field t F_account_mask = map_option V_str (t_account_mask t)"
| "get_field t F_reference_number = map_option V_str (t_reference_number t)"
| "get_field t F_channel = map_option V_str (t_channel t)"
| "get_field t F_balance = map_option V_num (t_balance t)"
| "get_field t F_raw_description = map_option V_str (t_raw_description t)"

fun data_field :: "txn_data \<Rightarrow> field \<Rightarrow> fval option" where
  "data_field d F_transaction_date = map_option V_date (d_transaction_date d)"
| "data_field d F_transaction_time = map_option V_time (d_transaction_time d)"
| "data_field d F_counterparty = map_option V_str (d_counterparty d)"
| "data_field d F_card_mask = map_option V_str (d_card_mask d)"
| "data_field d F_account_mask = map_option V_str (d_account_mask d)"
| "data_field d F_reference_number = map_option V_str (d_reference_number d)"
| "data_field d F_channel = map_option V_str (d_channel d)"
| "data_field d F_balance = map_option V_num (d_balance d)"
| "data_field d F_raw_description = map_option V_str (d_raw_description d)"

fun set_field :: "field \<Rightarrow> fval \<Rightarrow> transaction \<Rightarrow> transaction" where
  "set_field F_transaction_date (V_date x) t = t\<lparr>t_transaction_date := Some x\<rparr>"
| "set_field F_transaction_time (V_time x) t = t\<lparr>t_transaction_time := Some x\<rparr>"
| "set_field F_counterparty (V_str x) t = t\<lparr>t_counterparty := Some x\<rparr>"
| "set_field F_card_mask (V_str x) t = t\<lparr>t_card_mask := Some x\<rparr>"
| "set_field F_account_mask (V_str x) t = t\<lparr>t_account_mask := Some x\<rparr>"
| "set_field F_reference_number (V_str x) t = t\<lparr>t_reference_number := Some x\<rparr>"
| "set_field F_channel (V_str x) t = t\<lparr>t_channel := Some x\<rparr>"
| "set_field F_balance (V_num x) t = t\<lparr>t_balance := Some x\<rparr>"
| "set_field F_raw_description (V_str x) t = t\<lparr>t_raw_description := Some x\<rparr>"
| "set_field _ _ t = t"

record enrichment_diff =
  filled :: "(field \<times> fval) list"
  overwritten :: "(field \<times> (fval option \<times> fval)) list"

definition changed_fields :: "enrichment_diff \<Rightarrow> field list" where
  "changed_fields diff = map fst (filled diff) @ map fst (overwritten diff)"

fun as_str :: "fval \<Rightarrow> string option" where
  "as_str (V_str s) = Some s"
| "as_str _ = None"

definition is_information_downgrade :: "field \<Rightarrow> fval \<Rightarrow> fval \<Rightarrow> bool" where
  "is_information_downgrade f old_val new_val =
     (if f = F_counterparty then
        (let old_norm = normalize_cp (as_str old_val); new_norm = normalize_cp (as_str new_val)
         in new_norm \<noteq> [] \<and> sublist new_norm old_norm \<and> new_norm \<noteq> old_norm)
      else if f \<in> set MASK_FIELDS then
        (let old_digits = mask_digits (as_str old_val); new_digits = mask_digits (as_str new_val)
         in length new_digits < length old_digits \<and> suffix new_digits old_digits)
      else if f = F_raw_description then
        (let old_stripped = strip (or_empty (as_str old_val));
             new_stripped = strip (or_empty (as_str new_val))
         in new_stripped \<noteq> [] \<and> sublist new_stripped old_stripped \<and> new_stripped \<noteq> old_stripped)
      else False)"

definition incoming_time_is_earlier ::
  "transaction \<Rightarrow> txn_data \<Rightarrow> time_of_day \<Rightarrow> time_of_day \<Rightarrow> bool" where
  "incoming_time_is_earlier existing d new_time old_time =
     (let existing_date = t_transaction_date existing;
          incoming_date = (case d_transaction_date d of None \<Rightarrow> existing_date | Some x \<Rightarrow> Some x)
      in case (existing_date, incoming_date) of
        (Some e, Some i) \<Rightarrow> combine i new_time < combine e old_time
      | _ \<Rightarrow> new_time < old_time)"

text \<open>The two timing rules of the email branch, on the values of the columns concerned.\<close>

fun later_observation :: "transaction \<Rightarrow> txn_data \<Rightarrow> field \<Rightarrow> fval \<Rightarrow> fval \<Rightarrow> bool" where
  "later_observation existing d F_transaction_time (V_time old_t) (V_time new_t) =
     (\<not> incoming_time_is_earlier existing d new_t old_t)"
| "later_observation existing d F_transaction_date (V_date old_d) (V_date new_d) = (old_d < new_d)"
| "later_observation _ _ _ _ _ = False"

datatype field_action = Keep | Fill fval | Overwrite fval fval

definition field_rule :: "transaction \<Rightarrow> txn_data \<Rightarrow> channel \<Rightarrow> field \<Rightarrow> field_action" where
  "field_rule existing d ch f = (case data_field d f of
     None \<Rightarrow> Keep
   | Some new_val \<Rightarrow> (case get_field existing f of
       None \<Rightarrow> Fill new_val
     | Some old_val \<Rightarrow>
         if old_val = new_val then Keep
         else if f \<in> set MASK_FIELDS \<and> mask_digits (as_str old_val) = mask_digits (as_str new_val)
         then Keep
         else if ch = Email then
           (if later_observation existing d f old_val new_val then Keep
            else if is_information_downgrade f old_val new_val then Keep
            else Overwrite old_val new_val)
         else Keep))"

definition compute_enrichment_diff :: "transaction \<Rightarrow> txn_data \<Rightarrow> channel \<Rightarrow> enrichment_diff" where
  "compute_enrichment_diff existing d ch =
     \<lparr>filled = List.map_filter (\<lambda>f. case field_rule existing d ch f of
         Fill v \<Rightarrow> Some (f, v) | _ \<Rightarrow> None) ENRICHMENT_FIELDS,
      overwritten = List.map_filter (\<lambda>f. case field_rule existing d ch f of
         Overwrite ol nw \<Rightarrow> Some (f, (Some ol, nw)) | _ \<Rightarrow> None) ENRICHMENT_FIELDS\<rparr>"

definition compute_applied_enrichment_diff ::
  "transaction \<Rightarrow> txn_data \<Rightarrow> channel \<Rightarrow> match_kind \<Rightarrow> enrichment_diff" where
  "compute_applied_enrichment_diff existing d ch kind =
     (let diff = compute_enrichment_diff existing d ch in
      if kind = Am_pm_alias then
        (case d_transaction_time d of
           None \<Rightarrow> diff
         | Some new_time \<Rightarrow>
             if t_transaction_time existing \<noteq> Some new_time
             then diff\<lparr>overwritten := dict_put (overwritten diff) F_transaction_time
                    (map_option V_time (t_transaction_time existing), V_time new_time)\<rparr>
             else diff)
      else diff)"

section \<open>Claiming a source slot\<close>

fun slot_of :: "channel \<Rightarrow> transaction \<Rightarrow> nat option" where
  "slot_of Sms t = t_sms_message_id t"
| "slot_of Email t = t_email_id t"

fun fill_slot :: "channel \<Rightarrow> nat \<Rightarrow> transaction \<Rightarrow> transaction" where
  "fill_slot Sms i t = t\<lparr>t_sms_message_id := Some i\<rparr>"
| "fill_slot Email i t = t\<lparr>t_email_id := Some i\<rparr>"

definition update_txn :: "nat \<Rightarrow> (transaction \<Rightarrow> transaction) \<Rightarrow> db \<Rightarrow> db" where
  "update_txn i g s = s\<lparr>transactions := map (\<lambda>r. if t_id r = i then g r else r) (transactions s)\<rparr>"

datatype merge_error = Slot_conflict | Duplicate_reference

text \<open>\<open>t\<close> is the object the matcher returned, which may be older than the table. The UPDATE
  runs on the table, and its row count decides.\<close>

definition claim_transaction_source_slot ::
  "db \<Rightarrow> transaction \<Rightarrow> channel \<Rightarrow> nat option \<Rightarrow> merge_error + transaction \<times> db" where
  "claim_transaction_source_slot s t ch source_id = (case source_id of
     None \<Rightarrow> Inr (t, s)
   | Some i \<Rightarrow>
       if slot_of ch t \<noteq> None then Inr (t, s)
       else let hit = (\<lambda>r. t_id r = t_id t \<and> (slot_of ch r = None \<or> slot_of ch r = Some i));
                rowcount = length (filter hit (transactions s));
                s' = s\<lparr>transactions := map (\<lambda>r. if hit r then fill_slot ch i r else r) (transactions s)\<rparr>
       in if rowcount \<noteq> 1 then Inl Slot_conflict
          else Inr (fill_slot ch i t, s'))"

section \<open>Merging\<close>

definition ref_key :: "transaction \<Rightarrow> (string \<times> string \<times> string) option" where
  "ref_key t = map_option (\<lambda>r. (t_bank t, r, t_direction t)) (t_reference_number t)"

definition ref_index_ok :: "db \<Rightarrow> bool" where
  "ref_index_ok s \<longleftrightarrow> distinct (filter (\<lambda>k. k \<noteq> None) (map ref_key (transactions s)))"

text \<open>The assignments of \<open>apply_transaction_enrichment\<close> after the claim, as a function of the row
  they are written to; they are read off the object \<open>t\<close>.\<close>

definition enrich_row ::
  "datetime \<Rightarrow> transaction \<Rightarrow> txn_data \<Rightarrow> channel \<Rightarrow> enrichment_diff \<Rightarrow> transaction \<Rightarrow> transaction" where
  "enrich_row now t d ch diff r =
     (let r = fold (\<lambda>(f, v). set_field f v) (filled diff) r;
          r = fold (\<lambda>(f, (_, v)). set_field f v) (overwritten diff) r;
          r = (if F_transaction_time \<in> set (changed_fields diff)
               then r\<lparr>t_time_is_received := d_time_is_received d\<rparr> else r);
          r = (if t_source t \<noteq> Some (channel_name ch) \<and> t_source t \<noteq> None
               then r\<lparr>t_source := Some ''sms+email''\<rparr> else r)
      in if changed_fields diff \<noteq> [] then r\<lparr>t_enriched_at := Some now\<rparr> else r)"

definition source_id_of :: "channel \<Rightarrow> nat option \<Rightarrow> nat option \<Rightarrow> nat option" where
  "source_id_of ch sms email = (case ch of Sms \<Rightarrow> sms | Email \<Rightarrow> email)"

definition apply_transaction_enrichment ::
  "cat_env \<Rightarrow> db \<Rightarrow> transaction \<Rightarrow> txn_data \<Rightarrow> channel \<Rightarrow> nat option \<Rightarrow> nat option \<Rightarrow> match_kind \<Rightarrow>
   merge_error + enrichment_diff \<times> db" where
  "apply_transaction_enrichment env s t d ch sms email kind =
     (case claim_transaction_source_slot s t ch (source_id_of ch sms email) of
        Inl e \<Rightarrow> Inl e
      | Inr (t, s) \<Rightarrow>
          let diff = compute_applied_enrichment_diff t d ch kind;
              g = enrich_row (env_now env) t d ch diff;
              s = update_txn (t_id t) g s
          in if \<not> ref_index_ok s then Inl Duplicate_reference
             else Inr (diff, snd (apply_reference_self_transfer_rule env s (g t))))"

definition existing_for_source :: "db \<Rightarrow> nat option \<Rightarrow> nat option \<Rightarrow> transaction option" where
  "existing_for_source s sms email =
     (case (if sms = None then None
            else List.find (\<lambda>t. t_sms_message_id t = sms) (transactions s)) of
        Some t \<Rightarrow> Some t
      | None \<Rightarrow> if email = None then None
                else List.find (\<lambda>t. t_email_id t = email) (transactions s))"

definition next_txn_id :: "db \<Rightarrow> nat" where
  "next_txn_id s = Suc (fold max (map t_id (transactions s)) 0)"

text \<open>\<open>Transaction(**txn_data, source=channel, ...)\<close>; absent keys, and a currency or \<open>identifies_by\<close>
  that is \<open>None\<close>, take the column defaults.\<close>

definition new_row ::
  "cat_env \<Rightarrow> db \<Rightarrow> channel \<Rightarrow> txn_data \<Rightarrow> nat option \<Rightarrow> nat option \<Rightarrow> transaction" where
  "new_row env s ch d sms email = blank_txn\<lparr>t_id := next_txn_id s, t_email_id := email,
     t_bank := d_bank d, t_email_type := d_email_type d, t_direction := d_direction d,
     t_amount := d_amount d, t_currency := Some (coalesce_inr (d_currency d)),
     t_transaction_date := d_transaction_date d, t_transaction_time := d_transaction_time d,
     t_identifies_by := (case d_identifies_by d of None \<Rightarrow> ''counterparty'' | Some x \<Rightarrow> x),
     t_time_is_received := d_time_is_received d,
     t_counterparty := d_counterparty d, t_card_mask := d_card_mask d,
     t_account_mask := d_account_mask d, t_reference_number := d_reference_number d,
     t_channel := d_channel d, t_balance := d_balance d,
     t_raw_description := d_raw_description d, t_sms_message_id := sms,
     t_source := Some (channel_name ch), t_notified_channel := Some (channel_name ch),
     t_created_at := Some (env_now env)\<rparr>"

datatype merge_outcome = Created | Enriched | Deferred

record merge_result =
  mr_outcome :: merge_outcome
  mr_transaction :: "nat option"
  mr_diff :: enrichment_diff
  mr_deferral_reason :: "deferral_reason option"
  mr_resolution_ids :: "nat list"

definition no_diff :: enrichment_diff where
  "no_diff = \<lparr>filled = [], overwritten = []\<rparr>"

definition merge_result_of :: "merge_outcome \<Rightarrow> nat option \<Rightarrow> enrichment_diff \<Rightarrow> merge_result" where
  "merge_result_of out i diff = \<lparr>mr_outcome = out, mr_transaction = i, mr_diff = diff,
     mr_deferral_reason = None, mr_resolution_ids = []\<rparr>"

definition deferred_result :: "deferral_reason \<Rightarrow> nat list \<Rightarrow> merge_result" where
  "deferred_result reason ids = \<lparr>mr_outcome = Deferred, mr_transaction = None, mr_diff = no_diff,
     mr_deferral_reason = Some reason, mr_resolution_ids = ids\<rparr>"

definition insert_new ::
  "cat_env \<Rightarrow> db \<Rightarrow> channel \<Rightarrow> txn_data \<Rightarrow> nat option \<Rightarrow> nat option \<Rightarrow> merge_error + merge_result \<times> db" where
  "insert_new env s ch d sms email =
     (let row = new_row env s ch d sms email;
          s' = s\<lparr>transactions := transactions s @ [row]\<rparr>
      in if \<not> ref_index_ok s' then Inl Duplicate_reference
         else Inr (merge_result_of Created (Some (t_id row)) no_diff,
                   snd (apply_reference_self_transfer_rule env s' row)))"

definition enrich_match ::
  "cat_env \<Rightarrow> db \<Rightarrow> transaction \<Rightarrow> match_kind \<Rightarrow> channel \<Rightarrow> txn_data \<Rightarrow> nat option \<Rightarrow> nat option \<Rightarrow>
   merge_error + merge_result \<times> db" where
  "enrich_match env s t kind ch d sms email =
     (case apply_transaction_enrichment env s t d ch sms email kind of
        Inl Slot_conflict \<Rightarrow> Inr (deferred_result Source_slot_conflict [t_id t], s)
      | Inl e \<Rightarrow> Inl e
      | Inr (diff, s') \<Rightarrow> Inr (merge_result_of Enriched (Some (t_id t)) diff, s'))"

type_synonym matcher = "transaction list \<Rightarrow> txn_data \<Rightarrow> channel \<Rightarrow> nat option \<Rightarrow> match_decision"

text \<open>The merge over any matcher. When the unique index refuses the insert, the savepoint is
  rolled back and the matcher is asked once more.\<close>

definition merge_with ::
  "matcher \<Rightarrow> cat_env \<Rightarrow> db \<Rightarrow> channel \<Rightarrow> txn_data \<Rightarrow> nat option \<Rightarrow> nat option \<Rightarrow>
   merge_error + merge_result \<times> db" where
  "merge_with match_of env s ch d sms email =
     (let source_id = source_id_of ch sms email in
      case match_of (transactions s) d ch source_id of
        Insert \<Rightarrow> (case insert_new env s ch d sms email of
            Inr r \<Rightarrow> Inr r
          | Inl e \<Rightarrow> (case match_of (transactions s) d ch source_id of
              Match t kind \<Rightarrow> enrich_match env s t kind ch d sms email
            | _ \<Rightarrow> Inl e))
      | Defer _ reason ids \<Rightarrow> Inr (deferred_result reason ids, s)
      | Match t kind \<Rightarrow> enrich_match env s t kind ch d sms email)"

definition merge_transaction ::
  "cat_env \<Rightarrow> db \<Rightarrow> channel \<Rightarrow> txn_data \<Rightarrow> nat option \<Rightarrow> nat option \<Rightarrow> bool \<Rightarrow>
   merge_error + merge_result \<times> db" where
  "merge_transaction env s ch d sms email force_new =
     (if force_new then
        (case existing_for_source s sms email of
           Some t \<Rightarrow> Inr (merge_result_of Enriched (Some (t_id t)) no_diff, s)
         | None \<Rightarrow> insert_new env s ch d sms email)
      else merge_with match_decision_of env s ch d sms email)"


section \<open>Reading back an enriched row\<close>

lemma set_ENRICHMENT_FIELDS [simp]: "set ENRICHMENT_FIELDS = UNIV"
  unfolding ENRICHMENT_FIELDS_def by (auto intro: field.exhaust)

lemma get_set_field:
  "data_field d f = Some v \<Longrightarrow> get_field (set_field f v t) g = (if g = f then Some v else get_field t g)"
  by (cases f; cases g) auto

lemma get_fold_set_field:
  assumes "distinct (map fst xs)" and "\<And>f v. (f, v) \<in> set xs \<Longrightarrow> data_field d f = Some (h v)"
  shows "get_field (fold (\<lambda>(f, v). set_field f (h v)) xs r) g =
    (case dict_get xs g of None \<Rightarrow> get_field r g | Some v \<Rightarrow> Some (h v))"
  using assms
proof (induction xs arbitrary: r)
  case (Cons x xs)
  obtain f v where x: "x = (f, v)" by force
  have "data_field d f = Some (h v)" using Cons.prems(2) x by simp
  note sf = get_set_field [OF this]
  have "f = g \<Longrightarrow> dict_get xs g = None" using Cons.prems(1) x by (auto simp: dict_get_None_iff)
  moreover have "get_field (fold (\<lambda>(f, v). set_field f (h v)) xs (set_field f (h v) r)) g =
      (case dict_get xs g of None \<Rightarrow> get_field (set_field f (h v) r) g | Some v \<Rightarrow> Some (h v))"
    using Cons.prems by (intro Cons.IH) auto
  ultimately show ?case
    using x sf [of r g] by (auto split: option.split)
qed simp

lemma dict_get_map_filter:
  "dict_get (List.map_filter (\<lambda>f. case A f of None \<Rightarrow> None | Some v \<Rightarrow> Some (f, v)) fs) g =
     (if g \<in> set fs then A g else None)"
  by (induction fs) (auto split: option.split)

lemma distinct_map_filter_keys:
  "distinct fs \<Longrightarrow>
     distinct (map fst (List.map_filter (\<lambda>f. case A f of None \<Rightarrow> None | Some v \<Rightarrow> Some (f, v)) fs))"
  by (induction fs) (auto simp: map_filter_def split: option.split)

definition fill_of :: "field_action \<Rightarrow> fval option" where
  "fill_of a = (case a of Fill v \<Rightarrow> Some v | _ \<Rightarrow> None)"

definition overwrite_of :: "field_action \<Rightarrow> (fval option \<times> fval) option" where
  "overwrite_of a = (case a of Overwrite ol nw \<Rightarrow> Some (Some ol, nw) | _ \<Rightarrow> None)"

lemma diff_alt:
  "filled (compute_enrichment_diff t d ch) = List.map_filter (\<lambda>f. case fill_of (field_rule t d ch f) of
      None \<Rightarrow> None | Some v \<Rightarrow> Some (f, v)) ENRICHMENT_FIELDS"
  "overwritten (compute_enrichment_diff t d ch) = List.map_filter (\<lambda>f.
      case overwrite_of (field_rule t d ch f) of None \<Rightarrow> None | Some v \<Rightarrow> Some (f, v)) ENRICHMENT_FIELDS"
  unfolding compute_enrichment_diff_def
  by (simp_all add: fill_of_def overwrite_of_def)
     (rule arg_cong [where f = "\<lambda>h. List.map_filter h _"]; rule ext; simp split: field_action.split)+

lemma dict_get_diff:
  "dict_get (filled (compute_enrichment_diff t d ch)) f = fill_of (field_rule t d ch f)"
  "dict_get (overwritten (compute_enrichment_diff t d ch)) f = overwrite_of (field_rule t d ch f)"
  by (simp_all add: diff_alt dict_get_map_filter)

lemma distinct_ENRICHMENT_FIELDS [simp]: "distinct ENRICHMENT_FIELDS"
  by (simp add: ENRICHMENT_FIELDS_def)

lemma distinct_diff:
  "distinct (map fst (filled (compute_enrichment_diff t d ch)))"
  "distinct (map fst (overwritten (compute_enrichment_diff t d ch)))"
  by (simp_all add: diff_alt distinct_map_filter_keys)

lemma field_rule_data:
  "field_rule t d ch f = Fill v \<Longrightarrow> data_field d f = Some v \<and> get_field t f = None"
  "field_rule t d ch f = Overwrite ol v \<Longrightarrow> data_field d f = Some v \<and> get_field t f = Some ol \<and>
     ol \<noteq> v \<and> ch = Email \<and> \<not> later_observation t d f ol v \<and> \<not> is_information_downgrade f ol v \<and>
     \<not> (f \<in> set MASK_FIELDS \<and> mask_digits (as_str ol) = mask_digits (as_str v))"
  by (auto simp: field_rule_def split: option.splits if_splits)

text \<open>Whether the alias correction applies, and the value a field ends up with.\<close>

definition alias_time :: "txn_data \<Rightarrow> match_kind \<Rightarrow> field \<Rightarrow> bool" where
  "alias_time d kind f \<longleftrightarrow> kind = Am_pm_alias \<and> f = F_transaction_time \<and> d_transaction_time d \<noteq> None"

lemma applied_filled [simp]:
  "filled (compute_applied_enrichment_diff t d ch kind) = filled (compute_enrichment_diff t d ch)"
  by (simp add: compute_applied_enrichment_diff_def Let_def split: option.split)

lemma applied_overwritten:
  "dict_get (overwritten (compute_applied_enrichment_diff t d ch kind)) f =
    (if alias_time d kind f \<and> t_transaction_time t \<noteq> d_transaction_time d
     then Some (map_option V_time (t_transaction_time t), V_time (the (d_transaction_time d)))
     else overwrite_of (field_rule t d ch f))"
  "distinct (map fst (overwritten (compute_applied_enrichment_diff t d ch kind)))"
  by (auto simp: compute_applied_enrichment_diff_def Let_def alias_time_def dict_get_diff distinct_diff
      split: option.split)

lemma get_field_tail [simp]:
  "get_field (r\<lparr>t_time_is_received := x\<rparr>) f = get_field r f"
  "get_field (r\<lparr>t_source := y\<rparr>) f = get_field r f"
  "get_field (r\<lparr>t_enriched_at := z\<rparr>) f = get_field r f"
  by (cases f; simp)+

lemma get_field_enrich_row:
  "get_field (enrich_row now t d ch (compute_applied_enrichment_diff t d ch kind) r) f =
    (if alias_time d kind f \<and> t_transaction_time t \<noteq> d_transaction_time d then data_field d f
     else case field_rule t d ch f of Keep \<Rightarrow> get_field r f | Fill v \<Rightarrow> Some v | Overwrite _ v \<Rightarrow> Some v)"
proof -
  let ?diff = "compute_applied_enrichment_diff t d ch kind"
  have fl: "get_field (fold (\<lambda>(f, v). set_field f v) (filled (compute_enrichment_diff t d ch)) r) f =
      (case dict_get (filled (compute_enrichment_diff t d ch)) f of None \<Rightarrow> get_field r f | Some v \<Rightarrow> Some v)" for r
  proof (rule get_fold_set_field [where h = "\<lambda>v. v" and d = d])
    fix f v assume "(f, v) \<in> set (filled (compute_enrichment_diff t d ch))"
    then have "dict_get (filled (compute_enrichment_diff t d ch)) f = Some v" by (intro mem_dict_get) (simp_all add: distinct_diff)
    then show "data_field d f = Some v"
      by (auto simp: dict_get_diff fill_of_def field_rule_data split: field_action.splits)
  qed (simp add: distinct_diff)
  have ov: "get_field (fold (\<lambda>(f, (_, v)). set_field f v) (overwritten ?diff) r) f =
      (case dict_get (overwritten ?diff) f of None \<Rightarrow> get_field r f | Some v \<Rightarrow> Some (snd v))" for r
  proof -
    have eq: "(\<lambda>(f, (_ :: fval option, v)). set_field f v) = (\<lambda>(f, v). set_field f (snd v))"
      by (auto simp: fun_eq_iff)
    show ?thesis unfolding eq
    proof (rule get_fold_set_field [where d = d])
      fix f v assume "(f, v) \<in> set (overwritten ?diff)"
      then have "dict_get (overwritten ?diff) f = Some v"
        by (intro mem_dict_get) (simp_all add: applied_overwritten)
      then show "data_field d f = Some (snd v)"
        by (auto simp: applied_overwritten alias_time_def overwrite_of_def field_rule_data
            split: field_action.splits if_splits)
    qed (simp add: applied_overwritten)
  qed
  have "get_field (enrich_row now t d ch ?diff r) f =
      (case dict_get (overwritten ?diff) f of Some v \<Rightarrow> Some (snd v)
       | None \<Rightarrow> case dict_get (filled (compute_enrichment_diff t d ch)) f of None \<Rightarrow> get_field r f | Some v \<Rightarrow> Some v)"
    by (simp add: enrich_row_def Let_def fl ov split: option.split)
  then show ?thesis
    by (auto simp: applied_overwritten dict_get_diff fill_of_def overwrite_of_def alias_time_def
        split: field_action.split)
qed


section \<open>What enrichment may change\<close>

definition event_identity ::
  "transaction \<Rightarrow> nat \<times> string \<times> string \<times> string \<times> rat \<times> string option" where
  "event_identity t = (t_id t, t_bank t, t_email_type t, t_direction t, t_amount t, t_currency t)"

definition links ::
  "transaction \<Rightarrow> nat option \<times> nat option \<times> nat option \<times> nat option \<times> string option \<times> string option" where
  "links t = (t_email_id t, t_sms_message_id t, t_account_id t, t_card_id t, t_category t, t_category_method t)"

lemma set_field_frame [simp]:
  "event_identity (set_field f v t) = event_identity t" "links (set_field f v t) = links t"
  by (cases f; cases v; simp add: event_identity_def links_def)+

lemma fold_set_field_frame [simp]:
  "event_identity (fold (\<lambda>(f, v). set_field f (h v)) xs t) = event_identity t"
  "links (fold (\<lambda>(f, v). set_field f (h v)) xs t) = links t"
  by (induction xs arbitrary: t) auto

lemma tail_frame [simp]:
  "event_identity (r\<lparr>t_time_is_received := x\<rparr>) = event_identity r"
  "event_identity (r\<lparr>t_source := y\<rparr>) = event_identity r"
  "event_identity (r\<lparr>t_enriched_at := z\<rparr>) = event_identity r"
  "links (r\<lparr>t_time_is_received := x\<rparr>) = links r"
  "links (r\<lparr>t_source := y\<rparr>) = links r"
  "links (r\<lparr>t_enriched_at := z\<rparr>) = links r"
  by (simp_all add: event_identity_def links_def)

lemma enrich_row_frame [simp]:
  "event_identity (enrich_row now t d ch diff r) = event_identity r"
  "links (enrich_row now t d ch diff r) = links r"
proof -
  have eq: "(\<lambda>(f, (_ :: fval option, v)). set_field f v) = (\<lambda>(f, v). set_field f (snd v))"
    by (auto simp: fun_eq_iff)
  have eq': "(\<lambda>(f, v). set_field f v) = (\<lambda>(f, v). set_field f ((\<lambda>v. v) v))" by simp
  show "event_identity (enrich_row now t d ch diff r) = event_identity r"
    unfolding enrich_row_def Let_def eq
    by (subst (1 2 3 4 5 6 7 8) eq') (simp only: fold_set_field_frame tail_frame if_distrib split: if_split, simp)
  show "links (enrich_row now t d ch diff r) = links r"
    unfolding enrich_row_def Let_def eq
    by (subst (1 2 3 4 5 6 7 8) eq') (simp only: fold_set_field_frame tail_frame if_distrib split: if_split, simp)
qed


definition enriched ::
  "datetime \<Rightarrow> transaction \<Rightarrow> txn_data \<Rightarrow> channel \<Rightarrow> match_kind \<Rightarrow> transaction" where
  "enriched now t d ch kind = enrich_row now t d ch (compute_applied_enrichment_diff t d ch kind) t"

definition valid_times :: "transaction \<Rightarrow> txn_data \<Rightarrow> bool" where
  "valid_times t d \<longleftrightarrow> pred_option valid_time (t_transaction_time t) \<and>
     pred_option valid_time (d_transaction_time d)"

lemma get_field_enriched:
  "get_field (enriched now t d ch kind) f =
    (if alias_time d kind f \<and> t_transaction_time t \<noteq> d_transaction_time d then data_field d f
     else case field_rule t d ch f of Keep \<Rightarrow> get_field t f | Fill v \<Rightarrow> Some v | Overwrite _ v \<Rightarrow> Some v)"
  by (simp add: enriched_def get_field_enrich_row)

lemma map_option_V [simp]:
  "(map_option V_date x = map_option V_date y) = (x = y)" "(map_option V_time a = map_option V_time b) = (a = b)"
  by (cases x; cases y; simp) (cases a; cases b; simp)

lemma no_downgrade [simp]:
  "\<not> is_information_downgrade F_transaction_date a b" "\<not> is_information_downgrade F_transaction_time a b"
  by (simp_all add: is_information_downgrade_def MASK_FIELDS_def)

lemma enriched_date:
  "t_transaction_date (enriched now t d ch kind) = (case d_transaction_date d of
     None \<Rightarrow> t_transaction_date t
   | Some i \<Rightarrow> (case t_transaction_date t of None \<Rightarrow> Some i
       | Some e \<Rightarrow> if ch = Email \<and> i < e then Some i else Some e))"
proof -
  have "get_field (enriched now t d ch kind) F_transaction_date =
      map_option V_date (case d_transaction_date d of
     None \<Rightarrow> t_transaction_date t
   | Some i \<Rightarrow> (case t_transaction_date t of None \<Rightarrow> Some i
       | Some e \<Rightarrow> if ch = Email \<and> i < e then Some i else Some e))"
    unfolding get_field_enriched
    by (auto simp: field_rule_def alias_time_def MASK_FIELDS_def split: option.split)
  then show ?thesis by simp
qed

lemma enriched_time:
  "t_transaction_time (enriched now t d ch kind) = (case d_transaction_time d of
     None \<Rightarrow> t_transaction_time t
   | Some n \<Rightarrow> (case t_transaction_time t of None \<Rightarrow> Some n
       | Some ot \<Rightarrow> if kind = Am_pm_alias \<or> ch = Email \<and> incoming_time_is_earlier t d n ot
                   then Some n else Some ot))"
proof -
  have "get_field (enriched now t d ch kind) F_transaction_time =
      map_option V_time (case d_transaction_time d of
     None \<Rightarrow> t_transaction_time t
   | Some n \<Rightarrow> (case t_transaction_time t of None \<Rightarrow> Some n
       | Some ot \<Rightarrow> if kind = Am_pm_alias \<or> ch = Email \<and> incoming_time_is_earlier t d n ot
                   then Some n else Some ot))"
    unfolding get_field_enriched
    by (auto simp: field_rule_def alias_time_def MASK_FIELDS_def split: option.split)
  then show ?thesis by simp
qed

lemma combine_less:
  "valid_time a \<Longrightarrow> valid_time b \<Longrightarrow> x < y \<Longrightarrow> combine x a < combine y b"
proof -
  assume v: "valid_time a" "valid_time b" and "x < y"
  then have "(x + 1) * day_us \<le> y * day_us" by (intro mult_right_mono) simp_all
  then show ?thesis using v by (simp add: combine_def valid_time_def algebra_simps)
qed

lemma combine_same [simp]: "combine x a < combine x b \<longleftrightarrow> a < b" "combine x a \<le> combine x b \<longleftrightarrow> a \<le> b"
  by (simp_all add: combine_def)

lemma time_stays_earlier:
  assumes v: "valid_time n" "valid_time ot" and ch: "ch = Email"
    and kept: "\<not> incoming_time_is_earlier t d n ot"
  shows "\<not> incoming_time_is_earlier (enriched now t d ch kind) d n ot"
proof (cases "d_transaction_date d")
  case None
  then show ?thesis
    using kept by (simp add: incoming_time_is_earlier_def enriched_date)
next
  case (Some i)
  show ?thesis
  proof (cases "t_transaction_date t")
    case None
    then show ?thesis using kept Some by (simp add: incoming_time_is_earlier_def enriched_date)
  next
    case e: (Some e)
    have "\<not> i < e"
      using kept combine_less [OF v, of i e] by (auto simp: incoming_time_is_earlier_def e Some)
    then show ?thesis using kept e Some by (simp add: incoming_time_is_earlier_def enriched_date)
  qed
qed

lemma field_rule_enriched:
  assumes "valid_times t d"
  shows "field_rule (enriched now t d ch kind) d ch f = Keep"
proof (cases "data_field d f")
  case None
  then show ?thesis by (simp add: field_rule_def)
next
  case (Some n)
  let ?t = "enriched now t d ch kind"
  show ?thesis
  proof (cases "get_field ?t f = Some n")
    case True
    then show ?thesis by (simp add: field_rule_def Some)
  next
    case False
    then have al: "\<not> (alias_time d kind f \<and> t_transaction_time t \<noteq> d_transaction_time d)"
      and k: "field_rule t d ch f = Keep" and g: "get_field ?t f = get_field t f"
      using Some field_rule_data [of t d ch f]
      by (auto simp: get_field_enriched split: field_action.splits if_splits)
    obtain ot where ot: "get_field t f = Some ot" "ot \<noteq> n"
      using False k Some g by (auto simp: field_rule_def split: option.splits)
    have "later_observation t d f ot n \<Longrightarrow> ch = Email \<Longrightarrow> later_observation ?t d f ot n"
      using assms ot Some time_stays_earlier [of _ _ ch t d now kind]
      by (cases f) (auto simp: valid_times_def)
    then show ?thesis
      using k g ot Some by (auto simp: field_rule_def split: if_splits)
  qed
qed

text \<open>C4. Replaying a message over the row it has already enriched changes nothing: the second
  diff is empty, whatever was filled or overwritten the first time, on both channels and
  for both kinds of match.\<close>

theorem replay_changes_nothing:
  assumes "valid_times t d"
  shows "changed_fields (compute_applied_enrichment_diff
      (enrich_row now t d ch (compute_applied_enrichment_diff t d ch kind) t) d ch kind) = []"
proof -
  let ?t = "enriched now t d ch kind"
  have k: "field_rule ?t d ch f = Keep" for f by (rule field_rule_enriched [OF assms])
  have "compute_enrichment_diff ?t d ch = no_diff"
    by (simp add: compute_enrichment_diff_def k no_diff_def map_filter_def)
  moreover have "kind = Am_pm_alias \<Longrightarrow> d_transaction_time d = Some n \<Longrightarrow> t_transaction_time ?t = Some n" for n
    by (simp add: enriched_time split: option.split)
  ultimately have "compute_applied_enrichment_diff ?t d ch kind = no_diff"
    by (auto simp: compute_applied_enrichment_diff_def Let_def split: option.split)
  then show ?thesis by (simp add: enriched_def [symmetric] changed_fields_def no_diff_def)
qed

theorem replay_changes_nothing_witness:
  "changed_fields (compute_applied_enrichment_diff (enrich_row 9 demo_row demo_data Email
     (compute_applied_enrichment_diff demo_row demo_data Email Standard) demo_row)
     demo_data Email Standard) = [] \<and>
   changed_fields (compute_applied_enrichment_diff demo_row demo_data Email Standard) =
     [F_reference_number, F_transaction_time, F_counterparty]"
proof -
  have 1: "valid_times demo_row demo_data"
    by (simp add: valid_times_def demo_row_def demo_data_def valid_time_def day_us_def)
  have 2: "changed_fields (compute_applied_enrichment_diff demo_row demo_data Email Standard) =
     [F_reference_number, F_transaction_time, F_counterparty]" by code_simp
  show ?thesis using replay_changes_nothing [OF 1] 2 by blast
qed

text \<open>A row with a date and a time never moves to a later instant.\<close>

lemma enriched_instant:
  assumes v: "valid_times t d" and x: "t_transaction_date t = Some x" and a: "t_transaction_time t = Some a"
  obtains y b where "t_transaction_date (enriched now t d ch Standard) = Some y" "y \<le> x"
    "t_transaction_time (enriched now t d ch Standard) = Some b" "combine y b \<le> combine x a"
proof -
  let ?t = "enriched now t d ch Standard"
  have va: "valid_time a" using v a by (simp add: valid_times_def)
  have "\<exists>y. t_transaction_date ?t = Some y \<and> y \<le> x" and "\<exists>b. t_transaction_time ?t = Some b"
    by (simp_all add: enriched_date x enriched_time a split: option.split)
  then obtain y b where y: "t_transaction_date ?t = Some y" "y \<le> x" and b: "t_transaction_time ?t = Some b"
    by blast
  have "combine y b \<le> combine x a"
  proof (cases "b = a")
    case True
    then show ?thesis using y(2) by (simp add: combine_def)
  next
    case False
    then obtain n where n: "d_transaction_time d = Some n" "b = n"
      "incoming_time_is_earlier t d n a" "ch = Email"
      using a b by (auto simp: enriched_time split: option.splits if_splits)
    have vn: "valid_time n" using v n by (simp add: valid_times_def)
    show ?thesis
    proof (cases "d_transaction_date d")
      case None
      then have "y = x" using y(1) x by (simp add: enriched_date)
      then show ?thesis using n x None by (simp add: incoming_time_is_earlier_def)
    next
      case (Some i)
      then have lt: "combine i n < combine x a" using n x by (simp add: incoming_time_is_earlier_def)
      then have "i \<le> x" using combine_less [OF va vn, of x i] by force
      then show ?thesis
        using lt n(2,4) y(1) x Some by (auto simp: enriched_date split: if_splits)
    qed
  qed
  then show ?thesis using that y b by blast
qed

text \<open>C5. What a second source may do to a row. It never touches the identity of the event (key,
  bank, template, direction, amount, currency) nor the row's links and category; it never empties
  a field; the date never moves later; a mask never loses visible digits to a shorter suffix of
  itself; an SMS never replaces a value. In a standard match a row with a date and a time never
  moves to a later instant. In a twelve-hour match the time of the message, when it has one,
  replaces the stored one, on either channel and in either direction; that field is the one
  exception.\<close>

theorem enrichment_monotone:
  assumes "valid_times t d"
    and t'_def: "t' = enrich_row now t d ch (compute_applied_enrichment_diff t d ch kind) t"
  shows "event_identity t' = event_identity t \<and> links t' = links t \<and>
    (\<forall>f. get_field t f \<noteq> None \<longrightarrow> get_field t' f \<noteq> None \<and>
       (ch = Sms \<and> \<not> (kind = Am_pm_alias \<and> f = F_transaction_time) \<longrightarrow> get_field t' f = get_field t f)) \<and>
    (\<forall>x. t_transaction_date t = Some x \<longrightarrow> (\<exists>y \<le> x. t_transaction_date t' = Some y)) \<and>
    (kind = Standard \<longrightarrow> (\<forall>x a. t_transaction_date t = Some x \<and> t_transaction_time t = Some a \<longrightarrow>
      (\<exists>y b. t_transaction_date t' = Some y \<and> t_transaction_time t' = Some b \<and> combine y b \<le> combine x a))) \<and>
    (kind = Am_pm_alias \<longrightarrow> t_transaction_time t' =
      (case d_transaction_time d of None \<Rightarrow> t_transaction_time t | Some n \<Rightarrow> Some n)) \<and>
    (\<forall>f \<in> {F_card_mask, F_account_mask}. \<forall>u v. get_field t f = Some u \<and> get_field t' f = Some v \<longrightarrow>
      \<not> strict_suffix (mask_digits (as_str v)) (mask_digits (as_str u)))"
proof -
  have t': "t' = enriched now t d ch kind" by (simp add: t'_def enriched_def)
  have al: "alias_time d kind f \<Longrightarrow> kind = Am_pm_alias \<and> f = F_transaction_time" for f by (simp add: alias_time_def)
  have 1: "event_identity t' = event_identity t \<and> links t' = links t" by (simp add: t'_def)
  have 2: "get_field t f \<noteq> None \<longrightarrow> get_field t' f \<noteq> None \<and>
      (ch = Sms \<and> \<not> (kind = Am_pm_alias \<and> f = F_transaction_time) \<longrightarrow> get_field t' f = get_field t f)" for f
    using field_rule_data [of t d ch f] al [of f]
    by (auto simp: t' get_field_enriched alias_time_def split: field_action.split)
  have 3: "t_transaction_date t = Some x \<longrightarrow> (\<exists>y \<le> x. t_transaction_date t' = Some y)" for x
    by (auto simp: t' enriched_date split: option.split)
  have 4: "kind = Standard \<longrightarrow> t_transaction_date t = Some x \<and> t_transaction_time t = Some a \<longrightarrow>
      (\<exists>y b. t_transaction_date t' = Some y \<and> t_transaction_time t' = Some b \<and> combine y b \<le> combine x a)" for x a
    unfolding t' using enriched_instant [OF assms(1)] by metis
  have 5: "kind = Am_pm_alias \<longrightarrow> t_transaction_time t' =
      (case d_transaction_time d of None \<Rightarrow> t_transaction_time t | Some n \<Rightarrow> Some n)"
    by (simp add: t' enriched_time split: option.split)
  have 6: "\<not> strict_suffix (mask_digits (as_str v)) (mask_digits (as_str u))"
    if "f \<in> {F_card_mask, F_account_mask}" "get_field t f = Some u \<and> get_field t' f = Some v" for f u v
  proof (cases "u = v")
    case False
    then have "field_rule t d ch f = Overwrite u v"
      using that field_rule_data [of t d ch f] al [of f]
      by (auto simp: t' get_field_enriched split: field_action.splits if_splits)
    then have "\<not> is_information_downgrade f u v" using field_rule_data(2) by blast
    then show ?thesis
      using that by (auto simp: is_information_downgrade_def MASK_FIELDS_def strict_suffix_def suffix_def)
  qed simp
  show ?thesis using 1 2 3 4 5 6 by blast
qed

text \<open>The last part: a row stored at 10:00:30, a twelve-hour match at 22:00:30.\<close>

theorem enrichment_monotone_witness:
  "(\<exists>y b. t_transaction_date (enrich_row 9 demo_row demo_data Email
        (compute_applied_enrichment_diff demo_row demo_data Email Standard) demo_row) = Some y \<and>
     t_transaction_time (enrich_row 9 demo_row demo_data Email
        (compute_applied_enrichment_diff demo_row demo_data Email Standard) demo_row) = Some b \<and>
     combine y b \<le> combine 739000 36030000000) \<and>
   (let d = demo_data\<lparr>d_transaction_time := Some 79230000000\<rparr>
    in t_transaction_time (enrich_row 9 demo_row d Sms (compute_applied_enrichment_diff demo_row d Sms Am_pm_alias) demo_row) =
       Some 79230000000)"
proof
  have 1: "valid_times demo_row demo_data" "valid_times demo_row (demo_data\<lparr>d_transaction_time := Some 79230000000\<rparr>)"
    by (simp_all add: valid_times_def demo_row_def demo_data_def valid_time_def day_us_def)
  have "t_transaction_date demo_row = Some 739000" "t_transaction_time demo_row = Some 36030000000"
    by (simp_all add: demo_row_def)
  then show "\<exists>y b. t_transaction_date (enrich_row 9 demo_row demo_data Email
        (compute_applied_enrichment_diff demo_row demo_data Email Standard) demo_row) = Some y \<and>
     t_transaction_time (enrich_row 9 demo_row demo_data Email
        (compute_applied_enrichment_diff demo_row demo_data Email Standard) demo_row) = Some b \<and>
     combine y b \<le> combine 739000 36030000000"
    using enrichment_monotone [OF 1(1) refl, of 9 Email Standard] by blast
  show "let d = demo_data\<lparr>d_transaction_time := Some 79230000000\<rparr>
    in t_transaction_time (enrich_row 9 demo_row d Sms (compute_applied_enrichment_diff demo_row d Sms Am_pm_alias) demo_row) =
       Some 79230000000"
    using enrichment_monotone [OF 1(2) refl, of 9 Sms Am_pm_alias] by (simp add: Let_def)
qed

end
