(* ===== verification/Merge_Contract.thy ===== *)
theory Merge_Contract
  imports Txn_Merge
begin

text \<open>
  What \<open>merge_transaction\<close> guarantees, proved once for every matcher that keeps the laws of the
  locale \<open>event_matcher\<close> and then for \<open>find_match\<close>, which \<open>interpretation find\<close> shows to keep
  them: the tables stay well formed (\<open>keys_ok\<close>, \<open>ref_index_ok\<close>), a message with a clean
  reference never fails, and the outcome tells exactly which rows there are afterwards.
  Then the race of two sources for one slot.
\<close>

section \<open>The reference index\<close>

lemma ref_index_ok_iff:
  assumes "distinct (transactions s)"
  shows "ref_index_ok s \<longleftrightarrow> (\<forall>x \<in> set (transactions s). \<forall>y \<in> set (transactions s).
     ref_key x \<noteq> None \<longrightarrow> ref_key x = ref_key y \<longrightarrow> x = y)"
proof -
  have "filter (\<lambda>k. k \<noteq> None) (map ref_key (transactions s)) =
      map ref_key (filter (\<lambda>r. ref_key r \<noteq> None) (transactions s))"
    by (simp add: filter_map comp_def)
  then have "ref_index_ok s \<longleftrightarrow> inj_on ref_key (set (filter (\<lambda>r. ref_key r \<noteq> None) (transactions s)))"
    using assms by (simp add: ref_index_ok_def distinct_map)
  then show ?thesis by (fastforce simp: inj_on_def)
qed

lemma keys_ok_distinct: "keys_ok s \<Longrightarrow> distinct (transactions s)"
  by (auto simp: keys_ok_def distinct_map)

lemma ref_key_cong:
  "t_bank a = t_bank b \<Longrightarrow> t_direction a = t_direction b \<Longrightarrow>
   t_reference_number a = t_reference_number b \<Longrightarrow> ref_key a = ref_key b"
  by (simp add: ref_key_def)

lemma ref_key_Some:
  "ref_key t = Some (b, r, e) \<longleftrightarrow> t_bank t = b \<and> t_direction t = e \<and> t_reference_number t = Some r"
  by (auto simp: ref_key_def)

lemma index_frame:
  "map ref_key (transactions s') = map ref_key (transactions s) \<Longrightarrow> ref_index_ok s' = ref_index_ok s"
  by (simp add: ref_index_ok_def)

text \<open>Same keys, same index: what the self-transfer rule and the claim preserve.\<close>

definition same_keys :: "db \<Rightarrow> db \<Rightarrow> bool" where
  "same_keys s s' \<longleftrightarrow> map t_id (transactions s') = map t_id (transactions s) \<and>
     accounts s' = accounts s \<and> cards s' = cards s \<and> uploads s' = uploads s"

lemma same_keys_ok: "same_keys s s' \<Longrightarrow> keys_ok s' = keys_ok s"
  by (simp add: same_keys_def keys_ok_def)

lemma same_keys_trans: "same_keys a b \<Longrightarrow> same_keys b c \<Longrightarrow> same_keys a c"
  by (simp add: same_keys_def)

lemma same_keys_update:
  "(\<And>r. t_id (g r) = t_id r) \<Longrightarrow> same_keys s (s\<lparr>transactions := map g (transactions s)\<rparr>)"
  by (simp add: same_keys_def comp_def)

lemma rule_frame:
  assumes "keys_ok s" "t \<in> set (transactions s)"
  shows "same_keys s (snd (apply_reference_self_transfer_rule env s t))"
    and "ref_index_ok (snd (apply_reference_self_transfer_rule env s t)) = ref_index_ok s"
proof -
  define g where "g = (\<lambda>r. if (\<exists>m \<in> set (transactions s). self_transfer_pair t m) \<and>
    (r = t \<or> self_transfer_pair t r) then mark_self_transfer env s r else r)"
  have e: "snd (apply_reference_self_transfer_rule env s t) = s\<lparr>transactions := map g (transactions s)\<rparr>"
    by (simp add: apply_rule_closed [OF assms] Let_def g_def)
  have i: "t_id (g r) = t_id r" and k: "ref_key (g r) = ref_key r" for r
    by (simp_all add: g_def ref_key_def)
  show "same_keys s (snd (apply_reference_self_transfer_rule env s t))"
    unfolding e by (rule same_keys_update) (rule i)
  show "ref_index_ok (snd (apply_reference_self_transfer_rule env s t)) = ref_index_ok s"
    unfolding e by (rule index_frame) (simp add: k comp_def)
qed

section \<open>The claim\<close>

lemma fill_slot_frame [simp]:
  "t_id (fill_slot ch i t) = t_id t" "ref_key (fill_slot ch i t) = ref_key t"
  "slot_of ch (fill_slot ch i t) = Some i" "get_field (fill_slot ch i t) f = get_field t f"
  "t_bank (fill_slot ch i t) = t_bank t" "t_direction (fill_slot ch i t) = t_direction t"
  "t_reference_number (fill_slot ch i t) = t_reference_number t"
  by (cases ch; cases f; simp add: ref_key_def)+

text \<open>On an object read from the present table the claim always succeeds.\<close>

lemma claim_fresh:
  assumes "keys_ok s" "t \<in> set (transactions s)"
  obtains t1 g where "claim_transaction_source_slot s t ch src =
      Inr (t1, s\<lparr>transactions := map g (transactions s)\<rparr>)"
    "t1 = g t" "\<And>r. t_id (g r) = t_id r" "\<And>r. ref_key (g r) = ref_key r"
    "\<And>r. t_bank (g r) = t_bank r" "\<And>r. t_direction (g r) = t_direction r"
    "\<And>r. t_reference_number (g r) = t_reference_number r"
proof (cases "src = None \<or> slot_of ch t \<noteq> None")
  case True
  then have "claim_transaction_source_slot s t ch src =
      Inr (t, s\<lparr>transactions := map (\<lambda>r. r) (transactions s)\<rparr>)"
    by (auto simp: claim_transaction_source_slot_def split: option.split)
  then show ?thesis by (rule that) auto
next
  case False
  then obtain i where i: "src = Some i" "slot_of ch t = None" by auto
  define hit where "hit = (\<lambda>r. t_id r = t_id t \<and> (slot_of ch r = None \<or> slot_of ch r = Some i))"
  have h: "hit r \<longleftrightarrow> r = t" if "r \<in> set (transactions s)" for r
    using keys_ok_txn_eq [OF assms(1) that assms(2)] i(2) by (auto simp: hit_def)
  have "filter hit (transactions s) = filter (\<lambda>r. r = t) (transactions s)"
    by (rule filter_cong) (simp_all add: h)
  moreover have "length (filter (\<lambda>r. r = t) (transactions s)) = 1"
    using keys_ok_distinct [OF assms(1)] assms(2)
    by (simp add: distinct_length_filter Int_absorb2 Collect_conv_if)
  ultimately have one: "length (filter hit (transactions s)) = 1" by simp
  show ?thesis
  proof (rule that [of "fill_slot ch i t" "\<lambda>r. if hit r then fill_slot ch i r else r"])
    show "claim_transaction_source_slot s t ch src = Inr (fill_slot ch i t,
        s\<lparr>transactions := map (\<lambda>r. if hit r then fill_slot ch i r else r) (transactions s)\<rparr>)"
      using one i by (simp add: claim_transaction_source_slot_def hit_def)
    show "fill_slot ch i t = (if hit t then fill_slot ch i t else t)"
      using i by (simp add: hit_def)
  qed auto
qed


section \<open>Enriching and inserting keep the tables well formed\<close>

definition clean_ref :: "txn_data \<Rightarrow> bool" where
  "clean_ref d \<longleftrightarrow> (case d_reference_number d of None \<Rightarrow> True | Some r \<Rightarrow> r \<noteq> [] \<and> strip r = r)"

lemma enrich_row_keys:
  "t_id (enrich_row now t d ch diff r) = t_id r" "t_bank (enrich_row now t d ch diff r) = t_bank r"
  "t_direction (enrich_row now t d ch diff r) = t_direction r"
  using enrich_row_frame(1) [of now t d ch diff r] by (simp_all add: event_identity_def)

lemma enrich_row_ref:
  "t_reference_number (enrich_row now t d ch (compute_applied_enrichment_diff t d ch kind) r) = t_reference_number r \<or>
   t_reference_number (enrich_row now t d ch (compute_applied_enrichment_diff t d ch kind) r) = d_reference_number d"
proof -
  have inj: "map_option V_str x = map_option V_str y \<Longrightarrow> x = y" for x y
    by (cases x; cases y) auto
  have "get_field (enrich_row now t d ch (compute_applied_enrichment_diff t d ch kind) r) F_reference_number
      \<in> {get_field r F_reference_number, data_field d F_reference_number}"
    using field_rule_data [of t d ch F_reference_number]
    unfolding get_field_enrich_row by (auto simp: alias_time_def split: field_action.split)
  then show ?thesis using inj by auto
qed

lemma enrich_match_ok:
  assumes k: "keys_ok s" and ix: "ref_index_ok s" and t: "t \<in> set (transactions s)"
    and b: "t_bank t = d_bank d" "t_direction t = d_direction d" and cl: "clean_ref d"
    and uniq: "\<And>r. r \<in> set (transactions s) \<Longrightarrow> t_bank r = d_bank d \<Longrightarrow> t_direction r = d_direction d \<Longrightarrow>
      t_reference_number r = Some (strip (or_empty (d_reference_number d))) \<Longrightarrow>
      strip (or_empty (d_reference_number d)) \<noteq> [] \<Longrightarrow> r = t"
  obtains diff s' where "enrich_match env s t kind ch d sms email =
      Inr (merge_result_of Enriched (Some (t_id t)) diff, s')"
    "same_keys s s'" "ref_index_ok s'"
proof -
  obtain t1 g where c: "claim_transaction_source_slot s t ch (source_id_of ch sms email) =
      Inr (t1, s\<lparr>transactions := map g (transactions s)\<rparr>)" "t1 = g t"
    and g: "\<And>r. t_id (g r) = t_id r" "\<And>r. ref_key (g r) = ref_key r"
      "\<And>r. t_bank (g r) = t_bank r" "\<And>r. t_direction (g r) = t_direction r"
      "\<And>r. t_reference_number (g r) = t_reference_number r"
    using claim_fresh [OF k t] by metis
  define s1 where "s1 = s\<lparr>transactions := map g (transactions s)\<rparr>"
  define diff where "diff = compute_applied_enrichment_diff t1 d ch kind"
  define h where "h = enrich_row (env_now env) t1 d ch diff"
  define s2 where "s2 = update_txn (t_id t1) h s1"
  have hid: "t_id (h r) = t_id r" "t_bank (h r) = t_bank r" "t_direction (h r) = t_direction r" for r
    by (simp_all add: h_def enrich_row_keys)
  have sk1: "same_keys s s1" unfolding s1_def by (rule same_keys_update) (rule g)
  have sk2: "same_keys s1 s2"
    unfolding s2_def update_txn_def by (rule same_keys_update) (simp add: hid)
  have k1: "keys_ok s1" and k2: "keys_ok s2"
    using k same_keys_ok sk1 sk2 by blast+
  have ix1: "ref_index_ok s1"
    using ix index_frame [of s1 s] by (simp add: s1_def g(2) comp_def)
  have t1: "t1 \<in> set (transactions s1)" using t by (simp add: s1_def c(2))
  have idt: "t_id t1 = t_id t" by (simp add: c(2) g(1))
  have rows2: "set (transactions s2) = insert (h t1) (set (transactions s1) - {t1})"
  proof -
    have "(if t_id r = t_id t1 then h r else r) = (if r = t1 then h t1 else r)"
      if "r \<in> set (transactions s1)" for r
      using keys_ok_txn_eq [OF k1 that t1] by auto
    then show ?thesis using t1 by (auto simp: s2_def update_txn_def split: if_splits)
  qed
  have ht: "h t1 \<in> set (transactions s2)" by (simp add: rows2)
  have fresh: "ref_key x \<noteq> ref_key (h t1)"
    if x: "x \<in> set (transactions s1)" "x \<noteq> t1" and n: "ref_key (h t1) \<noteq> None" for x
  proof
    assume e: "ref_key x = ref_key (h t1)"
    obtain r where r: "t_reference_number (h t1) = Some r" using n by (auto simp: ref_key_def)
    consider "t_reference_number (h t1) = t_reference_number t1"
      | "t_reference_number (h t1) = d_reference_number d"
      using enrich_row_ref [of "env_now env" t1 d ch kind t1] by (auto simp: h_def diff_def)
    then show False
    proof cases
      case 1
      then have "ref_key (h t1) = ref_key t1" by (intro ref_key_cong) (simp_all add: hid)
      then have "x = t1"
        using ix1 x(1) t1 e n ref_index_ok_iff [OF keys_ok_distinct [OF k1]] by metis
      then show False using x(2) by simp
    next
      case 2
      obtain y where y: "y \<in> set (transactions s)" "x = g y" using x(1) by (auto simp: s1_def)
      have "d_reference_number d = Some r" using 2 r by simp
      then have cr: "strip (or_empty (d_reference_number d)) = r" "r \<noteq> []"
        using cl by (simp_all add: clean_ref_def)
      have "t_bank x = d_bank d \<and> t_direction x = d_direction d \<and> t_reference_number x = Some r"
        using e r b hid c(2) g(3,4) by (auto simp: ref_key_def)
      then have "y = t" using uniq [of y] y cr g(3-5) by auto
      then show False using x(2) y(2) c(2) by simp
    qed
  qed
  have "x = y" if "x \<in> set (transactions s2)" "y \<in> set (transactions s2)" "ref_key x \<noteq> None" "ref_key x = ref_key y" for x y
  proof -
    have "x \<in> set (transactions s1) \<and> y \<in> set (transactions s1) \<Longrightarrow> x = y"
      using that(3,4) ix1 ref_index_ok_iff [OF keys_ok_distinct [OF k1]] by blast
    then show ?thesis using that fresh [of x] fresh [of y] by (auto simp: rows2)
  qed
  then have ix2: "ref_index_ok s2"
    using ref_index_ok_iff [OF keys_ok_distinct [OF k2]] by blast
  define s3 where "s3 = snd (apply_reference_self_transfer_rule env s2 (h t1))"
  have "same_keys s2 s3" "ref_index_ok s3"
    using rule_frame [OF k2 ht, of env] ix2 by (simp_all add: s3_def)
  moreover have "apply_transaction_enrichment env s t d ch sms email kind = Inr (diff, s3)"
    using c(1) ix2
    by (simp add: apply_transaction_enrichment_def s1_def [symmetric] Let_def diff_def [symmetric]
        h_def [symmetric] s2_def [symmetric] s3_def)
  ultimately show ?thesis
    using that [of diff s3] sk1 sk2 same_keys_trans idt by (simp add: enrich_match_def)
qed

lemma next_txn_id_fresh: "r \<in> set (transactions s) \<Longrightarrow> t_id r < next_txn_id s"
  by (simp add: next_txn_id_def less_Suc_eq_le fold_max_ge)

lemma insert_new_ok:
  assumes k: "keys_ok s" and ix: "ref_index_ok s"
    and free: "\<And>x r. x \<in> set (transactions s) \<Longrightarrow> d_reference_number d = Some r \<Longrightarrow>
      \<not> (t_bank x = d_bank d \<and> t_direction x = d_direction d \<and> t_reference_number x = Some r)"
  obtains s' where "insert_new env s ch d sms email =
      Inr (merge_result_of Created (Some (next_txn_id s)) no_diff, s')"
    "map t_id (transactions s') = map t_id (transactions s) @ [next_txn_id s]"
    "keys_ok s'" "ref_index_ok s'"
proof -
  define row where "row = new_row env s ch d sms email"
  define s1 where "s1 = s\<lparr>transactions := transactions s @ [row]\<rparr>"
  have row: "t_id row = next_txn_id s" "t_bank row = d_bank d" "t_direction row = d_direction d"
    "t_reference_number row = d_reference_number d"
    by (simp_all add: row_def new_row_def)
  have k1: "keys_ok s1"
    using k by (auto simp: keys_ok_def s1_def row dest: next_txn_id_fresh)
  have "ref_key x \<noteq> ref_key row" if "x \<in> set (transactions s)" "ref_key row \<noteq> None" for x
    using free [OF that(1)] that(2) by (auto simp: ref_key_def row)
  then have ix1: "ref_index_ok s1"
    using ix by (auto simp: ref_index_ok_def s1_def)
  have r: "row \<in> set (transactions s1)" by (simp add: s1_def)
  define s2 where "s2 = snd (apply_reference_self_transfer_rule env s1 row)"
  have f: "same_keys s1 s2" "ref_index_ok s2"
    using rule_frame [OF k1 r, of env] ix1 by (simp_all add: s2_def)
  have "insert_new env s ch d sms email = Inr (merge_result_of Created (Some (next_txn_id s)) no_diff, s2)"
    using ix1 by (simp add: insert_new_def row_def [symmetric] s1_def [symmetric] Let_def row(1) s2_def)
  then show ?thesis
    using that f k1 same_keys_ok [OF f(1)] by (simp add: same_keys_def s1_def row(1))
qed

section \<open>The contract of a matcher\<close>

locale event_matcher =
  fixes match_of :: matcher
  assumes match_in: "match_of rows d ch src = Match t k \<Longrightarrow> t \<in> set rows"
    and match_key: "match_of rows d ch src = Match t k \<Longrightarrow>
      t_bank t = d_bank d \<and> t_direction t = d_direction d \<and> t_amount t = d_amount d"
    and match_ref: "match_of rows d ch src = Match t k \<Longrightarrow> r \<in> set rows \<Longrightarrow> t_bank r = d_bank d \<Longrightarrow>
      t_direction r = d_direction d \<Longrightarrow>
      t_reference_number r = Some (strip (or_empty (d_reference_number d))) \<Longrightarrow>
      strip (or_empty (d_reference_number d)) \<noteq> [] \<Longrightarrow> r = t"
    and insert_ref: "match_of rows d ch src = Insert \<Longrightarrow> strip (or_empty (d_reference_number d)) \<noteq> [] \<Longrightarrow>
      r \<in> set rows \<Longrightarrow> t_bank r = d_bank d \<Longrightarrow> t_direction r = d_direction d \<Longrightarrow>
      t_reference_number r \<noteq> Some (strip (or_empty (d_reference_number d)))"
    and defer_ids: "match_of rows d ch src = Defer ko reason ids \<Longrightarrow> set ids \<subseteq> t_id ` set rows"
begin

lemma merge_total:
  assumes k: "keys_ok s" and ix: "ref_index_ok s" and cl: "clean_ref d"
  obtains res s' where "merge_with match_of env s ch d sms email = Inr (res, s')"
    "keys_ok s'" "ref_index_ok s'"
    "mr_outcome res = Created \<and> mr_transaction res = Some (next_txn_id s) \<and>
       map t_id (transactions s') = map t_id (transactions s) @ [next_txn_id s] \<or>
     mr_outcome res = Enriched \<and> map t_id (transactions s') = map t_id (transactions s) \<and>
       (\<exists>t \<in> set (transactions s). mr_transaction res = Some (t_id t) \<and>
          t_bank t = d_bank d \<and> t_direction t = d_direction d \<and> t_amount t = d_amount d) \<or>
     mr_outcome res = Deferred \<and> s' = s \<and> mr_transaction res = None \<and>
       set (mr_resolution_ids res) \<subseteq> t_id ` set (transactions s)"
proof (cases "match_of (transactions s) d ch (source_id_of ch sms email)")
  case (Match t kind)
  note m = match_in [OF Match] match_key [OF Match]
  obtain diff s' where "enrich_match env s t kind ch d sms email =
      Inr (merge_result_of Enriched (Some (t_id t)) diff, s')" and f: "same_keys s s'" "ref_index_ok s'"
    using enrich_match_ok [OF k ix m(1) _ _ cl] m(2) match_ref [OF Match] by metis
  then have "merge_with match_of env s ch d sms email = Inr (merge_result_of Enriched (Some (t_id t)) diff, s')"
    by (simp add: merge_with_def Match)
  then show ?thesis
    by (rule that) (use k f m in \<open>auto simp: same_keys_ok [OF f(1)] same_keys_def merge_result_of_def\<close>)
next
  case Insert
  have "\<not> (t_bank x = d_bank d \<and> t_direction x = d_direction d \<and> t_reference_number x = Some r)"
    if "x \<in> set (transactions s)" "d_reference_number d = Some r" for x r
    using insert_ref [OF Insert _ that(1)] that(2) cl by (auto simp: clean_ref_def)
  then obtain s' where i: "insert_new env s ch d sms email =
      Inr (merge_result_of Created (Some (next_txn_id s)) no_diff, s')"
    and f: "map t_id (transactions s') = map t_id (transactions s) @ [next_txn_id s]"
      "keys_ok s'" "ref_index_ok s'"
    using insert_new_ok [OF k ix] by metis
  then have "merge_with match_of env s ch d sms email =
      Inr (merge_result_of Created (Some (next_txn_id s)) no_diff, s')"
    by (simp add: merge_with_def Insert)
  then show ?thesis by (rule that) (use f in \<open>auto simp: merge_result_of_def\<close>)
next
  case (Defer ko reason ids)
  then have "merge_with match_of env s ch d sms email = Inr (deferred_result reason ids, s)"
    by (simp add: merge_with_def)
  then show ?thesis
    by (rule that) (use k ix defer_ids [OF Defer] in \<open>auto simp: deferred_result_def\<close>)
qed

end

interpretation find: event_matcher match_decision_of
proof
  fix rows d ch src t k ko reason ids r
  show "match_decision_of rows d ch src = Match t k \<Longrightarrow> t \<in> set rows"
    and "match_decision_of rows d ch src = Match t k \<Longrightarrow>
      t_bank t = d_bank d \<and> t_direction t = d_direction d \<and> t_amount t = d_amount d"
    using match_decision_sound by blast+
  show "match_decision_of rows d ch src = Insert \<Longrightarrow> strip (or_empty (d_reference_number d)) \<noteq> [] \<Longrightarrow>
      r \<in> set rows \<Longrightarrow> t_bank r = d_bank d \<Longrightarrow> t_direction r = d_direction d \<Longrightarrow>
      t_reference_number r \<noteq> Some (strip (or_empty (d_reference_number d)))"
    by (rule match_decision_insert(1))
  show "match_decision_of rows d ch src = Defer ko reason ids \<Longrightarrow> set ids \<subseteq> t_id ` set rows"
    by (rule match_decision_defer_ids)
  show "match_decision_of rows d ch src = Match t k \<Longrightarrow> r \<in> set rows \<Longrightarrow> t_bank r = d_bank d \<Longrightarrow>
      t_direction r = d_direction d \<Longrightarrow>
      t_reference_number r = Some (strip (or_empty (d_reference_number d))) \<Longrightarrow>
      strip (or_empty (d_reference_number d)) \<noteq> [] \<Longrightarrow> r = t"
    by (rule match_decision_ref_unique)
qed


section \<open>Properties\<close>

text \<open>C1. A message whose reference is absent or free of surrounding blanks is always merged
  without an error, and the primary keys and the unique reference index survive. The outcome
  accounts for every row: created means exactly one new row, with the next key; enriched means
  the same rows, and the row named has the message's bank, direction and amount; deferred
  means that nothing at all changed, and the rows offered for resolution are stored rows.\<close>

theorem merge_transaction_total:
  assumes "keys_ok s" "ref_index_ok s" "clean_ref d"
  shows "\<exists>res s'. merge_transaction env s ch d sms email False = Inr (res, s') \<and>
    keys_ok s' \<and> ref_index_ok s' \<and>
    (mr_outcome res = Created \<and> mr_transaction res = Some (next_txn_id s) \<and>
       map t_id (transactions s') = map t_id (transactions s) @ [next_txn_id s] \<or>
     mr_outcome res = Enriched \<and> map t_id (transactions s') = map t_id (transactions s) \<and>
       (\<exists>t \<in> set (transactions s). mr_transaction res = Some (t_id t) \<and>
          t_bank t = d_bank d \<and> t_direction t = d_direction d \<and> t_amount t = d_amount d) \<or>
     mr_outcome res = Deferred \<and> s' = s \<and> mr_transaction res = None \<and>
       set (mr_resolution_ids res) \<subseteq> t_id ` set (transactions s))"
proof -
  have e: "merge_transaction env s ch d sms email False = merge_with match_decision_of env s ch d sms email"
    by (simp add: merge_transaction_def)
  show ?thesis
    unfolding e by (rule find.merge_total [OF assms, of env ch sms email]) blast
qed

theorem merge_transaction_total_witness:
  "\<exists>res s'. merge_transaction demo_env legs_db Sms demo_data (Some 3) None False = Inr (res, s') \<and>
     keys_ok s' \<and> ref_index_ok s'"
proof -
  have "keys_ok legs_db" "ref_index_ok legs_db" "clean_ref demo_data"
    by code_simp+
  from merge_transaction_total [OF this] show ?thesis by blast
qed

text \<open>C9. The reference is looked up without its surrounding blanks but stored with them. So when
  a row already carries the message's own padded reference, the lookup cannot see it; if the
  message has no date either, the merge decides to insert, the unique index refuses the
  row, and the error reaches the caller. A replay of such a message fails instead of
  enriching the row it created.\<close>

theorem padded_reference_rejected:
  assumes "row \<in> set (transactions s)" "t_bank row = d_bank d" "t_direction row = d_direction d"
    and "d_reference_number d = Some r" "t_reference_number row = Some r"
    and "\<forall>x \<in> set (transactions s). t_reference_number x \<noteq> Some (strip r)"
    and "d_transaction_date d = None"
  shows "merge_transaction env s ch d sms email False = Inl Duplicate_reference"
proof -
  have "match_by_reference (transactions s) d = None"
    using assms by (auto simp: match_by_reference_None reference_rows_Nil Let_def)
  then have m: "match_decision_of (transactions s) d ch src = Insert" for src
    using assms(7) by (simp add: match_decision_of_def find_match_def gather_fuzzy_candidates_def
        match_by_alias_def)
  have "ref_key row = ref_key (new_row env s ch d sms email)"
    using assms by (simp add: ref_key_def new_row_def)
  moreover have "ref_key row \<noteq> None" using assms by (simp add: ref_key_def)
  moreover have "ref_key row \<in> set (map ref_key (transactions s))" using assms(1) by simp
  ultimately have "\<not> ref_index_ok (s\<lparr>transactions := transactions s @ [new_row env s ch d sms email]\<rparr>)"
    by (simp add: ref_index_ok_def del: set_map)
  then have "insert_new env s ch d sms email = Inl Duplicate_reference"
    by (simp add: insert_new_def Let_def)
  then show ?thesis by (simp add: merge_transaction_def merge_with_def m)
qed

theorem padded_reference_rejected_witness:
  "let d = demo_data\<lparr>d_reference_number := Some ''AB12 '', d_transaction_date := None\<rparr> in
   \<exists>res s'. merge_transaction demo_env empty_db Sms d (Some 3) None False = Inr (res, s') \<and>
     mr_outcome res = Created \<and>
     merge_transaction demo_env s' Sms d (Some 3) None False = Inl Duplicate_reference"
proof -
  define d where "d = demo_data\<lparr>d_reference_number := Some ''AB12 '', d_transaction_date := None\<rparr>"
  define row where "row = new_row demo_env empty_db Sms d (Some 3) None"
  define s' where "s' = empty_db\<lparr>transactions := [row]\<rparr>"
  have 1: "merge_transaction demo_env empty_db Sms d (Some 3) None False =
      Inr (merge_result_of Created (Some 1) no_diff, s')"
    unfolding d_def s'_def row_def by code_simp
  have "merge_transaction demo_env s' Sms d (Some 3) None False = Inl Duplicate_reference"
  proof (rule padded_reference_rejected [where row = row and r = "''AB12 ''"])
    show "\<forall>x \<in> set (transactions s'). t_reference_number x \<noteq> Some (strip ''AB12 '')"
      unfolding s'_def row_def d_def by code_simp
  qed (simp_all add: s'_def row_def new_row_def d_def)
  then show ?thesis using 1 by (simp add: d_def [symmetric] Let_def merge_result_of_def)
qed

text \<open>C6. The race for a source slot. Whatever older state the caller's row object was read in, a
  claim never takes a slot that the table shows as owned: every row keeps its owner. It fails
  exactly when the slot that looked free now belongs to another source (or the row is gone),
  and when it succeeds on a free slot the table's row is owned by the claimant.\<close>

theorem claim_never_steals:
  assumes "keys_ok s" "slot_of ch t = None"
  shows "case claim_transaction_source_slot s t ch (Some i) of
     Inr (t', s') \<Rightarrow> slot_of ch t' = Some i \<and> map t_id (transactions s') = map t_id (transactions s) \<and>
       (\<exists>r \<in> set (transactions s'). t_id r = t_id t \<and> slot_of ch r = Some i) \<and>
       list_all2 (\<lambda>r r'. (slot_of ch r \<noteq> None \<longrightarrow> r' = r) \<and> (t_id r \<noteq> t_id t \<longrightarrow> r' = r))
         (transactions s) (transactions s')
   | Inl e \<Rightarrow> e = Slot_conflict \<and>
       (\<forall>r \<in> set (transactions s). t_id r = t_id t \<longrightarrow> (\<exists>j. j \<noteq> i \<and> slot_of ch r = Some j))"
proof -
  define hit where "hit = (\<lambda>r. t_id r = t_id t \<and> (slot_of ch r = None \<or> slot_of ch r = Some i))"
  have fill: "slot_of ch r = Some i \<Longrightarrow> fill_slot ch i r = r" for r by (cases ch) auto
  have le: "length (filter hit (transactions s)) \<le> 1"
  proof (cases "filter hit (transactions s)" rule: none_one_many)
    case (many v vb vc)
    then have "v \<in> set (filter hit (transactions s))" "vb \<in> set (filter hit (transactions s))"
      by simp_all
    then have "v \<in> set (transactions s)" "vb \<in> set (transactions s)" "t_id v = t_id vb"
      by (simp_all add: hit_def)
    then have "v = vb" using keys_ok_txn_eq [OF assms(1)] by blast
    moreover have "distinct (filter hit (transactions s))"
      using keys_ok_distinct [OF assms(1)] by simp
    ultimately show ?thesis using many by simp
  qed simp_all
  show ?thesis
  proof (cases "length (filter hit (transactions s)) = 1")
    case True
    then obtain r where "filter hit (transactions s) = [r]" by (auto simp: length_Suc_conv)
    then have "r \<in> set (filter hit (transactions s))" by simp
    then have r: "r \<in> set (transactions s)" "hit r" by simp_all
    define s' where "s' = s\<lparr>transactions := map (\<lambda>r. if hit r then fill_slot ch i r else r) (transactions s)\<rparr>"
    have c: "claim_transaction_source_slot s t ch (Some i) = Inr (fill_slot ch i t, s')"
      using True assms(2) by (simp add: claim_transaction_source_slot_def hit_def s'_def)
    have "fill_slot ch i r \<in> set (transactions s')" using r by (force simp: s'_def)
    then have "\<exists>r \<in> set (transactions s'). t_id r = t_id t \<and> slot_of ch r = Some i"
      using r(2) by (intro bexI [of _ "fill_slot ch i r"]) (simp_all add: hit_def)
    moreover have "list_all2 (\<lambda>r r'. (slot_of ch r \<noteq> None \<longrightarrow> r' = r) \<and> (t_id r \<noteq> t_id t \<longrightarrow> r' = r))
        (transactions s) (transactions s')"
      by (auto simp: s'_def list_all2_conv_all_nth hit_def fill)
    moreover have "map t_id (transactions s') = map t_id (transactions s)" by (simp add: s'_def)
    ultimately show ?thesis by (simp add: c)
  next
    case False
    then have "filter hit (transactions s) = []" using le by (cases "filter hit (transactions s)") auto
    then show ?thesis
      using False assms(2)
      by (auto simp: claim_transaction_source_slot_def hit_def filter_empty_conv)
  qed
qed

theorem claim_never_steals_witness:
  "claim_transaction_source_slot (empty_db\<lparr>transactions := [demo_row\<lparr>t_sms_message_id := Some 4\<rparr>]\<rparr>)
     demo_row Sms (Some 3) = Inl Slot_conflict"
proof -
  let ?s = "empty_db\<lparr>transactions := [demo_row\<lparr>t_sms_message_id := Some 4\<rparr>]\<rparr>"
  have 1: "keys_ok ?s" "slot_of Sms demo_row = None" by code_simp+
  have 2: "length (transactions ?s) = 1 \<and> slot_of Sms (hd (transactions ?s)) = Some 4" by simp
  show ?thesis
    using claim_never_steals [OF 1, of 3] 2
    by (auto split: sum.splits simp: list_all2_Cons1)
qed

end
