(* ===== verification/Cat_Rules.thy ===== *)
theory Cat_Rules
  imports Self_Transfer
begin

text \<open>
  \<open>services/categorization/rules.py\<close> and \<open>merchant_rules.py\<close>: the deterministic rules that run
  before the language model, and the table of merchant patterns they consult, with its
  in-memory cache. A rule's confidence, a float literal in the code, is the rational it
  denotes.
\<close>

section \<open>\<open>rules.py\<close>\<close>

definition RULESET_VERSION :: string where
  "RULESET_VERSION = ''rules-v1''"

definition CARD_BILL_PAYMENT_MARKERS :: "string list" where
  "CARD_BILL_PAYMENT_MARKERS = [''cc payment'', ''credit card payment'', ''card payment'',
     ''bill payment'', ''bill repayment'', ''bppy'', ''bbps pmt'', ''payment received'']"

definition CARD_REFUND_MARKERS :: "string list" where
  "CARD_REFUND_MARKERS = [''refund'', ''refunded'', ''reversal'', ''reversed'', ''chargeback'',
     ''cancellation'']"

definition FEE_REVERSAL_MARKERS :: "string list" where
  "FEE_REVERSAL_MARKERS = [''fee reversal'', ''fee reversed'', ''fee refund'', ''fee waived'',
     ''fees reversed'', ''fees refund'', ''fees waived'', ''annual fee reversal'',
     ''annual fee reversed'', ''annual fee refund'', ''annual charges reversal'',
     ''annual charges reversed'', ''joining fee reversal'', ''joining fee reversed'',
     ''card fee reversal'', ''card fee reversed'', ''late fee reversal'', ''late fee reversed'',
     ''finance charges reversal'', ''finance charges reversed'']"

definition DIVIDEND_MARKERS :: "string list" where
  "DIVIDEND_MARKERS = [''dividend'', ''div'', ''divd'']"

definition has_marker :: "string \<Rightarrow> string list \<Rightarrow> bool" where
  "has_marker text_norm markers = (let padded = '' '' @ text_norm @ '' '' in
     \<exists>m \<in> set markers. sublist ('' '' @ m @ '' '') padded)"

record rule_config =
  self_name_tokens :: "string list"
  merchant_rules :: "(string \<times> string) list"

type_synonym rule_result = "string \<times> rat"

definition default_rule_config :: rule_config where
  "default_rule_config = \<lparr>self_name_tokens = [''self''], merchant_rules = []\<rparr>"

text \<open>\<open>tuple(dict.fromkeys(xs))\<close>: duplicates dropped, first occurrences kept in order.\<close>

definition from_keys :: "string list \<Rightarrow> string list" where
  "from_keys xs = rev (remdups (rev xs))"

definition load_rule_config :: "string list \<Rightarrow> (string \<times> string) list \<Rightarrow> rule_config" where
  "load_rule_config self_identifiers rules_cache =
     (let extra = filter (\<lambda>t. 3 \<le> length t) self_identifiers;
          base = default_rule_config;
          tokens = from_keys (self_name_tokens base @ map lower extra)
      in base\<lparr>self_name_tokens := tokens, merchant_rules := rules_cache\<rparr>)"

record rule_fields =
  rf_counterparty :: "string option"
  rf_raw_description :: "string option"
  rf_channel :: "string option"
  rf_email_type :: "string option"
  rf_direction :: "string option"
  rf_amount :: rat
  rf_currency :: string
  rf_bank :: "string option"
  rf_account_type :: "string option"

definition rule_text :: "rule_fields \<Rightarrow> string" where
  "rule_text f = normalize_text (Some (join_sp (map or_empty
     (filter truthy [rf_counterparty f, rf_raw_description f]))))"

fun merchant_match :: "string \<Rightarrow> bool \<Rightarrow> string \<Rightarrow> (string \<times> string) list \<Rightarrow> rule_result option" where
  "merchant_match direction is_cc_spend text_norm [] = None"
| "merchant_match direction is_cc_spend text_norm ((pattern, category) # rules) =
     (if is_cc_spend \<and> category = ''credit_card_payment''
      then merchant_match direction is_cc_spend text_norm rules
      else if direction = ''credit'' \<and> category \<in> set EXPENSE_SLUGS
      then merchant_match direction is_cc_spend text_norm rules
      else if direction = ''debit'' \<and> category \<in> set INCOME_SLUGS
      then merchant_match direction is_cc_spend text_norm rules
      else if sublist pattern text_norm then
        (if category = ''investment'' \<and> direction = ''credit''
         then Some (''investment_redemption'', 9 / 10)
         else Some (category, 9 / 10))
      else merchant_match direction is_cc_spend text_norm rules)"

definition is_card_credit :: "rule_fields \<Rightarrow> bool" where
  "is_card_credit f \<longleftrightarrow> lower (or_empty (rf_direction f)) = ''credit'' \<and>
     rf_account_type f = Some CREDIT_CARD_ACCOUNT_TYPE"

definition match_rules :: "rule_fields \<Rightarrow> rule_config \<Rightarrow> rule_result option" where
  "match_rules f config =
     (let text_norm = rule_text f;
          cp_norm = normalize_counterparty (rf_counterparty f);
          channel = lower (or_empty (rf_channel f));
          direction = lower (or_empty (rf_direction f));
          is_cc_spend = sublist ''spent on'' text_norm \<and> sublist ''credit card'' text_norm;
          email_type = lower (or_empty (rf_email_type f));
          card_credit = is_card_credit f
      in if is_fd_counterparty (rf_counterparty f) (rf_bank f) then
           (if direction = ''credit'' then Some (''investment_redemption'', 95 / 100)
            else Some (''investment'', 95 / 100))
         else if channel = ''interest'' \<and> direction \<noteq> ''debit'' then Some (''interest'', 1)
         else if sublist ''cc_refund'' email_type then Some (''refund'', 9 / 10)
         else if sublist ''cc_payment'' email_type \<or> sublist ''cc_bill_paid'' email_type \<or>
                 sublist ''cc_smartpay'' email_type
         then Some (''credit_card_payment'', 95 / 100)
         else if direction = ''credit'' \<and> has_marker text_norm FEE_REVERSAL_MARKERS
         then Some (''fees_charges'', 9 / 10)
         else if card_credit \<and> has_marker text_norm CARD_REFUND_MARKERS
         then Some (REFUND_SLUG, 9 / 10)
         else if card_credit \<and> (has_marker text_norm CARD_BILL_PAYMENT_MARKERS \<or>
                 prefix ''payment '' text_norm)
         then Some (CREDIT_CARD_PAYMENT_SLUG, 95 / 100)
         else if direction = ''credit'' \<and> \<not> card_credit \<and> has_marker text_norm DIVIDEND_MARKERS
         then Some (''other_income'', 9 / 10)
         else case merchant_match direction is_cc_spend text_norm (merchant_rules config) of
           Some r \<Rightarrow> Some r
         | None \<Rightarrow>
             if direction = ''credit'' \<and> \<not> card_credit \<and>
                (channel = ''ach_credit'' \<or> prefix ''ach c '' text_norm)
             then Some (''other_income'', 9 / 10)
             else if \<exists>t \<in> set (self_name_tokens config).
                normalize_counterparty (Some t) \<noteq> [] \<and> sublist (normalize_counterparty (Some t)) cp_norm
             then Some (''self_transfer'', 9 / 10)
             else if card_credit then Some (CREDIT_CARD_PAYMENT_SLUG, 7 / 10)
             else None)"

section \<open>\<open>merchant_rules.py\<close>\<close>

record merchant_rule =
  m_id :: nat
  m_pattern :: string
  m_category :: string
  m_active :: bool
  m_priority :: int

text \<open>The table's order: priority ascending, longer patterns first, then the key. \<open>sort_key\<close>
  is stable, so the keys are sorted from the last to the first.\<close>

definition rule_order :: "merchant_rule list \<Rightarrow> merchant_rule list" where
  "rule_order rows = sort_key m_priority
     (sort_key (\<lambda>r. - int (length (m_pattern r))) (sort_key m_id rows))"

definition load_merchant_rules :: "merchant_rule list \<Rightarrow> (string \<times> string) list" where
  "load_merchant_rules rows = map (\<lambda>r. (m_pattern r, m_category r))
     (filter (\<lambda>r. strip (m_pattern r) \<noteq> []) (rule_order (filter m_active rows)))"

datatype rule_error = Blank_pattern | Invalid_slug string | Unknown_category string

definition next_rule_id :: "merchant_rule list \<Rightarrow> nat" where
  "next_rule_id rows = Suc (fold max (map m_id rows) 0)"

definition upsert_rule :: "string \<Rightarrow> string \<Rightarrow> int \<Rightarrow> merchant_rule list \<Rightarrow> merchant_rule list" where
  "upsert_rule pattern category priority rows =
     (if \<exists>r \<in> set rows. m_pattern r = pattern
      then map (\<lambda>r. if m_pattern r = pattern
        then r\<lparr>m_category := category, m_active := True, m_priority := priority\<rparr> else r) rows
      else rows @ [\<lparr>m_id = next_rule_id rows, m_pattern = pattern, m_category = category,
        m_active = True, m_priority = priority\<rparr>])"

definition add_merchant_rule ::
  "string list \<Rightarrow> merchant_rule list \<Rightarrow> string \<Rightarrow> string \<Rightarrow> int \<Rightarrow> rule_error + merchant_rule list" where
  "add_merchant_rule categories rows pattern category priority =
     (let pattern = normalize_text (Some pattern) in
      if pattern = [] then Inl Blank_pattern
      else if \<not> is_valid_slug category then Inl (Invalid_slug category)
      else if category \<notin> set categories then Inl (Unknown_category category)
      else Inr (upsert_rule pattern category priority rows))"

definition list_merchant_rules :: "merchant_rule list \<Rightarrow> merchant_rule list" where
  "list_merchant_rules rows = rule_order rows"


section \<open>The comparison form of a narration\<close>

definition words :: "string list \<Rightarrow> bool" where
  "words ws \<longleftrightarrow> (\<forall>w \<in> set ws. w \<noteq> [] \<and> (\<forall>c \<in> set w. \<not> is_space c))"

lemma split_ws_blank: "lstrip s = [] \<Longrightarrow> split_ws s = []"
  by (subst split_ws.simps) simp

lemma split_ws_step:
  assumes "lstrip s = c # cs"
  shows "split_ws s = takeWhile (\<lambda>d. \<not> is_space d) (c # cs) # split_ws (dropWhile (\<lambda>d. \<not> is_space d) (c # cs))"
  unfolding split_ws.simps [of s] assms by (simp only: list.case)

lemma words_Cons: "words (w # ws) \<longleftrightarrow> w \<noteq> [] \<and> (\<forall>c \<in> set w. \<not> is_space c) \<and> words ws"
  by (auto simp: words_def)

lemma split_ws_words: "words (split_ws s)"
proof (induction s rule: split_ws.induct)
  case (1 s)
  show ?case
  proof (cases "lstrip s")
    case Nil
    then show ?thesis by (simp add: split_ws_blank words_def)
  next
    case (Cons c cs)
    then have c: "\<not> is_space c"
      using hd_dropWhile [of is_space s] by (simp add: lstrip_def)
    have "\<forall>x \<in> set (takeWhile (\<lambda>d. \<not> is_space d) (c # cs)). \<not> is_space x"
      using set_takeWhileD by fastforce
    then show ?thesis
      unfolding split_ws_step [OF Cons] words_Cons using 1 [OF Cons] c by simp
  qed
qed

lemma set_split_ws: "w \<in> set (split_ws s) \<Longrightarrow> set w \<subseteq> set s"
proof (induction s rule: split_ws.induct)
  case (1 s)
  show ?case
  proof (cases "lstrip s")
    case Nil
    then show ?thesis using 1 by (simp add: split_ws_blank)
  next
    case (Cons c cs)
    have sub: "set (c # cs) \<subseteq> set s"
      unfolding Cons [symmetric] lstrip_def using set_dropWhileD by fastforce
    have d: "set (dropWhile (\<lambda>d. \<not> is_space d) (c # cs)) \<subseteq> set (c # cs)"
      using set_dropWhileD by fastforce
    have t: "set (takeWhile (\<lambda>d. \<not> is_space d) (c # cs)) \<subseteq> set (c # cs)"
      using set_takeWhileD by fastforce
    have "w = takeWhile (\<lambda>d. \<not> is_space d) (c # cs) \<or> w \<in> set (split_ws (dropWhile (\<lambda>d. \<not> is_space d) (c # cs)))"
      using 1(2) unfolding split_ws_step [OF Cons] by simp
    then show ?thesis using 1(1) [OF Cons] sub d t by blast
  qed
qed

lemma split_ws_Nil [simp]: "split_ws [] = []"
  by (rule split_ws_blank) (simp add: lstrip_def)

lemma split_ws_space: "is_space c \<Longrightarrow> split_ws (c # s) = split_ws s"
  unfolding split_ws.simps [of "c # s"] split_ws.simps [of s] by (simp add: lstrip_def)

lemma split_ws_word:
  assumes "w \<noteq> []" "\<forall>c \<in> set w. \<not> is_space c" "s = [] \<or> is_space (hd s)"
  shows "split_ws (w @ s) = w # split_ws s"
proof -
  have "lstrip (w @ s) = w @ s" using assms(1,2) by (cases w) (auto simp: lstrip_def)
  moreover obtain c cs where "w = c # cs" using assms(1) by (cases w) auto
  moreover have "takeWhile (\<lambda>d. \<not> is_space d) (w @ s) = w" "dropWhile (\<lambda>d. \<not> is_space d) (w @ s) = s"
    using assms(2,3) by (cases s; simp add: takeWhile_append2 dropWhile_append2)+
  ultimately show ?thesis using split_ws_step [of "w @ s" c "cs @ s"] by simp
qed

lemma space_is_space [simp]: "is_space CHR '' ''"
  by (simp add: is_space_def code_def)

lemma split_ws_join: "words ws \<Longrightarrow> split_ws (join_sp ws) = ws"
proof (induction ws rule: join_sp.induct)
  case (2 w)
  then show ?case using split_ws_word [of w "[]"] by (simp add: words_def)
next
  case (3 w v ws)
  have "split_ws (w @ '' '' @ join_sp (v # ws)) = w # split_ws ('' '' @ join_sp (v # ws))"
    using 3(2) by (intro split_ws_word) (simp_all add: words_def)
  then show ?case using 3 by (simp add: split_ws_space words_def)
qed simp

lemma set_join_sp: "set (join_sp ws) \<subseteq> insert CHR '' '' (\<Union> (set ` set ws))"
  by (induction ws rule: join_sp.induct) auto

lemma slug_ch_lower: "is_slug_ch c \<Longrightarrow> lower_ch c = c"
  using slug_ch_facts by simp

lemma lower_space [simp]: "lower_ch CHR '' '' = CHR '' ''"
  by (simp add: lower_ch_def code_def)

lemma normalize_text_words:
  "\<exists>ws. normalize_text s = join_sp ws \<and> words ws \<and> (\<forall>w \<in> set ws. \<forall>c \<in> set w. is_slug_ch c)"
proof (cases "truthy s")
  case True
  let ?t = "sub_runs (\<lambda>c. \<not> (is_slug_ch c \<or> c = CHR '' '')) '' '' (lower (or_empty s))"
  have t: "set ?t \<subseteq> {c. is_slug_ch c \<or> c = CHR '' ''}"
    using set_sub_runs [of "\<lambda>c. \<not> (is_slug_ch c \<or> c = CHR '' '')" "'' ''" "lower (or_empty s)"] by auto
  have w: "words (split_ws ?t)" by (rule split_ws_words)
  have "is_slug_ch c" if "w \<in> set (split_ws ?t)" "c \<in> set w" for w c
    using set_split_ws [OF that(1)] t w that space_is_space by (fastforce simp: words_def)
  then show ?thesis using w True by (auto simp: normalize_text_def)
next
  case False
  then show ?thesis by (intro exI [of _ "[]"]) (simp add: normalize_text_def words_def)
qed

lemma normalize_text_fixed:
  assumes "words ws" "\<forall>w \<in> set ws. \<forall>c \<in> set w. is_slug_ch c"
  shows "normalize_text (Some (join_sp ws)) = join_sp ws"
proof -
  have m: "is_slug_ch c \<or> c = CHR '' ''" if "c \<in> set (join_sp ws)" for c
    using set_join_sp [of ws] that assms(2) by auto
  have "lower (join_sp ws) = join_sp ws"
    using m slug_ch_lower by (intro lower_id) fastforce
  moreover have "sub_runs (\<lambda>c. \<not> (is_slug_ch c \<or> c = CHR '' '')) '' '' (join_sp ws) = join_sp ws"
    using m by (intro sub_runs_none) auto
  ultimately show ?thesis
    by (auto simp: normalize_text_def split_ws_join [OF assms(1)])
qed

lemma normalize_text_idem: "normalize_text (Some (normalize_text s)) = normalize_text s"
  using normalize_text_words [of s] normalize_text_fixed by metis

section \<open>What the rules may answer\<close>

lemma if_eqE: "(if b then x else y) = z \<Longrightarrow> (b \<Longrightarrow> x = z \<Longrightarrow> P) \<Longrightarrow> (\<not> b \<Longrightarrow> y = z \<Longrightarrow> P) \<Longrightarrow> P"
  by (cases b) simp_all

text \<open>The rule of the merchant table that answers, if one does.\<close>

definition rule_allows :: "string \<Rightarrow> string \<Rightarrow> bool" where
  "rule_allows dir cat \<longleftrightarrow> \<not> (dir = ''credit'' \<and> cat \<in> set EXPENSE_SLUGS) \<and>
     \<not> (dir = ''debit'' \<and> cat \<in> set INCOME_SLUGS)"

lemma merchant_match_Some:
  assumes "merchant_match dir cc text rules = Some (c, conf)"
  shows "conf = 9 / 10 \<and> (\<exists>p cat. (p, cat) \<in> set rules \<and> sublist p text \<and> rule_allows dir cat \<and>
     (c = cat \<or> dir = ''credit'' \<and> c = ''investment_redemption''))"
  using assms
proof (induction rules)
  case (Cons x rules)
  obtain p cat where x: "x = (p, cat)" by force
  consider (skip) "merchant_match dir cc text (x # rules) = merchant_match dir cc text rules"
    | (hit) k where "rule_allows dir cat" "sublist p text" "k = cat \<or> dir = ''credit'' \<and> k = ''investment_redemption''"
      "merchant_match dir cc text (x # rules) = Some (k, 9 / 10)"
    unfolding x merchant_match.simps rule_allows_def by presburger
  then show ?case
  proof cases
    case skip
    then have "merchant_match dir cc text rules = Some (c, conf)" using Cons.prems by simp
    from Cons.IH [OF this] obtain q e where ih: "conf = 9 / 10" "(q, e) \<in> set rules" "sublist q text"
      "rule_allows dir e" "c = e \<or> dir = ''credit'' \<and> c = ''investment_redemption''" by blast
    then show ?thesis by (intro conjI exI [of _ q] exI [of _ e]) simp_all
  next
    case (hit k)
    then have "k = c" "conf = 9 / 10" using Cons.prems by simp_all
    then show ?thesis using hit x by (metis list.set_intros(1))
  qed
qed simp

text \<open>Where an answer of \<open>match_rules\<close> can come from.\<close>

definition rule_origin :: "rule_fields \<Rightarrow> rule_config \<Rightarrow> string \<Rightarrow> bool" where
  "rule_origin f config slug \<longleftrightarrow> (let dir = lower (or_empty (rf_direction f)) in
     slug \<in> {''investment'', ''credit_card_payment'', ''self_transfer''} \<or>
     slug = ''investment_redemption'' \<and> dir = ''credit'' \<or>
     slug = ''interest'' \<and> dir \<noteq> ''debit'' \<and> lower (or_empty (rf_channel f)) = ''interest'' \<or>
     slug = ''refund'' \<and> (sublist ''cc_refund'' (lower (or_empty (rf_email_type f))) \<or> dir = ''credit'') \<or>
     slug = ''fees_charges'' \<and> dir = ''credit'' \<and> has_marker (rule_text f) FEE_REVERSAL_MARKERS \<or>
     slug = ''other_income'' \<and> dir = ''credit'' \<and> \<not> is_card_credit f \<or>
     (\<exists>p. (p, slug) \<in> set (merchant_rules config) \<and> rule_allows dir slug))"

lemma merchant_origin:
  assumes "merchant_match (lower (or_empty (rf_direction f))) cc text (merchant_rules config) = Some (slug, conf)"
  shows "rule_origin f config slug \<and> 7 / 10 \<le> conf \<and> conf \<le> 1"
proof -
  define dir where "dir = lower (or_empty (rf_direction f))"
  obtain p cat where m: "conf = 9 / 10" "(p, cat) \<in> set (merchant_rules config)" "rule_allows dir cat"
    "slug = cat \<or> dir = ''credit'' \<and> slug = ''investment_redemption''"
    using merchant_match_Some [OF assms] unfolding dir_def by metis
  from m(4) have "rule_origin f config slug"
  proof
    assume "slug = cat"
    then have "(p, slug) \<in> set (merchant_rules config) \<and> rule_allows dir slug" using m by simp
    then show ?thesis unfolding rule_origin_def Let_def dir_def by (intro disjI2) (rule exI)
  next
    assume "dir = ''credit'' \<and> slug = ''investment_redemption''"
    then show ?thesis unfolding rule_origin_def Let_def dir_def by simp
  qed
  then show ?thesis using m(1) by simp
qed

lemma match_rules_origin:
  assumes "match_rules f config = Some (slug, conf)"
  shows "rule_origin f config slug \<and> 7 / 10 \<le> conf \<and> conf \<le> 1"
proof (cases "merchant_match (lower (or_empty (rf_direction f)))
    (sublist ''spent on'' (rule_text f) \<and> sublist ''credit card'' (rule_text f)) (rule_text f) (merchant_rules config)")
  case None
  from assms show ?thesis
    unfolding match_rules_def Let_def None option.case
    by (elim if_eqE) (clarsimp simp: rule_origin_def slug_names is_card_credit_def)+
next
  case (Some r)
  obtain c k where r: "r = (c, k)" by force
  note m = merchant_origin [OF Some [unfolded r]]
  from assms show ?thesis
    unfolding match_rules_def Let_def Some r option.case
    by (elim if_eqE) ((clarsimp simp: rule_origin_def slug_names is_card_credit_def; fail) | (use m in simp))+
qed

lemma card_credit_matched:
  assumes "is_card_credit f"
  shows "match_rules f config \<noteq> None"
proof
  assume "match_rules f config = None"
  then show False
    using assms unfolding match_rules_def Let_def by (simp split: option.splits if_splits)
qed

text \<open>C10. The rules respect the direction guard, with four exceptions. Whatever they answer (with a
  confidence between 0.7 and 1) is admissible for the direction and the account, unless it is a
  fee reversal that the narration of a credit backs (on purpose), \<open>refund\<close> for a debit with a card
  refund template, \<open>interest\<close> for a card credit on the interest channel (a slug that
  \<open>polarity.py\<close> rules out there), or the slug of a merchant rule that is the unknown sentinel or
  an inbound-money slug for a card credit. And a credit on a card is always decided here, so
  it never reaches the language model.\<close>

theorem match_rules_respect_polarity:
  "let dir = lower (or_empty (rf_direction f)) in
   case match_rules f config of
     None \<Rightarrow> \<not> is_card_credit f
   | Some (slug, conf) \<Rightarrow> 7 / 10 \<le> conf \<and> conf \<le> 1 \<and>
       (admissible slug dir (rf_account_type f) \<or>
        slug = ''fees_charges'' \<and> dir = ''credit'' \<and> has_marker (rule_text f) FEE_REVERSAL_MARKERS \<or>
        slug = ''refund'' \<and> dir = ''debit'' \<and> sublist ''cc_refund'' (lower (or_empty (rf_email_type f))) \<or>
        slug = ''interest'' \<and> is_card_credit f \<and> lower (or_empty (rf_channel f)) = ''interest'' \<or>
        (\<exists>p. (p, slug) \<in> set (merchant_rules config) \<and>
           (slug = UNKNOWN_SLUG \<or> is_card_credit f \<and> slug \<in> set CC_IMPOSSIBLE_CREDIT_SLUGS)))"
proof (cases "match_rules f config")
  case None
  then show ?thesis using card_credit_matched [of f config] by auto
next
  case (Some r)
  define dir where "dir = lower (or_empty (rf_direction f))"
  obtain slug conf where r: "r = (slug, conf)" by force
  note o = match_rules_origin [OF Some [unfolded r]]
  have "admissible slug dir (rf_account_type f) \<or>
        slug = ''fees_charges'' \<and> dir = ''credit'' \<and> has_marker (rule_text f) FEE_REVERSAL_MARKERS \<or>
        slug = ''refund'' \<and> dir = ''debit'' \<and> sublist ''cc_refund'' (lower (or_empty (rf_email_type f))) \<or>
        slug = ''interest'' \<and> is_card_credit f \<and> lower (or_empty (rf_channel f)) = ''interest'' \<or>
        (\<exists>p. (p, slug) \<in> set (merchant_rules config) \<and>
           (slug = UNKNOWN_SLUG \<or> is_card_credit f \<and> slug \<in> set CC_IMPOSSIBLE_CREDIT_SLUGS))"
    using conjunct1 [OF o] unfolding rule_origin_def Let_def dir_def [symmetric] insert_iff empty_iff simp_thms
  proof (elim disjE exE conjE, goal_cases)
    case (10 p)
    then show ?case by (auto simp: admissible_def rule_allows_def is_card_credit_def dir_def)
  qed (simp add: admissible_def slug_names INCOME_SLUGS_def EXPENSE_SLUGS_def is_card_credit_def dir_def [symmetric];
      (blast | fail)?)+
  then show ?thesis using o by (simp add: Some r dir_def)
qed

text \<open>Three messages for the witnesses and examples: a card bill paid, interest on a card, and a
  purchase no rule knows.\<close>

definition demo_fields :: "string \<Rightarrow> string \<Rightarrow> string \<Rightarrow> string option \<Rightarrow> rule_fields" where
  "demo_fields cp chan dir acct = \<lparr>rf_counterparty = Some cp, rf_raw_description = None,
     rf_channel = Some chan, rf_email_type = None, rf_direction = Some dir,
     rf_amount = 100, rf_currency = ''INR'', rf_bank = Some ''hdfc'', rf_account_type = acct\<rparr>"

theorem match_rules_respect_polarity_witness:
  "match_rules (demo_fields ''PAYMENT/XY'' ''upi'' ''Credit'' (Some CREDIT_CARD_ACCOUNT_TYPE))
     default_rule_config = Some (''credit_card_payment'', 95 / 100) \<and>
   admissible ''credit_card_payment'' ''credit'' (Some CREDIT_CARD_ACCOUNT_TYPE)"
proof -
  let ?f = "demo_fields ''PAYMENT/XY'' ''upi'' ''Credit'' (Some CREDIT_CARD_ACCOUNT_TYPE)"
  have 1: "lower (or_empty (rf_direction ?f)) = ''credit''" by code_simp
  have 2: "match_rules ?f default_rule_config = Some (''credit_card_payment'', 95 / 100)" by code_simp
  show ?thesis
    using match_rules_respect_polarity [of ?f default_rule_config] 1 2
    by (simp add: default_rule_config_def demo_fields_def Let_def)
qed

text \<open>The third exception happens: a credit on the interest channel of
  a card is answered with \<open>interest\<close>, a slug that \<open>polarity.py\<close> declares impossible there.\<close>

lemma card_interest_inadmissible:
  "match_rules (demo_fields ''HDFC'' ''Interest'' ''credit'' (Some CREDIT_CARD_ACCOUNT_TYPE))
     default_rule_config = Some (''interest'', 1) \<and>
   resolve_direction ''interest'' ''credit'' (Some CREDIT_CARD_ACCOUNT_TYPE) = (CC_CREDIT_DEFAULT, True)"
  by code_simp

section \<open>The merchant table\<close>

definition rules_ok :: "merchant_rule list \<Rightarrow> bool" where
  "rules_ok rows \<longleftrightarrow> distinct (map m_id rows) \<and> distinct (map m_pattern rows) \<and>
     (\<forall>r \<in> set rows. normalize_text (Some (m_pattern r)) = m_pattern r)"

lemma set_rule_order [simp]: "set (rule_order rows) = set rows"
  by (simp add: rule_order_def)

lemma set_load_rules: "(p, c) \<in> set (load_merchant_rules rows) \<longleftrightarrow>
   (\<exists>r \<in> set rows. m_active r \<and> m_pattern r = p \<and> m_category r = c \<and> strip p \<noteq> [])"
  by (auto simp: load_merchant_rules_def)

lemma next_rule_id_fresh: "r \<in> set rows \<Longrightarrow> m_id r < next_rule_id rows"
  by (simp add: next_rule_id_def less_Suc_eq_le fold_max_ge)

lemma upsert_keeps_ok:
  assumes "rules_ok rows" "normalize_text (Some p) = p"
  shows "rules_ok (upsert_rule p c pr rows)"
proof (cases "\<exists>r \<in> set rows. m_pattern r = p")
  case True
  let ?g = "\<lambda>r. if m_pattern r = p then r\<lparr>m_category := c, m_active := True, m_priority := pr\<rparr> else r"
  have "upsert_rule p c pr rows = map ?g rows" using True by (simp add: upsert_rule_def)
  moreover have "map m_id (map ?g rows) = map m_id rows" "map m_pattern (map ?g rows) = map m_pattern rows"
    by simp_all
  ultimately show ?thesis using assms by (auto simp: rules_ok_def simp del: map_map)
next
  case False
  then show ?thesis
    using assms by (auto simp: upsert_rule_def rules_ok_def dest: next_rule_id_fresh)
qed

lemma set_upsert:
  "m_pattern r \<noteq> p \<Longrightarrow> r \<in> set (upsert_rule p c pr rows) \<longleftrightarrow> r \<in> set rows"
  "r \<in> set (upsert_rule p c pr rows) \<Longrightarrow> m_pattern r = p \<Longrightarrow> m_category r = c \<and> m_active r"
  "\<exists>r \<in> set (upsert_rule p c pr rows). m_pattern r = p"
proof -
  let ?g = "\<lambda>r. if m_pattern r = p then r\<lparr>m_category := c, m_active := True, m_priority := pr\<rparr> else r"
  have g: "m_pattern (?g r) = m_pattern r" for r by simp
  consider (upd) q where "q \<in> set rows" "m_pattern q = p" "upsert_rule p c pr rows = map ?g rows"
    | (app) n where "\<forall>q \<in> set rows. m_pattern q \<noteq> p" "upsert_rule p c pr rows = rows @ [n]"
      "m_pattern n = p" "m_category n = c" "m_active n"
    unfolding upsert_rule_def by (cases "\<exists>r \<in> set rows. m_pattern r = p") auto
  then have "(m_pattern r \<noteq> p \<longrightarrow> (r \<in> set (upsert_rule p c pr rows)) = (r \<in> set rows)) \<and>
      (r \<in> set (upsert_rule p c pr rows) \<longrightarrow> m_pattern r = p \<longrightarrow> m_category r = c \<and> m_active r) \<and>
      (\<exists>r \<in> set (upsert_rule p c pr rows). m_pattern r = p)"
  proof cases
    case (upd q)
    have "(r \<in> set (map ?g rows)) = (r \<in> set rows)" if "m_pattern r \<noteq> p"
    proof
      assume "r \<in> set (map ?g rows)"
      then obtain x where x: "x \<in> set rows" "r = ?g x" by auto
      have "m_pattern r = m_pattern x" unfolding x(2) by simp
      then show "r \<in> set rows" using x that by simp
    next
      assume "r \<in> set rows"
      then show "r \<in> set (map ?g rows)" using that by force
    qed
    moreover have "m_category r = c \<and> m_active r" if "r \<in> set (map ?g rows)" "m_pattern r = p"
    proof -
      have "r \<in> ?g ` set rows" using that(1) by (simp only: set_map)
      then obtain x where x: "r = ?g x" by (rule imageE)
      have "m_pattern r = m_pattern x" unfolding x by simp
      then have "m_pattern x = p" using that(2) by simp
      then show ?thesis unfolding x by simp
    qed
    moreover have "\<exists>r \<in> set (map ?g rows). m_pattern r = p"
      using upd(1,2) by (intro bexI [of _ "?g q"]) auto
    ultimately show ?thesis unfolding upd(3) by blast
  next
    case (app n)
    then show ?thesis by auto
  qed
  then show "m_pattern r \<noteq> p \<Longrightarrow> r \<in> set (upsert_rule p c pr rows) \<longleftrightarrow> r \<in> set rows"
    "r \<in> set (upsert_rule p c pr rows) \<Longrightarrow> m_pattern r = p \<Longrightarrow> m_category r = c \<and> m_active r"
    "\<exists>r \<in> set (upsert_rule p c pr rows). m_pattern r = p"
    by blast+
qed

lemma normalized_not_blank: "normalize_text s \<noteq> [] \<Longrightarrow> strip (normalize_text s) \<noteq> []"
proof -
  assume n: "normalize_text s \<noteq> []"
  obtain ws where ws: "normalize_text s = join_sp ws" "words ws" using normalize_text_words by blast
  then obtain w v where "ws = w # v" using n by (cases ws) auto
  then have "\<exists>c \<in> set (join_sp ws). \<not> is_space c"
    using ws(2) by (cases v) (auto simp: words_def neq_Nil_conv)
  then show ?thesis using ws(1) strip_eq_Nil by auto
qed

text \<open>Adding a rule and loading the table: the cache then answers the normalized pattern with
  the new category and no other, all other patterns are answered as before, patterns stay
  unique and normalized; and the three rejections leave no table at all. A blank pattern,
  which would match every narration, never reaches the cache.\<close>

theorem add_merchant_rule_loads:
  assumes "rules_ok rows"
  shows "case add_merchant_rule cats rows pattern category priority of
     Inl e \<Rightarrow> e = Blank_pattern \<and> normalize_text (Some pattern) = [] \<or>
        e = Invalid_slug category \<and> \<not> is_valid_slug category \<or>
        e = Unknown_category category \<and> category \<notin> set cats
   | Inr rows' \<Rightarrow> rules_ok rows' \<and> category \<in> set cats \<and> is_valid_slug category \<and>
        (\<forall>p c. (p, c) \<in> set (load_merchant_rules rows') \<longleftrightarrow>
          (if p = normalize_text (Some pattern) then c = category
           else (p, c) \<in> set (load_merchant_rules rows))) \<and>
        (\<forall>p c. (p, c) \<in> set (load_merchant_rules rows') \<longrightarrow> strip p \<noteq> [])"
proof (cases "add_merchant_rule cats rows pattern category priority")
  case (Inl e)
  then show ?thesis by (auto simp: add_merchant_rule_def Let_def split: if_splits)
next
  case (Inr rows')
  let ?p = "normalize_text (Some pattern)"
  have c: "?p \<noteq> []" "is_valid_slug category" "category \<in> set cats"
    "rows' = upsert_rule ?p category priority rows"
    using Inr by (auto simp: add_merchant_rule_def Let_def split: if_splits)
  have "rules_ok rows'"
    unfolding c(4) by (rule upsert_keeps_ok [OF assms normalize_text_idem])
  moreover have "(p, k) \<in> set (load_merchant_rules rows') \<longleftrightarrow>
      (if p = ?p then k = category else (p, k) \<in> set (load_merchant_rules rows))" for p k
  proof (cases "p = ?p")
    case True
    then show ?thesis
      using set_upsert(2) [of _ ?p category priority rows] set_upsert(3) [of ?p category priority rows]
        normalized_not_blank [OF c(1)]
      unfolding set_load_rules c(4) by metis
  next
    case False
    then show ?thesis
      using set_upsert(1) [where p = ?p and c = category and pr = priority and rows = rows]
      unfolding set_load_rules c(4) by auto
  qed
  moreover have "(p, k) \<in> set (load_merchant_rules rows') \<longrightarrow> strip p \<noteq> []" for p k
    unfolding set_load_rules by blast
  ultimately show ?thesis using c(2,3) Inr by simp
qed

theorem add_merchant_rule_loads_witness:
  "\<exists>rows'. add_merchant_rule [''dining''] [] ''Cafe.Blue@UPI'' ''dining'' 100 = Inr rows' \<and>
     (''cafe blue upi'', ''dining'') \<in> set (load_merchant_rules rows')"
proof -
  have 1: "rules_ok []" by (simp add: rules_ok_def)
  have 2: "normalize_text (Some ''Cafe.Blue@UPI'') = ''cafe blue upi''" "is_valid_slug ''dining''"
    by code_simp+
  then have "\<exists>rows'. add_merchant_rule [''dining''] [] ''Cafe.Blue@UPI'' ''dining'' 100 = Inr rows'"
    by (simp add: add_merchant_rule_def)
  then show ?thesis
    using 2 add_merchant_rule_loads [OF 1, where cats = "[''dining'']" and pattern = "''Cafe.Blue@UPI''"
        and category = "''dining''" and priority = 100]
    by (auto split: sum.splits)
qed

end
