(* ===== verification/Cat_Engine.thy ===== *)
theory Cat_Engine
  imports Cat_Rules
begin

text \<open>
  \<open>engine.py\<close>, \<open>llm.py\<close> (\<open>parse_result\<close>), \<open>fewshot.py\<close>, \<open>sweep.py\<close> and \<open>backfill.py\<close> of
  \<open>services/categorization\<close>: one row is categorized by the reference rule, the rules, or the
  language model; a sweep does so for a batch of rows; the backfill repeats sweeps until
  nothing is left. The model's provider is the parameter \<open>classify\<close>, which may fail
  (\<open>None\<close>, an exception in the code) and about which nothing is assumed.
\<close>

section \<open>The answer of the model\<close>

definition NEEDS_REVIEW :: string where
  "NEEDS_REVIEW = ''needs_review''"

record llm_result =
  lr_slug :: string
  lr_confidence :: rat
  lr_reason :: string

text \<open>What \<open>float(x)\<close> makes of the value a provider returns for the confidence.\<close>

datatype float_value = Finite rat | Pos_inf | Neg_inf | NaN | Not_a_float

definition clamp01 :: "float_value \<Rightarrow> rat" where
  "clamp01 v = (case v of Finite x \<Rightarrow> max 0 (min 1 x) | Pos_inf \<Rightarrow> 1 | Neg_inf \<Rightarrow> 0
     | NaN \<Rightarrow> 1 | Not_a_float \<Rightarrow> 0)"

definition parse_result :: "string \<Rightarrow> float_value \<Rightarrow> string \<Rightarrow> string list \<Rightarrow> llm_result" where
  "parse_result category confidence reason active_slugs =
     (let slug = strip category; conf = clamp01 confidence; reason = take 300 reason in
      if slug \<noteq> NEEDS_REVIEW \<and> slug \<notin> set active_slugs
      then \<lparr>lr_slug = NEEDS_REVIEW, lr_confidence = conf,
            lr_reason = (if reason \<noteq> [] then reason else ''model returned unknown slug'')\<rparr>
      else \<lparr>lr_slug = slug, lr_confidence = conf, lr_reason = reason\<rparr>)"

section \<open>Few-shot examples\<close>

record few_shot_example =
  fs_counterparty :: "string option"
  fs_raw_description :: "string option"
  fs_direction :: string
  fs_channel :: "string option"
  fs_category :: string

text \<open>\<open>ORDER BY created_at DESC\<close>: rows without a time come last.\<close>

definition recent_first :: "transaction list \<Rightarrow> transaction list" where
  "recent_first rows = sort_key (\<lambda>t. - the (t_created_at t)) (filter (\<lambda>t. t_created_at t \<noteq> None) rows)
     @ filter (\<lambda>t. t_created_at t = None) rows"

fun few_shot_loop :: "string \<Rightarrow> nat \<Rightarrow> few_shot_example list \<Rightarrow> transaction list \<Rightarrow> few_shot_example list" where
  "few_shot_loop target limit out [] = out"
| "few_shot_loop target limit out (r # rows) =
     (let cand = normalize_counterparty (t_counterparty r);
          out = (if cand \<noteq> [] \<and> (sublist cand target \<or> sublist target cand)
            then out @ [\<lparr>fs_counterparty = t_counterparty r, fs_raw_description = t_raw_description r,
              fs_direction = t_direction r, fs_channel = t_channel r,
              fs_category = or_empty (t_category r)\<rparr>] else out)
      in if limit \<le> length out then out else few_shot_loop target limit out rows)"

definition get_similar_examples ::
  "db \<Rightarrow> string option \<Rightarrow> string \<Rightarrow> nat \<Rightarrow> few_shot_example list" where
  "get_similar_examples s counterparty direction limit =
     (let target = normalize_counterparty counterparty in
      if target = [] then []
      else few_shot_loop target limit []
        (take 200 (recent_first (filter (\<lambda>t. t_direction t = direction \<and> t_category t \<noteq> None \<and>
           (t_category_method t = Some ''manual'' \<or> t_category_method t = Some ''rule'')) (transactions s)))))"

section \<open>One row\<close>

type_synonym classifier =
  "rule_fields \<Rightarrow> few_shot_example list \<Rightarrow> string list \<Rightarrow> llm_result option"

record engine_config =
  eg_rules :: rule_config
  eg_threshold :: rat
  eg_model_name :: string
  eg_active_slugs :: "string list"

definition fields_of :: "transaction \<Rightarrow> string option \<Rightarrow> rule_fields" where
  "fields_of t account_type = \<lparr>rf_counterparty = t_counterparty t,
     rf_raw_description = t_raw_description t, rf_channel = t_channel t,
     rf_email_type = Some (t_email_type t), rf_direction = Some (t_direction t),
     rf_amount = t_amount t,
     rf_currency = (if truthy (t_currency t) then or_empty (t_currency t) else ''INR''),
     rf_bank = Some (t_bank t), rf_account_type = account_type\<rparr>"

definition stamp :: "cat_env \<Rightarrow> string \<Rightarrow> transaction \<Rightarrow> transaction" where
  "stamp env h t = t\<lparr>t_category_input_hash := Some h, t_category_vocab_version := Some (env_vocab env),
     t_categorized_at := Some (env_now env)\<rparr>"

definition write_rule :: "cat_env \<Rightarrow> string \<Rightarrow> rule_result \<Rightarrow> transaction \<Rightarrow> transaction" where
  "write_rule env h hit t = stamp env h (t\<lparr>t_category := Some (fst hit), t_category_method := Some ''rule'',
     t_category_confidence := Some (snd hit), t_category_model := Some RULESET_VERSION,
     t_review_status := None\<rparr>)"

definition write_pending :: "cat_env \<Rightarrow> string \<Rightarrow> transaction \<Rightarrow> transaction" where
  "write_pending env h t = t\<lparr>t_category_method := Some ''pending_llm'',
     t_category_input_hash := Some h, t_category_vocab_version := Some (env_vocab env)\<rparr>"

definition write_empty :: "cat_env \<Rightarrow> string \<Rightarrow> transaction \<Rightarrow> transaction" where
  "write_empty env h t = stamp env h (t\<lparr>t_category := Some ''unknown'', t_category_method := Some ''llm'',
     t_category_confidence := Some 0, t_category_model := Some ''empty-input'',
     t_review_status := None\<rparr>)"

definition write_llm ::
  "cat_env \<Rightarrow> engine_config \<Rightarrow> string \<Rightarrow> string option \<Rightarrow> llm_result \<Rightarrow> transaction \<Rightarrow> transaction" where
  "write_llm env cfg h account_type result t =
     (let t = stamp env h (t\<lparr>t_category_method := Some ''llm'', t_category_model := Some (eg_model_name cfg),
            t_category_confidence := Some (lr_confidence result)\<rparr>)
      in if lr_slug result = NEEDS_REVIEW \<or> lr_confidence result < eg_threshold cfg
         then t\<lparr>t_category := Some (fst (resolve_direction ''unknown'' (t_direction t) account_type)),
              t_review_status := Some ''pending'', t_review_reason := Some (lr_reason result)\<rparr>
         else let (resolved, changed) = resolve_direction (lr_slug result) (t_direction t) account_type;
                  t = t\<lparr>t_category := Some resolved\<rparr>
           in if changed
              then t\<lparr>t_review_reason := Some (''direction fallback: model said '' @ lr_slug result),
                     t_category_confidence := Some (min (lr_confidence result) (4 / 10)),
                     t_review_status := Some ''pending''\<rparr>
              else t\<lparr>t_review_status := None\<rparr>)"

definition categorize_one ::
  "cat_env \<Rightarrow> engine_config \<Rightarrow> classifier \<Rightarrow> db \<Rightarrow> transaction \<Rightarrow> bool \<Rightarrow> (string \<times> db) option" where
  "categorize_one env cfg classify s t use_llm =
     (case apply_reference_self_transfer_rule env s t of
        (True, s') \<Rightarrow> Some (''rule'', s')
      | (False, s) \<Rightarrow>
          let account_type = account_type_of s t;
              h = env_hash env (build_input_payload t account_type);
              fields = fields_of t account_type
          in case match_rules fields (eg_rules cfg) of
               Some hit \<Rightarrow> Some (''rule'', put_txn (write_rule env h hit t) s)
             | None \<Rightarrow>
                 if \<not> use_llm then Some (''skip'', put_txn (write_pending env h t) s)
                 else if \<not> truthy (t_counterparty t) \<and> \<not> truthy (t_raw_description t)
                 then Some (''llm'', put_txn (write_empty env h t) s)
                 else let active_slugs = filter (\<lambda>x. x \<noteq> ''self_transfer'') (eg_active_slugs cfg);
                          examples = get_similar_examples s (t_counterparty t) (t_direction t) 5
                      in case classify fields examples active_slugs of
                           None \<Rightarrow> None
                         | Some result \<Rightarrow>
                             Some (''llm'', put_txn (write_llm env cfg h account_type result t) s))"

text \<open>\<open>select_needs_work_stmt\<close>: the table is in key order.\<close>

definition needs_work :: "int \<Rightarrow> bool \<Rightarrow> transaction \<Rightarrow> bool" where
  "needs_work current_vocab llm t =
     (if \<not> llm then t_category_method t = None
      else t_category_method t = None \<or> t_category_method t = Some ''pending_llm'' \<or>
        t_category t = Some ''unknown'' \<and> t_category_method t = Some ''llm'' \<and>
          (case t_category_vocab_version t of None \<Rightarrow> True | Some v \<Rightarrow> v < current_vocab))"

definition select_needs_work :: "cat_env \<Rightarrow> bool \<Rightarrow> nat \<Rightarrow> db \<Rightarrow> transaction list" where
  "select_needs_work env llm limit s = take limit (filter (needs_work (env_vocab env) llm) (transactions s))"

section \<open>Sweeps\<close>

definition needs_llm :: "transaction \<Rightarrow> bool" where
  "needs_llm t \<longleftrightarrow> t_category_method t = None \<or> t_category_method t = Some ''pending_llm'' \<or>
     t_category t = Some ''unknown'' \<and> t_category_method t = Some ''llm''"

definition MAX_CONSECUTIVE_FAILURES :: nat where
  "MAX_CONSECUTIVE_FAILURES = 5"

definition get_txn :: "db \<Rightarrow> nat \<Rightarrow> transaction option" where
  "get_txn s i = List.find (\<lambda>t. t_id t = i) (transactions s)"

text \<open>One pass over the selected rows, each read in its present state; without the model
  \<open>categorize_one\<close> cannot fail.\<close>

definition rule_pass :: "cat_env \<Rightarrow> engine_config \<Rightarrow> classifier \<Rightarrow> db \<Rightarrow> nat list \<Rightarrow> db" where
  "rule_pass env cfg classify s ids = foldl (\<lambda>s i. case get_txn s i of None \<Rightarrow> s
     | Some t \<Rightarrow> (case categorize_one env cfg classify s t False of None \<Rightarrow> s | Some r \<Rightarrow> snd r)) s ids"

definition run_rule_sweep :: "cat_env \<Rightarrow> engine_config \<Rightarrow> classifier \<Rightarrow> nat \<Rightarrow> db \<Rightarrow> nat \<times> db" where
  "run_rule_sweep env cfg classify batch_limit s =
     (let rows = select_needs_work env False batch_limit s
      in (length rows, rule_pass env cfg classify s (map t_id rows)))"

fun llm_loop ::
  "cat_env \<Rightarrow> engine_config \<Rightarrow> classifier \<Rightarrow> nat list \<Rightarrow> nat \<Rightarrow> nat \<Rightarrow> db \<Rightarrow> nat \<times> db" where
  "llm_loop env cfg classify [] cnt failures s = (cnt, s)"
| "llm_loop env cfg classify (i # ids) cnt failures s =
     (case get_txn s i of
        None \<Rightarrow> llm_loop env cfg classify ids cnt failures s
      | Some t \<Rightarrow>
          if \<not> needs_llm t then llm_loop env cfg classify ids cnt failures s
          else (case categorize_one env cfg classify s t True of
            Some (_, s') \<Rightarrow> llm_loop env cfg classify ids (cnt + 1) 0 s'
          | None \<Rightarrow>
              if MAX_CONSECUTIVE_FAILURES \<le> failures + 1 then (cnt, s)
              else llm_loop env cfg classify ids cnt (failures + 1) s))"

definition run_llm_sweep :: "cat_env \<Rightarrow> engine_config \<Rightarrow> classifier \<Rightarrow> bool \<Rightarrow> nat \<Rightarrow> db \<Rightarrow> nat \<times> db" where
  "run_llm_sweep env cfg classify enabled batch_limit s =
     (if \<not> enabled then (0, s)
      else llm_loop env cfg classify (map t_id (select_needs_work env True batch_limit s)) 0 0 s)"

section \<open>The backfill\<close>

text \<open>\<open>while True: n = sweep(); total += n; if n == 0: break\<close>, with fuel.\<close>

fun sweep_until_idle :: "nat \<Rightarrow> (db \<Rightarrow> nat \<times> db) \<Rightarrow> nat \<Rightarrow> db \<Rightarrow> (nat \<times> db) option" where
  "sweep_until_idle 0 sweep acc s = None"
| "sweep_until_idle (Suc fuel) sweep acc s =
     (let (n, s') = sweep s in
      if n = 0 then Some (acc, s') else sweep_until_idle fuel sweep (acc + n) s')"

definition run_backfill ::
  "nat \<Rightarrow> cat_env \<Rightarrow> engine_config \<Rightarrow> classifier \<Rightarrow> bool \<Rightarrow> bool \<Rightarrow> nat \<Rightarrow> db \<Rightarrow> ((nat \<times> nat) \<times> db) option" where
  "run_backfill fuel env cfg classify enabled rules_only batch_size s =
     (case sweep_until_idle fuel (run_rule_sweep env cfg classify (max batch_size 500)) 0 s of
        None \<Rightarrow> None
      | Some (total_rules, s) \<Rightarrow>
          if rules_only then Some ((total_rules, 0), s)
          else (case sweep_until_idle fuel (run_llm_sweep env cfg classify enabled batch_size) 0 s of
             None \<Rightarrow> None
           | Some (total_llm, s) \<Rightarrow> Some ((total_rules, total_llm), s)))"


section \<open>What one categorization changes\<close>

text \<open>The part of a row that the reference rule looks at.\<close>

definition core ::
  "transaction \<Rightarrow> nat \<times> string option \<times> string \<times> nat option \<times> string option \<times> string option \<times> string" where
  "core t = (t_id t, t_reference_number t, t_direction t, t_account_id t, t_account_mask t,
     t_counterparty t, t_bank t)"

lemma pair_core: "core a = core a' \<Longrightarrow> core b = core b' \<Longrightarrow> self_transfer_pair a b = self_transfer_pair a' b'"
  by (simp add: core_def self_transfer_pair_def different_accounts_def Let_def cong: option.case_cong)

lemma core_writes [simp]:
  "core (write_rule env h hit t) = core t" "core (write_pending env h t) = core t"
  "core (write_empty env h t) = core t" "core (write_llm env cfg h a r t) = core t"
  "core (mark_self_transfer env s t) = core t"
  by (simp_all add: core_def write_rule_def write_pending_def write_empty_def write_llm_def stamp_def
      Let_def case_prod_unfold)

lemma core_id: "core a = core b \<Longrightarrow> t_id a = t_id b"
  by (simp add: core_def)

lemma mark_method [simp]: "t_category_method (mark_self_transfer env s t) = Some ''rule''"
  by (simp add: mark_self_transfer_def already_marked_def Let_def)

lemma write_method [simp]:
  "t_category_method (write_rule env h hit t) = Some ''rule''"
  "t_category_method (write_pending env h t) = Some ''pending_llm''"
  "t_category_method (write_empty env h t) = Some ''llm''"
  "t_category_method (write_llm env cfg h a r t) = Some ''llm''"
  "t_category_vocab_version (write_empty env h t) = Some (env_vocab env)"
  "t_category_vocab_version (write_llm env cfg h a r t) = Some (env_vocab env)"
  by (simp_all add: write_rule_def write_pending_def write_empty_def write_llm_def stamp_def Let_def
      case_prod_unfold)

lemma settled_writes [simp]:
  "\<not> needs_work v llm (write_rule env h hit t)" "\<not> needs_work v False (write_pending env h t)"
  "\<not> needs_work (env_vocab env) llm (write_empty env h t)"
  "\<not> needs_work (env_vocab env) llm (write_llm env cfg h a r t)"
  "\<not> needs_work v llm (mark_self_transfer env s t)"
  by (simp_all add: needs_work_def)

text \<open>A step of the engine as a map over the table: the row itself is decided, its counterparts
  may be marked, and nothing else changes.\<close>

definition engine_step :: "cat_env \<Rightarrow> bool \<Rightarrow> transaction \<Rightarrow> db \<Rightarrow> (transaction \<Rightarrow> transaction) \<Rightarrow> bool" where
  "engine_step env use_llm t s g \<longleftrightarrow> (\<forall>r \<in> set (transactions s). core (g r) = core r \<and>
     (r \<noteq> t \<longrightarrow> g r = r \<or> self_transfer_pair t r \<and> t_category_method (g r) = Some ''rule'')) \<and>
     t_category_method (g t) \<noteq> None \<and> \<not> needs_work (env_vocab env) use_llm (g t)"

lemma categorize_one_step:
  assumes k: "keys_ok s" and t: "t \<in> set (transactions s)"
    and c: "categorize_one env cfg classify s t use_llm = Some (m, s')"
  obtains g where "s' = s\<lparr>transactions := map g (transactions s)\<rparr>" "engine_step env use_llm t s g"
proof -
  note obt = that
  have put: "put_txn w s = s\<lparr>transactions := map (\<lambda>r. if r = t then w else r) (transactions s)\<rparr>"
    if "core w = core t" for w
    using core_id [OF that] keys_ok_txn_eq [OF k _ t] by (auto simp: put_txn_def)
  have one: thesis if w: "core w = core t" "t_category_method w \<noteq> None"
    "\<not> needs_work (env_vocab env) use_llm w" and s': "s' = put_txn w s" for w
  proof (rule obt [of "\<lambda>r. if r = t then w else r"])
    show "s' = s\<lparr>transactions := map (\<lambda>r. if r = t then w else r) (transactions s)\<rparr>"
      using s' put [OF w(1)] by simp
    show "engine_step env use_llm t s (\<lambda>r. if r = t then w else r)"
      using w by (simp add: engine_step_def)
  qed
  show thesis
  proof (cases "\<exists>x \<in> set (transactions s). self_transfer_pair t x")
    case True
    then have "s' = s\<lparr>transactions := map (\<lambda>r. if r = t \<or> self_transfer_pair t r
        then mark_self_transfer env s r else r) (transactions s)\<rparr>"
      using c apply_rule_closed [OF k t, of env] by (simp add: categorize_one_def Let_def)
    then show thesis
      by (rule obt) (auto simp: engine_step_def needs_work_def)
  next
    case False
    then have r: "apply_reference_self_transfer_rule env s t = (False, s)"
      using apply_rule_closed [OF k t, of env] by (simp add: Let_def)
    consider (rule) h hit where "s' = put_txn (write_rule env h hit t) s"
      | (pending) h where "\<not> use_llm" "s' = put_txn (write_pending env h t) s"
      | (empty) h where "s' = put_txn (write_empty env h t) s"
      | (llm) h a r where "s' = put_txn (write_llm env cfg h a r t) s"
      using c unfolding categorize_one_def r prod.case bool.case Let_def
      by (auto split: option.splits if_splits)
    then show thesis by cases (rule one; simp)+
  qed
qed


text \<open>The keys of the rows that still need work, the measure of all the loops.\<close>

definition open_ids :: "cat_env \<Rightarrow> bool \<Rightarrow> db \<Rightarrow> nat set" where
  "open_ids env llm s = t_id ` {r \<in> set (transactions s). needs_work (env_vocab env) llm r}"

lemma finite_open_ids [simp]: "finite (open_ids env llm s)"
  by (simp add: open_ids_def)

lemma open_ids_mem:
  "keys_ok s \<Longrightarrow> r \<in> set (transactions s) \<Longrightarrow> t_id r \<in> open_ids env llm s \<longleftrightarrow> needs_work (env_vocab env) llm r"
  using keys_ok_txn_eq [of s] by (fastforce simp: open_ids_def)

lemma get_txn_Some: "get_txn s i = Some t \<Longrightarrow> t \<in> set (transactions s) \<and> t_id t = i"
  unfolding get_txn_def by (drule find_Some_D) simp

lemma get_txn_None: "get_txn s i = None \<Longrightarrow> i \<notin> t_id ` set (transactions s)"
  unfolding get_txn_def by (auto dest: find_None_D)

text \<open>A row without work to do stays so, and \<open>settled\<close> also records that a row no longer
  selected was closed by the reference rule.\<close>

lemma engine_step_facts:
  assumes k: "keys_ok s" and t: "t \<in> set (transactions s)" and g: "engine_step env use_llm t s g"
  defines "s' \<equiv> s\<lparr>transactions := map g (transactions s)\<rparr>"
  shows "keys_ok s'" and "map core (transactions s') = map core (transactions s)"
    and "open_ids env use_llm s' \<subseteq> open_ids env use_llm s - {t_id t}"
    and "\<forall>r \<in> set (transactions s). t_category_method r \<noteq> None \<longrightarrow> t_category_method (g r) \<noteq> None"
proof -
  have c: "core (g r) = core r" if "r \<in> set (transactions s)" for r
    using g that by (simp add: engine_step_def)
  have i: "t_id (g r) = t_id r" if "r \<in> set (transactions s)" for r
    using core_id [OF c [OF that]] .
  show k': "keys_ok s'"
    using k i by (simp add: keys_ok_def s'_def comp_def cong: map_cong)
  show "map core (transactions s') = map core (transactions s)"
    using c by (simp add: s'_def)
  have other: "g r = r \<or> t_category_method (g r) = Some ''rule''" if "r \<in> set (transactions s)" "r \<noteq> t" for r
    using g that by (auto simp: engine_step_def)
  show "open_ids env use_llm s' \<subseteq> open_ids env use_llm s - {t_id t}"
  proof
    fix j assume "j \<in> open_ids env use_llm s'"
    then obtain r where r: "r \<in> set (transactions s)" "needs_work (env_vocab env) use_llm (g r)" "j = t_id (g r)"
      by (auto simp: open_ids_def s'_def)
    have "r \<noteq> t" using r(2) g by (auto simp: engine_step_def)
    then have "g r = r" using other [OF r(1)] r(2) by (auto simp: needs_work_def split: if_splits)
    then show "j \<in> open_ids env use_llm s - {t_id t}"
      using r \<open>r \<noteq> t\<close> keys_ok_txn_eq [OF k r(1) t] by (auto simp: open_ids_def)
  qed
  show "\<forall>r \<in> set (transactions s). t_category_method r \<noteq> None \<longrightarrow> t_category_method (g r) \<noteq> None"
    using other g by (metis engine_step_def option.distinct(1))
qed

section \<open>Every loop ends\<close>

text \<open>What one run of a sweep guarantees.\<close>

definition sweep_ok :: "cat_env \<Rightarrow> bool \<Rightarrow> db \<Rightarrow> nat \<times> db \<Rightarrow> bool" where
  "sweep_ok env llm s r \<longleftrightarrow> keys_ok (snd r) \<and> map core (transactions (snd r)) = map core (transactions s) \<and>
     open_ids env llm (snd r) \<subseteq> open_ids env llm s \<and>
     fst r + card (open_ids env llm (snd r)) \<le> card (open_ids env llm s) \<and>
     ((\<forall>x \<in> set (transactions s). t_category_method x \<noteq> None) \<longrightarrow>
      (\<forall>x \<in> set (transactions (snd r)). t_category_method x \<noteq> None))"

lemma rule_pass_ok:
  "keys_ok s \<Longrightarrow> keys_ok (rule_pass env cfg classify s ids) \<and>
     map core (transactions (rule_pass env cfg classify s ids)) = map core (transactions s) \<and>
     open_ids env False (rule_pass env cfg classify s ids) \<subseteq> open_ids env False s - set ids \<and>
     ((\<forall>x \<in> set (transactions s). t_category_method x \<noteq> None) \<longrightarrow>
      (\<forall>x \<in> set (transactions (rule_pass env cfg classify s ids)). t_category_method x \<noteq> None))"
proof (induction ids arbitrary: s)
  case (Cons i ids)
  show ?case
  proof (cases "get_txn s i")
    case None
    then have "i \<notin> open_ids env False s" using get_txn_None [OF None] by (auto simp: open_ids_def)
    then show ?thesis using Cons.IH [OF Cons.prems] None by (auto simp: rule_pass_def)
  next
    case (Some t)
    note t = get_txn_Some [OF Some]
    have "categorize_one env cfg classify s t False \<noteq> None"
      by (auto simp: categorize_one_def Let_def split: prod.split bool.split option.split)
    then obtain m s' where c: "categorize_one env cfg classify s t False = Some (m, s')" by auto
    obtain g where s': "s' = s\<lparr>transactions := map g (transactions s)\<rparr>" "engine_step env False t s g"
      using categorize_one_step [OF Cons.prems conjunct1 [OF t] c] .
    note f = engine_step_facts [OF Cons.prems conjunct1 [OF t] s'(2), folded s'(1)]
    have e: "rule_pass env cfg classify s (i # ids) = rule_pass env cfg classify s' ids"
      by (simp add: rule_pass_def Some c)
    have "(\<forall>x \<in> set (transactions s). t_category_method x \<noteq> None) \<longrightarrow>
        (\<forall>x \<in> set (transactions s'). t_category_method x \<noteq> None)"
      using f(4) by (auto simp: s'(1))
    then show ?thesis
      unfolding e using Cons.IH [OF f(1)] f(2,3) t by auto
  qed
qed (simp add: rule_pass_def)

lemma run_rule_sweep_ok:
  assumes k: "keys_ok s"
  shows "sweep_ok env False s (run_rule_sweep env cfg classify limit s)"
proof -
  let ?rows = "select_needs_work env False limit s"
  let ?ids = "map t_id ?rows"
  have sub: "set ?rows \<subseteq> {r \<in> set (transactions s). needs_work (env_vocab env) False r}"
    unfolding select_needs_work_def using set_take_subset by fastforce
  then have ids: "set ?ids \<subseteq> open_ids env False s" by (auto simp: open_ids_def)
  have "distinct (map t_id (filter (needs_work (env_vocab env) False) (transactions s)))"
    using k by (simp add: keys_ok_def distinct_map_filter)
  then have d: "distinct ?ids"
    unfolding select_needs_work_def take_map [symmetric] by (rule distinct_take)
  note p = rule_pass_ok [OF k, of env cfg classify ?ids]
  have "card (open_ids env False (rule_pass env cfg classify s ?ids)) \<le> card (open_ids env False s - set ?ids)"
    using p by (intro card_mono) auto
  also have "\<dots> = card (open_ids env False s) - length ?rows"
    using ids d by (simp add: card_Diff_subset distinct_card [OF d, simplified])
  finally have "length ?rows + card (open_ids env False (rule_pass env cfg classify s ?ids)) \<le> card (open_ids env False s)"
    using card_mono [OF _ ids] distinct_card [OF d] by simp
  then show ?thesis using p by (auto simp: sweep_ok_def run_rule_sweep_def Let_def)
qed


text \<open>Of the rows selected for the model, one that still asks for it when its turn comes is still
  open: the others were closed by the reference rule in between.\<close>

definition llm_ready :: "cat_env \<Rightarrow> nat list \<Rightarrow> db \<Rightarrow> bool" where
  "llm_ready env ids s \<longleftrightarrow> distinct ids \<and> (\<forall>r \<in> set (transactions s). t_id r \<in> set ids \<and> needs_llm r \<longrightarrow>
     needs_work (env_vocab env) True r)"

lemma sweep_ok_trans:
  "sweep_ok env llm s (a, s1) \<Longrightarrow> sweep_ok env llm s1 (b, s2) \<Longrightarrow> sweep_ok env llm s (a + b, s2)"
  by (auto simp: sweep_ok_def)

lemma llm_step_ok:
  assumes k: "keys_ok s" and t: "get_txn s i = Some t" and n: "needs_llm t"
    and r: "llm_ready env (i # ids) s"
    and c: "categorize_one env cfg classify s t True = Some (m, s')"
  shows "sweep_ok env True s (1, s')" and "llm_ready env ids s'"
proof -
  note ti = get_txn_Some [OF t]
  obtain g where s': "s' = s\<lparr>transactions := map g (transactions s)\<rparr>" "engine_step env True t s g"
    using categorize_one_step [OF k conjunct1 [OF ti] c] .
  note f = engine_step_facts [OF k conjunct1 [OF ti] s'(2), folded s'(1)]
  have "needs_work (env_vocab env) True t" using r n ti by (auto simp: llm_ready_def)
  then have i: "i \<in> open_ids env True s" using ti by (auto simp: open_ids_def)
  have "card (open_ids env True s') \<le> card (open_ids env True s - {i})"
    using f(3) ti by (intro card_mono) auto
  moreover have "0 < card (open_ids env True s)" using i by (auto simp: card_gt_0_iff)
  ultimately have "1 + card (open_ids env True s') \<le> card (open_ids env True s)"
    using i by simp
  then show "sweep_ok env True s (1, s')"
    using f by (auto simp: sweep_ok_def s'(1))
  have "needs_work (env_vocab env) True (g u)"
    if u: "u \<in> set (transactions s)" "t_id (g u) \<in> set ids" "needs_llm (g u)" for u
  proof -
    have id: "t_id (g u) = t_id u" using s'(2) u by (auto simp: engine_step_def dest: core_id)
    then have "u \<noteq> t" using u r ti by (auto simp: llm_ready_def)
    then have "g u = u" using s'(2) u by (auto simp: engine_step_def needs_llm_def)
    then show ?thesis using r u id by (auto simp: llm_ready_def)
  qed
  then show "llm_ready env ids s'" using r by (auto simp: llm_ready_def s'(1))
qed

lemma llm_loop_ok:
  "keys_ok s \<Longrightarrow> llm_ready env ids s \<Longrightarrow>
   \<exists>n s'. llm_loop env cfg classify ids cnt failures s = (cnt + n, s') \<and> sweep_ok env True s (n, s')"
proof (induction ids arbitrary: cnt failures s)
  case Nil
  then show ?case by (auto simp: sweep_ok_def)
next
  case (Cons i ids)
  have rest: "llm_ready env ids s" using Cons.prems(2) by (simp add: llm_ready_def)
  have stop: "sweep_ok env True s (0, s)" using Cons.prems(1) by (simp add: sweep_ok_def)
  show ?case
  proof (cases "\<exists>t. get_txn s i = Some t \<and> needs_llm t")
    case False
    then have "llm_loop env cfg classify (i # ids) cnt failures s = llm_loop env cfg classify ids cnt failures s"
      by (simp split: option.split)
    then show ?thesis using Cons.IH [OF Cons.prems(1) rest, of cnt failures] by simp
  next
    case True
    then obtain t where t: "get_txn s i = Some t" "needs_llm t" by auto
    show ?thesis
    proof (cases "categorize_one env cfg classify s t True")
      case None
      then show ?thesis
        using t stop Cons.IH [OF Cons.prems(1) rest, of cnt "failures + 1"] by simp
    next
      case (Some r)
      obtain m s' where c: "categorize_one env cfg classify s t True = Some (m, s')"
        using Some by (cases r) auto
      note st = llm_step_ok [OF Cons.prems(1) t Cons.prems(2) c]
      have k': "keys_ok s'" using st(1) by (simp add: sweep_ok_def)
      obtain n s'' where n: "llm_loop env cfg classify ids (cnt + 1) 0 s' = (cnt + 1 + n, s'')"
        "sweep_ok env True s' (n, s'')"
        using Cons.IH [OF k' st(2)] by blast
      then show ?thesis
        using t c sweep_ok_trans [OF st(1) n(2)] by auto
    qed
  qed
qed

lemma select_needs_work_sub:
  "set (select_needs_work env llm limit s) \<subseteq> {r \<in> set (transactions s). needs_work (env_vocab env) llm r}"
  unfolding select_needs_work_def using set_take_subset by fastforce

lemma select_needs_work_distinct:
  "keys_ok s \<Longrightarrow> distinct (map t_id (select_needs_work env llm limit s))"
  unfolding select_needs_work_def take_map [symmetric]
  by (rule distinct_take) (simp add: keys_ok_def distinct_map_filter)

lemma run_llm_sweep_ok:
  assumes k: "keys_ok s"
  shows "sweep_ok env True s (run_llm_sweep env cfg classify enabled limit s)"
proof (cases enabled)
  case True
  let ?ids = "map t_id (select_needs_work env True limit s)"
  have "needs_work (env_vocab env) True r" if r: "r \<in> set (transactions s)" "t_id r \<in> set ?ids" for r
  proof -
    obtain u where u: "u \<in> set (select_needs_work env True limit s)" "t_id r = t_id u"
      using r(2) by (auto simp: image_iff)
    with select_needs_work_sub [of env True limit s]
    have "u \<in> set (transactions s)" "needs_work (env_vocab env) True u" by auto
    then show ?thesis using keys_ok_txn_eq [OF k r(1)] u(2) by simp
  qed
  then have "llm_ready env ?ids s"
    using select_needs_work_distinct [OF k] by (simp add: llm_ready_def)
  then show ?thesis
    using llm_loop_ok [OF k, of env ?ids cfg classify 0 0] True by (auto simp: run_llm_sweep_def)
qed (use k in \<open>simp add: run_llm_sweep_def sweep_ok_def\<close>)

lemma sweep_until_idle_total:
  assumes ok: "\<And>s. keys_ok s \<Longrightarrow> sweep_ok env llm s (sweep s)"
  shows "keys_ok s \<Longrightarrow> card (open_ids env llm s) < fuel \<Longrightarrow>
    \<exists>n s' u. sweep_until_idle fuel sweep acc s = Some (acc + n, s') \<and> sweep_ok env llm s (n, s') \<and>
      keys_ok u \<and> sweep u = (0, s')"
proof (induction fuel arbitrary: s acc)
  case (Suc fuel)
  obtain n s1 where n: "sweep s = (n, s1)" by (cases "sweep s")
  have o: "sweep_ok env llm s (n, s1)" using ok [OF Suc.prems(1)] n by simp
  show ?case
  proof (cases "n = 0")
    case True
    then show ?thesis using n o Suc.prems(1) by auto
  next
    case False
    have k1: "keys_ok s1" and "card (open_ids env llm s1) < fuel"
      using o False Suc.prems(2) by (auto simp: sweep_ok_def)
    then obtain m s' u where m: "sweep_until_idle fuel sweep (acc + n) s1 = Some (acc + n + m, s')"
        "sweep_ok env llm s1 (m, s')" "keys_ok u" "sweep u = (0, s')"
      using Suc.IH by blast
    have "sweep_until_idle (Suc fuel) sweep acc s = Some (acc + (n + m), s')"
      using n False m(1) by (simp add: add.assoc)
    then show ?thesis using sweep_ok_trans [OF o m(2)] m(3,4) by blast
  qed
qed simp

lemma card_open_ids_le: "card (open_ids env llm s) \<le> length (transactions s)"
proof -
  have "card (open_ids env llm s) \<le> card (set (transactions s))"
    unfolding open_ids_def by (rule order_trans [OF card_image_le card_mono]) auto
  then show ?thesis using card_length [of "transactions s"] by simp
qed

lemma idle_rule_sweep:
  assumes "0 < limit" "run_rule_sweep env cfg classify limit u = (0, s')"
  shows "s' = u" and "\<forall>r \<in> set (transactions u). t_category_method r \<noteq> None"
proof -
  have e: "select_needs_work env False limit u = []"
    using assms(2) by (simp add: run_rule_sweep_def Let_def)
  then show "s' = u" using assms(2) by (simp add: run_rule_sweep_def Let_def rule_pass_def)
  have "filter (needs_work (env_vocab env) False) (transactions u) = []"
    using e assms(1) by (simp add: select_needs_work_def)
  then show "\<forall>r \<in> set (transactions u). t_category_method r \<noteq> None"
    by (auto simp: filter_empty_conv needs_work_def)
qed

text \<open>C11. The backfill ends. Whatever the model answers, and however often it fails, as many
  rounds as there are rows (plus one) are enough for both phases. Afterwards every row has
  been categorized or queued for the model, no row has been added, removed or changed outside
  its categorization columns, and neither count exceeds the number of rows.\<close>

theorem run_backfill_terminates:
  assumes k: "keys_ok s" and fuel: "length (transactions s) < fuel"
  shows "\<exists>a b s'. run_backfill fuel env cfg classify enabled rules_only batch_size s = Some ((a, b), s') \<and>
    a \<le> length (transactions s) \<and> b \<le> length (transactions s) \<and>
    map core (transactions s') = map core (transactions s) \<and>
    (\<forall>r \<in> set (transactions s'). t_category_method r \<noteq> None)"
proof -
  note len = card_open_ids_le [of env _ s]
  obtain a s1 u where a: "sweep_until_idle fuel (run_rule_sweep env cfg classify (max batch_size 500)) 0 s
      = Some (a, s1)" "sweep_ok env False s (a, s1)" "keys_ok u"
      "run_rule_sweep env cfg classify (max batch_size 500) u = (0, s1)"
    using sweep_until_idle_total [of env False "run_rule_sweep env cfg classify (max batch_size 500)" s fuel 0]
      run_rule_sweep_ok k fuel len [of False] by auto
  have m1: "\<forall>r \<in> set (transactions s1). t_category_method r \<noteq> None"
    using idle_rule_sweep [OF _ a(4)] by simp
  have k1: "keys_ok s1" and c1: "map core (transactions s1) = map core (transactions s)"
    and al: "a \<le> length (transactions s)"
    using a(2) len [of False] by (auto simp: sweep_ok_def)
  have l1: "length (transactions s1) = length (transactions s)"
    using c1 by (metis length_map)
  obtain b s2 where b: "sweep_until_idle fuel (run_llm_sweep env cfg classify enabled batch_size) 0 s1
      = Some (b, s2)" "sweep_ok env True s1 (b, s2)"
    using sweep_until_idle_total [of env True "run_llm_sweep env cfg classify enabled batch_size" s1 fuel 0]
      run_llm_sweep_ok k1 fuel card_open_ids_le [of env True s1] l1 by auto
  show ?thesis
  proof (cases rules_only)
    case True
    then show ?thesis using a(1) al c1 m1 by (simp add: run_backfill_def)
  next
    case False
    have "b \<le> length (transactions s)"
      using b(2) card_open_ids_le [of env True s1] l1 by (simp add: sweep_ok_def)
    then show ?thesis using a(1) b c1 m1 al False by (auto simp: run_backfill_def sweep_ok_def)
  qed
qed

text \<open>Nothing touches a settled row that has no counterpart.\<close>

definition kept :: "transaction \<Rightarrow> db \<Rightarrow> bool" where
  "kept r s \<longleftrightarrow> keys_ok s \<and> r \<in> set (transactions s) \<and> (\<forall>m \<in> set (transactions s). \<not> self_transfer_pair m r)"

lemma kept_step:
  assumes r: "kept r s" and t: "t \<in> set (transactions s)" "t \<noteq> r"
    and c: "categorize_one env cfg classify s t use_llm = Some (m, s')"
  shows "kept r s'"
proof -
  have k: "keys_ok s" and rs: "r \<in> set (transactions s)"
    and np: "\<And>m. m \<in> set (transactions s) \<Longrightarrow> \<not> self_transfer_pair m r"
    using r by (auto simp: kept_def)
  obtain g where s': "s' = s\<lparr>transactions := map g (transactions s)\<rparr>" "engine_step env use_llm t s g"
    using categorize_one_step [OF k t(1) c] .
  have "g r = r" using s'(2) rs t np [OF t(1)] by (auto simp: engine_step_def)
  then have "r \<in> g ` set (transactions s)" using rs by force
  moreover have "\<not> self_transfer_pair (g m) r" if "m \<in> set (transactions s)" for m
    using np [OF that] s'(2) that pair_core [of "g m" m r r] by (simp add: engine_step_def)
  moreover have "keys_ok s'" using engine_step_facts(1) [OF k t(1) s'(2)] s'(1) by simp
  ultimately show ?thesis by (simp add: kept_def s'(1))
qed

lemma kept_rule_pass:
  assumes "t_id r \<notin> set ids"
  shows "kept r s \<Longrightarrow> kept r (rule_pass env cfg classify s ids)"
  using assms
proof (induction ids arbitrary: s)
  case (Cons i ids)
  have "kept r (case get_txn s i of None \<Rightarrow> s
     | Some t \<Rightarrow> (case categorize_one env cfg classify s t False of None \<Rightarrow> s | Some r \<Rightarrow> snd r))"
    using Cons.prems get_txn_Some [of s i]
    by (auto split: option.split intro: kept_step)
  then show ?case using Cons.IH Cons.prems by (simp add: rule_pass_def)
qed (simp add: rule_pass_def)

lemma kept_llm_loop:
  assumes n: "\<not> needs_llm r"
  shows "kept r s \<Longrightarrow> kept r (snd (llm_loop env cfg classify ids cnt failures s))"
proof (induction ids arbitrary: cnt failures s)
  case (Cons i ids)
  have "kept r s'" if "get_txn s i = Some t" "needs_llm t"
      "categorize_one env cfg classify s t True = Some (m, s')" for t m s'
    using kept_step [OF Cons.prems conjunct1 [OF get_txn_Some [OF that(1)]] _ that(3)] that(2) n by auto
  then show ?case using Cons by (simp split: option.split)
qed simp

lemma kept_until_idle:
  assumes keep: "\<And>s. kept r s \<Longrightarrow> kept r (snd (sweep s))"
  shows "kept r s \<Longrightarrow> sweep_until_idle fuel sweep acc s = Some (n, s') \<Longrightarrow> kept r s'"
proof (induction fuel arbitrary: acc s)
  case (Suc fuel)
  have "kept r (snd (sweep s))" using keep Suc.prems(1) .
  then show ?case using Suc.IH Suc.prems(2) by (auto simp: case_prod_unfold Let_def split: if_splits)
qed simp

lemma kept_rule_sweep:
  assumes "kept r s" "t_category_method r \<noteq> None"
  shows "kept r (snd (run_rule_sweep env cfg classify limit s))"
proof -
  have k: "keys_ok s" "r \<in> set (transactions s)" using assms(1) by (auto simp: kept_def)
  have "t_id u \<noteq> t_id r" if "u \<in> set (select_needs_work env False limit s)" for u
  proof -
    have "u \<in> set (transactions s)" "needs_work (env_vocab env) False u"
      using that select_needs_work_sub [of env False limit s] by auto
    then show ?thesis using keys_ok_txn_eq [OF k(1) _ k(2), of u] assms(2) by (auto simp: needs_work_def)
  qed
  then have "t_id r \<notin> set (map t_id (select_needs_work env False limit s))" by fastforce
  then show ?thesis using kept_rule_pass assms(1) by (simp add: run_rule_sweep_def Let_def)
qed

text \<open>The backfill never touches a finished row. A row that a person, a rule or a confident
  model answer has categorized, and that is not a leg of a provable transfer between own
  accounts, is in the table after the backfill exactly as it was before, whatever the sizes of
  the batches, the answers and the failures of the model.\<close>

theorem run_backfill_keeps_settled:
  assumes "keys_ok s" "r \<in> set (transactions s)" "\<not> needs_llm r"
    and "\<forall>m \<in> set (transactions s). \<not> self_transfer_pair m r"
    and run: "run_backfill fuel env cfg classify enabled rules_only batch_size s = Some (counts, s')"
  shows "r \<in> set (transactions s')"
proof -
  have k: "kept r s" using assms by (simp add: kept_def)
  obtain a s1 where a: "sweep_until_idle fuel (run_rule_sweep env cfg classify (max batch_size 500)) 0 s = Some (a, s1)"
    "rules_only \<and> s' = s1 \<or> (\<exists>b. sweep_until_idle fuel (run_llm_sweep env cfg classify enabled batch_size) 0 s1
       = Some (b, s'))"
    using run by (auto simp: run_backfill_def split: option.splits if_splits)
  have "t_category_method r \<noteq> None" using assms(3) by (simp add: needs_llm_def)
  then have k1: "kept r s1" using kept_until_idle [OF kept_rule_sweep k a(1)] by simp
  have "kept r (snd (run_llm_sweep env cfg classify enabled batch_size u))" if "kept r u" for u
    using kept_llm_loop [OF assms(3) that] that by (simp add: run_llm_sweep_def)
  then have "kept r s'" using a(2) k1 kept_until_idle [of r _ s1] by blast
  then show ?thesis by (simp add: kept_def)
qed

text \<open>C12. What the parser of model answers lets through. The confidence lies between 0 and 1
  whatever number the provider returned, the reason has at most 300 characters, and the slug is
  an active category or the marker for review: an active answer is kept, and anything else is
  replaced by the marker.\<close>

theorem parse_result_safe:
  "0 \<le> lr_confidence (parse_result c f reason active) \<and>
   lr_confidence (parse_result c f reason active) \<le> 1 \<and>
   length (lr_reason (parse_result c f reason active)) \<le> 300 \<and>
   lr_slug (parse_result c f reason active) =
     (if strip c \<in> set active then strip c else NEEDS_REVIEW)"
  by (cases f) (auto simp: parse_result_def clamp01_def Let_def)

text \<open>A confidence that is not a number becomes certainty: Python's \<open>min(1.0, nan)\<close> is 1.0.\<close>

lemma nan_confidence_is_certain: "lr_confidence (parse_result c NaN reason active) = 1"
  by (simp add: parse_result_def clamp01_def Let_def)

lemma few_shot_loop_props:
  "length out < limit \<Longrightarrow> length (few_shot_loop target limit out rows) \<le> limit \<and>
   (\<forall>e \<in> set (few_shot_loop target limit out rows). e \<in> set out \<or> (\<exists>r \<in> set rows.
      fs_counterparty e = t_counterparty r \<and> fs_direction e = t_direction r \<and>
      fs_category e = or_empty (t_category r) \<and> normalize_counterparty (t_counterparty r) \<noteq> [] \<and>
      (sublist (normalize_counterparty (t_counterparty r)) target \<or>
       sublist target (normalize_counterparty (t_counterparty r)))))"
proof (induction rows arbitrary: out)
  case (Cons r rows)
  let ?c = "normalize_counterparty (t_counterparty r)"
  let ?hit = "?c \<noteq> [] \<and> (sublist ?c target \<or> sublist target ?c)"
  let ?out = "if ?hit then out @ [\<lparr>fs_counterparty = t_counterparty r, fs_raw_description = t_raw_description r,
     fs_direction = t_direction r, fs_channel = t_channel r, fs_category = or_empty (t_category r)\<rparr>] else out"
  have new: "e \<in> set out \<or> ?hit \<and> fs_counterparty e = t_counterparty r \<and> fs_direction e = t_direction r \<and>
      fs_category e = or_empty (t_category r)" if "e \<in> set ?out" for e
    using that by (auto split: if_splits)
  have l: "length ?out \<le> limit" using Cons.prems by simp
  have e: "few_shot_loop target limit out (r # rows) =
      (if limit \<le> length ?out then ?out else few_shot_loop target limit ?out rows)"
    by (simp only: few_shot_loop.simps Let_def)
  show ?case
  proof (cases "limit \<le> length ?out")
    case True
    then show ?thesis unfolding e using l new by (simp only: if_True list.set) blast
  next
    case False
    then have "length ?out < limit" by linarith
    note ih = Cons.IH [OF this]
    show ?thesis unfolding e using False ih new by (simp only: if_False list.set) blast
  qed
qed auto

lemma set_recent_first [simp]: "set (recent_first rows) = set rows"
  by (auto simp: recent_first_def)

text \<open>The examples shown to the model are never its own guesses. Each comes from a stored row
  of the same direction that a person or a rule has categorized, whose normalized counterparty
  is nonempty and contains, or is contained in, that of the new row; and there are at most as
  many as asked for.\<close>

theorem few_shot_examples_trusted:
  assumes "0 < limit"
  shows "length (get_similar_examples s cp dir limit) \<le> limit \<and>
    (\<forall>e \<in> set (get_similar_examples s cp dir limit). \<exists>r \<in> set (transactions s).
       (t_category_method r = Some ''manual'' \<or> t_category_method r = Some ''rule'') \<and>
       t_direction r = dir \<and> fs_direction e = dir \<and> t_category r = Some (fs_category e) \<and>
       fs_counterparty e = t_counterparty r \<and> normalize_counterparty (t_counterparty r) \<noteq> [] \<and>
       (sublist (normalize_counterparty (t_counterparty r)) (normalize_counterparty cp) \<or>
        sublist (normalize_counterparty cp) (normalize_counterparty (t_counterparty r))))"
proof (cases "normalize_counterparty cp = []")
  case False
  define rows where "rows = take 200 (recent_first (filter (\<lambda>t. t_direction t = dir \<and> t_category t \<noteq> None \<and>
     (t_category_method t = Some ''manual'' \<or> t_category_method t = Some ''rule'')) (transactions s)))"
  have rows: "r \<in> set (transactions s) \<and> t_direction r = dir \<and> t_category r \<noteq> None \<and>
     (t_category_method r = Some ''manual'' \<or> t_category_method r = Some ''rule'')" if "r \<in> set rows" for r
    using set_take_subset [of 200] that unfolding rows_def by fastforce
  have g: "get_similar_examples s cp dir limit = few_shot_loop (normalize_counterparty cp) limit [] rows"
    using False by (simp add: get_similar_examples_def rows_def Let_def)
  show ?thesis
  proof (intro conjI ballI)
    show "length (get_similar_examples s cp dir limit) \<le> limit"
      unfolding g using few_shot_loop_props [of "[]" limit] assms by simp
    fix e assume "e \<in> set (get_similar_examples s cp dir limit)"
    then obtain r where "r \<in> set rows" "fs_counterparty e = t_counterparty r" "fs_direction e = t_direction r"
      "fs_category e = or_empty (t_category r)" "normalize_counterparty (t_counterparty r) \<noteq> []"
      "sublist (normalize_counterparty (t_counterparty r)) (normalize_counterparty cp) \<or>
       sublist (normalize_counterparty cp) (normalize_counterparty (t_counterparty r))"
      unfolding g using few_shot_loop_props [of "[]" limit "normalize_counterparty cp" rows] assms by auto
    with rows [of r] show "\<exists>r \<in> set (transactions s).
       (t_category_method r = Some ''manual'' \<or> t_category_method r = Some ''rule'') \<and>
       t_direction r = dir \<and> fs_direction e = dir \<and> t_category r = Some (fs_category e) \<and>
       fs_counterparty e = t_counterparty r \<and> normalize_counterparty (t_counterparty r) \<noteq> [] \<and>
       (sublist (normalize_counterparty (t_counterparty r)) (normalize_counterparty cp) \<or>
        sublist (normalize_counterparty cp) (normalize_counterparty (t_counterparty r)))"
      by (intro bexI [of _ r]) (cases "t_category r"; auto)+
  qed
qed (simp add: get_similar_examples_def)

text \<open>An answer of the model is never stored as \<open>unknown\<close>: the direction guard turns it into the
  default of the direction. So of the rows of known direction, only those without any text are
  selected again when the vocabulary grows.\<close>

lemma write_llm_category:
  "t_category (write_llm env cfg h a r t) = Some (fst (resolve_direction
     (if lr_slug r = NEEDS_REVIEW \<or> lr_confidence r < eg_threshold cfg then ''unknown'' else lr_slug r)
     (t_direction t) a))"
  by (simp add: write_llm_def stamp_def Let_def case_prod_unfold)

lemma resolve_never_unknown:
  "dir = ''debit'' \<or> dir = ''credit'' \<Longrightarrow> fst (resolve_direction c dir a) \<noteq> ''unknown''"
  by (auto simp: resolve_direction_def slug_names)

lemma write_llm_never_unknown:
  "t_direction t = ''debit'' \<or> t_direction t = ''credit'' \<Longrightarrow>
   t_category (write_llm env cfg h a r t) \<noteq> Some ''unknown''"
  using resolve_never_unknown by (simp add: write_llm_category)

section \<open>An example\<close>

text \<open>A row settled by hand, one that the model must judge, one on which the model fails.\<close>

definition engine_demo_row :: "nat \<Rightarrow> string \<Rightarrow> transaction" where
  "engine_demo_row i cp = blank_txn\<lparr>t_id := i, t_bank := ''hdfc'', t_direction := ''debit'', t_amount := 250,
     t_counterparty := Some cp\<rparr>"

definition engine_demo_settled :: transaction where
  "engine_demo_settled = (engine_demo_row 11 ''ZZ'')\<lparr>t_category := Some ''dining'', t_category_method := Some ''manual'',
     t_created_at := Some 7\<rparr>"

definition engine_demo_db :: db where
  "engine_demo_db = empty_db\<lparr>transactions := [engine_demo_settled, engine_demo_row 12 ''ZZ QX'', engine_demo_row 13 ''YY'']\<rparr>"

definition engine_demo_config :: engine_config where
  "engine_demo_config = \<lparr>eg_rules = default_rule_config, eg_threshold = 6 / 10,
     eg_model_name = ''m'', eg_active_slugs = [''dining'']\<rparr>"

definition engine_demo_classify :: classifier where
  "engine_demo_classify f examples slugs = (if rf_counterparty f = Some ''YY'' then None
     else Some (parse_result ''dining'' (Finite (9 / 10)) [] slugs))"

theorem few_shot_examples_trusted_witness:
  "length (get_similar_examples engine_demo_db (Some ''ZZ QX'') ''debit'' 5) \<le> 5 \<and>
   map fs_category (get_similar_examples engine_demo_db (Some ''ZZ QX'') ''debit'' 5) = [''dining'']"
proof -
  have 1: "map fs_category (get_similar_examples engine_demo_db (Some ''ZZ QX'') ''debit'' 5) = [''dining'']"
    by code_simp
  show ?thesis
    using few_shot_examples_trusted [of 5 engine_demo_db "Some ''ZZ QX''" "''debit''"] 1 by simp
qed

lemma engine_demo_keys: "keys_ok engine_demo_db"
  by code_simp

theorem run_backfill_keeps_settled_witness:
  "\<exists>s'. run_backfill 4 demo_env engine_demo_config engine_demo_classify True False 1 engine_demo_db = Some ((2, 1), s') \<and>
     engine_demo_settled \<in> set (transactions s')"
proof -
  have "map_option fst (run_backfill 4 demo_env engine_demo_config engine_demo_classify True False 1 engine_demo_db)
      = Some (2, 1)"
    by code_simp
  then obtain s' where r: "run_backfill 4 demo_env engine_demo_config engine_demo_classify True False 1 engine_demo_db
      = Some ((2, 1), s')"
    by auto
  have 1: "engine_demo_settled \<in> set (transactions engine_demo_db)" "\<not> needs_llm engine_demo_settled"
    "\<forall>m \<in> set (transactions engine_demo_db). \<not> self_transfer_pair m engine_demo_settled"
    by code_simp+
  show ?thesis
    using run_backfill_keeps_settled [OF engine_demo_keys 1 r] r by blast
qed

theorem run_backfill_terminates_witness:
  "\<exists>a b s'. run_backfill 4 demo_env engine_demo_config engine_demo_classify True False 1 engine_demo_db = Some ((a, b), s') \<and>
     a \<le> 3 \<and> b \<le> 3 \<and> (\<forall>r \<in> set (transactions s'). t_category_method r \<noteq> None)"
proof -
  have l: "length (transactions engine_demo_db) = 3" by code_simp
  show ?thesis
    using run_backfill_terminates [OF engine_demo_keys, of 4 demo_env engine_demo_config engine_demo_classify True False 1] l
    by fastforce
qed

end
