(* ===== verification/Text_Num.thy ===== *)
theory Text_Num
  imports Dates
begin

text \<open>
  Python's conversions between numbers, dates and text, as the review files, the settings and
  the statement columns use them: \<open>str(int)\<close>, \<open>int(str)\<close>, \<open>str\<close> of a \<open>Decimal\<close> read from a
  \<open>Numeric(12, 2)\<close> column, \<open>Decimal(str)\<close>, and \<open>str(date)\<close>. The parsers accept what Python
  accepts: blanks around the number, a sign, underscores, and an exponent for \<open>Decimal\<close>.
  \<open>Decimal\<close>'s infinities and NaNs are \<open>None\<close> here, like text it refuses: the code compares
  the result with a finite amount or rejects it, and both come out the same. The printed
  forms read back (\<open>py_int_str_int\<close>, \<open>py_decimal_amount_text\<close>).
\<close>

section \<open>Digits\<close>

definition digit_ch :: "nat \<Rightarrow> char" where
  "digit_ch n = char_of (48 + n)"

definition digit_val :: "char \<Rightarrow> nat" where
  "digit_val c = code c - 48"

fun str_nat :: "nat \<Rightarrow> string" where
  "str_nat n = (if n < 10 then [digit_ch n] else str_nat (n div 10) @ [digit_ch (n mod 10)])"

definition digits_val :: "string \<Rightarrow> nat" where
  "digits_val s = foldl (\<lambda>a c. 10 * a + digit_val c) 0 s"

definition all_digits :: "string \<Rightarrow> bool" where
  "all_digits s \<longleftrightarrow> list_all is_ascii_digit s"

declare str_nat.simps [simp del]

lemma code_digit_ch [simp]: "n < 10 \<Longrightarrow> code (digit_ch n) = 48 + n"
  by (simp add: digit_ch_def)

lemma digit_ch_digit [simp]: "n < 10 \<Longrightarrow> is_ascii_digit (digit_ch n)"
  by (simp add: is_ascii_digit_def)

lemma digit_val_ch [simp]: "n < 10 \<Longrightarrow> digit_val (digit_ch n) = n"
  by (simp add: digit_val_def)

lemma digits_val_append [simp]: "digits_val (s @ [c]) = 10 * digits_val s + digit_val c"
  by (simp add: digits_val_def)

lemma digits_val_Nil [simp]: "digits_val [] = 0"
  by (simp add: digits_val_def)

lemma digits_val_str_nat [simp]: "digits_val (str_nat n) = n"
proof (induction n rule: str_nat.induct)
  case (1 n)
  show ?case
  proof (cases "n < 10")
    case True
    then show ?thesis by (simp add: str_nat.simps [of n] digits_val_def)
  next
    case False
    then show ?thesis using 1 by (simp add: str_nat.simps [of n])
  qed
qed

lemma str_nat_digits [simp]: "all_digits (str_nat n)"
proof (induction n rule: str_nat.induct)
  case (1 n)
  then show ?case by (simp add: str_nat.simps [of n] all_digits_def)
qed

lemma str_nat_nonempty [simp]: "str_nat n \<noteq> []"
  by (subst str_nat.simps) simp

lemma all_digits_append [simp]: "all_digits (s @ t) \<longleftrightarrow> all_digits s \<and> all_digits t"
  by (simp add: all_digits_def)

lemma all_digits_Cons [simp]: "all_digits (c # s) \<longleftrightarrow> is_ascii_digit c \<and> all_digits s"
  by (simp add: all_digits_def)

lemma all_digits_Nil [simp]: "all_digits []"
  by (simp add: all_digits_def)

lemma all_digits_iff: "all_digits s \<longleftrightarrow> (\<forall>c \<in> set s. is_ascii_digit c)"
  by (simp add: all_digits_def list_all_iff)

lemma digits_val_append_all: "digits_val (s @ t) = digits_val s * 10 ^ length t + digits_val t"
proof (induction t rule: rev_induct)
  case (snoc c t)
  have "digits_val (s @ t @ [c]) = 10 * digits_val (s @ t) + digit_val c"
    unfolding append_assoc [symmetric] by (rule digits_val_append)
  then show ?case using snoc by (simp add: algebra_simps)
qed simp

section \<open>Integers\<close>

definition str_int :: "int \<Rightarrow> string" where
  "str_int z = (if z < 0 then ''-'' @ str_nat (nat (- z)) else str_nat (nat z))"

text \<open>Digits with single underscores between them.\<close>

fun int_body :: "string \<Rightarrow> bool" where
  "int_body [] = False"
| "int_body [c] = is_ascii_digit c"
| "int_body (c # d # s) = (is_ascii_digit c \<and>
     (if d = CHR ''_'' then int_body s else int_body (d # s)))"

definition split_sign :: "string \<Rightarrow> bool \<times> string" where
  "split_sign s = (case s of [] \<Rightarrow> (False, [])
     | c # r \<Rightarrow> if c = CHR ''-'' then (True, r) else if c = CHR ''+'' then (False, r) else (False, s))"

definition py_int :: "string \<Rightarrow> int option" where
  "py_int s = (let (neg, body) = split_sign (strip s) in
     if \<not> int_body body then None
     else let n = int (digits_val (filter (\<lambda>c. c \<noteq> CHR ''_'') body)) in Some (if neg then - n else n))"

lemma digit_not_underscore [simp]: "is_ascii_digit c \<Longrightarrow> c \<noteq> CHR ''_''"
  "is_ascii_digit c \<Longrightarrow> c \<noteq> CHR ''-''" "is_ascii_digit c \<Longrightarrow> c \<noteq> CHR ''+''"
  "is_ascii_digit c \<Longrightarrow> c \<noteq> CHR ''.''"
  by (auto simp: is_ascii_digit_def code_def)

lemma sign_chars_not_space [simp]: "\<not> is_space CHR ''-''" "\<not> is_space CHR ''.''"
  by (simp_all add: is_space_def code_def)

lemma digits_no_space: "all_digits s \<Longrightarrow> c \<in> set s \<Longrightarrow> \<not> is_space c \<and> c \<noteq> CHR ''_''"
  by (auto simp: all_digits_iff dest: bspec)

lemma int_body_digits: "s \<noteq> [] \<Longrightarrow> all_digits s \<Longrightarrow> int_body s"
  by (induction s rule: int_body.induct) (auto simp: all_digits_def)

lemma strip_no_space: "(\<And>c. c \<in> set s \<Longrightarrow> \<not> is_space c) \<Longrightarrow> strip s = s"
proof -
  assume h: "\<And>c. c \<in> set s \<Longrightarrow> \<not> is_space c"
  have "dropWhile is_space s = s" "dropWhile is_space (rev s) = rev s"
    using h hd_in_set [of s] hd_in_set [of "rev s"] by (auto simp: dropWhile_eq_self_iff)
  then show "strip s = s" by (simp add: strip_def lstrip_def)
qed

lemma strip_digits [simp]: "all_digits s \<Longrightarrow> strip s = s"
  by (rule strip_no_space) (auto simp: all_digits_iff)

lemma filter_underscore_digits [simp]: "all_digits s \<Longrightarrow> filter (\<lambda>c. c \<noteq> CHR ''_'') s = s"
  by (auto simp: filter_id_conv all_digits_iff)

lemma split_sign_digits: "all_digits s \<Longrightarrow> split_sign s = (False, s)"
  by (cases s) (auto simp: split_sign_def)

theorem py_int_str_int [simp]: "py_int (str_int z) = Some z"
proof (cases "z < 0")
  case True
  have "strip (''-'' @ str_nat (nat (- z))) = ''-'' @ str_nat (nat (- z))"
    using digits_no_space [OF str_nat_digits] by (intro strip_no_space) auto
  then show ?thesis
    using True by (simp add: py_int_def str_int_def split_sign_def int_body_digits)
next
  case False
  then show ?thesis by (simp add: py_int_def str_int_def split_sign_digits int_body_digits)
qed

section \<open>Decimals\<close>

text \<open>\<open>str\<close> of a nonnegative or negative amount with two decimals.\<close>

definition cents :: "rat \<Rightarrow> nat" where
  "cents q = nat \<lfloor>\<bar>q\<bar> * 100\<rfloor>"

definition amount_text :: "rat \<Rightarrow> string" where
  "amount_text q = (if q < 0 then ''-'' else []) @ str_nat (cents q div 100) @ ''.'' @
     [digit_ch (cents q div 10 mod 10), digit_ch (cents q mod 10)]"

definition py_decimal :: "string \<Rightarrow> rat option" where
  "py_decimal s =
     (let (neg, u) = split_sign (filter (\<lambda>c. c \<noteq> CHR ''_'') (strip s));
          ip = takeWhile is_ascii_digit u;
          r = dropWhile is_ascii_digit u;
          (fp, r) = (case r of [] \<Rightarrow> ([], [])
            | c # r' \<Rightarrow> if c = CHR ''.'' then (takeWhile is_ascii_digit r', dropWhile is_ascii_digit r') else ([], r));
          m = of_nat (digits_val (ip @ fp)) / 10 ^ length fp * (if neg then - 1 else 1)
      in if ip = [] \<and> fp = [] then None
         else case r of [] \<Rightarrow> Some m
           | e # r' \<Rightarrow> if lower_ch e \<noteq> CHR ''e'' then None
               else let (eneg, ed) = split_sign r' in
                 if ed = [] \<or> \<not> all_digits ed then None
                 else Some (if eneg then m / 10 ^ digits_val ed else m * 10 ^ digits_val ed))"

text \<open>The amounts a \<open>Numeric(12, 2)\<close> column holds.\<close>

definition two_decimals :: "rat \<Rightarrow> bool" where
  "two_decimals q \<longleftrightarrow> q * 100 \<in> \<int>"

lemma two_decimals_cents: "two_decimals q \<Longrightarrow> of_nat (cents q) = \<bar>q\<bar> * 100"
proof -
  assume "two_decimals q"
  then obtain k where k: "q * 100 = of_int k" by (auto simp: two_decimals_def Ints_def)
  have "\<bar>q\<bar> * 100 = of_int \<bar>k\<bar>"
    using k by (cases "q < 0") (auto simp: abs_if zero_less_mult_iff mult_less_0_iff)
  then show ?thesis by (simp add: cents_def)
qed

lemma takeWhile_digits_append: "all_digits s \<Longrightarrow> \<not> is_ascii_digit c \<Longrightarrow>
    takeWhile is_ascii_digit (s @ c # t) = s \<and> dropWhile is_ascii_digit (s @ c # t) = c # t"
  by (induction s) auto

lemma takeWhile_digits: "all_digits s \<Longrightarrow> takeWhile is_ascii_digit s = s \<and> dropWhile is_ascii_digit s = []"
  by (induction s) auto

lemma dot_not_digit [simp]: "\<not> is_ascii_digit CHR ''.''" "\<not> is_ascii_digit CHR ''-''"
  by (simp_all add: is_ascii_digit_def code_def)

theorem py_decimal_amount_text:
  assumes "two_decimals q"
  shows "py_decimal (amount_text q) = Some q"
proof -
  define ip where "ip = str_nat (cents q div 100)"
  define fp where "fp = [digit_ch (cents q div 10 mod 10), digit_ch (cents q mod 10)]"
  have d: "all_digits ip" "all_digits fp" "ip \<noteq> []" "length fp = 2" by (simp_all add: ip_def fp_def)
  have chars: "\<not> is_space c \<and> c \<noteq> CHR ''_''" if "c \<in> set (amount_text q)" for c
    using that digits_no_space [OF d(1)] digits_no_space [OF d(2)]
    by (auto simp: amount_text_def simp flip: ip_def fp_def split: if_splits)
  have s: "strip (amount_text q) = amount_text q"
    using chars by (intro strip_no_space) blast
  have f: "filter (\<lambda>c. c \<noteq> CHR ''_'') (amount_text q) = amount_text q"
    using chars by (simp add: filter_id_conv)
  have sp: "split_sign (amount_text q) = (q < 0, ip @ CHR ''.'' # fp)"
  proof (cases "q < 0")
    case True
    then show ?thesis by (simp add: amount_text_def split_sign_def ip_def fp_def)
  next
    case False
    then have "amount_text q = ip @ CHR ''.'' # fp" by (simp add: amount_text_def ip_def fp_def)
    then show ?thesis using False d(1,3) by (cases ip) (auto simp: split_sign_def)
  qed
  have v: "digits_val (ip @ fp) = cents q"
  proof -
    have "digits_val fp = cents q mod 100"
      using mod_mult2_eq [of "cents q" 10 10] by (simp add: fp_def digits_val_def)
    then show ?thesis using d(4) by (simp add: digits_val_append_all ip_def)
  qed
  have c: "of_nat (cents q) / 10 ^ length fp * (if q < 0 then - 1 else 1) = q"
    using two_decimals_cents [OF assms] d(4) by simp
  have t: "takeWhile is_ascii_digit (ip @ CHR ''.'' # fp) = ip" "takeWhile is_ascii_digit fp = fp"
    "dropWhile is_ascii_digit (ip @ CHR ''.'' # fp) = CHR ''.'' # fp" "dropWhile is_ascii_digit fp = []"
    using takeWhile_digits_append [OF d(1), of "CHR ''.''" fp] takeWhile_digits [OF d(2)] by auto
  show ?thesis
    unfolding py_decimal_def s f sp by (simp only: Let_def prod.case t list.case if_True v c d(3) if_False simp_thms)
qed

section \<open>Dates\<close>

text \<open>\<open>str(date)\<close>: the ISO form, a year of at least four digits.\<close>

definition pad_left :: "nat \<Rightarrow> string \<Rightarrow> string" where
  "pad_left n s = replicate (n - length s) CHR ''0'' @ s"

definition date_text :: "date \<Rightarrow> string" where
  "date_text d = pad_left 4 (str_int (year_of d)) @ ''-'' @ pad_left 2 (str_int (month_of d)) @ ''-'' @
     pad_left 2 (str_int (day_of d))"

end
