(* ===== verification/Cat_Review.thy ===== *)
theory Cat_Review
  imports Cat_Engine Text_Num "HOL-Library.List_Lexorder" "HOL-Library.Char_ord"
begin

text \<open>
  The human side of categorization: \<open>manual.py\<close> (\<open>assign_category_manual\<close>), the vocabulary
  table of \<open>vocabulary.py\<close> with its version in the settings, and \<open>review_io.py\<close>, which
  exports rows to a review file and applies the edited file. The state is the database, the
  category table, the settings cache and the stored setting.
\<close>

section \<open>The vocabulary\<close>

record cat_state =
  cs_db :: db
  cs_categories :: "(string \<times> bool) list"
  cs_cached_version :: "string option"
  cs_stored_version :: "string option"

definition get_vocab_version :: "cat_state \<Rightarrow> int" where
  "get_vocab_version s = (let val = (case cs_cached_version s of Some v \<Rightarrow> v | None \<Rightarrow> ''1'')
     in case py_int val of Some n \<Rightarrow> n | None \<Rightarrow> 1)"

definition get_active_slugs :: "cat_state \<Rightarrow> string list" where
  "get_active_slugs s = sort (map fst (filter snd (cs_categories s)))"

definition bump_vocab_version :: "cat_state \<Rightarrow> int \<times> cat_state" where
  "bump_vocab_version s = (let new_version = get_vocab_version s + 1 in
     (new_version, s\<lparr>cs_stored_version := Some (str_int new_version),
        cs_cached_version := Some (str_int new_version)\<rparr>))"

definition ensure_category :: "cat_state \<Rightarrow> string \<Rightarrow> bool \<times> cat_state" where
  "ensure_category s slug = (if slug \<in> set (map fst (cs_categories s)) then (False, s)
     else (True, snd (bump_vocab_version (s\<lparr>cs_categories := cs_categories s @ [(slug, True)]\<rparr>))))"

section \<open>Assignment by hand\<close>

definition get_transaction :: "db \<Rightarrow> int \<Rightarrow> transaction option" where
  "get_transaction s i = List.find (\<lambda>t. int (t_id t) = i) (transactions s)"

definition manual_clear :: "datetime \<Rightarrow> transaction \<Rightarrow> transaction" where
  "manual_clear now t = t\<lparr>t_category := None, t_category_method := Some ''manual'',
     t_category_confidence := Some 1, t_categorized_at := Some now,
     t_review_status := Some ''resolved''\<rparr>"

definition manual_set :: "datetime \<Rightarrow> int \<Rightarrow> string \<Rightarrow> string \<Rightarrow> transaction \<Rightarrow> transaction" where
  "manual_set now version actor slug t = t\<lparr>t_category := Some slug,
     t_category_method := Some ''manual'', t_category_confidence := Some 1,
     t_category_model := Some (''manual:'' @ actor), t_category_vocab_version := Some version,
     t_categorized_at := Some now, t_review_status := Some ''resolved''\<rparr>"

definition assign_category_manual ::
  "datetime \<Rightarrow> cat_state \<Rightarrow> int \<Rightarrow> string \<Rightarrow> string \<Rightarrow> bool \<Rightarrow> (bool \<times> string option) \<times> cat_state" where
  "assign_category_manual now s txn_id raw_category actor create =
     (case get_transaction (cs_db s) txn_id of
        None \<Rightarrow> ((False, None), s)
      | Some txn \<Rightarrow>
          let cleaned = strip raw_category in
          if cleaned = [] then ((True, None), s\<lparr>cs_db := put_txn (manual_clear now txn) (cs_db s)\<rparr>)
          else let slug = canonicalize_slug cleaned in
            if \<not> is_valid_slug slug then ((False, None), s)
            else if \<not> create \<and> slug \<notin> set (map fst (cs_categories s)) then ((False, None), s)
            else let s = snd (ensure_category s slug) in
              ((True, Some slug),
               s\<lparr>cs_db := put_txn (manual_set now (get_vocab_version s) actor slug txn) (cs_db s)\<rparr>))"

section \<open>The review file\<close>

text \<open>A row of the file is a dictionary from column names to cells.\<close>

type_synonym review_row = "(string \<times> string) list"

definition EXPORT_FIELDS :: "string list" where
  "EXPORT_FIELDS = [''id'', ''date'', ''direction'', ''amount'', ''currency'', ''channel'',
     ''counterparty'', ''raw_description'', ''suggested_category'', ''confidence'',
     ''suggested_method'', ''review_reason'', ''final_category'']"

definition cell :: "review_row \<Rightarrow> string \<Rightarrow> string" where
  "cell row k = or_empty (dict_get row k)"

text \<open>The text of a confidence, a float column, is the parameter \<open>float_text\<close>.\<close>

definition build_export_row :: "(rat \<Rightarrow> string) \<Rightarrow> transaction \<Rightarrow> review_row" where
  "build_export_row float_text t = [
     (''id'', str_int (int (t_id t))),
     (''date'', case t_transaction_date t of None \<Rightarrow> [] | Some d \<Rightarrow> date_text d),
     (''direction'', t_direction t),
     (''amount'', amount_text (t_amount t)),
     (''currency'', or_empty (t_currency t)),
     (''channel'', or_empty (t_channel t)),
     (''counterparty'', or_empty (t_counterparty t)),
     (''raw_description'', or_empty (t_raw_description t)),
     (''suggested_category'', or_empty (t_category t)),
     (''confidence'', case t_category_confidence t of None \<Rightarrow> [] | Some c \<Rightarrow> float_text c),
     (''suggested_method'', or_empty (t_category_method t)),
     (''review_reason'', or_empty (t_review_reason t)),
     (''final_category'', or_empty (t_category t))]"

definition identity_mismatch :: "transaction \<Rightarrow> review_row \<Rightarrow> bool" where
  "identity_mismatch t row \<longleftrightarrow>
     (cell row ''amount'' \<noteq> [] \<and> py_decimal (cell row ''amount'') \<noteq> Some (t_amount t)) \<or>
     (cell row ''date'' \<noteq> [] \<and> cell row ''date'' \<noteq>
        (case t_transaction_date t of None \<Rightarrow> [] | Some d \<Rightarrow> date_text d)) \<or>
     (cell row ''direction'' \<noteq> [] \<and> cell row ''direction'' \<noteq> t_direction t)"

record apply_result =
  applied :: nat
  skipped :: nat
  invalid :: "string list"

definition apply_row :: "datetime \<Rightarrow> apply_result \<times> cat_state \<Rightarrow> review_row \<Rightarrow> apply_result \<times> cat_state" where
  "apply_row now rs row =
     (let (r, s) = rs;
          raw_id = (case dict_get row ''id'' of None \<Rightarrow> ''?'' | Some v \<Rightarrow> v);
          final_category = cell row ''final_category'';
          bad = (\<lambda>why. r\<lparr>invalid := invalid r @ [why]\<rparr>)
      in if strip final_category = [] then (r\<lparr>skipped := skipped r + 1\<rparr>, s)
         else case py_int raw_id of
           None \<Rightarrow> (bad (raw_id @ '':'' @ final_category), s)
         | Some txn_id \<Rightarrow>
             (case get_transaction (cs_db s) txn_id of
                None \<Rightarrow> (bad (str_int txn_id @ '':missing''), s)
              | Some txn \<Rightarrow>
                  if identity_mismatch txn row then (bad (str_int txn_id @ '':mismatch''), s)
                  else let ((ok, _), s') = assign_category_manual now s txn_id final_category ''user'' False in
                    (if ok then r\<lparr>applied := applied r + 1\<rparr>
                     else bad (str_int txn_id @ '':'' @ final_category), s')))"

definition apply_reviewed_rows :: "datetime \<Rightarrow> cat_state \<Rightarrow> review_row list \<Rightarrow> apply_result \<times> cat_state" where
  "apply_reviewed_rows now s rows = foldl (apply_row now) (\<lparr>applied = 0, skipped = 0, invalid = []\<rparr>, s) rows"

section \<open>The version counter\<close>

lemma get_vocab_version_bump [simp]:
  "get_vocab_version (snd (bump_vocab_version s)) = get_vocab_version s + 1"
  "fst (bump_vocab_version s) = get_vocab_version s + 1"
  by (simp_all add: bump_vocab_version_def get_vocab_version_def Let_def split: option.split)

lemma bump_frame [simp]:
  "cs_db (snd (bump_vocab_version s)) = cs_db s"
  "cs_categories (snd (bump_vocab_version s)) = cs_categories s"
  by (simp_all add: bump_vocab_version_def Let_def)

lemma version_db_update [simp]: "get_vocab_version (s\<lparr>cs_db := d\<rparr>) = get_vocab_version s"
  "get_vocab_version (s\<lparr>cs_categories := c\<rparr>) = get_vocab_version s"
  by (simp_all add: get_vocab_version_def)

definition slugs :: "cat_state \<Rightarrow> string set" where
  "slugs s = set (map fst (cs_categories s))"

lemma ensure_category_facts [simp]:
  "cs_db (snd (ensure_category s slug)) = cs_db s"
  "slugs (snd (ensure_category s slug)) = insert slug (slugs s)"
  "fst (ensure_category s slug) \<longleftrightarrow> slug \<notin> slugs s"
  "get_vocab_version (snd (ensure_category s slug)) = get_vocab_version s + (if slug \<in> slugs s then 0 else 1)"
  by (auto simp: ensure_category_def slugs_def)

lemma slugs_db_update [simp]: "slugs (s\<lparr>cs_db := d\<rparr>) = slugs s"
  by (simp add: slugs_def)

lemma get_transaction_Some: "get_transaction s i = Some t \<Longrightarrow> t \<in> set (transactions s) \<and> int (t_id t) = i"
  unfolding get_transaction_def by (rule find_Some_D)

lemma get_transaction_id:
  assumes "keys_ok s" "t \<in> set (transactions s)"
  shows "get_transaction s (int (t_id t)) = Some t"
proof (cases "get_transaction s (int (t_id t))")
  case None
  then show ?thesis using assms(2) find_None_D by (fastforce simp: get_transaction_def)
next
  case (Some u)
  then show ?thesis using get_transaction_Some [OF Some] keys_ok_txn_eq [OF assms(1) _ assms(2), of u] by simp
qed

text \<open>The three ways an assignment by hand can end.\<close>

lemma assign_cases:
  obtains (refused) "assign_category_manual now s i raw actor create = ((False, None), s)"
  | (cleared) t where "t \<in> set (transactions (cs_db s))" "int (t_id t) = i"
      "assign_category_manual now s i raw actor create =
        ((True, None), s\<lparr>cs_db := put_txn (manual_clear now t) (cs_db s)\<rparr>)"
  | (assigned) t slug s1 where "t \<in> set (transactions (cs_db s))" "int (t_id t) = i"
      "slug = canonicalize_slug (strip raw)" "is_valid_slug slug" "create \<or> slug \<in> slugs s"
      "s1 = snd (ensure_category s slug)"
      "assign_category_manual now s i raw actor create = ((True, Some slug),
         s1\<lparr>cs_db := put_txn (manual_set now (get_vocab_version s1) actor slug t) (cs_db s)\<rparr>)"
proof (cases "get_transaction (cs_db s) i")
  case None
  then show thesis by (intro refused) (simp add: assign_category_manual_def)
next
  case (Some t)
  let ?slug = "canonicalize_slug (strip raw)"
  note t = get_transaction_Some [OF Some]
  consider "strip raw = []" | "strip raw \<noteq> []" "is_valid_slug ?slug" "create \<or> ?slug \<in> slugs s"
    | "strip raw \<noteq> []" "\<not> (is_valid_slug ?slug \<and> (create \<or> ?slug \<in> slugs s))" by blast
  then show thesis
  proof cases
    case 1
    then show thesis using cleared [of t] t Some by (simp add: assign_category_manual_def)
  next
    case 2
    then show thesis using assigned [of t ?slug "snd (ensure_category s ?slug)"] t Some
      by (auto simp: assign_category_manual_def Let_def slugs_def)
  next
    case 3
    then show thesis using refused Some by (auto simp: assign_category_manual_def Let_def slugs_def)
  qed
qed

section \<open>The review file round trip\<close>

lemma identity_own_row: "two_decimals (t_amount t) \<Longrightarrow> \<not> identity_mismatch t (build_export_row ft t)"
  by (simp add: identity_mismatch_def build_export_row_def cell_def py_decimal_amount_text)

lemma cell_put [simp]: "cell (dict_put row k v) k' = (if k' = k then v else cell row k')"
  by (simp add: cell_def)

text \<open>C13. Export and apply are inverse. A row exported to the review file and applied to the same
  database with an edited last column passes all three identity checks, whatever the other
  cells, and is categorized exactly as by hand; with the last column left blank it is skipped
  and nothing changes.\<close>

theorem review_row_roundtrip:
  assumes "keys_ok (cs_db s)" "t \<in> set (transactions (cs_db s))" "two_decimals (t_amount t)"
  shows "apply_reviewed_rows now s [dict_put (build_export_row ft t) ''final_category'' c] =
    (if strip c = [] then (\<lparr>applied = 0, skipped = 1, invalid = []\<rparr>, s)
     else let ((ok, slug), s') = assign_category_manual now s (int (t_id t)) c ''user'' False in
       (if ok then \<lparr>applied = 1, skipped = 0, invalid = []\<rparr>
        else \<lparr>applied = 0, skipped = 0, invalid = [str_int (int (t_id t)) @ '':'' @ c]\<rparr>, s'))"
proof -
  let ?row = "dict_put (build_export_row ft t) ''final_category'' c"
  have "dict_get ?row ''id'' = Some (str_int (int (t_id t)))"
    by (simp add: build_export_row_def)
  moreover have "\<not> identity_mismatch t ?row"
    using identity_own_row [OF assms(3), of ft] by (simp add: identity_mismatch_def)
  ultimately show ?thesis
    using get_transaction_id [OF assms(1,2)]
    by (auto simp: apply_reviewed_rows_def apply_row_def Let_def case_prod_unfold)
qed

section \<open>Every stored category is in the vocabulary\<close>

definition row_ok :: "string set \<Rightarrow> int \<Rightarrow> transaction \<Rightarrow> bool" where
  "row_ok V n t \<longleftrightarrow> (\<forall>c. t_category t = Some c \<longrightarrow> c \<in> V) \<and>
     (\<forall>v. t_category_vocab_version t = Some v \<longrightarrow> v \<le> n)"

definition rows_ok :: "string set \<Rightarrow> int \<Rightarrow> db \<Rightarrow> bool" where
  "rows_ok V n s \<longleftrightarrow> (\<forall>t \<in> set (transactions s). row_ok V n t)"

lemma rows_ok_mono: "rows_ok V n s \<Longrightarrow> V \<subseteq> V' \<Longrightarrow> n \<le> n' \<Longrightarrow> rows_ok V' n' s"
  unfolding rows_ok_def row_ok_def by (meson order_trans subsetD)

lemma rows_ok_put: "rows_ok V n s \<Longrightarrow> row_ok V n t \<Longrightarrow> rows_ok V n (put_txn t s)"
  by (auto simp: rows_ok_def put_txn_def)

lemma row_ok_manual:
  "row_ok V n t \<Longrightarrow> row_ok V n (manual_clear now t)"
  "c \<in> V \<Longrightarrow> v \<le> n \<Longrightarrow> row_ok V n (manual_set now v actor c t)"
  by (simp_all add: row_ok_def manual_clear_def manual_set_def)

lemma seed_resolve:
  "set SEED_CATEGORIES \<subseteq> V \<Longrightarrow> c \<in> V \<Longrightarrow> fst (resolve_direction c dir acct) \<in> V"
  by (auto simp: resolve_direction_def slug_names SEED_CATEGORIES_def)

lemma rule_origin_seed:
  "rule_origin f config slug \<Longrightarrow> slug \<in> set SEED_CATEGORIES \<or> slug \<in> snd ` set (merchant_rules config)"
  unfolding rule_origin_def Let_def by (elim disjE) (auto simp: SEED_CATEGORIES_def intro: rev_image_eqI)

lemma row_ok_mark:
  "set SEED_CATEGORIES \<subseteq> V \<Longrightarrow> env_vocab env \<le> n \<Longrightarrow> row_ok V n t \<Longrightarrow> row_ok V n (mark_self_transfer env s t)"
  by (auto simp: row_ok_def mark_self_transfer_def Let_def SEED_CATEGORIES_def)

lemma row_ok_writes:
  assumes "row_ok V n t" "env_vocab env \<le> n" "set SEED_CATEGORIES \<subseteq> V"
  shows "fst hit \<in> V \<Longrightarrow> row_ok V n (write_rule env h hit t)"
    and "row_ok V n (write_pending env h t)"
    and "row_ok V n (write_empty env h t)"
    and "lr_slug r \<in> insert NEEDS_REVIEW V \<Longrightarrow> row_ok V n (write_llm env cfg h a r t)"
proof -
  show "fst hit \<in> V \<Longrightarrow> row_ok V n (write_rule env h hit t)" "row_ok V n (write_pending env h t)"
    using assms by (simp_all add: row_ok_def write_rule_def write_pending_def stamp_def)
  have "''unknown'' \<in> V" using assms(3) by (simp add: SEED_CATEGORIES_def)
  then show "row_ok V n (write_empty env h t)"
    using assms by (simp add: row_ok_def write_empty_def stamp_def)
  assume r: "lr_slug r \<in> insert NEEDS_REVIEW V"
  have "(if lr_slug r = NEEDS_REVIEW \<or> lr_confidence r < eg_threshold cfg then ''unknown'' else lr_slug r) \<in> V"
    using r \<open>''unknown'' \<in> V\<close> by auto
  then show "row_ok V n (write_llm env cfg h a r t)"
    using seed_resolve [OF assms(3)] assms(2) by (simp add: row_ok_def write_llm_category)
qed

text \<open>The provider modules pass the raw answer through \<open>parse_result\<close>.\<close>

type_synonym provider = "rule_fields \<Rightarrow> few_shot_example list \<Rightarrow> string list \<Rightarrow> (string \<times> float_value \<times> string) option"

definition classify_with :: "provider \<Rightarrow> classifier" where
  "classify_with raw flds examples active_slugs =
     map_option (\<lambda>(category, confidence, reason). parse_result category confidence reason active_slugs)
       (raw flds examples active_slugs)"

lemma classify_with_slug:
  "classify_with raw f ex active = Some r \<Longrightarrow> lr_slug r \<in> insert NEEDS_REVIEW (set active)"
  by (auto simp: classify_with_def parse_result_def Let_def split: if_splits)

definition config_ok :: "string set \<Rightarrow> engine_config \<Rightarrow> bool" where
  "config_ok V cfg \<longleftrightarrow> set SEED_CATEGORIES \<subseteq> V \<and> set (eg_active_slugs cfg) \<subseteq> V \<and>
     snd ` set (merchant_rules (eg_rules cfg)) \<subseteq> V"

lemma rows_ok_reference_rule:
  assumes "rows_ok V n s" "t \<in> set (transactions s)" "set SEED_CATEGORIES \<subseteq> V" "env_vocab env \<le> n"
  shows "rows_ok V n (snd (apply_reference_self_transfer_rule env s t))"
proof -
  have f: "rows_ok V n s' \<Longrightarrow> set ms \<subseteq> set (transactions s) \<Longrightarrow>
      rows_ok V n (fold (\<lambda>m s'. put_txn (mark_self_transfer env s m) s') ms s')" for ms s'
  proof (induction ms arbitrary: s')
    case (Cons m ms)
    have "row_ok V n m" using Cons.prems(2) assms(1) by (auto simp: rows_ok_def)
    then have "rows_ok V n (put_txn (mark_self_transfer env s m) s')"
      using rows_ok_put row_ok_mark assms(3,4) Cons.prems(1) by blast
    then show ?case using Cons by simp
  qed simp
  have "set (t # self_transfer_matches s t) \<subseteq> set (transactions s)"
    using assms(2) by (auto simp: set_self_transfer_matches)
  then show ?thesis
    using f [OF assms(1), of "t # self_transfer_matches s t"] assms(1)
    by (simp add: apply_reference_self_transfer_rule_def Let_def)
qed

lemma rows_ok_categorize_one:
  assumes s: "rows_ok V n s" and t: "t \<in> set (transactions s)"
    and ok: "config_ok V cfg" "env_vocab env \<le> n"
    and c: "categorize_one env cfg (classify_with raw) s t use_llm = Some (m, s')"
  shows "rows_ok V n s'"
proof -
  have seed: "set SEED_CATEGORIES \<subseteq> V" using ok(1) by (simp add: config_ok_def)
  have r: "row_ok V n t" using s t by (simp add: rows_ok_def)
  obtain b s1 where a: "apply_reference_self_transfer_rule env s t = (b, s1)" by force
  have s1: "rows_ok V n s1" using rows_ok_reference_rule [OF s t seed ok(2)] a by simp
  note w = row_ok_writes [OF r ok(2) seed]
  consider (ref) "s' = s1"
    | (rule) h hit where "s' = put_txn (write_rule env h hit t) s1" "fst hit \<in> V"
    | (pending) h where "s' = put_txn (write_pending env h t) s1"
    | (empty) h where "s' = put_txn (write_empty env h t) s1"
    | (llm) h a r where "s' = put_txn (write_llm env cfg h a r t) s1" "lr_slug r \<in> insert NEEDS_REVIEW V"
  proof (cases b)
    case True
    then show thesis using c a ref by (simp add: categorize_one_def)
  next
    case False
    let ?f = "fields_of t (account_type_of s1 t)"
    show thesis
    proof (cases "match_rules ?f (eg_rules cfg)")
      case (Some hit)
      obtain slug conf where hit: "hit = (slug, conf)" by force
      have "slug \<in> V"
        using rule_origin_seed [OF conjunct1 [OF match_rules_origin [OF Some [unfolded hit]]]] ok(1)
        unfolding config_ok_def by blast
      then show thesis using rule [of _ hit] c a False Some hit by (auto simp: categorize_one_def Let_def)
    next
      case None
      have "lr_slug r \<in> insert NEEDS_REVIEW V"
        if "classify_with raw ?f ex (filter (\<lambda>x. x \<noteq> ''self_transfer'') (eg_active_slugs cfg)) = Some r" for ex r
        using classify_with_slug [OF that] ok(1) by (auto simp: config_ok_def)
      then show thesis
        using c a False None pending empty llm
        by (auto simp: categorize_one_def Let_def split: if_splits option.splits)
    qed
  qed
  then show ?thesis using s1 w by cases (simp_all add: rows_ok_put)
qed

text \<open>What every single categorization preserves, the sweeps preserve.\<close>

lemma sweep_invariant:
  assumes step: "\<And>s t u m s'. I s \<Longrightarrow> t \<in> set (transactions s) \<Longrightarrow>
      categorize_one env cfg classify s t u = Some (m, s') \<Longrightarrow> I s'"
    and s: "I s"
  shows "I (snd (run_rule_sweep env cfg classify limit s))"
    and "I (snd (run_llm_sweep env cfg classify enabled limit s))"
proof -
  have "I (rule_pass env cfg classify s ids)" if "I s" for ids s
    using that
  proof (induction ids arbitrary: s)
    case (Cons i ids)
    have "I (case get_txn s i of None \<Rightarrow> s
       | Some t \<Rightarrow> (case categorize_one env cfg classify s t False of None \<Rightarrow> s | Some r \<Rightarrow> snd r))"
      using Cons.prems step get_txn_Some [of s i] by (auto split: option.split)
    then show ?case using Cons.IH by (simp add: rule_pass_def)
  qed (simp add: rule_pass_def)
  then show "I (snd (run_rule_sweep env cfg classify limit s))"
    using s by (simp add: run_rule_sweep_def Let_def)
  have "I (snd (llm_loop env cfg classify ids cnt failures s))" if "I s" for ids cnt failures s
    using that
  proof (induction ids arbitrary: cnt failures s)
    case (Cons i ids)
    have "I s'" if "get_txn s i = Some t" "categorize_one env cfg classify s t True = Some (m, s')" for t m s'
      using step [OF Cons.prems conjunct1 [OF get_txn_Some [OF that(1)]] that(2)] .
    then show ?case using Cons by (simp split: option.split)
  qed simp
  then show "I (snd (run_llm_sweep env cfg classify enabled limit s))"
    using s by (simp add: run_llm_sweep_def)
qed

section \<open>The life of the categories\<close>

text \<open>The categorization service as a transition system over its tables: messages arrive, sweeps
  run with whatever answers the model gives, people assign categories or apply a review file,
  and merchant rules are added. A sweep works with the present vocabulary and rules.\<close>

record cat_world =
  w_state :: cat_state
  w_rules :: "merchant_rule list"

definition seeded :: "cat_world \<Rightarrow> bool" where
  "seeded w \<longleftrightarrow> cs_categories (w_state w) = map (\<lambda>c. (c, True)) SEED_CATEGORIES \<and>
     transactions (cs_db (w_state w)) = [] \<and> w_rules w = []"

definition config_of :: "cat_world \<Rightarrow> string list \<Rightarrow> rat \<Rightarrow> string \<Rightarrow> engine_config" where
  "config_of w self_ids threshold model = \<lparr>eg_rules = load_rule_config self_ids (load_merchant_rules (w_rules w)),
     eg_threshold = threshold, eg_model_name = model, eg_active_slugs = get_active_slugs (w_state w)\<rparr>"

inductive cat_step :: "cat_world \<Rightarrow> cat_world \<Rightarrow> bool" where
  arrive: "t_category t = None \<Longrightarrow> t_category_vocab_version t = None \<Longrightarrow>
    cat_step w (w\<lparr>w_state := (w_state w)\<lparr>cs_db :=
      (cs_db (w_state w))\<lparr>transactions := transactions (cs_db (w_state w)) @ [t]\<rparr>\<rparr>\<rparr>)"
| rule_sweep: "env_vocab env = get_vocab_version (w_state w) \<Longrightarrow>
    cat_step w (w\<lparr>w_state := (w_state w)\<lparr>cs_db := snd (run_rule_sweep env (config_of w ids th model)
      (classify_with raw) limit (cs_db (w_state w)))\<rparr>\<rparr>)"
| llm_sweep: "env_vocab env = get_vocab_version (w_state w) \<Longrightarrow>
    cat_step w (w\<lparr>w_state := (w_state w)\<lparr>cs_db := snd (run_llm_sweep env (config_of w ids th model)
      (classify_with raw) enabled limit (cs_db (w_state w)))\<rparr>\<rparr>)"
| manual: "cat_step w (w\<lparr>w_state := snd (assign_category_manual now (w_state w) i raw_category actor create)\<rparr>)"
| review: "cat_step w (w\<lparr>w_state := snd (apply_reviewed_rows now (w_state w) rows)\<rparr>)"
| add_rule: "add_merchant_rule (map fst (cs_categories (w_state w))) (w_rules w) pattern category priority = Inr rules \<Longrightarrow>
    cat_step w (w\<lparr>w_rules := rules\<rparr>)"

inductive cat_reachable :: "cat_world \<Rightarrow> bool" where
  start: "seeded w \<Longrightarrow> cat_reachable w"
| step: "cat_reachable w \<Longrightarrow> cat_step w w' \<Longrightarrow> cat_reachable w'"

definition world_ok :: "cat_world \<Rightarrow> bool" where
  "world_ok w \<longleftrightarrow> set SEED_CATEGORIES \<subseteq> slugs (w_state w) \<and> (\<forall>c \<in> slugs (w_state w). is_valid_slug c) \<and>
     m_category ` set (w_rules w) \<subseteq> slugs (w_state w) \<and>
     rows_ok (slugs (w_state w)) (get_vocab_version (w_state w)) (cs_db (w_state w))"

lemma load_merchant_rules_categories: "snd ` set (load_merchant_rules rules) \<subseteq> m_category ` set rules"
  by (auto simp: load_merchant_rules_def rule_order_def)

lemma config_of_ok:
  assumes "world_ok w"
  shows "config_ok (slugs (w_state w)) (config_of w ids th model)"
proof -
  have "set (get_active_slugs (w_state w)) \<subseteq> slugs (w_state w)"
    by (auto simp: get_active_slugs_def slugs_def)
  then show ?thesis
    using assms order_trans [OF load_merchant_rules_categories [of "w_rules w"], of "slugs (w_state w)"]
    by (simp add: config_ok_def config_of_def load_rule_config_def Let_def world_ok_def)
qed

lemma world_ok_sweeps:
  assumes w: "world_ok w" and v: "env_vocab env = get_vocab_version (w_state w)"
  defines "V \<equiv> slugs (w_state w)" and "n \<equiv> get_vocab_version (w_state w)"
  shows "rows_ok V n (snd (run_rule_sweep env (config_of w ids th model) (classify_with raw) limit (cs_db (w_state w))))"
    and "rows_ok V n (snd (run_llm_sweep env (config_of w ids th model) (classify_with raw) enabled limit (cs_db (w_state w))))"
proof -
  have s: "rows_ok V n (cs_db (w_state w))" using w by (simp add: world_ok_def V_def n_def)
  have step: "rows_ok V n s'" if "rows_ok V n s" "t \<in> set (transactions s)"
    "categorize_one env (config_of w ids th model) (classify_with raw) s t u = Some (m, s')" for s t u m s'
    using rows_ok_categorize_one [OF that(1,2) config_of_ok [OF w, folded V_def] _ that(3)] v
    by (simp add: n_def)
  show "rows_ok V n (snd (run_rule_sweep env (config_of w ids th model) (classify_with raw) limit (cs_db (w_state w))))"
    using sweep_invariant(1) [of "rows_ok V n", OF step s] .
  show "rows_ok V n (snd (run_llm_sweep env (config_of w ids th model) (classify_with raw) enabled limit (cs_db (w_state w))))"
    using sweep_invariant(2) [of "rows_ok V n", OF step s] .
qed

definition state_ok :: "cat_state \<Rightarrow> bool" where
  "state_ok s \<longleftrightarrow> set SEED_CATEGORIES \<subseteq> slugs s \<and> (\<forall>c \<in> slugs s. is_valid_slug c) \<and>
     rows_ok (slugs s) (get_vocab_version s) (cs_db s)"

lemma world_ok_iff: "world_ok w \<longleftrightarrow> state_ok (w_state w) \<and> m_category ` set (w_rules w) \<subseteq> slugs (w_state w)"
  by (auto simp: world_ok_def state_ok_def)

text \<open>An assignment keeps the invariant, and the vocabulary only grows.\<close>

lemma state_ok_assign:
  assumes s: "state_ok s" and s'_def: "s' = snd (assign_category_manual now s i raw actor create)"
  shows "state_ok s'" and "slugs s \<subseteq> slugs s'"
proof -
  have r: "row_ok (slugs s) (get_vocab_version s) t" if "t \<in> set (transactions (cs_db s))" for t
    using s that by (simp add: state_ok_def rows_ok_def)
  have "state_ok s' \<and> slugs s \<subseteq> slugs s'"
  proof (rule assign_cases [of now s i raw actor create], goal_cases refused cleared assigned)
    case refused
    then show ?thesis using s by (simp add: s'_def)
  next
    case (cleared t)
    then show ?thesis using s r [OF cleared(1)] by (simp add: s'_def state_ok_def rows_ok_put row_ok_manual)
  next
    case (assigned t slug s1)
    have "rows_ok (slugs s1) (get_vocab_version s1) (cs_db s)"
      using s assigned(6) by (auto simp: state_ok_def intro: rows_ok_mono)
    then show ?thesis
      using s assigned by (auto simp: s'_def state_ok_def rows_ok_put row_ok_manual)
  qed
  then show "state_ok s'" "slugs s \<subseteq> slugs s'" by auto
qed

lemma apply_row_state:
  "snd (apply_row now (r, s) row) = s \<or> (\<exists>i c. snd (apply_row now (r, s) row) =
     snd (assign_category_manual now s i c ''user'' False))"
  by (auto simp: apply_row_def Let_def case_prod_unfold split: option.split)

lemma state_ok_apply:
  assumes "state_ok s"
  shows "state_ok (snd (apply_reviewed_rows now s rows)) \<and> slugs s \<subseteq> slugs (snd (apply_reviewed_rows now s rows))"
proof -
  have "state_ok (snd (foldl (apply_row now) (r, s) rows)) \<and> slugs s \<subseteq> slugs (snd (foldl (apply_row now) (r, s) rows))"
    if "state_ok s" for r s
    using that
  proof (induction rows arbitrary: r s)
    case (Cons row rows)
    obtain r1 s1 where e: "apply_row now (r, s) row = (r1, s1)" by force
    then have "s1 = s \<or> (\<exists>i c. s1 = snd (assign_category_manual now s i c ''user'' False))"
      using apply_row_state [of now r s row] by simp
    then have "state_ok s1 \<and> slugs s \<subseteq> slugs s1"
      using state_ok_assign [OF Cons.prems] Cons.prems by fastforce
    then show ?case using Cons.IH [of s1 r1] e by auto
  qed simp
  then show ?thesis using assms by (simp add: apply_reviewed_rows_def)
qed

lemma seeds_valid: "\<forall>c \<in> set SEED_CATEGORIES. is_valid_slug c"
  by code_simp

lemma world_ok_seeded: "seeded w \<Longrightarrow> world_ok w"
  using seeds_valid by (auto simp: seeded_def world_ok_def slugs_def rows_ok_def comp_def)

lemma upsert_rule_categories: "m_category ` set (upsert_rule p c k rows) \<subseteq> insert c (m_category ` set rows)"
  by (auto simp: upsert_rule_def)

lemma world_ok_step: "cat_step w w' \<Longrightarrow> world_ok w \<Longrightarrow> world_ok w'"
proof (induction rule: cat_step.induct)
  case (arrive t w)
  then show ?case by (auto simp: world_ok_iff state_ok_def rows_ok_def row_ok_def)
next
  case (rule_sweep env w ids th model raw limit)
  then show ?case using world_ok_sweeps(1) [OF rule_sweep.prems rule_sweep.hyps]
    by (simp add: world_ok_iff state_ok_def)
next
  case (llm_sweep env w ids th model raw enabled limit)
  then show ?case using world_ok_sweeps(2) [OF llm_sweep.prems llm_sweep.hyps]
    by (simp add: world_ok_iff state_ok_def)
next
  case (manual w now i raw_category actor create)
  then show ?case using state_ok_assign [OF _ refl, of "w_state w" now i raw_category actor create]
    by (auto simp: world_ok_iff)
next
  case (review w now rows)
  then show ?case using state_ok_apply [of "w_state w" now rows] by (auto simp: world_ok_iff)
next
  case (add_rule w pattern category priority rules)
  have "category \<in> slugs (w_state w)" "rules = upsert_rule (normalize_text (Some pattern)) category priority (w_rules w)"
    using add_rule.hyps by (auto simp: add_merchant_rule_def Let_def slugs_def split: if_splits)
  then show ?case
    using add_rule.prems upsert_rule_categories [of "normalize_text (Some pattern)" category priority "w_rules w"]
    by (auto simp: world_ok_iff)
qed

text \<open>C14. The vocabulary is closed. However the service runs from a freshly seeded database,
  whatever the model answers and whatever people type or upload, every category stored on a
  row, and every category a merchant rule assigns, is a slug of the category table; every slug
  of the table is well formed; and no row carries a vocabulary version from the future.\<close>

theorem categories_stay_in_vocabulary:
  assumes "cat_reachable w"
  shows "(\<forall>t \<in> set (transactions (cs_db (w_state w))). \<forall>c. t_category t = Some c \<longrightarrow>
      c \<in> set (map fst (cs_categories (w_state w)))) \<and>
    (\<forall>t \<in> set (transactions (cs_db (w_state w))). \<forall>v. t_category_vocab_version t = Some v \<longrightarrow>
      v \<le> get_vocab_version (w_state w)) \<and>
    (\<forall>r \<in> set (w_rules w). m_category r \<in> set (map fst (cs_categories (w_state w)))) \<and>
    (\<forall>c \<in> set (map fst (cs_categories (w_state w))). is_valid_slug c)"
proof -
  have "world_ok w"
    using assms by induction (auto intro: world_ok_seeded world_ok_step)
  then show ?thesis
    unfolding world_ok_def rows_ok_def row_ok_def slugs_def by blast
qed

text \<open>A new category gives every unresolved row another chance. When a person categorizes a row
  with a slug the vocabulary did not have, the version moves up by one, and every other row left
  \<open>unknown\<close> by the model pass under the old vocabulary, none of which the sweep would have
  selected before, is selected by the next sweep.\<close>

theorem new_category_reopens_unknown:
  assumes "assign_category_manual now s i raw actor create = ((True, Some slug), s')" "slug \<notin> slugs s"
    and "u \<in> set (transactions (cs_db s))" "int (t_id u) \<noteq> i" "t_category u = Some ''unknown''"
      "t_category_method u = Some ''llm''" "t_category_vocab_version u = Some (get_vocab_version s)"
  shows "get_vocab_version s' = get_vocab_version s + 1 \<and>
    (env_vocab env = get_vocab_version s \<longrightarrow> u \<notin> set (select_needs_work env True limit (cs_db s))) \<and>
    (env_vocab env = get_vocab_version s' \<longrightarrow>
      u \<in> set (select_needs_work env True (length (transactions (cs_db s'))) (cs_db s')))"
proof -
  obtain t where t: "int (t_id t) = i"
    "s' = (snd (ensure_category s slug))\<lparr>cs_db := put_txn (manual_set now
       (get_vocab_version (snd (ensure_category s slug))) actor slug t) (cs_db s)\<rparr>"
    using assms(1) by (cases rule: assign_cases [of now s i raw actor create]) auto
  have v: "get_vocab_version s' = get_vocab_version s + 1" using t(2) assms(2) by simp
  have "u \<in> set (transactions (cs_db s'))"
    using assms(3,4) t by (auto simp: put_txn_def manual_set_def)
  moreover have "needs_work (get_vocab_version s') True u"
    using assms(5-7) v by (simp add: needs_work_def)
  ultimately have sel: "u \<in> set (filter (needs_work (get_vocab_version s') True) (transactions (cs_db s')))"
    by simp
  have "u \<in> set (select_needs_work env True (length (transactions (cs_db s'))) (cs_db s'))"
    if "env_vocab env = get_vocab_version s'"
    using sel that by (simp add: select_needs_work_def take_all [OF length_filter_le])
  moreover have "u \<notin> set (select_needs_work env True limit (cs_db s))"
    if "env_vocab env = get_vocab_version s"
    using select_needs_work_sub [of env True limit "cs_db s"] assms(5-7) that by (auto simp: needs_work_def)
  ultimately show ?thesis using v by blast
qed

section \<open>An example\<close>

definition review_demo_open :: transaction where
  "review_demo_open = (engine_demo_row 12 ''QX'')\<lparr>t_category := Some ''unknown'', t_category_method := Some ''llm'',
     t_category_vocab_version := Some 1\<rparr>"

definition review_demo_row :: transaction where
  "review_demo_row = (engine_demo_row 11 ''ZZ'')\<lparr>t_amount := 1999 / 100, t_transaction_date := Some 738000\<rparr>"

definition review_demo :: cat_state where
  "review_demo = \<lparr>cs_db = empty_db\<lparr>transactions := [review_demo_row, review_demo_open]\<rparr>,
     cs_categories = map (\<lambda>c. (c, True)) SEED_CATEGORIES, cs_cached_version = None, cs_stored_version = None\<rparr>"

theorem review_row_roundtrip_witness:
  "fst (apply_reviewed_rows 5 review_demo [dict_put (build_export_row (\<lambda>_. []) review_demo_row) ''final_category'' ''Car Maintenance''])
     = \<lparr>applied = 1, skipped = 0, invalid = []\<rparr>"
proof -
  have k: "keys_ok (cs_db review_demo)" "review_demo_row \<in> set (transactions (cs_db review_demo))"
    by code_simp+
  have d: "two_decimals (t_amount review_demo_row)"
    by (simp add: two_decimals_def review_demo_row_def engine_demo_row_def)
  have e: "strip ''Car Maintenance'' \<noteq> []"
    "fst (assign_category_manual 5 review_demo (int (t_id review_demo_row)) ''Car Maintenance'' ''user'' False)
       = (True, Some ''car_maintenance'')"
    by code_simp+
  show ?thesis
    unfolding review_row_roundtrip [OF k d] using e by (simp add: case_prod_unfold)
qed

theorem new_category_reopens_unknown_witness:
  "review_demo_open \<in> set (select_needs_work (demo_env\<lparr>env_vocab := 2\<rparr>) True 2
     (cs_db (snd (assign_category_manual 5 review_demo 11 ''Pet food'' ''user'' True))))"
proof -
  define r where "r = assign_category_manual 5 review_demo 11 ''Pet food'' ''user'' True"
  have f: "fst r = (True, Some ''pet_food'')" "length (transactions (cs_db (snd r))) = 2"
    unfolding r_def by code_simp+
  then have a: "assign_category_manual 5 review_demo 11 ''Pet food'' ''user'' True = ((True, Some ''pet_food''), snd r)"
    by (metis prod.collapse r_def)
  have h: "''pet_food'' \<notin> slugs review_demo" "review_demo_open \<in> set (transactions (cs_db review_demo))"
    "int (t_id review_demo_open) \<noteq> 11" "t_category review_demo_open = Some ''unknown''"
    "t_category_method review_demo_open = Some ''llm''"
    "t_category_vocab_version review_demo_open = Some (get_vocab_version review_demo)"
    "get_vocab_version review_demo = 1"
    by code_simp+
  show ?thesis
    using new_category_reopens_unknown [OF a h(1-6), of "demo_env\<lparr>env_vocab := 2\<rparr>"] h(7) f
    by (simp add: r_def)
qed

definition review_demo_world :: "string \<Rightarrow> cat_world" where
  "review_demo_world c = \<lparr>w_state = snd (assign_category_manual 5 (review_demo\<lparr>cs_db := empty_db\<lparr>transactions :=
     [review_demo_row]\<rparr>\<rparr>) 11 c ''user'' True), w_rules = []\<rparr>"

theorem categories_stay_in_vocabulary_witness:
  "map t_category (transactions (cs_db (w_state (review_demo_world ''Pet food'')))) = [Some ''pet_food''] \<and>
   ''pet_food'' \<in> set (map fst (cs_categories (w_state (review_demo_world ''Pet food''))))"
proof -
  let ?w0 = "\<lparr>w_state = review_demo\<lparr>cs_db := empty_db\<rparr>, w_rules = []\<rparr>"
  let ?w1 = "\<lparr>w_state = review_demo\<lparr>cs_db := empty_db\<lparr>transactions := [review_demo_row]\<rparr>\<rparr>, w_rules = []\<rparr>"
  have "cat_reachable ?w0" by (rule start) (simp add: seeded_def review_demo_def empty_db_def)
  moreover have "cat_step ?w0 ?w1"
    using arrive [of review_demo_row ?w0]
    by (simp add: review_demo_row_def engine_demo_row_def blank_txn_def review_demo_def empty_db_def)
  moreover have "cat_step ?w1 (review_demo_world ''Pet food'')"
    using manual [of ?w1 5 11 "''Pet food''" "''user''" True] by (simp add: review_demo_world_def)
  ultimately have "cat_reachable (review_demo_world ''Pet food'')" by (blast intro: step)
  note p = categories_stay_in_vocabulary [OF this]
  have row: "map t_category (transactions (cs_db (w_state (review_demo_world ''Pet food'')))) = [Some ''pet_food'']"
    by code_simp
  then obtain t where "t \<in> set (transactions (cs_db (w_state (review_demo_world ''Pet food''))))"
      "t_category t = Some ''pet_food''" by auto
  with p row show ?thesis by blast
qed

end
