(* ===== verification/Cc_Cycle.thy ===== *)
theory Cc_Cycle
  imports Models Text_Num
begin

text \<open>
  \<open>services/cc_cycle.py\<close>: which billing cycle of a credit card a payment belongs to. The due
  dates of the statements (their text, read by \<open>dateutil\<close>, the parameter \<open>pd\<close>: \<open>None\<close> is a
  parse error) cut the calendar into half-open windows. Also the amount and date readers of
  \<open>services/statements/cc.py\<close>, and the classifier of bill-payment messages of
  \<open>services/cc_disambiguation.py\<close>. An amount text that spells an infinity or a NaN is
  not modelled.
\<close>

type_synonym date_parser = "string \<Rightarrow> date option"

section \<open>Amounts and dates of statements\<close>

definition parse_cc_amount :: "string \<Rightarrow> rat option" where
  "parse_cc_amount s = py_decimal (filter (\<lambda>c. c \<noteq> CHR '','') s)"

definition parse_cc_date :: "date_parser \<Rightarrow> string \<Rightarrow> date option" where
  "parse_cc_date pd s = (if strip s = [] then None else pd (strip s))"

definition CC_PAYMENT_RECEIVED_SUFFIXES :: "string list" where
  "CC_PAYMENT_RECEIVED_SUFFIXES = [''_cc_payment_alert'', ''_cc_upi_payment_alert'', ''_cc_credit_alert'',
     ''_cc_payment'', ''_cc_bill_paid'', ''_cc_payment_received_alert'', ''_cc_bill_paid_alert'',
     ''_cc_repayment_received_alert'', ''sbi_payment_ack'']"

definition is_cc_payment_received_email :: "string option \<Rightarrow> bool" where
  "is_cc_payment_received_email email_type \<longleftrightarrow> truthy email_type \<and>
     (\<exists>s \<in> set CC_PAYMENT_RECEIVED_SUFFIXES. suffix s (or_empty email_type))"

definition should_auto_reconcile_statement :: "transaction \<Rightarrow> bool" where
  "should_auto_reconcile_statement t \<longleftrightarrow> t_direction t = ''credit'' \<and> t_account_id t \<noteq> None \<and>
     is_cc_payment_received_email (Some (t_email_type t))"

section \<open>The window of a statement\<close>

record cycle_window =
  win_start :: date
  win_end :: "date option"

definition due :: "date_parser \<Rightarrow> string option \<Rightarrow> date option" where
  "due pd due_text = (if truthy due_text then parse_cc_date pd (or_empty due_text) else None)"

definition boundary :: "date option \<Rightarrow> datetime option \<Rightarrow> date option" where
  "boundary earlier_due later_created = (case earlier_due of Some d \<Rightarrow> Some (d + 1)
     | None \<Rightarrow> map_option date_of later_created)"

text \<open>The statements of an account that anchor a boundary, in the order of their due dates, ties
  by key.\<close>

type_synonym anchor = "date \<times> nat \<times> datetime option"

definition anchors_of :: "date_parser \<Rightarrow> nat \<Rightarrow> db \<Rightarrow> anchor list" where
  "anchors_of pd account_id s = sort_key fst (sort_key (fst \<circ> snd)
     (concat (map (\<lambda>u. case due pd (u_due_date u) of None \<Rightarrow> [] | Some d \<Rightarrow> [(d, u_id u, u_created_at u)])
       (filter (\<lambda>u. u_account_id u = account_id) (uploads s)))))"

fun index_of :: "nat \<Rightarrow> anchor list \<Rightarrow> nat option" where
  "index_of i [] = None"
| "index_of i (a # as) = (if fst (snd a) = i then Some 0 else map_option Suc (index_of i as))"

text \<open>\<open>ORDER BY created_at ASC LIMIT 1\<close> over the later uploads of the account.\<close>

definition later_created :: "statement_upload \<Rightarrow> db \<Rightarrow> datetime option" where
  "later_created u s = (case u_created_at u of None \<Rightarrow> None
     | Some c \<Rightarrow> (case sort (concat (map (\<lambda>v. case u_created_at v of None \<Rightarrow> [] | Some x \<Rightarrow> if c < x then [x] else [])
           (filter (\<lambda>v. u_account_id v = u_account_id u) (uploads s)))) of
         [] \<Rightarrow> None | x # _ \<Rightarrow> Some x))"

definition cc_cycle_window :: "date_parser \<Rightarrow> datetime \<Rightarrow> db \<Rightarrow> statement_upload \<Rightarrow> cycle_window" where
  "cc_cycle_window pd now s u =
     (let created_start = date_of (case u_created_at u of Some c \<Rightarrow> c | None \<Rightarrow> now) in
      case due pd (u_due_date u) of
        None \<Rightarrow> \<lparr>win_start = created_start, win_end = map_option date_of (later_created u s)\<rparr>
      | Some this_due \<Rightarrow>
          let as = anchors_of pd (u_account_id u) s;
              idx = index_of (u_id u) as;
              prev_due = (case idx of Some (Suc i) \<Rightarrow> Some (fst (as ! i)) | _ \<Rightarrow> None);
              has_next = (case idx of Some i \<Rightarrow> i + 1 < length as | None \<Rightarrow> False);
              next_created = (if has_next then snd (snd (as ! (the idx + 1))) else None);
              start = (case boundary prev_due (u_created_at u) of Some d \<Rightarrow> d | None \<Rightarrow> created_start)
          in \<lparr>win_start = start,
              win_end = (if has_next then boundary (Some this_due) next_created else None)\<rparr>)"

text \<open>Datetimes are stored in UTC without a zone, and the bounds are midnights.\<close>

definition transactions_in_cycle :: "cycle_window \<Rightarrow> transaction \<Rightarrow> bool" where
  "transactions_in_cycle w t \<longleftrightarrow> (case t_transaction_date t of
     Some d \<Rightarrow> win_start w \<le> d \<and> (case win_end w of None \<Rightarrow> True | Some e \<Rightarrow> d < e)
   | None \<Rightarrow> (case t_created_at t of None \<Rightarrow> False
       | Some c \<Rightarrow> combine (win_start w) 0 \<le> c \<and>
           (case win_end w of None \<Rightarrow> True | Some e \<Rightarrow> c < combine e 0)))"

text \<open>The day that decides: the date of the payment, or of its arrival when it has none.\<close>

definition payment_day :: "transaction \<Rightarrow> date option" where
  "payment_day t = (case t_transaction_date t of Some d \<Rightarrow> Some d | None \<Rightarrow> map_option date_of (t_created_at t))"

definition day_in_window :: "cycle_window \<Rightarrow> date \<Rightarrow> bool" where
  "day_in_window w d \<longleftrightarrow> win_start w \<le> d \<and> (case win_end w of None \<Rightarrow> True | Some e \<Rightarrow> d < e)"

lemma transactions_in_cycle_day:
  "transactions_in_cycle w t \<longleftrightarrow> (case payment_day t of None \<Rightarrow> False | Some d \<Rightarrow> day_in_window w d)"
proof -
  have "c < combine e 0 \<longleftrightarrow> date_of c < e" for c e using combine_le_iff [of e c] by linarith
  then show ?thesis
    by (simp add: transactions_in_cycle_def payment_day_def day_in_window_def combine_le_iff split: option.split)
qed

section \<open>The cycles of an account\<close>

lemma index_of_Some: "index_of i as = Some k \<Longrightarrow> k < length as \<and> fst (snd (as ! k)) = i"
  by (induction as arbitrary: k) (auto split: if_splits)

lemma index_of_mem: "\<exists>a \<in> set as. fst (snd a) = i \<Longrightarrow> index_of i as \<noteq> None"
  by (induction as) auto

lemma anchor_list: "concat (map (\<lambda>u. case due pd (u_due_date u) of None \<Rightarrow> [] | Some d \<Rightarrow> [(d, u_id u, u_created_at u)]) us) =
    map (\<lambda>u. (the (due pd (u_due_date u)), u_id u, u_created_at u)) (filter (\<lambda>u. due pd (u_due_date u) \<noteq> None) us)"
  by (induction us) (auto split: option.splits)

definition anchored :: "date_parser \<Rightarrow> nat \<Rightarrow> db \<Rightarrow> statement_upload \<Rightarrow> bool" where
  "anchored pd acct s u \<longleftrightarrow> u \<in> set (uploads s) \<and> u_account_id u = acct \<and> due pd (u_due_date u) \<noteq> None"

definition due_of :: "date_parser \<Rightarrow> statement_upload \<Rightarrow> date" where
  "due_of pd u = the (due pd (u_due_date u))"

lemma set_anchors: "set (anchors_of pd acct s) =
    (\<lambda>u. (due_of pd u, u_id u, u_created_at u)) ` {u. anchored pd acct s u}"
  by (auto simp: anchors_of_def anchor_list anchored_def due_of_def)

lemma sorted_anchors: "sorted (map fst (anchors_of pd acct s))"
  by (simp add: anchors_of_def)

lemma anchored_key_eq:
  "keys_ok s \<Longrightarrow> anchored pd acct s u \<Longrightarrow> anchored pd acct s v \<Longrightarrow> u_id u = u_id v \<Longrightarrow> u = v"
  by (auto simp: keys_ok_def anchored_def distinct_map inj_on_def)

lemma distinct_anchor_ids:
  assumes "keys_ok s"
  shows "distinct (map (fst \<circ> snd) (anchors_of pd acct s))"
proof -
  let ?us = "filter (\<lambda>u. due pd (u_due_date u) \<noteq> None) (filter (\<lambda>u. u_account_id u = acct) (uploads s))"
  have "distinct (map u_id ?us)" using assms by (simp add: keys_ok_def distinct_map_filter)
  moreover have "mset (map (fst \<circ> snd) (anchors_of pd acct s)) = mset (map u_id ?us)"
    by (simp add: anchors_of_def anchor_list multiset.map_comp comp_def)
  ultimately show ?thesis by (metis mset_eq_imp_distinct_iff)
qed

text \<open>Each statement has its own place in the list, and the places are filled.\<close>

lemma anchor_at:
  assumes "keys_ok s" "anchored pd acct s u"
  obtains k where "k < length (anchors_of pd acct s)" "index_of (u_id u) (anchors_of pd acct s) = Some k"
    "anchors_of pd acct s ! k = (due_of pd u, u_id u, u_created_at u)"
proof -
  let ?as = "anchors_of pd acct s"
  have m: "(due_of pd u, u_id u, u_created_at u) \<in> set ?as" using assms(2) by (simp add: set_anchors)
  then have "index_of (u_id u) ?as \<noteq> None" by (intro index_of_mem) force
  then obtain k where k: "index_of (u_id u) ?as = Some k" by blast
  have kl: "k < length ?as" "fst (snd (?as ! k)) = u_id u" using index_of_Some [OF k] by auto
  from nth_mem [OF kl(1)] obtain v where v: "anchored pd acct s v" "?as ! k = (due_of pd v, u_id v, u_created_at v)"
    unfolding set_anchors by auto
  have "u_id u = u_id v" using kl(2) v(2) by simp
  then have "u = v" by (rule anchored_key_eq [OF assms(1,2) v(1)])
  then show thesis using that [OF kl(1) k] v(2) by simp
qed

lemma upload_at:
  assumes "keys_ok s" "k < length (anchors_of pd acct s)"
  obtains v where "anchored pd acct s v" "anchors_of pd acct s ! k = (due_of pd v, u_id v, u_created_at v)"
    "index_of (u_id v) (anchors_of pd acct s) = Some k"
proof -
  let ?as = "anchors_of pd acct s"
  from nth_mem [OF assms(2)] obtain v where v: "anchored pd acct s v" "?as ! k = (due_of pd v, u_id v, u_created_at v)"
    unfolding set_anchors by auto
  obtain l where l: "l < length ?as" "index_of (u_id v) ?as = Some l" "?as ! l = (due_of pd v, u_id v, u_created_at v)"
    using anchor_at [OF assms(1) v(1)] .
  have "map (fst \<circ> snd) ?as ! l = map (fst \<circ> snd) ?as ! k" using l v assms(2) by simp
  then have "l = k"
    using distinct_anchor_ids [OF assms(1), of pd acct] l(1) assms(2)
    by (simp only: nth_eq_iff_index_eq length_map)
  then show thesis using that v l by simp
qed

lemma window_at:
  assumes "anchored pd acct s u" "index_of (u_id u) (anchors_of pd acct s) = Some k"
  shows "win_end (cc_cycle_window pd now s u) =
      (if k + 1 < length (anchors_of pd acct s) then Some (due_of pd u + 1) else None)"
    and "0 < k \<Longrightarrow> win_start (cc_cycle_window pd now s u) = fst (anchors_of pd acct s ! (k - 1)) + 1"
proof -
  obtain d where d: "due pd (u_due_date u) = Some d" "due_of pd u = d" "u_account_id u = acct"
    using assms(1) by (auto simp: anchored_def due_of_def)
  show "win_end (cc_cycle_window pd now s u) =
      (if k + 1 < length (anchors_of pd acct s) then Some (due_of pd u + 1) else None)"
    by (simp add: cc_cycle_window_def d assms(2) boundary_def Let_def)
  show "win_start (cc_cycle_window pd now s u) = fst (anchors_of pd acct s ! (k - 1)) + 1" if "0 < k"
    using that by (cases k) (simp_all add: cc_cycle_window_def d assms(2) boundary_def Let_def)
qed

lemma sorted_dues:
  "i \<le> j \<Longrightarrow> j < length (anchors_of pd acct s) \<Longrightarrow> fst (anchors_of pd acct s ! i) \<le> fst (anchors_of pd acct s ! j)"
  using sorted_nth_mono [OF sorted_anchors [of pd acct s]] by simp

text \<open>No day lies in two windows.\<close>

lemma windows_disjoint:
  assumes k: "keys_ok s" and u: "anchored pd acct s u" and v: "anchored pd acct s v"
    and du: "day_in_window (cc_cycle_window pd now s u) D" and dv: "day_in_window (cc_cycle_window pd now s v) D"
  shows "u = v"
proof -
  let ?as = "anchors_of pd acct s"
  have less: False if "anchored pd acct s x" "anchored pd acct s y" "index_of (u_id x) ?as = Some i"
    "index_of (u_id y) ?as = Some j" "?as ! i = (due_of pd x, u_id x, u_created_at x)" "i < j" "j < length ?as"
    "day_in_window (cc_cycle_window pd now s x) D" "day_in_window (cc_cycle_window pd now s y) D" for x y i j
  proof -
    have "due_of pd x \<le> fst (?as ! (j - 1))" using sorted_dues [of i "j - 1" pd acct s] that by simp
    then show False
      using window_at(1) [OF that(1,3), of now] window_at(2) [OF that(2,4), of now] that by (simp add: day_in_window_def)
  qed
  obtain i where i: "i < length ?as" "index_of (u_id u) ?as = Some i" "?as ! i = (due_of pd u, u_id u, u_created_at u)"
    using anchor_at [OF k u] .
  obtain j where j: "j < length ?as" "index_of (u_id v) ?as = Some j" "?as ! j = (due_of pd v, u_id v, u_created_at v)"
    using anchor_at [OF k v] .
  have "i = j" using less [OF u v i(2) j(2) i(3)] less [OF v u j(2) i(2) j(3)] i j du dv by (meson linorder_neqE_nat)
  then have "u_id u = u_id v" using i j by simp
  then show ?thesis using anchored_key_eq [OF k u v] by simp
qed

text \<open>A day that a window has reached lies in the window of the next due date.\<close>

lemma window_covers:
  assumes k: "keys_ok s" and u: "anchored pd acct s u" and D: "win_start (cc_cycle_window pd now s u) \<le> D"
  obtains v where "anchored pd acct s v" "day_in_window (cc_cycle_window pd now s v) D"
    "\<And>w. anchored pd acct s w \<Longrightarrow> D \<le> due_of pd w \<Longrightarrow> D \<le> due_of pd v \<and> due_of pd v \<le> due_of pd w"
proof -
  let ?as = "anchors_of pd acct s"
  let ?n = "length ?as"
  obtain i where i: "i < ?n" "index_of (u_id u) ?as = Some i" "?as ! i = (due_of pd u, u_id u, u_created_at u)"
    using anchor_at [OF k u] .
  define P where "P j \<longleftrightarrow> i \<le> j \<and> (j + 1 = ?n \<or> D \<le> fst (?as ! j))" for j
  have "P (?n - 1)" using i(1) by (auto simp: P_def)
  then obtain l where l: "P l" "\<And>j. j < l \<Longrightarrow> \<not> P j" "l < ?n"
    using LeastI [of P] not_less_Least [of _ P] Least_le [of P "?n - 1"] i(1) that by fastforce
  have before: "fst (?as ! (l - 1)) < D" if "i < l"
    using l(2) [of "l - 1"] that l(3) by (auto simp: P_def)
  obtain v where v: "anchored pd acct s v" "?as ! l = (due_of pd v, u_id v, u_created_at v)"
    "index_of (u_id v) ?as = Some l" using upload_at [OF k l(3)] .
  have start: "win_start (cc_cycle_window pd now s v) \<le> D"
  proof (cases "i = l")
    case True
    then have "u_id u = u_id v" using i(3) v(2) by simp
    then show ?thesis using anchored_key_eq [OF k u v(1)] D by simp
  next
    case False
    then have "i < l" using l(1) by (simp add: P_def)
    then show ?thesis using window_at(2) [OF v(1,3), of now] before by simp
  qed
  have w: "day_in_window (cc_cycle_window pd now s v) D"
    using start window_at(1) [OF v(1,3), of now] l(1) v(2) by (auto simp: day_in_window_def P_def)
  have "D \<le> due_of pd v \<and> due_of pd v \<le> due_of pd x" if x: "anchored pd acct s x" "D \<le> due_of pd x" for x
  proof -
    obtain m where m: "m < ?n" "?as ! m = (due_of pd x, u_id x, u_created_at x)" using anchor_at [OF k x(1)] .
    have "i \<le> m"
    proof (rule ccontr)
      assume "\<not> i \<le> m"
      then have "m \<le> i - 1" "0 < i" "i - 1 < ?n" using i(1) by auto
      then show False using sorted_dues [of m "i - 1" pd acct s] window_at(2) [OF u i(2), of now] D m x(2) i(1) by simp
    qed
    then have "P m" using m x(2) by (simp add: P_def)
    then have "l \<le> m" using l(2) not_le by blast
    then have le: "due_of pd v \<le> due_of pd x" using sorted_dues [of l m pd acct s] m v(2) by simp
    have "D \<le> due_of pd v"
    proof (cases "l + 1 = ?n")
      case True
      then have "m = l" using \<open>l \<le> m\<close> m(1) by simp
      then show ?thesis using m(2) v(2) x(2) by simp
    next
      case False
      then show ?thesis using l(1) v(2) by (simp add: P_def)
    qed
    then show ?thesis using le by simp
  qed
  then show thesis using that v(1) w by blast
qed

text \<open>C15. Every payment is counted in exactly one billing cycle. Among the statements of a card
  whose due date can be read, a payment made on or after the start of any of their windows lies
  in the window of exactly one, whether or not due dates repeat; it is the statement with the
  earliest due date on or after the payment, if there is one.\<close>

theorem payment_clears_one_cycle:
  assumes "keys_ok s" "anchored pd acct s u" "payment_day t = Some D"
    and "win_start (cc_cycle_window pd now s u) \<le> D"
  shows "(\<exists>!v. anchored pd acct s v \<and> transactions_in_cycle (cc_cycle_window pd now s v) t) \<and>
    (\<forall>v w. anchored pd acct s v \<and> transactions_in_cycle (cc_cycle_window pd now s v) t \<and>
      anchored pd acct s w \<and> D \<le> due_of pd w \<longrightarrow> D \<le> due_of pd v \<and> due_of pd v \<le> due_of pd w)"
proof -
  obtain v where v: "anchored pd acct s v" "day_in_window (cc_cycle_window pd now s v) D"
    "\<And>w. anchored pd acct s w \<Longrightarrow> D \<le> due_of pd w \<Longrightarrow> D \<le> due_of pd v \<and> due_of pd v \<le> due_of pd w"
    using window_covers [OF assms(1,2,4)] by blast
  have iff: "transactions_in_cycle w t \<longleftrightarrow> day_in_window w D" for w
    using assms(3) by (simp add: transactions_in_cycle_day)
  have same: "x = v" if "anchored pd acct s x" "day_in_window (cc_cycle_window pd now s x) D" for x
    using windows_disjoint [OF assms(1) that(1) v(1) that(2) v(2)] .
  then show ?thesis unfolding iff using v by blast
qed

section \<open>What a window depends on\<close>

text \<open>The columns of a statement that never change after ingestion.\<close>

definition bill_key :: "statement_upload \<Rightarrow> nat \<times> nat \<times> string option \<times> datetime option" where
  "bill_key u = (u_id u, u_account_id u, u_due_date u, u_created_at u)"

lemma concat_map_filter: "concat (map f (filter P us)) = concat (map (\<lambda>u. if P u then f u else []) us)"
  by (induction us) simp_all

lemma anchors_of_key:
  assumes "map bill_key (uploads s') = map bill_key (uploads s)"
  shows "anchors_of pd acct s' = anchors_of pd acct s"
proof -
  let ?g = "\<lambda>(i, a, dd, c). if a = acct then (case due pd dd of None \<Rightarrow> [] | Some d \<Rightarrow> [(d, i, c)]) else []"
  have "concat (map (\<lambda>u. case due pd (u_due_date u) of None \<Rightarrow> [] | Some d \<Rightarrow> [(d, u_id u, u_created_at u)])
      (filter (\<lambda>u. u_account_id u = acct) us)) = concat (map ?g (map bill_key us))" for us
    by (simp add: concat_map_filter bill_key_def comp_def)
  then show ?thesis using assms by (simp add: anchors_of_def del: map_map)
qed

lemma later_created_key:
  assumes "map bill_key (uploads s') = map bill_key (uploads s)" "bill_key u' = bill_key u"
  shows "later_created u' s' = later_created u s"
proof -
  let ?g = "\<lambda>c (i, a, dd, d). if a = u_account_id u then (case d of None \<Rightarrow> [] | Some x \<Rightarrow> if c < x then [x] else []) else []"
  have "concat (map (\<lambda>v. case u_created_at v of None \<Rightarrow> [] | Some x \<Rightarrow> if c < x then [x] else [])
      (filter (\<lambda>v. u_account_id v = u_account_id u) us)) = concat (map (?g c) (map bill_key us))" for us c
    by (simp add: concat_map_filter bill_key_def comp_def)
  then show ?thesis using assms by (simp add: later_created_def bill_key_def del: map_map cong: option.case_cong)
qed

lemma cc_cycle_window_key:
  assumes "map bill_key (uploads s') = map bill_key (uploads s)" "bill_key u' = bill_key u"
  shows "cc_cycle_window pd now s' u' = cc_cycle_window pd now s u"
proof -
  have "u_id u' = u_id u" "u_account_id u' = u_account_id u" "u_due_date u' = u_due_date u"
    "u_created_at u' = u_created_at u" using assms(2) by (simp_all add: bill_key_def)
  then show ?thesis
    unfolding cc_cycle_window_def anchors_of_key [OF assms(1)] later_created_key [OF assms] by presburger
qed

text \<open>The clock only matters for a statement without an ingestion time.\<close>

lemma cc_cycle_window_now:
  "u_created_at u \<noteq> None \<Longrightarrow> cc_cycle_window pd now' s u = cc_cycle_window pd now s u"
  by (auto simp: cc_cycle_window_def)

section \<open>An example\<close>

text \<open>Statements due on days 100, 130 and again 130; the dates are spelled by their length.\<close>

definition cycle_demo_pd :: date_parser where
  "cycle_demo_pd s = Some (int (length s))"

definition cycle_demo_upload :: "nat \<Rightarrow> nat \<Rightarrow> int \<Rightarrow> statement_upload" where
  "cycle_demo_upload i d c = blank_upload\<lparr>u_id := i, u_account_id := 21, u_bank := ''hdfc'',
     u_due_date := Some (replicate d CHR ''1''), u_total_amount_due := Some ''12'',
     u_created_at := Some (combine c 0), u_payment_status := Some UNPAID\<rparr>"

definition cycle_demo_db :: db where
  "cycle_demo_db = empty_db\<lparr>uploads := [cycle_demo_upload 11 130 115, cycle_demo_upload 12 100 80, cycle_demo_upload 13 130 116]\<rparr>"

definition cycle_demo_txn :: transaction where
  "cycle_demo_txn = blank_txn\<lparr>t_id := 31, t_account_id := Some 21, t_direction := ''credit'', t_amount := 12,
     t_email_type := ''hdfc_cc_payment_alert'', t_transaction_date := Some 130\<rparr>"

theorem payment_clears_one_cycle_witness:
  "(\<exists>!v. anchored cycle_demo_pd 21 cycle_demo_db v \<and>
      transactions_in_cycle (cc_cycle_window cycle_demo_pd 0 cycle_demo_db v) cycle_demo_txn) \<and>
   transactions_in_cycle (cc_cycle_window cycle_demo_pd 0 cycle_demo_db (cycle_demo_upload 11 130 115)) cycle_demo_txn"
proof -
  have 1: "keys_ok cycle_demo_db" by code_simp
  have 2: "anchored cycle_demo_pd 21 cycle_demo_db (cycle_demo_upload 12 100 80)"
    unfolding anchored_def by code_simp
  have 3: "payment_day cycle_demo_txn = Some 130" by code_simp
  have 4: "win_start (cc_cycle_window cycle_demo_pd 0 cycle_demo_db (cycle_demo_upload 12 100 80)) \<le> 130" by code_simp
  have 5: "transactions_in_cycle (cc_cycle_window cycle_demo_pd 0 cycle_demo_db (cycle_demo_upload 11 130 115)) cycle_demo_txn"
    by code_simp
  show ?thesis using payment_clears_one_cycle [OF 1 2 3 4] 5 by blast
qed

end
