(* ===== verification/Cc_Payments.thy ===== *)
theory Cc_Payments
  imports Cc_Cycle Txn_Match
begin

text \<open>
  \<open>services/reminders.py\<close> with \<open>emit_cc_snapshot\<close> of \<open>services/snapshots.py\<close> and the settled part
  of \<open>services/statement_payments.py\<close>: the payment state of credit card statements. The state is
  the database and the \<open>cc_outstanding\<close> snapshots, keyed by account and day. Telegram and the
  settings are arguments; a sent reminder is an entry of the log that the pass returns.
  Operations that raise are \<open>option\<close> valued.
\<close>

section \<open>State\<close>

record pay_state =
  ps_db :: db
  ps_snapshots :: "((nat \<times> date) \<times> rat) list"

definition put_upload :: "statement_upload \<Rightarrow> pay_state \<Rightarrow> pay_state" where
  "put_upload u s = s\<lparr>ps_db := (ps_db s)\<lparr>uploads :=
     map (\<lambda>r. if u_id r = u_id u then u else r) (uploads (ps_db s))\<rparr>\<rparr>"

definition get_upload :: "pay_state \<Rightarrow> nat \<Rightarrow> statement_upload option" where
  "get_upload s i = List.find (\<lambda>u. u_id u = i) (uploads (ps_db s))"

definition ACTIVE_STATUSES :: "payment_status list" where
  "ACTIVE_STATUSES = [UNPAID, PARTIALLY_PAID, LATE]"

definition STALE_DAYS :: int where
  "STALE_DAYS = 7"

definition active :: "statement_upload \<Rightarrow> bool" where
  "active u \<longleftrightarrow> (case u_payment_status u of None \<Rightarrow> False | Some st \<Rightarrow> st \<in> set ACTIVE_STATUSES)"

definition amount_due :: "statement_upload \<Rightarrow> rat option" where
  "amount_due u = (case u_total_amount_due u of None \<Rightarrow> None | Some x \<Rightarrow> parse_cc_amount x)"

definition paid_amount :: "statement_upload \<Rightarrow> rat" where
  "paid_amount u = (case u_payment_paid_amount u of None \<Rightarrow> 0 | Some p \<Rightarrow> p)"

section \<open>Snapshots\<close>

definition outstanding_value :: "statement_upload \<Rightarrow> rat \<Rightarrow> rat" where
  "outstanding_value u d = (if u_payment_status u = Some PAID \<or> d \<le> 0 then 0 else max (d - paid_amount u) 0)"

definition emit_cc_snapshot :: "datetime \<Rightarrow> statement_upload \<Rightarrow> pay_state \<Rightarrow> bool \<times> pay_state" where
  "emit_cc_snapshot now u s =
     (if \<not> truthy (u_total_amount_due u) then (False, s)
      else case amount_due u of
        None \<Rightarrow> (False, s)
      | Some d \<Rightarrow>
          let day = date_of (case u_created_at u of None \<Rightarrow> now | Some c \<Rightarrow> c)
          in (True, s\<lparr>ps_snapshots := dict_put (ps_snapshots s) (u_account_id u, day) (outstanding_value u d)\<rparr>))"

section \<open>The latest cycle\<close>

definition take_latest :: "date_parser \<Rightarrow> (nat \<times> date \<times> statement_upload) list \<Rightarrow> statement_upload \<Rightarrow>
    (nat \<times> date \<times> statement_upload) list" where
  "take_latest pd latest u = (case due pd (u_due_date u) of
       None \<Rightarrow> latest
     | Some d \<Rightarrow> (case dict_get latest (u_account_id u) of
           None \<Rightarrow> dict_put latest (u_account_id u) (d, u)
         | Some current \<Rightarrow> if fst current < d then dict_put latest (u_account_id u) (d, u) else latest))"

definition latest_per_account :: "date_parser \<Rightarrow> statement_upload list \<Rightarrow> statement_upload list" where
  "latest_per_account pd us = map (snd \<circ> snd) (foldl (take_latest pd) [] us)"

definition latest_active_cycle :: "date_parser \<Rightarrow> pay_state \<Rightarrow> nat \<Rightarrow> bool \<Rightarrow> statement_upload option" where
  "latest_active_cycle pd s account_id include_paid =
     (case latest_per_account pd (filter (\<lambda>u. u_account_id u = account_id \<and>
         (active u \<or> include_paid \<and> u_payment_status u = Some PAID) \<and> u_due_date u \<noteq> None) (uploads (ps_db s))) of
        [] \<Rightarrow> None | u # _ \<Rightarrow> Some u)"

section \<open>Recomputation\<close>

definition qualifying_credits :: "date_parser \<Rightarrow> datetime \<Rightarrow> db \<Rightarrow> statement_upload \<Rightarrow> transaction list" where
  "qualifying_credits pd now s u = filter (\<lambda>t. is_cc_payment_received_email (Some (t_email_type t)))
     (filter (\<lambda>t. t_account_id t = Some (u_account_id u) \<and> t_direction t = ''credit'' \<and>
        transactions_in_cycle (cc_cycle_window pd now s u) t) (transactions s))"

definition qualifying_payment_credit_sum :: "date_parser \<Rightarrow> datetime \<Rightarrow> db \<Rightarrow> statement_upload \<Rightarrow> rat" where
  "qualifying_payment_credit_sum pd now s u =
     quantize2 (foldl (\<lambda>acc t. acc + t_amount t) 0 (qualifying_credits pd now s u))"

text \<open>The upload after a recomputation that found the sum \<open>p\<close>.\<close>

definition paid_state :: "datetime \<Rightarrow> rat \<Rightarrow> rat \<Rightarrow> bool \<Rightarrow> statement_upload \<Rightarrow> statement_upload" where
  "paid_state now p d unpaid_when_zero u =
     (let u = u\<lparr>u_payment_paid_amount := Some p\<rparr> in
      if d \<le> p then
        (let u = (if u_payment_status u \<noteq> Some PAID then u\<lparr>u_payment_paid_at := Some now\<rparr> else u)
         in u\<lparr>u_payment_status := Some PAID\<rparr>)
      else (u\<lparr>u_payment_status := Some (if 0 < p \<or> \<not> unpaid_when_zero then PARTIALLY_PAID else UNPAID)\<rparr>)
        \<lparr>u_payment_paid_at := None\<rparr>)"

definition recompute_cc_payment_state ::
  "date_parser \<Rightarrow> datetime \<Rightarrow> pay_state \<Rightarrow> statement_upload \<Rightarrow> bool \<Rightarrow> (rat \<times> pay_state) option" where
  "recompute_cc_payment_state pd now s u unpaid_when_zero =
     (case amount_due u of
        None \<Rightarrow> None
      | Some d \<Rightarrow>
          let p = qualifying_payment_credit_sum pd now (ps_db s) u;
              u = paid_state now p d unpaid_when_zero u
          in Some (p, snd (emit_cc_snapshot now u (put_upload u s))))"

section \<open>The operations\<close>

definition init_payment_tracking ::
  "date_parser \<Rightarrow> datetime \<Rightarrow> date \<Rightarrow> pay_state \<Rightarrow> nat \<Rightarrow> bool \<times> pay_state" where
  "init_payment_tracking pd now today s i =
     (case get_upload s i of
        None \<Rightarrow> (False, s)
      | Some u \<Rightarrow>
          if \<not> truthy (u_due_date u) \<or> \<not> truthy (u_total_amount_due u) \<or> u_payment_status u \<noteq> None then (False, s)
          else case (due pd (u_due_date u), amount_due u) of
            (Some dd, Some d) \<Rightarrow>
              if dd < ord_of (year_of today) (month_of today) 1 then (False, s)
              else if d \<le> 0 then
                let u = u\<lparr>u_payment_status := Some PAID, u_payment_paid_at := Some now, u_payment_paid_amount := Some d\<rparr>
                in (True, snd (emit_cc_snapshot now u (put_upload u s)))
              else (case recompute_cc_payment_state pd now s u True of
                  None \<Rightarrow> (False, s) | Some (_, s) \<Rightarrow> (True, s))
          | _ \<Rightarrow> (False, s))"

definition mark_paid :: "datetime \<Rightarrow> pay_state \<Rightarrow> nat \<Rightarrow> string \<times> pay_state" where
  "mark_paid now s i =
     (case get_upload s i of
        None \<Rightarrow> (''Statement not found'', s)
      | Some u \<Rightarrow>
          if u_payment_status u = Some PAID then (''Already marked as paid'', s)
          else let u = u\<lparr>u_payment_status := Some PAID, u_payment_paid_at := Some now\<rparr>;
                   u = (case amount_due u of None \<Rightarrow> u | Some d \<Rightarrow> u\<lparr>u_payment_paid_amount := Some d\<rparr>)
            in (''Marked as paid!'', snd (emit_cc_snapshot now u (put_upload u s))))"

definition resync_tracked_cc_payment_state ::
  "date_parser \<Rightarrow> datetime \<Rightarrow> pay_state \<Rightarrow> statement_upload \<Rightarrow> bool \<times> pay_state" where
  "resync_tracked_cc_payment_state pd now s u =
     (if \<not> active u then (False, s)
      else case recompute_cc_payment_state pd now s u True of
        None \<Rightarrow> (False, s) | Some (_, s) \<Rightarrow> (True, s))"

definition is_credit_card :: "db \<Rightarrow> nat \<Rightarrow> bool" where
  "is_credit_card s i \<longleftrightarrow> (case get_account s i of None \<Rightarrow> False | Some a \<Rightarrow> a_type a = ''credit_card'')"

definition recompute_cc_payment_for_account ::
  "date_parser \<Rightarrow> datetime \<Rightarrow> pay_state \<Rightarrow> nat \<Rightarrow> rat option \<times> pay_state" where
  "recompute_cc_payment_for_account pd now s account_id =
     (if \<not> is_credit_card (ps_db s) account_id then (None, s)
      else case latest_active_cycle pd s account_id True of
        None \<Rightarrow> (None, s)
      | Some u \<Rightarrow> (case recompute_cc_payment_state pd now s u False of
            None \<Rightarrow> (None, s) | Some (p, s) \<Rightarrow> (Some p, s)))"

definition check_payment_received ::
  "date_parser \<Rightarrow> datetime \<Rightarrow> pay_state \<Rightarrow> nat \<Rightarrow> bool \<times> pay_state" where
  "check_payment_received pd now s account_id =
     (if \<not> is_credit_card (ps_db s) account_id then (False, s)
      else case latest_active_cycle pd s account_id False of
        None \<Rightarrow> (False, s)
      | Some u \<Rightarrow> (case (amount_due u, recompute_cc_payment_state pd now s u False) of
            (Some d, Some (p, s)) \<Rightarrow> (d \<le> p, s)
          | _ \<Rightarrow> (False, s)))"

section \<open>Reminders\<close>

text \<open>The loop over the offsets: the offsets dealt with, whether any is new, whether a message went
  out.\<close>

fun remind_offsets :: "date \<Rightarrow> date \<Rightarrow> bool \<Rightarrow> int list \<Rightarrow> int set \<times> bool \<times> bool \<Rightarrow> int set \<times> bool \<times> bool" where
  "remind_offsets today due_day late [] acc = acc"
| "remind_offsets today due_day late (offset # os) (already, changed, sent) =
     (if offset \<in> already then remind_offsets today due_day late os (already, changed, sent)
      else if late \<and> 0 < offset then remind_offsets today due_day late os (insert offset already, True, sent)
      else if due_day - offset \<le> today then remind_offsets today due_day late os (insert offset already, True, True)
      else remind_offsets today due_day late os (already, changed, sent))"

type_synonym reminder = "nat \<times> int"

definition mark_late :: "date \<Rightarrow> date \<Rightarrow> statement_upload \<Rightarrow> statement_upload" where
  "mark_late today due_day u =
     (if (u_payment_status u = Some UNPAID \<or> u_payment_status u = Some PARTIALLY_PAID) \<and> due_day < today
      then u\<lparr>u_payment_status := Some LATE\<rparr> else u)"

text \<open>Whether a message goes out, and the row with the offsets dealt with.\<close>

definition remind_row :: "datetime \<Rightarrow> date \<Rightarrow> date \<Rightarrow> int list \<Rightarrow> statement_upload \<Rightarrow> bool \<times> statement_upload" where
  "remind_row now today due_day offsets u =
     (let (already, changed, sent) = remind_offsets today due_day (u_payment_status u = Some LATE)
            offsets (set (u_sent_offsets u), False, False);
          u = (if sent then u\<lparr>u_last_reminded_at := Some now\<rparr> else u)
      in (sent, if changed then u\<lparr>u_sent_offsets := sorted_list_of_set already\<rparr> else u))"

definition remind_one ::
  "date_parser \<Rightarrow> datetime \<Rightarrow> date \<Rightarrow> int list \<Rightarrow> reminder list \<times> pay_state \<Rightarrow> statement_upload \<Rightarrow> reminder list \<times> pay_state" where
  "remind_one pd now today offsets ls u =
     (let (out, s) = ls in
      case due pd (u_due_date u) of
        None \<Rightarrow> (out, s)
      | Some due_day \<Rightarrow>
          let u = mark_late today due_day u;
              s = put_upload u s
          in if STALE_DAYS < today - due_day then (out, s)
             else case amount_due u of
               None \<Rightarrow> (out, s)
             | Some d \<Rightarrow>
                 if d \<le> 0 then
                   let u = u\<lparr>u_payment_status := Some PAID\<rparr>
                   in (out, snd (emit_cc_snapshot now u (put_upload u s)))
                 else
                   let (sent, u) = remind_row now today due_day offsets u
                   in (if sent then out @ [(u_id u, due_day - today)] else out, put_upload u s))"

definition check_and_send_reminders ::
  "date_parser \<Rightarrow> datetime \<Rightarrow> date \<Rightarrow> bool \<Rightarrow> int list \<Rightarrow> pay_state \<Rightarrow> reminder list \<times> pay_state" where
  "check_and_send_reminders pd now today enabled offsets s =
     (if \<not> enabled \<or> offsets = [] then ([], s)
      else foldl (remind_one pd now today offsets) ([], s)
        (latest_per_account pd (filter active (uploads (ps_db s)))))"

section \<open>The payments panel\<close>

text \<open>\<open>f"{amount:,.2f}"\<close>, which is also \<open>format_cc_amount\<close>.\<close>

fun group_thousands :: "string \<Rightarrow> string" where
  "group_thousands (a # b # c # d # s) = a # b # c # CHR '','' # group_thousands (d # s)"
| "group_thousands s = s"

definition format_cc_amount :: "rat \<Rightarrow> string" where
  "format_cc_amount q = (let q = quantize2 q in
     (if q < 0 then ''-'' else []) @ rev (group_thousands (rev (str_nat (cents q div 100)))) @ ''.'' @
       [digit_ch (cents q div 10 mod 10), digit_ch (cents q mod 10)])"

record settled_payment =
  sp_txn_id :: nat
  sp_date :: string
  sp_amount :: string
  sp_counterparty :: string

text \<open>\<open>ORDER BY transaction_date, id\<close>: SQLite puts rows without a date first.\<close>

definition settled_order :: "transaction list \<Rightarrow> transaction list" where
  "settled_order ts = sort_key t_id (filter (\<lambda>t. t_transaction_date t = None) ts) @
     sort_key (\<lambda>t. the (t_transaction_date t)) (sort_key t_id (filter (\<lambda>t. t_transaction_date t \<noteq> None) ts))"

definition settled_rows :: "date_parser \<Rightarrow> datetime \<Rightarrow> db \<Rightarrow> statement_upload \<Rightarrow> transaction list" where
  "settled_rows pd now s u = filter (\<lambda>t. is_cc_payment_received_email (Some (t_email_type t)))
     (settled_order (filter (\<lambda>t. t_account_id t = Some (u_account_id u) \<and> t_direction t = ''credit'' \<and>
        transactions_in_cycle (cc_cycle_window pd now s u) t) (transactions s)))"

definition settled_payments :: "date_parser \<Rightarrow> datetime \<Rightarrow> db \<Rightarrow> statement_upload \<Rightarrow> settled_payment list" where
  "settled_payments pd now s u = map (\<lambda>t. \<lparr>sp_txn_id = t_id t,
     sp_date = (case t_transaction_date t of None \<Rightarrow> [] | Some d \<Rightarrow> date_text d),
     sp_amount = format_cc_amount (t_amount t), sp_counterparty = or_empty (t_counterparty t)\<rparr>)
     (settled_rows pd now s u)"

definition remaining_text :: "statement_upload \<Rightarrow> string option" where
  "remaining_text u = (case amount_due u of None \<Rightarrow> None
     | Some d \<Rightarrow> Some (format_cc_amount (max (d - paid_amount u) 0)))"

section \<open>Amounts on the page\<close>

lemma quantize2_two_decimals [simp]: "two_decimals q \<Longrightarrow> quantize2 q = q"
  by (auto simp: two_decimals_def Ints_def quantize2_def Let_def)

lemma two_decimals_add: "two_decimals a \<Longrightarrow> two_decimals b \<Longrightarrow> two_decimals (a + b)"
  by (simp add: two_decimals_def distrib_right)

lemma two_decimals_sum: "\<forall>q \<in> set qs. two_decimals q \<Longrightarrow> two_decimals (sum_list qs)"
  by (induction qs) (simp_all add: two_decimals_add, simp add: two_decimals_def)

lemma filter_group [simp]: "filter (\<lambda>c. c \<noteq> CHR '','') (group_thousands s) = filter (\<lambda>c. c \<noteq> CHR '','') s"
  by (induction s rule: group_thousands.induct) simp_all

lemma digit_not_comma: "is_ascii_digit c \<Longrightarrow> c \<noteq> CHR '',''"
  by (auto simp: is_ascii_digit_def code_def)

lemma filter_comma_digits: "all_digits s \<Longrightarrow> filter (\<lambda>c. c \<noteq> CHR '','') s = s"
  using digit_not_comma by (auto simp: filter_id_conv all_digits_iff)

lemma filter_format:
  assumes "two_decimals q"
  shows "filter (\<lambda>c. c \<noteq> CHR '','') (format_cc_amount q) = amount_text q"
proof -
  let ?d = "str_nat (cents q div 100)"
  let ?e = "[digit_ch (cents q div 10 mod 10), digit_ch (cents q mod 10)]"
  have d: "filter (\<lambda>c. c \<noteq> CHR '','') (rev (group_thousands (rev ?d))) = ?d"
    unfolding rev_filter [symmetric] filter_group using filter_comma_digits [OF str_nat_digits] by (simp add: rev_filter)
  have e: "filter (\<lambda>c. c \<noteq> CHR '','') ?e = ?e" by (rule filter_comma_digits) simp
  have s: "filter (\<lambda>c. c \<noteq> CHR '','') (if q < 0 then ''-'' else []) = (if q < 0 then ''-'' else [])"
    "filter (\<lambda>c. c \<noteq> CHR '','') ''.'' = ''.''" by simp_all
  show ?thesis
    unfolding format_cc_amount_def amount_text_def Let_def quantize2_two_decimals [OF assms] filter_append d e s ..
qed

text \<open>A displayed or stored statement amount reads back: \<open>parse_cc_amount\<close> undoes
  \<open>format_cc_amount\<close> on every amount a column can hold, thousands separators and sign included.\<close>

theorem cc_amount_roundtrip:
  assumes "two_decimals q"
  shows "parse_cc_amount (format_cc_amount q) = Some q"
  using assms by (simp add: parse_cc_amount_def filter_format py_decimal_amount_text)

theorem cc_amount_roundtrip_witness:
  "format_cc_amount (- 234567 / 100) = ''-2,345.67'' \<and>
   parse_cc_amount (format_cc_amount (- 234567 / 100)) = Some (- 234567 / 100)"
proof
  have d: "two_decimals (- 234567 / 100)" by (simp add: two_decimals_def)
  show "parse_cc_amount (format_cc_amount (- 234567 / 100)) = Some (- 234567 / 100)"
    by (rule cc_amount_roundtrip [OF d])
  show "format_cc_amount (- 234567 / 100) = ''-2,345.67''"
    by (simp only: format_cc_amount_def Let_def quantize2_two_decimals [OF d])
      (simp add: cents_def str_nat.simps digit_ch_def char_of_def bit_0)
qed

section \<open>Paid amounts\<close>

lemma mset_settled_order [simp]: "mset (settled_order ts) = mset ts"
  by (induction ts) (simp_all add: settled_order_def)

lemma foldl_amount: "foldl (\<lambda>acc t. acc + t_amount t) a ts = a + sum_list (map t_amount ts)"
  by (induction ts arbitrary: a) simp_all

lemma mset_settled_rows: "mset (settled_rows pd now s u) = mset (qualifying_credits pd now s u)"
  by (simp only: settled_rows_def qualifying_credits_def mset_filter mset_settled_order)

lemma settled_rows_sum:
  "sum_list (map t_amount (settled_rows pd now s u)) = sum_list (map t_amount (qualifying_credits pd now s u))"
proof -
  have "mset (map t_amount (settled_rows pd now s u)) = mset (map t_amount (qualifying_credits pd now s u))"
    using mset_settled_rows by simp
  then show ?thesis by (metis sum_mset_sum_list)
qed

lemma set_qualifying: "set (qualifying_credits pd now s u) \<subseteq> set (transactions s)"
  by (auto simp: qualifying_credits_def)

lemma set_settled_rows: "set (settled_rows pd now s u) = set (qualifying_credits pd now s u)"
  by (rule mset_eq_setD) (rule mset_settled_rows)

lemma qualifying_sum:
  assumes "\<forall>t \<in> set (transactions s). two_decimals (t_amount t)"
  shows "qualifying_payment_credit_sum pd now s u = sum_list (map t_amount (qualifying_credits pd now s u))"
proof -
  have "\<forall>q \<in> set (map t_amount (qualifying_credits pd now s u)). two_decimals q"
    using assms set_qualifying by fastforce
  then show ?thesis using two_decimals_sum by (simp add: qualifying_payment_credit_sum_def foldl_amount)
qed

lemma paid_state_frame [simp]:
  "u_id (paid_state now p d z u) = u_id u" "u_account_id (paid_state now p d z u) = u_account_id u"
  "u_due_date (paid_state now p d z u) = u_due_date u" "u_total_amount_due (paid_state now p d z u) = u_total_amount_due u"
  "u_created_at (paid_state now p d z u) = u_created_at u" "u_payment_paid_amount (paid_state now p d z u) = Some p"
  by (simp_all add: paid_state_def Let_def)

lemma emit_frame [simp]: "ps_db (snd (emit_cc_snapshot now u s)) = ps_db s"
  by (simp add: emit_cc_snapshot_def Let_def split: option.split)

lemma put_upload_db: "ps_db (put_upload u s) = (ps_db s)\<lparr>uploads :=
     map (\<lambda>r. if u_id r = u_id u then u else r) (uploads (ps_db s))\<rparr>"
  by (simp add: put_upload_def)

lemma recompute_Some:
  "recompute_cc_payment_state pd now s u z = Some (p, s') \<longleftrightarrow> (\<exists>d. amount_due u = Some d \<and>
     p = qualifying_payment_credit_sum pd now (ps_db s) u \<and>
     s' = snd (emit_cc_snapshot now (paid_state now p d z u) (put_upload (paid_state now p d z u) s)))"
  by (auto simp: recompute_cc_payment_state_def Let_def split: option.split)

text \<open>The payments panel adds up. The amounts printed for the settled payments of a statement,
  read back, sum to exactly the paid amount that the recomputation stores on the statement.\<close>

theorem settled_payments_sum_to_paid:
  assumes "\<forall>t \<in> set (transactions (ps_db s)). two_decimals (t_amount t)" "u \<in> set (uploads (ps_db s))"
    and "recompute_cc_payment_state pd now s u z = Some (p, s')"
  shows "sum_list (map (\<lambda>x. the (parse_cc_amount (sp_amount x))) (settled_payments pd now (ps_db s) u)) = p \<and>
    (\<exists>v \<in> set (uploads (ps_db s')). u_id v = u_id u \<and> u_payment_paid_amount v = Some p)"
proof
  have rt: "parse_cc_amount (format_cc_amount (t_amount t)) = Some (t_amount t)"
    if "t \<in> set (settled_rows pd now (ps_db s) u)" for t
    using that assms(1) set_qualifying [of pd now "ps_db s" u]
    by (auto simp: set_settled_rows parse_cc_amount_def filter_format py_decimal_amount_text)
  have "map (\<lambda>x. the (parse_cc_amount (sp_amount x))) (settled_payments pd now (ps_db s) u) =
      map t_amount (settled_rows pd now (ps_db s) u)"
    using rt by (simp add: settled_payments_def)
  then show "sum_list (map (\<lambda>x. the (parse_cc_amount (sp_amount x))) (settled_payments pd now (ps_db s) u)) = p"
    using assms(3) qualifying_sum [OF assms(1)] by (auto simp: settled_rows_sum recompute_Some)
  obtain d where "s' = snd (emit_cc_snapshot now (paid_state now p d z u) (put_upload (paid_state now p d z u) s))"
    using assms(3) by (auto simp: recompute_Some)
  then have "paid_state now p d z u \<in> set (uploads (ps_db s'))"
    using assms(2) by (force simp: put_upload_db)
  then show "\<exists>v \<in> set (uploads (ps_db s')). u_id v = u_id u \<and> u_payment_paid_amount v = Some p"
    by (intro bexI) simp_all
qed

section \<open>Rewriting one statement\<close>

lemma dict_put_put [simp]: "dict_put (dict_put d k v) k w = dict_put d k w"
  by (induction d k v rule: dict_put.induct) auto

lemma put_upload_put [simp]: "u_id v = u_id w \<Longrightarrow> put_upload v (put_upload w s) = put_upload v s"
  by (simp add: put_upload_def comp_def cong: if_cong)

definition same_bill :: "statement_upload \<Rightarrow> statement_upload \<Rightarrow> bool" where
  "same_bill u v \<longleftrightarrow> bill_key v = bill_key u \<and> u_total_amount_due v = u_total_amount_due u"

lemma same_bill_refl [simp]: "same_bill u u"
  by (simp add: same_bill_def)

lemma same_bill_trans: "same_bill u v \<Longrightarrow> same_bill v w \<Longrightarrow> same_bill u w"
  by (simp add: same_bill_def)

lemma same_bill_fields:
  "same_bill u v \<Longrightarrow> u_id v = u_id u \<and> u_account_id v = u_account_id u \<and> u_due_date v = u_due_date u \<and>
     u_created_at v = u_created_at u \<and> amount_due v = amount_due u"
  by (simp add: same_bill_def bill_key_def amount_due_def)

lemma same_bill_paid [simp]: "same_bill u (paid_state now p d z u)"
  by (simp add: same_bill_def bill_key_def)

lemma upload_key_eq:
  "keys_ok s \<Longrightarrow> u \<in> set (uploads s) \<Longrightarrow> v \<in> set (uploads s) \<Longrightarrow> u_id u = u_id v \<Longrightarrow> u = v"
  by (auto simp: keys_ok_def distinct_map inj_on_def)

lemma get_upload_Some: "get_upload s i = Some u \<Longrightarrow> u \<in> set (uploads (ps_db s)) \<and> u_id u = i"
  unfolding get_upload_def by (rule find_Some_D)

lemma uploads_put:
  assumes "keys_ok (ps_db s)" "u \<in> set (uploads (ps_db s))" "same_bill u v"
  shows "uploads (ps_db (put_upload v s)) = map (\<lambda>r. if r = u then v else r) (uploads (ps_db s))"
  using assms upload_key_eq [OF assms(1) _ assms(2)] same_bill_fields [OF assms(3)]
  by (auto simp: put_upload_db)

lemma bill_keys_put:
  assumes "keys_ok (ps_db s)" "u \<in> set (uploads (ps_db s))" "same_bill u v"
  shows "map bill_key (uploads (ps_db (put_upload v s))) = map bill_key (uploads (ps_db s))"
  unfolding uploads_put [OF assms] using assms(3) by (auto simp: same_bill_def)

lemma keys_ok_put:
  assumes "keys_ok (ps_db s)" "u \<in> set (uploads (ps_db s))" "same_bill u v"
  shows "keys_ok (ps_db (put_upload v s))"
proof -
  have "map (fst \<circ> bill_key) (uploads (ps_db (put_upload v s))) = map (fst \<circ> bill_key) (uploads (ps_db s))"
    using bill_keys_put [OF assms] by (simp flip: map_map)
  then have "map u_id (uploads (ps_db (put_upload v s))) = map u_id (uploads (ps_db s))"
    by (simp add: bill_key_def comp_def)
  then have "distinct (map u_id (uploads (ps_db (put_upload v s))))" using assms(1) by (simp add: keys_ok_def)
  then show ?thesis using assms(1) by (simp add: keys_ok_def put_upload_db del: map_map)
qed

lemma sum_put:
  assumes "keys_ok (ps_db s)" "u \<in> set (uploads (ps_db s))" "same_bill u v"
  shows "qualifying_payment_credit_sum pd now (ps_db (put_upload v s)) v =
    qualifying_payment_credit_sum pd now (ps_db s) u"
proof -
  have "cc_cycle_window pd now (ps_db (put_upload v s)) v = cc_cycle_window pd now (ps_db s) u"
    using bill_keys_put [OF assms] assms(3) by (intro cc_cycle_window_key) (simp_all add: same_bill_def)
  then show ?thesis
    using same_bill_fields [OF assms(3)]
    by (simp add: qualifying_payment_credit_sum_def qualifying_credits_def put_upload_db)
qed

lemma paid_state_again [simp]: "paid_state now' p d z (paid_state now p d z u) = paid_state now p d z u"
  by (simp add: paid_state_def Let_def)

lemma emit_again:
  "u_created_at u \<noteq> None \<Longrightarrow> u_id v = u_id u \<Longrightarrow>
   snd (emit_cc_snapshot now' u (put_upload v (snd (emit_cc_snapshot now u (put_upload v s))))) =
   snd (emit_cc_snapshot now u (put_upload v s))"
  by (auto simp: emit_cc_snapshot_def put_upload_def Let_def split: option.splits)

text \<open>Recomputing the payment state is idempotent. A second recomputation of the same statement,
  at any later time, reports the same sum and leaves the tables and the snapshots exactly as
  they are, the time of payment included: the paid amount is derived from the ledger, never
  accumulated, so a payment announced twice is not counted twice.\<close>

theorem recompute_idempotent:
  assumes "keys_ok (ps_db s)" "u \<in> set (uploads (ps_db s))" "u_created_at u \<noteq> None"
    and r: "recompute_cc_payment_state pd now s u z = Some (p, s')"
  shows "\<exists>v. get_upload s' (u_id u) = Some v \<and> recompute_cc_payment_state pd now' s' v z = Some (p, s')"
proof -
  obtain d where d: "amount_due u = Some d" "p = qualifying_payment_credit_sum pd now (ps_db s) u"
    "s' = snd (emit_cc_snapshot now (paid_state now p d z u) (put_upload (paid_state now p d z u) s))"
    using r by (auto simp: recompute_Some)
  let ?v = "paid_state now p d z u"
  have db: "ps_db s' = ps_db (put_upload ?v s)" using d(3) by simp
  have k': "keys_ok (ps_db s')" unfolding db using keys_ok_put [OF assms(1,2)] by simp
  have v: "?v \<in> set (uploads (ps_db s'))" unfolding db uploads_put [OF assms(1,2) same_bill_paid] using assms(2) by force
  have g: "get_upload s' (u_id u) = Some ?v"
  proof (cases "get_upload s' (u_id u)")
    case None
    then show ?thesis using find_None_D v by (fastforce simp: get_upload_def)
  next
    case (Some w)
    then show ?thesis using get_upload_Some [OF Some] upload_key_eq [OF k' _ v, of w] by simp
  qed
  have "cc_cycle_window pd now' (ps_db s') ?v = cc_cycle_window pd now (ps_db s') ?v"
    by (rule cc_cycle_window_now) (simp add: assms(3))
  then have "qualifying_payment_credit_sum pd now' (ps_db s') ?v = qualifying_payment_credit_sum pd now (ps_db s') ?v"
    by (simp add: qualifying_payment_credit_sum_def qualifying_credits_def)
  then have sum: "qualifying_payment_credit_sum pd now' (ps_db s') ?v = p"
    unfolding db using sum_put [OF assms(1,2) same_bill_paid] d(2) by simp
  have "amount_due ?v = Some d" using d(1) by (simp add: amount_due_def)
  then have "recompute_cc_payment_state pd now' s' ?v z =
      Some (p, snd (emit_cc_snapshot now' ?v (put_upload ?v s')))"
    by (simp add: recompute_cc_payment_state_def sum Let_def)
  also have "snd (emit_cc_snapshot now' ?v (put_upload ?v s')) = s'"
    unfolding d(3) by (rule emit_again) (simp_all add: assms(3))
  finally show ?thesis using g by blast
qed

section \<open>An example\<close>

text \<open>The card of \<open>Cc_Cycle\<close>, with a statement of 12 due on day 130, paid that day.\<close>

definition pay_demo :: pay_state where
  "pay_demo = \<lparr>ps_db = cycle_demo_db\<lparr>transactions := [cycle_demo_txn],
     accounts := [\<lparr>a_id = 21, a_bank = ''hdfc'', a_label = [], a_type = ''credit_card'', a_account_number = None, a_active = Some True\<rparr>]\<rparr>,
     ps_snapshots = []\<rparr>"

lemma pay_demo_recompute:
  "\<exists>s'. recompute_cc_payment_state cycle_demo_pd 7 pay_demo (cycle_demo_upload 11 130 115) False = Some (12, s')"
proof -
  have "map_option fst (recompute_cc_payment_state cycle_demo_pd 7 pay_demo (cycle_demo_upload 11 130 115) False) = Some 12"
    by code_simp
  then show ?thesis by auto
qed

lemma pay_demo_facts:
  "keys_ok (ps_db pay_demo)" "cycle_demo_upload 11 130 115 \<in> set (uploads (ps_db pay_demo))"
  by code_simp+

theorem settled_payments_sum_to_paid_witness:
  "sum_list (map (\<lambda>x. the (parse_cc_amount (sp_amount x)))
     (settled_payments cycle_demo_pd 7 (ps_db pay_demo) (cycle_demo_upload 11 130 115))) = 12"
proof -
  have "\<forall>t \<in> set (transactions (ps_db pay_demo)). two_decimals (t_amount t)"
    by (simp add: pay_demo_def cycle_demo_txn_def two_decimals_def)
  then show ?thesis
    using settled_payments_sum_to_paid [OF _ pay_demo_facts(2)] pay_demo_recompute by blast
qed

theorem recompute_idempotent_witness:
  "\<exists>s' v. recompute_cc_payment_state cycle_demo_pd 7 pay_demo (cycle_demo_upload 11 130 115) False = Some (12, s') \<and>
     get_upload s' 11 = Some v \<and> recompute_cc_payment_state cycle_demo_pd 9 s' v False = Some (12, s')"
proof -
  have "u_created_at (cycle_demo_upload 11 130 115) \<noteq> None" "u_id (cycle_demo_upload 11 130 115) = 11" by code_simp+
  then show ?thesis
    using recompute_idempotent [OF pay_demo_facts, of cycle_demo_pd 7 False 12 _ 9] pay_demo_recompute by metis
qed

end
