(* ===== verification/Contest_Groups.thy ===== *)
theory Contest_Groups
  imports Prelude
begin

text \<open>
  The union-find inside \<open>_resolve_contested_by_counterparty\<close> of \<open>services/statements/cc.py\<close>:
  the array \<open>parent\<close>, \<open>find\<close> with path halving, \<open>union\<close>, the loop over the pairs of contested
  entries and the dictionary of groups. The loop of \<open>find\<close> carries fuel; \<open>uf_ok\<close> is the
  invariant (the parent links are acyclic) under which the length of the array is enough.
  \<open>entry_groups_components\<close> shows that the groups are the connected components of the
  overlap relation.
\<close>

section \<open>The code\<close>

fun uf_find :: "nat \<Rightarrow> nat list \<Rightarrow> nat \<Rightarrow> nat \<times> nat list" where
  "uf_find 0 parent x = (x, parent)"
| "uf_find (Suc fuel) parent x =
     (if parent ! x \<noteq> x then
        let parent = parent[x := parent ! (parent ! x)]
        in uf_find fuel parent (parent ! x)
      else (x, parent))"

text \<open>Python evaluates the right-hand side of \<open>parent[find(a)] = find(b)\<close> first.\<close>

definition uf_union :: "nat list \<Rightarrow> nat \<Rightarrow> nat \<Rightarrow> nat list" where
  "uf_union parent a b =
     (let (rb, parent) = uf_find (length parent) parent b;
          (ra, parent) = uf_find (length parent) parent a
      in parent[ra := rb])"

definition uf_link :: "(nat \<Rightarrow> nat \<Rightarrow> bool) \<Rightarrow> nat \<Rightarrow> nat list" where
  "uf_link overlap n = foldl (\<lambda>parent (i, j). if overlap i j then uf_union parent i j else parent)
     [0..<n] (concat (map (\<lambda>i. map (Pair i) [Suc i..<n]) [0..<n]))"

definition group_step :: "nat list \<times> (nat \<times> nat list) list \<Rightarrow> nat \<Rightarrow> nat list \<times> (nat \<times> nat list) list" where
  "group_step pg i = (let (r, parent) = uf_find (length (fst pg)) (fst pg) i
     in (parent, dict_append (snd pg) r i))"

definition entry_groups :: "(nat \<Rightarrow> nat \<Rightarrow> bool) \<Rightarrow> nat \<Rightarrow> nat list list" where
  "entry_groups overlap n = map snd (snd (foldl group_step (uf_link overlap n, []) [0..<n]))"

section \<open>The invariant\<close>

definition edges :: "nat list \<Rightarrow> (nat \<times> nat) set" where
  "edges p = {(p ! x, x) |x. x < length p \<and> p ! x \<noteq> x}"

definition uf_ok :: "nat list \<Rightarrow> bool" where
  "uf_ok p \<longleftrightarrow> (\<forall>x < length p. p ! x < length p) \<and> acyclic (edges p)"

text \<open>The relation an array stands for: the least equivalence holding the parent links.\<close>

definition linked :: "(nat \<times> nat) set \<Rightarrow> (nat \<times> nat) set" where
  "linked E = (E \<union> E\<inverse>)\<^sup>*"

definition uf_rel :: "nat list \<Rightarrow> (nat \<times> nat) set" where
  "uf_rel p = linked (edges p)"

definition above :: "nat list \<Rightarrow> nat \<Rightarrow> nat set" where
  "above p x = {y. (y, x) \<in> (edges p)\<^sup>+}"

lemma edges_sub: "uf_ok p \<Longrightarrow> edges p \<subseteq> {..<length p} \<times> {..<length p}"
  by (auto simp: edges_def uf_ok_def)

lemma above_sub: "uf_ok p \<Longrightarrow> above p x \<subseteq> {..<length p}"
proof
  fix y assume "uf_ok p" "y \<in> above p x"
  then have "(y, x) \<in> (edges p)\<^sup>+" by (simp add: above_def)
  then show "y \<in> {..<length p}"
    by (induction rule: trancl_induct) (use edges_sub [OF \<open>uf_ok p\<close>] in auto)
qed

lemma finite_above: "uf_ok p \<Longrightarrow> finite (above p x)"
  using above_sub finite_subset by blast

lemma not_above_self: "uf_ok p \<Longrightarrow> x \<notin> above p x"
  by (simp add: above_def uf_ok_def acyclic_def)

lemma card_above_less: "uf_ok p \<Longrightarrow> x < length p \<Longrightarrow> card (above p x) < length p"
  using psubset_card_mono [of "{..<length p}" "above p x"] above_sub [of p x] not_above_self [of p x]
  by (auto simp: psubset_eq)

lemma above_parent:
  assumes "uf_ok p" "x < length p" "p ! x \<noteq> x"
  shows "above p (p ! x) \<subset> above p x"
proof -
  have e: "(p ! x, x) \<in> edges p" using assms by (auto simp: edges_def)
  then have "above p (p ! x) \<subseteq> above p x" by (auto simp: above_def intro: trancl_into_trancl)
  moreover have "p ! x \<in> above p x" using e by (auto simp: above_def)
  ultimately show ?thesis using not_above_self [OF assms(1), of "p ! x"] by blast
qed

text \<open>Path halving: the new links are paths of the old array.\<close>

definition halve :: "nat list \<Rightarrow> nat \<Rightarrow> nat list" where
  "halve p x = p[x := p ! (p ! x)]"

lemma edges_halve:
  assumes "uf_ok p" "x < length p"
  shows "edges (halve p x) \<subseteq> (edges p)\<^sup>+"
proof
  fix e assume "e \<in> edges (halve p x)"
  then obtain y where y: "e = (halve p x ! y, y)" "y < length p" "halve p x ! y \<noteq> y"
    by (auto simp: edges_def halve_def)
  have px: "p ! x < length p" using assms by (simp add: uf_ok_def)
  show "e \<in> (edges p)\<^sup>+"
  proof (cases "y = x")
    case False
    then show ?thesis using y by (auto simp: edges_def halve_def)
  next
    case True
    then have v: "e = (p ! (p ! x), x)" "p ! (p ! x) \<noteq> x" using y assms by (simp_all add: halve_def)
    have "p ! x \<noteq> x" using v by auto
    then have a: "(p ! x, x) \<in> edges p" using assms by (auto simp: edges_def)
    show ?thesis
    proof (cases "p ! (p ! x) = p ! x")
      case True
      then show ?thesis using a v by auto
    next
      case False
      then have "(p ! (p ! x), p ! x) \<in> edges p" using px by (auto simp: edges_def)
      then show ?thesis using a v by (auto intro: trancl_into_trancl)
    qed
  qed
qed

lemma halve_ok:
  assumes "uf_ok p" "x < length p"
  shows "uf_ok (halve p x)"
proof -
  have "acyclic (edges (halve p x))"
    using assms(1) acyclic_subset [OF _ edges_halve [OF assms]] by (simp add: uf_ok_def acyclic_def)
  moreover have "\<forall>y < length p. halve p x ! y < length p"
    using assms by (simp add: uf_ok_def halve_def nth_list_update)
  ultimately show ?thesis by (simp add: uf_ok_def halve_def)
qed

lemma above_halve:
  assumes "uf_ok p" "x < length p"
  shows "above (halve p x) y \<subseteq> above p y"
  using trancl_mono [OF _ edges_halve [OF assms]] by (auto simp: above_def)

lemma length_halve [simp]: "length (halve p x) = length p"
  by (simp add: halve_def)

section \<open>Generated equivalences\<close>

lemma linked_refl [simp, intro]: "(x, x) \<in> linked E"
  by (simp add: linked_def)

lemma linked_sym: "(x, y) \<in> linked E \<Longrightarrow> (y, x) \<in> linked E"
  unfolding linked_def using sym_rtrancl [of "E \<union> E\<inverse>"] by (auto simp: sym_def)

lemma linked_trans [trans]: "(x, y) \<in> linked E \<Longrightarrow> (y, z) \<in> linked E \<Longrightarrow> (x, z) \<in> linked E"
  unfolding linked_def by (rule rtrancl_trans)

lemma linked_edge: "e \<in> E \<Longrightarrow> e \<in> linked E"
  by (auto simp: linked_def)

lemma linked_least:
  assumes "E \<subseteq> linked F" shows "linked E \<subseteq> linked F"
proof
  fix e assume "e \<in> linked E"
  then obtain x y where e: "e = (x, y)" "(x, y) \<in> (E \<union> E\<inverse>)\<^sup>*" by (cases e) (auto simp: linked_def)
  from e(2) have "(x, y) \<in> linked F"
  proof (induction rule: rtrancl_induct)
    case (step y z)
    then have "(y, z) \<in> linked F" using assms linked_sym [of z y F] by auto
    then show ?case using step.IH linked_trans by blast
  qed simp
  then show "e \<in> linked F" using e by simp
qed

lemma linked_mono: "E \<subseteq> F \<Longrightarrow> linked E \<subseteq> linked F"
  using linked_edge by (intro linked_least) auto

lemma linked_eqI: "E \<subseteq> linked F \<Longrightarrow> F \<subseteq> linked E \<Longrightarrow> linked E = linked F"
  using linked_least by blast

lemma trancl_linked: "E\<^sup>+ \<subseteq> linked E"
proof
  fix e assume "e \<in> E\<^sup>+"
  then have "e \<in> E\<^sup>*" by (cases e) (auto intro: trancl_into_rtrancl)
  then show "e \<in> linked E" unfolding linked_def using rtrancl_mono [of E "E \<union> E\<inverse>"] by auto
qed

lemma linked_insert_cong:
  assumes "linked E = linked F" "(a, c) \<in> linked F" "(b, d) \<in> linked F"
  shows "linked (insert (a, b) E) = linked (insert (c, d) F)"
proof (rule linked_eqI)
  have sub: "linked F \<subseteq> linked (insert (c, d) F)" "linked E \<subseteq> linked (insert (a, b) E)"
    by (rule linked_mono; blast)+
  have cd: "(c, d) \<in> linked (insert (c, d) F)" and ab: "(a, b) \<in> linked (insert (a, b) E)"
    by (simp_all add: linked_edge)
  have "(a, b) \<in> linked (insert (c, d) F)"
    using assms(2,3) sub(1) cd linked_trans linked_sym by (meson subsetD)
  then show "insert (a, b) E \<subseteq> linked (insert (c, d) F)"
    using sub(1) assms(1) linked_edge by blast
  have "(c, d) \<in> linked (insert (a, b) E)"
    using assms sub(2) ab linked_trans linked_sym by (metis subsetD)
  then show "insert (c, d) F \<subseteq> linked (insert (a, b) E)"
    using sub(2) assms(1) linked_edge by blast
qed

section \<open>Roots\<close>

text \<open>A node with a parent has one; a root has none; so linked roots are equal.\<close>

lemma edges_unique: "(y, x) \<in> edges p \<Longrightarrow> (z, x) \<in> edges p \<Longrightarrow> y = z"
  by (auto simp: edges_def)

lemma root_no_edge: "p ! r = r \<Longrightarrow> (y, r) \<notin> edges p"
  by (auto simp: edges_def)

lemma root_reach_step:
  assumes "p ! r = r" "(y, x) \<in> edges p"
  shows "(r, x) \<in> (edges p)\<^sup>* \<longleftrightarrow> (r, y) \<in> (edges p)\<^sup>*"
proof
  assume "(r, x) \<in> (edges p)\<^sup>*"
  then show "(r, y) \<in> (edges p)\<^sup>*"
  proof (cases rule: rtranclE)
    case base
    then show ?thesis using assms root_no_edge by blast
  next
    case (step z)
    then show ?thesis using assms(2) edges_unique by blast
  qed
qed (use assms in auto)

lemma root_reach:
  assumes "p ! r = r" "(x, y) \<in> uf_rel p"
  shows "(r, x) \<in> (edges p)\<^sup>* \<longleftrightarrow> (r, y) \<in> (edges p)\<^sup>*"
  using assms(2) unfolding uf_rel_def linked_def
  by (induction rule: rtrancl_induct) (use root_reach_step [OF assms(1)] in blast)+

lemma root_unique:
  assumes "p ! r = r" "p ! r' = r'" "(r, r') \<in> uf_rel p"
  shows "r = r'"
proof -
  have "(r, r') \<in> (edges p)\<^sup>*" using root_reach [OF assms(1,3)] by simp
  then show ?thesis by (cases rule: rtranclE) (use assms(2) root_no_edge in blast)+
qed

lemma uf_rel_halve:
  assumes "uf_ok p" "x < length p"
  shows "uf_rel (halve p x) = uf_rel p"
  unfolding uf_rel_def
proof (rule linked_eqI)
  show "edges (halve p x) \<subseteq> linked (edges p)"
    using edges_halve [OF assms] trancl_linked by blast
  show "edges p \<subseteq> linked (edges (halve p x))"
  proof
    fix e assume "e \<in> edges p"
    then obtain y where y: "e = (p ! y, y)" "y < length p" "p ! y \<noteq> y" by (auto simp: edges_def)
    show "e \<in> linked (edges (halve p x))"
    proof (cases "y = x")
      case False
      then show ?thesis using y by (intro linked_edge) (auto simp: edges_def halve_def)
    next
      case True
      have px: "p ! x < length p" using assms by (simp add: uf_ok_def)
      have "(p ! (p ! x), x) \<in> linked (edges (halve p x))"
        using assms(2) by (cases "p ! (p ! x) = x") (auto intro!: linked_edge simp: edges_def halve_def)
      moreover have "(p ! (p ! x), p ! x) \<in> linked (edges (halve p x))"
        using px True y by (cases "p ! (p ! x) = p ! x") (auto intro!: linked_edge simp: edges_def halve_def)
      ultimately show ?thesis using True y linked_trans linked_sym by blast
    qed
  qed
qed

section \<open>The operations\<close>

text \<open>\<open>find\<close> ends at a root and changes neither the relation nor the roots.\<close>

lemma uf_find_spec:
  assumes "uf_ok p" "x < length p" "card (above p x) < fuel" "uf_find fuel p x = (r, q)"
  shows "uf_ok q \<and> length q = length p \<and> uf_rel q = uf_rel p \<and> r < length p \<and> q ! r = r \<and>
    (r, x) \<in> uf_rel p \<and> (\<forall>y < length p. p ! y = y \<longrightarrow> q ! y = y)"
  using assms
proof (induction fuel arbitrary: p x)
  case (Suc fuel)
  show ?case
  proof (cases "p ! x = x")
    case True
    then show ?thesis using Suc.prems by (auto simp: uf_rel_def)
  next
    case False
    let ?q = "halve p x"
    have run: "uf_find fuel ?q (?q ! x) = (r, q)" using Suc.prems(4) False by (simp add: halve_def Let_def)
    have ok: "uf_ok ?q" and len: "x < length ?q" using halve_ok Suc.prems by simp_all
    have nx: "?q ! x < length ?q" using ok len by (simp add: uf_ok_def)
    have e: "(p ! x, x) \<in> edges p" using False Suc.prems by (auto simp: edges_def)
    have ne: "?q ! x \<noteq> x"
    proof
      assume "?q ! x = x"
      then have pp: "p ! (p ! x) = x" using Suc.prems by (simp add: halve_def)
      have "(x, p ! x) \<in> edges p"
        using Suc.prems False pp by (auto simp: edges_def uf_ok_def)
      then have "(x, x) \<in> (edges p)\<^sup>+" using e by (meson trancl.simps)
      then show False using Suc.prems(1) by (simp add: uf_ok_def acyclic_def)
    qed
    have "above ?q (?q ! x) \<subset> above p x"
      using above_parent [OF ok len ne] above_halve [OF Suc.prems(1,2), of x] by blast
    then have "card (above ?q (?q ! x)) < fuel"
      using psubset_card_mono [OF finite_above [OF Suc.prems(1)], of "above ?q (?q ! x)" x] Suc.prems(3) by simp
    from Suc.IH [OF ok nx this run] have ih: "uf_ok q \<and> length q = length p \<and> uf_rel q = uf_rel ?q \<and>
      r < length p \<and> q ! r = r \<and> (r, ?q ! x) \<in> uf_rel ?q \<and> (\<forall>y < length p. ?q ! y = y \<longrightarrow> q ! y = y)" by simp
    have "(?q ! x, x) \<in> uf_rel ?q" using ne len by (auto simp: uf_rel_def edges_def intro!: linked_edge)
    then have "(r, x) \<in> uf_rel ?q" using ih linked_trans by (auto simp: uf_rel_def)
    moreover have "?q ! y = y" if "y < length p" "p ! y = y" for y
      using that False by (cases "y = x") (auto simp: halve_def)
    ultimately show ?thesis using ih uf_rel_halve [OF Suc.prems(1,2)] by auto
  qed
qed simp

lemmas uf_find_total = uf_find_spec [OF _ _ card_above_less]

lemma edges_new_root:
  assumes "q ! ra = ra" "ra < length q" "ra \<noteq> rb"
  shows "edges (q[ra := rb]) = insert (rb, ra) (edges q)"
proof (rule set_eqI)
  fix e show "e \<in> edges (q[ra := rb]) \<longleftrightarrow> e \<in> insert (rb, ra) (edges q)"
    using assms by (cases e, cases "snd e = ra") (simp_all add: edges_def)
qed

lemma uf_union_spec:
  assumes "uf_ok p" "a < length p" "b < length p"
  shows "uf_ok (uf_union p a b) \<and> length (uf_union p a b) = length p \<and>
    uf_rel (uf_union p a b) = linked (insert (a, b) (edges p))"
proof -
  obtain rb p1 where f1: "uf_find (length p) p b = (rb, p1)" by fastforce
  obtain ra q where f2: "uf_find (length p1) p1 a = (ra, q)" by fastforce
  note s1 = uf_find_total [OF assms(1,3,1,3) f1]
  then have a1: "uf_ok p1" "a < length p1" using assms by simp_all
  note s2 = uf_find_total [OF a1 a1 f2]
  have u: "uf_union p a b = q[ra := rb]" by (simp add: uf_union_def f1 f2)
  have roots: "q ! ra = ra" "q ! rb = rb" "ra < length q" "rb < length q" "length q = length p"
    using s1 s2 by auto
  have rel: "uf_rel q = uf_rel p" "(ra, a) \<in> uf_rel p" "(rb, b) \<in> uf_rel p" using s1 s2 by auto
  show ?thesis
  proof (cases "ra = rb")
    case True
    then have "uf_union p a b = q" using u roots by (metis list_update_id)
    moreover have "(a, b) \<in> uf_rel p"
      using rel(2,3) True linked_sym linked_trans unfolding uf_rel_def by blast
    then have "linked (insert (a, b) (edges p)) = uf_rel p"
      using linked_edge unfolding uf_rel_def by (intro linked_eqI) auto
    ultimately show ?thesis using s2 s1 by auto
  next
    case False
    note ed = edges_new_root [OF roots(1,3) False]
    have "(ra, rb) \<notin> (edges q)\<^sup>*"
      using False roots(2) root_no_edge by (auto elim: rtranclE)
    then have "acyclic (insert (rb, ra) (edges q))" using s2 by (simp add: uf_ok_def acyclic_insert)
    then have ok: "uf_ok (q[ra := rb])" using s2 roots by (auto simp: uf_ok_def ed nth_list_update)
    have "linked (insert (rb, ra) (edges q)) = linked (insert (b, a) (edges p))"
      by (rule linked_insert_cong) (use rel in \<open>auto simp: uf_rel_def\<close>)
    also have "\<dots> = linked (insert (a, b) (edges p))"
    proof (rule linked_eqI)
      have "(b, a) \<in> linked (insert (a, b) (edges p))" "(a, b) \<in> linked (insert (b, a) (edges p))"
        by (rule linked_sym, simp add: linked_edge)+
      then show "insert (b, a) (edges p) \<subseteq> linked (insert (a, b) (edges p))"
        "insert (a, b) (edges p) \<subseteq> linked (insert (b, a) (edges p))"
        by (auto intro: linked_edge)
    qed
    finally show ?thesis using u ok ed roots by (simp add: uf_rel_def)
  qed
qed

section \<open>The groups\<close>

lemma uf_init: "uf_ok [0..<n]" "edges [0..<n] = {}"
proof -
  show e: "edges [0..<n] = {}" by (auto simp: edges_def)
  then show "uf_ok [0..<n]" by (simp add: uf_ok_def acyclic_def)
qed

definition overlap_pairs :: "(nat \<Rightarrow> nat \<Rightarrow> bool) \<Rightarrow> nat \<Rightarrow> (nat \<times> nat) set" where
  "overlap_pairs overlap n = {(i, j). i < j \<and> j < n \<and> overlap i j}"

lemma uf_link_loop:
  assumes "uf_ok p" "set ps \<subseteq> {..<length p} \<times> {..<length p}" "uf_rel p = linked S"
    and "q = foldl (\<lambda>parent (i, j). if overlap i j then uf_union parent i j else parent) p ps"
  shows "uf_ok q \<and> length q = length p \<and> uf_rel q = linked (S \<union> {(i, j). (i, j) \<in> set ps \<and> overlap i j})"
  using assms
proof (induction ps arbitrary: p S)
  case (Cons e ps)
  obtain i j where e: "e = (i, j)" by (cases e)
  show ?case
  proof (cases "overlap i j")
    case False
    then have "S \<union> {(i', j'). (i', j') \<in> set (e # ps) \<and> overlap i' j'} =
        S \<union> {(i', j'). (i', j') \<in> set ps \<and> overlap i' j'}" using e by auto
    then show ?thesis using Cons.IH [OF Cons.prems(1) _ Cons.prems(3)] Cons.prems(2,4) False e by simp
  next
    case True
    have ij: "i < length p" "j < length p" using Cons.prems(2) e by auto
    note u = uf_union_spec [OF Cons.prems(1) ij]
    have "linked (insert (i, j) (edges p)) = linked (insert (i, j) S)"
      by (rule linked_insert_cong) (use Cons.prems(3) in \<open>simp_all add: uf_rel_def\<close>)
    then have r: "uf_rel (uf_union p i j) = linked (insert (i, j) S)" using u by simp
    have "insert (i, j) S \<union> {(i', j'). (i', j') \<in> set ps \<and> overlap i' j'} =
        S \<union> {(i', j'). (i', j') \<in> set (e # ps) \<and> overlap i' j'}" using e True by auto
    then show ?thesis using Cons.IH [OF _ _ r] u Cons.prems(2,4) True e by simp
  qed
qed simp

lemma uf_link_spec:
  "uf_ok (uf_link overlap n) \<and> length (uf_link overlap n) = n \<and>
   uf_rel (uf_link overlap n) = linked (overlap_pairs overlap n)"
proof -
  let ?ps = "concat (map (\<lambda>i. map (Pair i) [Suc i..<n]) [0..<n])"
  have "(a, b) \<in> set ?ps \<longleftrightarrow> a < b \<and> b < n" for a b
    by (auto intro!: bexI [of _ a])
  then have "{(i, j). (i, j) \<in> set ?ps \<and> overlap i j} = overlap_pairs overlap n"
    by (auto simp: overlap_pairs_def simp del: set_concat set_map)
  moreover have "set ?ps \<subseteq> {..<n} \<times> {..<n}" by auto
  ultimately show ?thesis
    using uf_link_loop [OF uf_init(1) [of n], of ?ps "{}" "uf_link overlap n" overlap]
    by (simp add: uf_link_def uf_rel_def uf_init)
qed

text \<open>The dictionary of groups after the first \<open>k\<close> entries: a root for each key, and the members
  related to it.\<close>

definition groups_ok :: "(nat \<times> nat) set \<Rightarrow> nat \<Rightarrow> nat list \<times> (nat \<times> nat list) list \<Rightarrow> bool" where
  "groups_ok R k pg \<longleftrightarrow> uf_ok (fst pg) \<and> uf_rel (fst pg) = R \<and> distinct (map fst (snd pg)) \<and>
     (\<forall>(r, ms) \<in> set (snd pg). r < length (fst pg) \<and> fst pg ! r = r \<and> ms = filter (\<lambda>i. (r, i) \<in> R) [0..<k]) \<and>
     (\<forall>i < k. \<exists>(r, ms) \<in> set (snd pg). (r, i) \<in> R)"

lemma set_dict_put_new:
  "distinct (map fst d) \<Longrightarrow> set (dict_put d k v) = insert (k, v) {e \<in> set d. fst e \<noteq> k}"
proof (induction d k v rule: dict_put.induct)
  case (2 k' w d k v)
  have "{e \<in> set d. fst e \<noteq> k'} = set d" using 2(2) by force
  then show ?case using 2 by auto
qed simp

lemma group_step_ok:
  assumes "groups_ok R k pg" "k < length (fst pg)"
  shows "groups_ok R (Suc k) (group_step pg k) \<and> length (fst (group_step pg k)) = length (fst pg)"
proof -
  obtain p g where pg: "pg = (p, g)" by (cases pg)
  obtain r q where f: "uf_find (length p) p k = (r, q)" by fastforce
  have ok: "uf_ok p" "uf_rel p = R" "distinct (map fst g)"
    and mem: "\<And>r' ms. (r', ms) \<in> set g \<Longrightarrow> r' < length p \<and> p ! r' = r' \<and> ms = filter (\<lambda>i. (r', i) \<in> R) [0..<k]"
    and cov: "\<forall>i < k. \<exists>(r, ms) \<in> set g. (r, i) \<in> R"
    using assms(1) by (auto simp: groups_ok_def pg)
  have kp: "k < length p" using assms(2) pg by simp
  note s = uf_find_total [OF ok(1) kp ok(1) kp f]
  have step: "group_step pg k = (q, dict_put g r (dict_list g r @ [k]))"
    by (simp add: group_step_def pg f dict_append_def)
  have other: "(r', k) \<notin> R" if "(r', ms) \<in> set g" "r' \<noteq> r" for r' ms
  proof
    assume "(r', k) \<in> R"
    then have "(r', r) \<in> uf_rel q" using s ok linked_sym linked_trans unfolding uf_rel_def by metis
    then show False using root_unique [of q r' r] s mem [OF that(1)] that(2) by auto
  qed
  have own: "dict_list g r = filter (\<lambda>i. (r, i) \<in> R) [0..<k]"
  proof (cases "dict_get g r")
    case (Some ms)
    then show ?thesis using mem [OF dict_get_mem [OF Some]] by (simp add: dict_list_def)
  next
    case None
    have "(r, i) \<notin> R" if ik: "i < k" for i
    proof
      assume "(r, i) \<in> R"
      obtain r' ms where r': "(r', ms) \<in> set g" "(r', i) \<in> R" using cov ik by force
      then have "(r', k) \<in> R"
        using \<open>(r, i) \<in> R\<close> s ok linked_sym linked_trans unfolding uf_rel_def by metis
      then have "r' = r" using other r'(1) by blast
      then show False using r'(1) None by (force simp: dict_get_None_iff)
    qed
    then show ?thesis using None by (simp add: dict_list_def filter_empty_conv)
  qed
  have rk: "(r, k) \<in> R" using s ok by simp
  have "\<forall>(r', ms) \<in> set (dict_put g r (dict_list g r @ [k])).
      r' < length q \<and> q ! r' = r' \<and> ms = filter (\<lambda>i. (r', i) \<in> R) [0..<Suc k]"
    using mem other own rk s by (auto simp: set_dict_put_new [OF ok(3)])
  moreover have "\<forall>i < Suc k. \<exists>(r', ms) \<in> set (dict_put g r (dict_list g r @ [k])). (r', i) \<in> R"
    using cov rk by (fastforce simp: set_dict_put_new [OF ok(3)] less_Suc_eq)
  ultimately show ?thesis
    using s ok unfolding groups_ok_def step unfolding pg by simp
qed

lemma groups_loop:
  assumes "groups_ok R 0 pg" "k \<le> length (fst pg)"
  shows "groups_ok R k (foldl group_step pg [0..<k]) \<and>
    length (fst (foldl group_step pg [0..<k])) = length (fst pg)"
  using assms(2)
proof (induction k)
  case (Suc k)
  then show ?case using group_step_ok [of R k "foldl group_step pg [0..<k]"] by simp
qed (use assms(1) in simp)

text \<open>Each group is a class of the overlap relation in ascending order, the classes are disjoint,
  and every entry has one.\<close>

lemma entry_groups_class:
  assumes "g \<in> set (entry_groups overlap n)" "i \<in> set g"
  shows "i < n \<and> g = filter (\<lambda>j. (i, j) \<in> linked (overlap_pairs overlap n)) [0..<n]"
proof -
  let ?R = "linked (overlap_pairs overlap n)"
  let ?st = "foldl group_step (uf_link overlap n, []) [0..<n]"
  have "groups_ok ?R 0 (uf_link overlap n, [])" using uf_link_spec by (simp add: groups_ok_def)
  from groups_loop [OF this, of n] have inv: "groups_ok ?R n ?st" using uf_link_spec by simp
  obtain r where "(r, g) \<in> set (snd ?st)" using assms(1) by (auto simp: entry_groups_def)
  then have g: "g = filter (\<lambda>j. (r, j) \<in> ?R) [0..<n]" using inv by (auto simp: groups_ok_def)
  then have i: "i < n" "(r, i) \<in> ?R" using assms(2) by auto
  have "(r, j) \<in> ?R \<longleftrightarrow> (i, j) \<in> ?R" for j using i linked_sym linked_trans by metis
  then show ?thesis using g i by simp
qed

lemma entry_groups_cover: "i < n \<Longrightarrow> \<exists>g \<in> set (entry_groups overlap n). i \<in> set g"
proof -
  let ?R = "linked (overlap_pairs overlap n)"
  let ?st = "foldl group_step (uf_link overlap n, []) [0..<n]"
  assume i: "i < n"
  have "groups_ok ?R 0 (uf_link overlap n, [])" using uf_link_spec by (simp add: groups_ok_def)
  from groups_loop [OF this, of n] have inv: "groups_ok ?R n ?st" using uf_link_spec by simp
  then obtain r ms where "(r, ms) \<in> set (snd ?st)" "(r, i) \<in> ?R" using i by (auto simp: groups_ok_def)
  moreover from this have "ms = filter (\<lambda>j. (r, j) \<in> ?R) [0..<n]" using inv by (auto simp: groups_ok_def)
  ultimately show ?thesis using i by (auto simp: entry_groups_def intro!: bexI [of _ "(r, ms)"])
qed

lemma distinct_concat_groups:
  assumes "distinct (map fst g)" "\<forall>(r, ms) \<in> set g. distinct ms"
    and "\<And>r ms r' ms' i. (r, ms) \<in> set g \<Longrightarrow> (r', ms') \<in> set g \<Longrightarrow> i \<in> set ms \<Longrightarrow> i \<in> set ms' \<Longrightarrow> r = r'"
  shows "distinct (concat (map snd g))"
  using assms
proof (induction g)
  case (Cons e g)
  obtain r ms where e: "e = (r, ms)" by (cases e)
  have "distinct (concat (map snd g))"
    by (rule Cons.IH) (use Cons.prems in \<open>auto intro: Cons.prems(3)\<close>)
  moreover have "set ms \<inter> set (concat (map snd g)) = {}"
  proof (rule ccontr)
    assume "\<not> ?thesis"
    then obtain i r' ms' where i: "i \<in> set ms" "(r', ms') \<in> set g" "i \<in> set ms'" by auto
    then have "r = r'" using Cons.prems(3) [of r ms r' ms' i] e by simp
    then show False using Cons.prems(1) i(2) e by force
  qed
  ultimately show ?case using Cons.prems(2) e by simp
qed simp

lemma distinct_entry_groups: "distinct (concat (entry_groups overlap n))"
proof -
  let ?R = "linked (overlap_pairs overlap n)"
  let ?st = "foldl group_step (uf_link overlap n, []) [0..<n]"
  have "groups_ok ?R 0 (uf_link overlap n, [])" using uf_link_spec by (simp add: groups_ok_def)
  from groups_loop [OF this, of n] have inv: "groups_ok ?R n ?st" using uf_link_spec by simp
  then have k: "distinct (map fst (snd ?st))" and R: "uf_rel (fst ?st) = ?R"
    and m: "\<And>r ms. (r, ms) \<in> set (snd ?st) \<Longrightarrow> fst ?st ! r = r \<and> ms = filter (\<lambda>i. (r, i) \<in> ?R) [0..<n]"
    by (auto simp: groups_ok_def)
  show ?thesis
    unfolding entry_groups_def
  proof (rule distinct_concat_groups [OF k])
    have "distinct ms" if "(r, ms) \<in> set (snd ?st)" for r ms using m [OF that] by (metis distinct_filter distinct_upt)
    then show "\<forall>(r, ms) \<in> set (snd ?st). distinct ms" by blast
    fix r ms r' ms' i
    assume e: "(r, ms) \<in> set (snd ?st)" "(r', ms') \<in> set (snd ?st)" and i: "i \<in> set ms" "i \<in> set ms'"
    have "(r, i) \<in> ?R" "(r', i) \<in> ?R" using m [OF e(1)] m [OF e(2)] i by auto
    then have "(r, r') \<in> uf_rel (fst ?st)" unfolding R using linked_sym linked_trans by blast
    then show "r = r'" using root_unique m [OF e(1)] m [OF e(2)] by blast
  qed
qed

text \<open>C34. The contested entries are grouped exactly by their chains of overlapping windows: two
  entries share a group of the union-find if and only if a path of pairwise overlapping entries
  connects them; every entry is in a group.\<close>

theorem entry_groups_components:
  assumes "i < n" "j < n"
  shows "(\<exists>g \<in> set (entry_groups overlap n). i \<in> set g \<and> j \<in> set g) \<longleftrightarrow>
    (i, j) \<in> {(a, b). a < n \<and> b < n \<and> (overlap (min a b) (max a b) \<and> a \<noteq> b)}\<^sup>*"
proof -
  let ?E = "{(a, b). a < n \<and> b < n \<and> (overlap (min a b) (max a b) \<and> a \<noteq> b)}"
  have "?E = overlap_pairs overlap n \<union> (overlap_pairs overlap n)\<inverse>"
    by (auto simp: overlap_pairs_def min_def max_def split: if_splits)
  then have e: "?E\<^sup>* = linked (overlap_pairs overlap n)" by (simp add: linked_def)
  obtain g where g: "g \<in> set (entry_groups overlap n)" "i \<in> set g"
    using entry_groups_cover [OF assms(1)] by blast
  have mem: "j \<in> set h \<longleftrightarrow> (i, j) \<in> ?E\<^sup>*" if "h \<in> set (entry_groups overlap n)" "i \<in> set h" for h
  proof -
    have "h = filter (\<lambda>j. (i, j) \<in> ?E\<^sup>*) [0..<n]" using entry_groups_class [OF that] by (simp add: e)
    then have "set h = set (filter (\<lambda>j. (i, j) \<in> ?E\<^sup>*) [0..<n])" by (rule arg_cong)
    then show ?thesis using assms(2) unfolding set_filter set_upt by simp
  qed
  then show ?thesis using g by blast
qed

theorem entry_groups_components_witness:
  "(\<exists>g \<in> set (entry_groups (\<lambda>a b. b = a + 2) 3). (0::nat) \<in> set g \<and> 2 \<in> set g) \<longleftrightarrow>
    (0, 2) \<in> {(a, b). a < (3::nat) \<and> b < 3 \<and> (max a b = min a b + 2 \<and> a \<noteq> b)}\<^sup>*"
  using entry_groups_components [of 0 3 2 "\<lambda>a b. b = a + 2"] by simp

end
