(* ===== verification/Cc_Recon.thy ===== *)
theory Cc_Recon
  imports Cc_Payments Contest_Groups
begin

text \<open>
  The pairing half of \<open>services/statements/cc.py\<close> with \<open>services/statements/contention.py\<close>:
  \<open>reconcile_statement\<close> pairs the rows of a parsed statement with the stored rows of the
  account. A greedy pass picks, for each statement row, a stored row of equal amount and
  direction within a day; contested winners are then demoted, unless the narrations single out a
  pairing (\<open>resolve_contested\<close>, over the groups a union-find computes). A parsed statement
  comes from a third-party package and is the record \<open>cc_parsed\<close> of what the code reads of it.
  An entry, a dictionary that the code changes in place, is a record that is replaced; the key
  \<open>stmt_idx\<close> identifies it. The passed-through display totals of the result are left out.
\<close>

section \<open>Parsed statements\<close>

record cc_row =
  r_card_number :: "string option"
  r_date :: string
  r_amount :: string
  r_narration :: string
  r_person :: "string option"
  r_credit_reasons :: "string option"

record adjustment_pair =
  ap_confidence :: string
  ap_debit :: "cc_row option"
  ap_credit :: "cc_row option"

record cc_parsed =
  p_bank :: string
  p_card_number :: "string option"
  p_due_date :: "string option"
  p_total_amount_due :: "string option"
  p_transactions :: "cc_row list"
  p_payments_refunds :: "cc_row list"
  p_adjustment_pairs :: "adjustment_pair list"

section \<open>Cards\<close>

definition cc_card_compatible :: "string option \<Rightarrow> string list \<Rightarrow> bool" where
  "cc_card_compatible db_card_mask account_card_masks =
     (let db_mask = normalize_mask db_card_mask in
      if db_mask = [] \<or> account_card_masks = [] then True
      else list_ex (mask_matches db_mask) account_card_masks)"

fun pairwise_matching :: "string list \<Rightarrow> bool" where
  "pairwise_matching [] = True"
| "pairwise_matching (m # ms) = (list_all (mask_matches m) ms \<and> pairwise_matching ms)"

definition identifies_one_card :: "string \<Rightarrow> string list \<Rightarrow> bool" where
  "identifies_one_card m account_card_masks =
     (let matched = filter (mask_matches m) account_card_masks in
      if matched = [] then False else pairwise_matching matched)"

definition confirmed_same_card :: "string option \<Rightarrow> string option \<Rightarrow> string list \<Rightarrow> bool" where
  "confirmed_same_card stmt_card db_card_mask account_card_masks =
     (let stmt_mask = normalize_mask stmt_card; db_mask = normalize_mask db_card_mask in
      mask_matches stmt_mask db_mask \<and> identifies_one_card stmt_mask account_card_masks \<and>
      identifies_one_card db_mask account_card_masks)"

definition confirmed_different_card :: "string option \<Rightarrow> string option \<Rightarrow> bool" where
  "confirmed_different_card stmt_card db_card_mask =
     (let stmt_mask = normalize_mask stmt_card; db_mask = normalize_mask db_card_mask in
      stmt_mask \<noteq> [] \<and> db_mask \<noteq> [] \<and> \<not> mask_matches stmt_mask db_mask)"

definition refresh_identity :: "cc_row \<Rightarrow> string" where
  "refresh_identity r = strip (r_narration r)"

section \<open>Internal transfers\<close>

definition INTERNAL_TRANSFER_CREDIT_REASONS :: "string list" where
  "INTERNAL_TRANSFER_CREDIT_REASONS = [''emi_installment_transfer'']"

type_synonym twin_key = "string option \<times> string \<times> string \<times> string"

definition ledger_twin_key :: "cc_row \<Rightarrow> twin_key" where
  "ledger_twin_key r = (r_card_number r, r_date r, r_amount r, upper (r_narration r))"

text \<open>A \<open>Counter\<close> is a multiset.\<close>

definition internal_transfer_debit_twins :: "cc_row list \<Rightarrow> twin_key multiset" where
  "internal_transfer_debit_twins debits = mset (map ledger_twin_key debits)"

definition claim_internal_transfer_twin :: "cc_row \<Rightarrow> twin_key multiset \<Rightarrow> bool \<times> twin_key multiset" where
  "claim_internal_transfer_twin r twins =
     (if \<not> (case r_credit_reasons r of None \<Rightarrow> False | Some x \<Rightarrow> x \<in> set INTERNAL_TRANSFER_CREDIT_REASONS)
      then (False, twins)
      else if ledger_twin_key r \<in># twins then (True, twins - {#ledger_twin_key r#})
      else (False, twins))"

fun unclaimed_credits :: "twin_key multiset \<Rightarrow> cc_row list \<Rightarrow> cc_row list" where
  "unclaimed_credits twins [] = []"
| "unclaimed_credits twins (r # rs) = (let (claimed, twins) = claim_internal_transfer_twin r twins in
     if claimed then unclaimed_credits twins rs else r # unclaimed_credits twins rs)"

text \<open>The statement rows with the list they come from and their direction.\<close>

type_synonym stmt_txn = "string \<times> string \<times> cc_row"

definition stmt_txns :: "cc_parsed \<Rightarrow> stmt_txn list" where
  "stmt_txns parsed = map (\<lambda>r. (''transactions'', ''debit'', r)) (p_transactions parsed) @
     map (\<lambda>r. (''payments_refunds'', ''credit'', r))
       (unclaimed_credits (internal_transfer_debit_twins (p_transactions parsed)) (p_payments_refunds parsed))"

section \<open>Naming\<close>

text \<open>On Latin-1 text the composition of \<open>unicodedata\<close> is the identity, there is no combining mark
  and no join control, and the underscore is the only connector.\<close>

definition normalize_narration :: "string option \<Rightarrow> string" where
  "normalize_narration t = (if \<not> truthy t then [] else casefold (join_sp (split_ws (or_empty t))))"

definition is_word_char :: "char \<Rightarrow> bool" where
  "is_word_char c \<longleftrightarrow> is_alnum c \<or> c = CHR ''_''"

text \<open>\<open>haystack.find(needle, start)\<close>.\<close>

definition find_from :: "string \<Rightarrow> string \<Rightarrow> nat \<Rightarrow> nat option" where
  "find_from haystack needle start =
     List.find (\<lambda>i. prefix needle (drop i haystack)) [start..<Suc (length haystack)]"

definition bounded_at :: "string \<Rightarrow> string \<Rightarrow> nat \<Rightarrow> bool" where
  "bounded_at haystack needle i \<longleftrightarrow> (i = 0 \<or> \<not> is_word_char (haystack ! (i - 1))) \<and>
     (i + length needle \<ge> length haystack \<or> \<not> is_word_char (haystack ! (i + length needle)))"

lemma find_from_Some: "find_from h n s = Some i \<Longrightarrow> s \<le> i \<and> i \<le> length h \<and> prefix n (drop i h)"
  unfolding find_from_def by (drule find_Some_D) auto

function whole_token_from :: "string \<Rightarrow> string \<Rightarrow> nat \<Rightarrow> bool" where
  "whole_token_from haystack needle start = (case find_from haystack needle start of
       None \<Rightarrow> False
     | Some i \<Rightarrow> if bounded_at haystack needle i then True else whole_token_from haystack needle (Suc i))"
  by pat_completeness auto
termination
  by (relation "measure (\<lambda>(h, n, s). Suc (length h) - s)") (auto dest: find_from_Some)

declare whole_token_from.simps [simp del]

definition contains_whole_token :: "string \<Rightarrow> string \<Rightarrow> bool" where
  "contains_whole_token haystack needle = (if needle = [] then False else whole_token_from haystack needle 0)"

definition counterparty_singles_out :: "string option \<Rightarrow> transaction \<Rightarrow> bool" where
  "counterparty_singles_out row_narration t =
     (let narration = normalize_narration row_narration in
      if narration = [] then False
      else let counterparty = normalize_narration (t_counterparty t) in
        if counterparty \<noteq> [] \<and> contains_whole_token narration counterparty then True
        else let db_narration = normalize_narration (t_raw_description t)
          in db_narration \<noteq> [] \<and> db_narration = narration)"

definition row_names_candidate :: "cc_row \<Rightarrow> transaction \<Rightarrow> bool" where
  "row_names_candidate r t = (if confirmed_different_card (r_card_number r) (t_card_mask t) then False
     else counterparty_singles_out (Some (r_narration r)) t)"

section \<open>Entries and evidence\<close>

definition CANDIDATE_EVIDENCE_LIMIT :: nat where
  "CANDIDATE_EVIDENCE_LIMIT = 20"

record evidence =
  ev_ids :: "nat list"
  ev_count :: nat
  ev_truncated :: bool
  ev_reason :: string
  ev_gates :: "string list"

definition candidate_evidence :: "nat set \<Rightarrow> string \<Rightarrow> string list \<Rightarrow> evidence" where
  "candidate_evidence candidates reason gates = (let ordered = sorted_list_of_set candidates in
     \<lparr>ev_ids = take CANDIDATE_EVIDENCE_LIMIT ordered, ev_count = length ordered,
      ev_truncated = CANDIDATE_EVIDENCE_LIMIT < length ordered, ev_reason = reason, ev_gates = gates\<rparr>)"

definition contended_miss :: "nat set \<Rightarrow> bool" where
  "contended_miss candidates \<longleftrightarrow> candidates \<noteq> {}"

definition CC_RECONCILIATION_GATES :: "string list" where
  "CC_RECONCILIATION_GATES = [''account_scope'', ''direction_amount'', ''date_window_plus_minus_one_day'',
     ''registered_card_compatibility'', ''unique_unconsumed_candidate'', ''contention'']"

text \<open>The keys all entries have; the two kinds add theirs. A tag that is absent from a
  dictionary reads as \<open>False\<close>, like \<open>entry.get(tag)\<close>.\<close>

record recon_entry =
  e_stmt_idx :: nat
  e_stmt_list :: string
  e_date :: string
  e_amount :: string
  e_direction :: string
  e_narration :: string
  e_card_number :: "string option"
  e_person :: "string option"
  e_evidence :: evidence

record matched_entry = recon_entry +
  me_db_txn_id :: nat
  me_db_counterparty :: "string option"
  me_db_reference :: "string option"
  me_db_date :: string
  me_enriched :: bool

record missing_entry = recon_entry +
  mi_ambiguous :: bool
  mi_imported :: bool
  mi_imported_txn_id :: "nat option"
  mi_duplicate :: bool
  mi_import_failed :: bool
  mi_import_error :: "string option"

definition db_date_text :: "transaction \<Rightarrow> string" where
  "db_date_text t = (case t_transaction_date t of None \<Rightarrow> ''None'' | Some d \<Rightarrow> date_text d)"

definition matched_of :: "nat \<Rightarrow> stmt_txn \<Rightarrow> transaction \<Rightarrow> evidence \<Rightarrow> matched_entry" where
  "matched_of i st t ev = (case st of (stmt_list, direction, r) \<Rightarrow>
     \<lparr>e_stmt_idx = i, e_stmt_list = stmt_list, e_date = r_date r, e_amount = r_amount r,
      e_direction = direction, e_narration = r_narration r, e_card_number = r_card_number r,
      e_person = r_person r, e_evidence = ev, me_db_txn_id = t_id t,
      me_db_counterparty = t_counterparty t, me_db_reference = t_reference_number t,
      me_db_date = db_date_text t, me_enriched = False\<rparr>)"

definition missing_of :: "nat \<Rightarrow> stmt_txn \<Rightarrow> bool \<Rightarrow> evidence \<Rightarrow> missing_entry" where
  "missing_of i st ambiguous ev = (case st of (stmt_list, direction, r) \<Rightarrow>
     \<lparr>e_stmt_idx = i, e_stmt_list = stmt_list, e_date = r_date r, e_amount = r_amount r,
      e_direction = direction, e_narration = r_narration r, e_card_number = r_card_number r,
      e_person = r_person r, e_evidence = ev, mi_ambiguous = ambiguous, mi_imported = False,
      mi_imported_txn_id = None, mi_duplicate = False, mi_import_failed = False, mi_import_error = None\<rparr>)"

section \<open>The pool of stored rows\<close>

type_synonym match_key = "date \<times> rat \<times> string"
type_synonym db_pool = "(match_key \<times> transaction list) list"

definition build_pool :: "transaction list \<Rightarrow> db_pool" where
  "build_pool ts = foldl (\<lambda>pool t. case t_transaction_date t of None \<Rightarrow> pool
     | Some d \<Rightarrow> dict_append pool (d, t_amount t, t_direction t) t) [] ts"

definition WINDOW :: "int list" where
  "WINDOW = [0, -1, 1]"

definition reachable :: "db_pool \<Rightarrow> rat \<Rightarrow> string \<Rightarrow> date \<Rightarrow> nat set" where
  "reachable snapshot amount direction txn_date = (\<Union>offset \<in> set WINDOW.
     t_id ` set (dict_list snapshot (txn_date + offset, amount, direction)))"

definition row_identity :: "date_parser \<Rightarrow> stmt_txn \<Rightarrow> (date \<times> rat) option" where
  "row_identity pd st = (case parse_cc_amount (r_amount (snd (snd st))) of None \<Rightarrow> None
     | Some a \<Rightarrow> (case parse_cc_date pd (r_date (snd (snd st))) of None \<Rightarrow> None | Some d \<Rightarrow> Some (d, a)))"

type_synonym candidate_sets = "(nat \<times> nat set) list"

definition candidate_sets :: "date_parser \<Rightarrow> db_pool \<Rightarrow> stmt_txn list \<Rightarrow> candidate_sets" where
  "candidate_sets pd snapshot sts = concat (map (\<lambda>(i, st). case row_identity pd st of None \<Rightarrow> []
     | Some (d, a) \<Rightarrow> [(i, reachable snapshot a (fst (snd st)) d)]) (enumerate 0 sts))"

definition candidates_of :: "candidate_sets \<Rightarrow> nat \<Rightarrow> nat set" where
  "candidates_of cs i = (case dict_get cs i of None \<Rightarrow> {} | Some c \<Rightarrow> c)"

section \<open>The greedy pass\<close>

fun take_first :: "('a \<Rightarrow> bool) \<Rightarrow> 'a list \<Rightarrow> ('a \<times> 'a list) option" where
  "take_first P [] = None"
| "take_first P (x # xs) = (if P x then Some (x, xs) else map_option (\<lambda>(y, ys). (y, x # ys)) (take_first P xs))"

definition dict_del :: "('k \<times> 'v) list \<Rightarrow> 'k \<Rightarrow> ('k \<times> 'v) list" where
  "dict_del d k = filter (\<lambda>e. fst e \<noteq> k) d"

fun pick_in_window :: "string list \<Rightarrow> db_pool \<Rightarrow> rat \<Rightarrow> string \<Rightarrow> date \<Rightarrow> int list \<Rightarrow>
    (int \<times> transaction \<times> db_pool) option" where
  "pick_in_window masks pool amount direction txn_date [] = None"
| "pick_in_window masks pool amount direction txn_date (offset # os) =
     (let k = (txn_date + offset, amount, direction) in
      case take_first (\<lambda>t. cc_card_compatible (t_card_mask t) masks) (dict_list pool k) of
        Some (t, rest) \<Rightarrow> Some (offset, t, if rest = [] then dict_del pool k else dict_put pool k rest)
      | None \<Rightarrow> pick_in_window masks pool amount direction txn_date os)"

record greedy_state =
  gs_pool :: db_pool
  gs_matched :: "matched_entry list"
  gs_missing :: "missing_entry list"

definition greedy_step ::
  "date_parser \<Rightarrow> string list \<Rightarrow> candidate_sets \<Rightarrow> greedy_state \<Rightarrow> nat \<times> stmt_txn \<Rightarrow> greedy_state" where
  "greedy_step pd masks cs s ist = (case ist of (i, st) \<Rightarrow>
     (case row_identity pd st of
        None \<Rightarrow> s\<lparr>gs_missing := gs_missing s @ [missing_of i st False
          (candidate_evidence {} ''unparseable_statement_identity'' [''parse_amount'', ''parse_date''])]\<rparr>
      | Some (txn_date, amount) \<Rightarrow>
          (case pick_in_window masks (gs_pool s) amount (fst (snd st)) txn_date WINDOW of
             Some (offset, t, pool) \<Rightarrow> s\<lparr>gs_pool := pool, gs_matched := gs_matched s @ [matched_of i st t
               (candidate_evidence (candidates_of cs i)
                 (if offset = 0 then ''matched_exact_date'' else ''matched_date_offset'') CC_RECONCILIATION_GATES)]\<rparr>
           | None \<Rightarrow> s\<lparr>gs_missing := gs_missing s @ [missing_of i st (contended_miss (candidates_of cs i))
               (candidate_evidence (candidates_of cs i)
                 (if candidates_of cs i \<noteq> {} then ''candidate_refused_or_consumed'' else ''no_candidate'')
                 CC_RECONCILIATION_GATES)]\<rparr>)))"

definition greedy_pass :: "date_parser \<Rightarrow> string list \<Rightarrow> transaction list \<Rightarrow> stmt_txn list \<Rightarrow> greedy_state" where
  "greedy_pass pd masks ts sts = foldl (greedy_step pd masks (candidate_sets pd (build_pool ts) sts))
     \<lparr>gs_pool = build_pool ts, gs_matched = [], gs_missing = []\<rparr> (enumerate 0 sts)"

section \<open>Contention\<close>

text \<open>\<open>txn_by_idx\<close> and \<open>db_by_id\<close>.\<close>

definition row_at :: "stmt_txn list \<Rightarrow> nat \<Rightarrow> cc_row" where
  "row_at sts i = snd (snd (sts ! i))"

definition by_id :: "transaction list \<Rightarrow> nat \<Rightarrow> transaction" where
  "by_id ts i = the (List.find (\<lambda>t. t_id t = i) ts)"

definition rivals :: "candidate_sets \<Rightarrow> matched_entry \<Rightarrow> nat list" where
  "rivals cs e = map fst (filter (\<lambda>(i, c). i \<noteq> e_stmt_idx e \<and> me_db_txn_id e \<in> c) cs)"

text \<open>The rivals left after those on another card are pruned.\<close>

definition real_rivals ::
  "string list \<Rightarrow> transaction list \<Rightarrow> stmt_txn list \<Rightarrow> candidate_sets \<Rightarrow> matched_entry \<Rightarrow> nat list" where
  "real_rivals masks ts sts cs e = (let rs = rivals cs e; won_mask = t_card_mask (by_id ts (me_db_txn_id e)) in
     if rs = [] then []
     else if confirmed_same_card (e_card_number e) won_mask masks
     then filter (\<lambda>i. \<not> confirmed_different_card (r_card_number (row_at sts i)) won_mask) rs
     else rs)"

definition is_contested ::
  "string list \<Rightarrow> transaction list \<Rightarrow> stmt_txn list \<Rightarrow> candidate_sets \<Rightarrow> matched_entry \<Rightarrow> bool" where
  "is_contested masks ts sts cs e = (let rs = real_rivals masks ts sts cs e in
     if rs = [] then False
     else 1 < card (set (map (refresh_identity \<circ> row_at sts) (e_stmt_idx e # rs))))"

section \<open>Resolution by counterparty\<close>

definition named_by ::
  "transaction list \<Rightarrow> stmt_txn list \<Rightarrow> candidate_sets \<Rightarrow> nat \<Rightarrow> nat list" where
  "named_by ts sts cs i = filter (\<lambda>c. row_names_candidate (row_at sts i) (by_id ts c))
     (sorted_list_of_set (candidates_of cs i))"

text \<open>The pairs the row side proposes; \<open>None\<close> when a winner does not name exactly one won
  candidate.\<close>

definition assignment_of ::
  "transaction list \<Rightarrow> stmt_txn list \<Rightarrow> candidate_sets \<Rightarrow> matched_entry list \<Rightarrow> (nat \<times> nat) list option" where
  "assignment_of ts sts cs entries = those (map (\<lambda>e. case named_by ts sts cs (e_stmt_idx e) of
       [c] \<Rightarrow> if c \<in> me_db_txn_id ` set entries then Some (e_stmt_idx e, c) else None
     | _ \<Rightarrow> None) entries)"

definition spoiled :: "transaction list \<Rightarrow> stmt_txn list \<Rightarrow> candidate_sets \<Rightarrow> nat set \<Rightarrow> bool" where
  "spoiled ts sts cs won = (let contesting_rows = filter (\<lambda>(i, c). c \<inter> won \<noteq> {}) cs in
     \<exists>cid \<in> won. length (filter (\<lambda>(i, c). cid \<in> c \<and> row_names_candidate (row_at sts i) (by_id ts cid))
       contesting_rows) \<noteq> 1)"

definition resolve_group ::
  "transaction list \<Rightarrow> stmt_txn list \<Rightarrow> candidate_sets \<Rightarrow> matched_entry list \<Rightarrow> (nat \<times> nat) list" where
  "resolve_group ts sts cs entries = (let won = me_db_txn_id ` set entries in
     if length entries < 2 then []
     else case assignment_of ts sts cs entries of
       None \<Rightarrow> []
     | Some as \<Rightarrow> if snd ` set as \<noteq> won then [] else if spoiled ts sts cs won then [] else as)"

text \<open>The pairs of all resolved groups.\<close>

definition resolve_contested ::
  "transaction list \<Rightarrow> stmt_txn list \<Rightarrow> candidate_sets \<Rightarrow> matched_entry list \<Rightarrow> (nat \<times> nat) list" where
  "resolve_contested ts sts cs contested =
     (if length contested < 2 then []
      else concat (map (\<lambda>members. resolve_group ts sts cs (map (nth contested) members))
        (entry_groups (\<lambda>i j. candidates_of cs (e_stmt_idx (contested ! i)) \<inter>
            candidates_of cs (e_stmt_idx (contested ! j)) \<noteq> {}) (length contested))))"

definition reassign :: "date_parser \<Rightarrow> transaction list \<Rightarrow> stmt_txn list \<Rightarrow> nat \<Rightarrow> matched_entry \<Rightarrow> matched_entry" where
  "reassign pd ts sts cid e = (let t = by_id ts cid in
     e\<lparr>me_db_txn_id := t_id t, me_db_counterparty := t_counterparty t,
       me_db_reference := t_reference_number t, me_db_date := db_date_text t,
       e_evidence := (e_evidence e)\<lparr>ev_reason :=
         (if t_transaction_date t = parse_cc_date pd (r_date (row_at sts (e_stmt_idx e)))
          then ''matched_exact_date'' else ''matched_date_offset'')\<rparr>\<rparr>)"

section \<open>Reconciliation\<close>

record recon =
  rc_matched :: "matched_entry list"
  rc_missing :: "missing_entry list"
  rc_adjustments_debit_total :: string
  rc_adjustments_credit_total :: string

definition demote :: "candidate_sets \<Rightarrow> matched_entry \<Rightarrow> missing_entry" where
  "demote cs e = \<lparr>e_stmt_idx = e_stmt_idx e, e_stmt_list = e_stmt_list e, e_date = e_date e,
     e_amount = e_amount e, e_direction = e_direction e, e_narration = e_narration e,
     e_card_number = e_card_number e, e_person = e_person e,
     e_evidence = candidate_evidence (candidates_of cs (e_stmt_idx e)) ''contested_match_demoted'' CC_RECONCILIATION_GATES,
     mi_ambiguous = True, mi_imported = False, mi_imported_txn_id = None, mi_duplicate = False, mi_import_failed = False,
     mi_import_error = None\<rparr>"

definition reconcile_rows ::
  "date_parser \<Rightarrow> string list \<Rightarrow> transaction list \<Rightarrow> stmt_txn list \<Rightarrow> matched_entry list \<times> missing_entry list" where
  "reconcile_rows pd masks ts sts =
     (let cs = candidate_sets pd (build_pool ts) sts;
          s = greedy_pass pd masks ts sts;
          contested = filter (is_contested masks ts sts cs) (gs_matched s);
          resolved = resolve_contested ts sts cs contested;
          demoted = filter (\<lambda>e. dict_get resolved (e_stmt_idx e) = None) contested;
          matched = map (\<lambda>e. case dict_get resolved (e_stmt_idx e) of None \<Rightarrow> e
            | Some cid \<Rightarrow> reassign pd ts sts cid e) (gs_matched s)
      in (filter (\<lambda>e. e_stmt_idx e \<notin> e_stmt_idx ` set demoted) matched,
          sort_key e_stmt_idx (gs_missing s @ map (demote cs) demoted)))"

text \<open>\<open>None\<close> is the \<open>InvalidOperation\<close> of an amount that does not parse.\<close>

definition adjustment_total :: "adjustment_pair list \<Rightarrow> (adjustment_pair \<Rightarrow> cc_row option) \<Rightarrow> rat option" where
  "adjustment_total pairs side = foldl (\<lambda>acc p. case acc of None \<Rightarrow> None
     | Some x \<Rightarrow> if ap_confidence p \<noteq> ''high'' then Some x
         else case side p of None \<Rightarrow> Some x
           | Some r \<Rightarrow> map_option ((+) x) (parse_cc_amount (if r_amount r = [] then ''0'' else r_amount r)))
     (Some 0) pairs"

definition reconcile_statement ::
  "date_parser \<Rightarrow> cc_parsed \<Rightarrow> transaction list \<Rightarrow> string list \<Rightarrow> recon option" where
  "reconcile_statement pd parsed ts masks =
     (case (adjustment_total (p_adjustment_pairs parsed) ap_debit, adjustment_total (p_adjustment_pairs parsed) ap_credit) of
        (Some d, Some c) \<Rightarrow> (let (matched, missing) = reconcile_rows pd masks ts (stmt_txns parsed) in
          Some \<lparr>rc_matched = matched, rc_missing = missing, rc_adjustments_debit_total = format_cc_amount d,
            rc_adjustments_credit_total = format_cc_amount c\<rparr>)
      | _ \<Rightarrow> None)"

end
