(* ===== verification/Cc_Recon_Sound.thy ===== *)
theory Cc_Recon_Sound
  imports Cc_Recon
begin

text \<open>
  The correctness of \<open>reconcile_statement\<close>: the entries account for every statement row, a
  match is a stored row of the same amount and direction within a day, no stored row is matched
  twice, a row left to import has no stored counterpart, and a match that is kept is beyond
  dispute.
\<close>

section \<open>The pool\<close>

definition same_event :: "date \<Rightarrow> rat \<Rightarrow> string \<Rightarrow> transaction \<Rightarrow> bool" where
  "same_event d a dir t \<longleftrightarrow> t_transaction_date t = Some d \<and> t_amount t = a \<and> t_direction t = dir"

text \<open>Within a day of the statement row.\<close>

definition near_event :: "date \<Rightarrow> rat \<Rightarrow> string \<Rightarrow> transaction \<Rightarrow> bool" where
  "near_event d a dir t \<longleftrightarrow> t_amount t = a \<and> t_direction t = dir \<and>
     (\<exists>e. t_transaction_date t = Some e \<and> \<bar>e - d\<bar> \<le> 1)"

lemma near_event_iff: "near_event d a dir t \<longleftrightarrow> (\<exists>offset \<in> set WINDOW. same_event (d + offset) a dir t)"
proof -
  have "\<bar>e - d\<bar> \<le> 1 \<longleftrightarrow> e = d \<or> e = d - 1 \<or> e = d + 1" for e :: int by linarith
  then show ?thesis by (auto simp: near_event_def same_event_def WINDOW_def)
qed

lemma dict_list_put [simp]: "dict_list (dict_put d k v) k' = (if k' = k then v else dict_list d k')"
  by (simp add: dict_list_def)

lemma dict_get_del [simp]: "dict_get (dict_del d k) k' = (if k' = k then None else dict_get d k')"
  by (induction d) (auto simp: dict_del_def)

lemma dict_list_del [simp]: "dict_list (dict_del d k) k' = (if k' = k then [] else dict_list d k')"
  by (simp add: dict_list_def)

lemma pool_foldl:
  "dict_list (foldl (\<lambda>pool t. case t_transaction_date t of None \<Rightarrow> pool
     | Some d \<Rightarrow> dict_append pool (d, t_amount t, t_direction t) t) p ts) (d, a, dir) =
   dict_list p (d, a, dir) @ filter (same_event d a dir) ts"
  by (induction ts arbitrary: p) (auto simp: same_event_def split: option.splits)

lemma dict_list_build_pool [simp]: "dict_list (build_pool ts) (d, a, dir) = filter (same_event d a dir) ts"
  by (simp add: build_pool_def pool_foldl)

lemma reachable_eq: "reachable (build_pool ts) a dir d = t_id ` {t \<in> set ts. near_event d a dir t}"
  by (auto simp: reachable_def near_event_iff)

text \<open>The candidates of a row: the stored rows near it, whatever their card.\<close>

definition stored_near :: "date_parser \<Rightarrow> transaction list \<Rightarrow> stmt_txn \<Rightarrow> transaction \<Rightarrow> bool" where
  "stored_near pd ts st t \<longleftrightarrow> t \<in> set ts \<and>
     (case row_identity pd st of None \<Rightarrow> False | Some (d, a) \<Rightarrow> near_event d a (fst (snd st)) t)"

lemma dict_get_enumerate:
  "dict_get (concat (map (\<lambda>(i, x). case f x of None \<Rightarrow> [] | Some y \<Rightarrow> [(i, y)]) (enumerate n xs))) k =
     (if n \<le> k \<and> k < n + length xs then f (xs ! (k - n)) else None)"
proof (induction xs arbitrary: n)
  case (Cons x xs)
  have s: "(x # xs) ! (k - n) = xs ! (k - Suc n)" if "Suc n \<le> k"
    using that by (cases "k - n") (auto simp: diff_Suc)
  show ?case
    using Cons.IH [of "Suc n"] s by (cases "k = n") (auto split: option.split)
qed auto

lemma candidate_sets_alt:
  "candidate_sets pd pool sts = concat (map (\<lambda>(i, st). case
     (case row_identity pd st of None \<Rightarrow> None | Some (d, a) \<Rightarrow> Some (reachable pool a (fst (snd st)) d)) of
       None \<Rightarrow> [] | Some y \<Rightarrow> [(i, y)]) (enumerate 0 sts))"
  unfolding candidate_sets_def by (intro arg_cong [of _ _ concat] map_cong refl) (auto split: option.split)

lemma dict_get_candidates:
  "dict_get (candidate_sets pd pool sts) i = (if i < length sts then
     (case row_identity pd (sts ! i) of None \<Rightarrow> None
      | Some (d, a) \<Rightarrow> Some (reachable pool a (fst (snd (sts ! i))) d)) else None)"
  unfolding candidate_sets_alt dict_get_enumerate diff_zero by simp

lemma candidates_of_near:
  "candidates_of (candidate_sets pd (build_pool ts) sts) i =
     (if i < length sts then t_id ` {t. stored_near pd ts (sts ! i) t} else {})"
  by (auto simp: candidates_of_def dict_get_candidates reachable_eq stored_near_def split: option.split)

lemma candidate_keys_distinct: "distinct (map fst (candidate_sets pd pool sts))"
proof -
  have "map fst (candidate_sets pd pool sts) = filter (\<lambda>i. row_identity pd (sts ! i) \<noteq> None) [0..<length sts]"
  proof -
    have "map fst (concat (map (\<lambda>(i, st). case row_identity pd st of None \<Rightarrow> []
        | Some (d, a) \<Rightarrow> [(i, reachable pool a (fst (snd st)) d)]) (enumerate n xs))) =
      filter (\<lambda>i. row_identity pd (xs ! (i - n)) \<noteq> None) [n..<n + length xs]" for n and xs :: "stmt_txn list"
    proof (induction xs arbitrary: n)
      case (Cons x xs)
      have "[n..<n + length (x # xs)] = n # [Suc n..<Suc n + length xs]" by (simp add: upt_conv_Cons del: upt_Suc)
      moreover have "filter (\<lambda>i. row_identity pd ((x # xs) ! (i - n)) \<noteq> None) [Suc n..<Suc n + length xs] =
          filter (\<lambda>i. row_identity pd (xs ! (i - Suc n)) \<noteq> None) [Suc n..<Suc n + length xs]"
        by (rule filter_cong) (auto simp: nth_Cons' diff_Suc split: nat.split)
      ultimately show ?case using Cons.IH [of "Suc n"] by (auto split: option.splits prod.splits)
    qed simp
    from this [of 0 sts] show ?thesis by (simp add: candidate_sets_def)
  qed
  then show ?thesis by simp
qed

section \<open>The greedy pass\<close>

lemma take_first_Some:
  "take_first P xs = Some (y, ys) \<Longrightarrow> distinct xs \<Longrightarrow> y \<in> set xs \<and> P y \<and> ys = filter (\<lambda>x. x \<noteq> y) xs"
proof (induction xs arbitrary: ys)
  case (Cons x xs)
  then show ?case
    by (auto split: if_splits intro!: filter_True [symmetric])
qed simp

lemma take_first_None: "take_first P xs = None \<Longrightarrow> x \<in> set xs \<Longrightarrow> \<not> P x"
  by (induction xs) (auto split: if_splits)

definition compatible :: "string list \<Rightarrow> transaction \<Rightarrow> bool" where
  "compatible masks t \<longleftrightarrow> cc_card_compatible (t_card_mask t) masks"

text \<open>What the pool holds: the stored rows whose key is not yet taken.\<close>

definition pool_holds :: "transaction list \<Rightarrow> nat set \<Rightarrow> db_pool \<Rightarrow> bool" where
  "pool_holds ts taken pool \<longleftrightarrow> (\<forall>d a dir. dict_list pool (d, a, dir) =
     filter (\<lambda>t. same_event d a dir t \<and> t_id t \<notin> taken) ts)"

lemma pick_in_window_Some:
  assumes "pick_in_window masks pool a dir d os = Some (offset, t, pool')" "pool_holds ts taken pool"
    "distinct (map t_id ts)"
  shows "offset \<in> set os \<and> t \<in> set ts \<and> t_id t \<notin> taken \<and> compatible masks t \<and>
    same_event (d + offset) a dir t \<and> pool_holds ts (insert (t_id t) taken) pool'"
  using assms(1)
proof (induction os)
  case (Cons offset' os)
  let ?k = "(d + offset', a, dir)"
  have list: "dict_list pool ?k = filter (\<lambda>t. same_event (d + offset') a dir t \<and> t_id t \<notin> taken) ts"
    using assms(2) by (simp add: pool_holds_def)
  show ?case
  proof (cases "take_first (\<lambda>t. cc_card_compatible (t_card_mask t) masks) (dict_list pool ?k)")
    case None
    then show ?thesis using Cons by (simp add: Let_def)
  next
    case (Some yr)
    obtain y rest where yr: "yr = (y, rest)" by (cases yr)
    have out: "offset = offset'" "t = y" "pool' = (if rest = [] then dict_del pool ?k else dict_put pool ?k rest)"
      using Cons.prems Some yr by (auto simp: Let_def)
    have d: "distinct (dict_list pool ?k)" using assms(3) by (simp add: list distinct_map)
    note f = take_first_Some [OF Some [unfolded yr] d]
    then have y: "y \<in> set ts" "same_event (d + offset') a dir y" "t_id y \<notin> taken" using list by auto
    have key: "x = y" if "x \<in> set ts" "t_id x = t_id y" for x
      using assms(3) that y by (auto simp: distinct_map inj_on_def)
    have "dict_list pool' (e, b, g) = filter (\<lambda>t. same_event e b g t \<and> t_id t \<notin> insert (t_id y) taken) ts" for e b g
    proof (cases "(e, b, g) = ?k")
      case True
      then have "dict_list pool' (e, b, g) = filter (\<lambda>x. x \<noteq> y) (dict_list pool ?k)" using out f by simp
      also have "\<dots> = filter (\<lambda>t. same_event e b g t \<and> t_id t \<notin> insert (t_id y) taken) ts"
        unfolding list filter_filter by (rule filter_cong) (use True key in auto)
      finally show ?thesis .
    next
      case False
      then have "dict_list pool' (e, b, g) = dict_list pool (e, b, g)" using out by auto
      also have "\<dots> = filter (\<lambda>t. same_event e b g t \<and> t_id t \<notin> taken) ts"
        using assms(2) by (simp add: pool_holds_def)
      also have "\<dots> = filter (\<lambda>t. same_event e b g t \<and> t_id t \<notin> insert (t_id y) taken) ts"
        by (rule filter_cong) (use False key y in \<open>fastforce simp: same_event_def\<close>)+
      finally show ?thesis .
    qed
    then show ?thesis using out y f by (auto simp: compatible_def pool_holds_def)
  qed
qed simp

lemma pick_in_window_None:
  assumes "pick_in_window masks pool a dir d os = None" "pool_holds ts taken pool" "offset \<in> set os"
    "t \<in> set ts" "same_event (d + offset) a dir t" "t_id t \<notin> taken"
  shows "\<not> compatible masks t"
  using assms(1,3)
proof (induction os)
  case (Cons o' os)
  show ?case
  proof (cases "take_first (\<lambda>t. cc_card_compatible (t_card_mask t) masks) (dict_list pool (d + o', a, dir))")
    case (Some yr)
    then show ?thesis using Cons.prems by (cases yr) (auto simp: Let_def)
  next
    case None
    show ?thesis
    proof (cases "offset = o'")
      case True
      then have "t \<in> set (dict_list pool (d + o', a, dir))" using assms by (simp add: pool_holds_def)
      then show ?thesis using take_first_None [OF None] by (simp add: compatible_def)
    qed (use Cons None in \<open>auto simp: Let_def\<close>)
  qed
qed simp

text \<open>A match of row \<open>i\<close> with the stored row \<open>t\<close>.\<close>

definition entry_of :: "stmt_txn list \<Rightarrow> 'a recon_entry_scheme \<Rightarrow> bool" where
  "entry_of sts e \<longleftrightarrow> e_stmt_idx e < length sts \<and> (case sts ! e_stmt_idx e of (l, dir, r) \<Rightarrow>
     e_stmt_list e = l \<and> e_direction e = dir \<and> e_date e = r_date r \<and> e_amount e = r_amount r \<and>
     e_narration e = r_narration r \<and> e_card_number e = r_card_number r \<and> e_person e = r_person r)"

definition match_ok :: "date_parser \<Rightarrow> string list \<Rightarrow> transaction list \<Rightarrow> stmt_txn list \<Rightarrow> matched_entry \<Rightarrow> bool" where
  "match_ok pd masks ts sts e \<longleftrightarrow> entry_of sts e \<and> (\<exists>t. stored_near pd ts (sts ! e_stmt_idx e) t \<and>
     me_db_txn_id e = t_id t \<and> me_db_counterparty e = t_counterparty t \<and>
     me_db_reference e = t_reference_number t \<and> me_db_date e = db_date_text t \<and> compatible masks t)"

definition miss_ok :: "date_parser \<Rightarrow> transaction list \<Rightarrow> stmt_txn list \<Rightarrow> missing_entry \<Rightarrow> bool" where
  "miss_ok pd ts sts e \<longleftrightarrow> entry_of sts e \<and> \<not> mi_imported e \<and>
     (mi_ambiguous e \<longleftrightarrow> (\<exists>t. stored_near pd ts (sts ! e_stmt_idx e) t))"

definition greedy_ok :: "date_parser \<Rightarrow> string list \<Rightarrow> transaction list \<Rightarrow> stmt_txn list \<Rightarrow> nat \<Rightarrow> greedy_state \<Rightarrow> bool" where
  "greedy_ok pd masks ts sts k s \<longleftrightarrow>
     pool_holds ts (me_db_txn_id ` set (gs_matched s)) (gs_pool s) \<and>
     distinct (map me_db_txn_id (gs_matched s)) \<and>
     mset (map e_stmt_idx (gs_matched s)) + mset (map e_stmt_idx (gs_missing s)) = mset [0..<k] \<and>
     sorted (map e_stmt_idx (gs_matched s)) \<and>
     (\<forall>e \<in> set (gs_matched s). match_ok pd masks ts sts e) \<and> (\<forall>e \<in> set (gs_missing s). miss_ok pd ts sts e)"

lemma entry_of_made:
  "i < length sts \<Longrightarrow> entry_of sts (matched_of i (sts ! i) t ev)"
  "i < length sts \<Longrightarrow> entry_of sts (missing_of i (sts ! i) b ev)"
  by (cases "sts ! i"; simp add: entry_of_def matched_of_def missing_of_def)+

lemma made_fields [simp]:
  "e_stmt_idx (matched_of i st t ev) = i" "me_db_txn_id (matched_of i st t ev) = t_id t"
  "me_db_counterparty (matched_of i st t ev) = t_counterparty t"
  "me_db_reference (matched_of i st t ev) = t_reference_number t"
  "me_db_date (matched_of i st t ev) = db_date_text t"
  "e_stmt_idx (missing_of i st b ev) = i" "mi_ambiguous (missing_of i st b ev) = b"
  "mi_imported (missing_of i st b ev) = False"
  by (cases st; simp add: matched_of_def missing_of_def)+

lemma greedy_step_ok:
  assumes "greedy_ok pd masks ts sts k s" "k < length sts" "distinct (map t_id ts)"
  shows "greedy_ok pd masks ts sts (Suc k)
    (greedy_step pd masks (candidate_sets pd (build_pool ts) sts) s (k, sts ! k))"
proof -
  let ?cs = "candidate_sets pd (build_pool ts) sts"
  let ?st = "sts ! k"
  have near: "candidates_of ?cs k = t_id ` {t. stored_near pd ts ?st t}"
    using assms(2) by (simp add: candidates_of_near)
  have below: "x < k" if "x \<in> set (map e_stmt_idx (gs_matched s))" for x
  proof -
    have "x \<in># mset [0..<k]"
      using that assms(1) by (metis greedy_ok_def set_mset_mset union_iff)
    then show ?thesis by simp
  qed
  show ?thesis
  proof (cases "row_identity pd ?st")
    case None
    then have "\<not> stored_near pd ts ?st t" for t by (simp add: stored_near_def)
    then show ?thesis
      using assms None entry_of_made(2) by (simp add: greedy_ok_def greedy_step_def miss_ok_def)
  next
    case (Some da)
    obtain d a where da: "da = (d, a)" by (cases da)
    show ?thesis
    proof (cases "pick_in_window masks (gs_pool s) a (fst (snd ?st)) d WINDOW")
      case None
      have "contended_miss (candidates_of ?cs k) \<longleftrightarrow> (\<exists>t. stored_near pd ts ?st t)"
        using near by (simp add: contended_miss_def)
      then show ?thesis
        using assms None Some da entry_of_made(2) by (auto simp: greedy_ok_def greedy_step_def miss_ok_def)
    next
      case (Some res)
      obtain offset t pool where res: "res = (offset, t, pool)" by (cases res)
      have holds: "pool_holds ts (me_db_txn_id ` set (gs_matched s)) (gs_pool s)"
        using assms(1) by (simp add: greedy_ok_def)
      note p = pick_in_window_Some [OF Some [unfolded res] holds assms(3)]
      have "stored_near pd ts ?st t"
        using p \<open>row_identity pd ?st = _\<close> da near_event_iff by (auto simp: stored_near_def)
      then have m: "match_ok pd masks ts sts (matched_of k ?st t ev)" for ev
        using p entry_of_made(1) [OF assms(2)] unfolding match_ok_def made_fields by blast
      show ?thesis
        using assms \<open>row_identity pd ?st = _\<close> da Some res p m below
        by (auto simp: greedy_ok_def greedy_step_def sorted_append less_imp_le)
    qed
  qed
qed

lemma foldl_enumerate:
  "foldl f s (enumerate 0 xs) = foldl (\<lambda>s k. f s (k, xs ! k)) s [0..<length xs]"
proof -
  have "enumerate 0 xs = map (\<lambda>k. (k, xs ! k)) [0..<length xs]"
    by (rule nth_equalityI) (simp_all add: nth_enumerate_eq)
  then show ?thesis by (simp add: foldl_map)
qed

lemma greedy_pass_ok:
  assumes "distinct (map t_id ts)"
  shows "greedy_ok pd masks ts sts (length sts) (greedy_pass pd masks ts sts)"
proof -
  let ?f = "greedy_step pd masks (candidate_sets pd (build_pool ts) sts)"
  let ?s0 = "\<lparr>gs_pool = build_pool ts, gs_matched = [], gs_missing = []\<rparr>"
  have "k \<le> length sts \<Longrightarrow> greedy_ok pd masks ts sts k (foldl (\<lambda>s k. ?f s (k, sts ! k)) ?s0 [0..<k])" for k
  proof (induction k)
    case 0
    then show ?case by (simp add: greedy_ok_def pool_holds_def)
  next
    case (Suc k)
    then show ?case using greedy_step_ok [OF _ _ assms] by simp
  qed
  then show ?thesis by (simp add: greedy_pass_def foldl_enumerate)
qed

section \<open>The resolution\<close>

lemma those_Some: "those xs = Some ys \<longleftrightarrow> xs = map Some ys"
proof (induction xs arbitrary: ys)
  case (Cons x xs)
  then show ?case by (cases ys) (auto split: option.splits)
qed auto

lemma assignment_of_Some:
  assumes "assignment_of ts sts cs E = Some as"
  shows "map fst as = map e_stmt_idx E \<and> (\<forall>(i, c) \<in> set as. named_by ts sts cs i = [c])"
proof -
  let ?f = "\<lambda>e. case named_by ts sts cs (e_stmt_idx e) of
       [c] \<Rightarrow> if c \<in> me_db_txn_id ` set E then Some (e_stmt_idx e, c) else None | _ \<Rightarrow> None"
  have m: "map ?f E = map Some as" using assms by (simp add: assignment_of_def those_Some)
  have f: "fst p = e_stmt_idx e \<and> named_by ts sts cs (fst p) = [snd p]" if "?f e = Some p" for e p
    using that by (auto split: list.splits if_splits)
  have len: "length E = length as" using map_eq_imp_length_eq [OF m] .
  have nth: "?f (E ! k) = Some (as ! k)" if "k < length as" for k
    using arg_cong [OF m, of "\<lambda>l. l ! k"] that len by simp
  have "map fst as = map e_stmt_idx E"
  proof (rule nth_equalityI)
    fix k assume "k < length (map fst as)"
    then show "map fst as ! k = map e_stmt_idx E ! k" using len f [OF nth [of k]] by simp
  qed (simp add: len)
  moreover have "named_by ts sts cs (fst (as ! k)) = [snd (as ! k)]" if "k < length as" for k
    using f [OF nth [OF that]] by (rule conjunct2)
  then have "case p of (i, c) \<Rightarrow> named_by ts sts cs i = [c]" if "p \<in> set as" for p
    using that by (auto simp: in_set_conv_nth case_prod_beta)
  ultimately show ?thesis by blast
qed

lemma resolve_group_facts:
  assumes "resolve_group ts sts cs E \<noteq> []"
  shows "map fst (resolve_group ts sts cs E) = map e_stmt_idx E \<and>
    snd ` set (resolve_group ts sts cs E) = me_db_txn_id ` set E \<and>
    (\<forall>(i, c) \<in> set (resolve_group ts sts cs E). named_by ts sts cs i = [c]) \<and>
    \<not> spoiled ts sts cs (me_db_txn_id ` set E)"
proof -
  obtain as where "assignment_of ts sts cs E = Some as" "resolve_group ts sts cs E = as"
    "snd ` set as = me_db_txn_id ` set E" "\<not> spoiled ts sts cs (me_db_txn_id ` set E)"
    using assms by (auto simp: resolve_group_def Let_def split: option.splits if_splits)
  then show ?thesis using assignment_of_Some by simp
qed

lemma resolve_group_key:
  assumes "(i, c) \<in> set (resolve_group ts sts cs E)"
  shows "i \<in> e_stmt_idx ` set E"
proof -
  have ne: "resolve_group ts sts cs E \<noteq> []" using assms by auto
  have "i \<in> set (map fst (resolve_group ts sts cs E))" using assms by force
  then show ?thesis unfolding conjunct1 [OF resolve_group_facts [OF ne]] by simp
qed

lemma distinct_concat_keys:
  assumes "\<And>x. x \<in> set xs \<Longrightarrow> f x = [] \<or> map fst (f x) = map h x" "distinct (map h (concat xs))"
  shows "distinct (map fst (concat (map f xs)))"
  using assms
proof (induction xs)
  case (Cons x xs)
  have "set (map fst (concat (map f xs))) \<subseteq> set (map h (concat xs))"
  proof
    fix k assume "k \<in> set (map fst (concat (map f xs)))"
    then obtain y where y: "y \<in> set xs" "k \<in> set (map fst (f y))" by auto
    then have "map fst (f y) = map h y" using Cons.prems(1) [of y] by auto
    then show "k \<in> set (map h (concat xs))" using y by (auto intro!: image_eqI)
  qed
  moreover have "set (map fst (f x)) \<subseteq> set (map h x)" "distinct (map fst (f x))"
    using Cons.prems(1) [of x] Cons.prems(2) by fastforce+
  moreover have "set (map h x) \<inter> set (map h (concat xs)) = {}" using Cons.prems(2) by simp
  ultimately have "set (map fst (f x)) \<inter> set (map fst (concat (map f xs))) = {}" by blast
  then show ?case using Cons \<open>distinct (map fst (f x))\<close> by simp
qed simp

definition contest_groups :: "candidate_sets \<Rightarrow> matched_entry list \<Rightarrow> matched_entry list list" where
  "contest_groups cs C = (if length C < 2 then [] else map (map (nth C))
     (entry_groups (\<lambda>i j. candidates_of cs (e_stmt_idx (C ! i)) \<inter> candidates_of cs (e_stmt_idx (C ! j)) \<noteq> {})
       (length C)))"

lemma resolve_contested_groups:
  "resolve_contested ts sts cs C = concat (map (resolve_group ts sts cs) (contest_groups cs C))"
  by (simp add: resolve_contested_def contest_groups_def comp_def)

lemma contest_groups_sub:
  "E \<in> set (contest_groups cs C) \<Longrightarrow> set E \<subseteq> set C"
  by (fastforce simp: contest_groups_def split: if_splits dest: entry_groups_class)

lemma contest_groups_distinct:
  assumes "distinct (map f C)"
  shows "distinct (map f (concat (contest_groups cs C)))"
proof (cases "length C < 2")
  case False
  let ?G = "entry_groups (\<lambda>i j. candidates_of cs (e_stmt_idx (C ! i)) \<inter>
    candidates_of cs (e_stmt_idx (C ! j)) \<noteq> {}) (length C)"
  have e: "map f (concat (contest_groups cs C)) = map (\<lambda>i. f (C ! i)) (concat ?G)"
    using False by (simp add: contest_groups_def map_concat comp_def)
  have sub: "set (concat ?G) \<subseteq> {..<length C}" using entry_groups_class by fastforce
  have "inj_on (\<lambda>i. f (C ! i)) {..<length C}"
  proof (rule inj_onI)
    fix i j assume "i \<in> {..<length C}" "j \<in> {..<length C}" "f (C ! i) = f (C ! j)"
    then show "i = j" using nth_eq_iff_index_eq [OF assms, of i j] by simp
  qed
  then show ?thesis
    unfolding e distinct_map using distinct_entry_groups inj_on_subset [OF _ sub] by blast
qed (simp add: contest_groups_def)

lemma resolved_keys_distinct:
  assumes "distinct (map e_stmt_idx C)"
  shows "distinct (map fst (resolve_contested ts sts cs C))"
  unfolding resolve_contested_groups
  by (rule distinct_concat_keys [where h = e_stmt_idx])
    (use resolve_group_facts contest_groups_distinct [OF assms] in blast)+

text \<open>The stored row an entry ends up with.\<close>

definition new_id :: "(nat \<times> nat) list \<Rightarrow> matched_entry \<Rightarrow> nat" where
  "new_id resolved e = (case dict_get resolved (e_stmt_idx e) of None \<Rightarrow> me_db_txn_id e | Some c \<Rightarrow> c)"

lemma group_of_resolved:
  assumes "distinct (map e_stmt_idx C)" "dict_get (resolve_contested ts sts cs C) (e_stmt_idx e) = Some c" "e \<in> set C"
  obtains E where "E \<in> set (contest_groups cs C)" "e \<in> set E" "(e_stmt_idx e, c) \<in> set (resolve_group ts sts cs E)"
proof -
  from dict_get_mem [OF assms(2)] obtain E where E: "E \<in> set (contest_groups cs C)"
    "(e_stmt_idx e, c) \<in> set (resolve_group ts sts cs E)" by (auto simp: resolve_contested_groups)
  then obtain e' where "e' \<in> set E" "e_stmt_idx e' = e_stmt_idx e"
    using resolve_group_key [OF E(2)] by auto
  moreover have "e' = e"
    using assms(1,3) contest_groups_sub [OF E(1)] calculation by (auto simp: distinct_map inj_on_def)
  ultimately show ?thesis using that E by blast
qed

lemma distinct_of_map: "distinct (map f xs) \<Longrightarrow> distinct xs"
  by (simp add: distinct_map)

lemma group_unique:
  assumes "distinct (map e_stmt_idx C)" "E \<in> set (contest_groups cs C)" "E' \<in> set (contest_groups cs C)"
    "e \<in> set E" "e \<in> set E'"
  shows "E = E'"
proof (rule ccontr)
  assume "E \<noteq> E'"
  have "distinct (concat (contest_groups cs C))"
    using contest_groups_distinct [OF assms(1)] by (rule distinct_of_map)
  then have "set E \<inter> set E' = {}"
    using assms(2,3) \<open>E \<noteq> E'\<close> by (simp add: distinct_concat_iff)
  then show False using assms(4,5) by blast
qed

lemma new_id_inj_group:
  assumes "distinct (map e_stmt_idx C)" "distinct (map me_db_txn_id C)" "E \<in> set (contest_groups cs C)"
    "resolve_group ts sts cs E \<noteq> []"
  shows "inj_on (new_id (resolve_contested ts sts cs C)) (set E)"
proof (rule eq_card_imp_inj_on)
  let ?R = "resolve_contested ts sts cs C"
  note g = resolve_group_facts [OF assms(4)]
  have d: "distinct E" "distinct (map me_db_txn_id E)"
    using contest_groups_distinct [OF assms(1), of cs] contest_groups_distinct [OF assms(2), of cs] assms(3)
    by (auto simp: distinct_concat_iff map_concat distinct_map dest: distinct_of_map)
  have val: "new_id ?R e = c" if "e \<in> set E" "(e_stmt_idx e, c) \<in> set (resolve_group ts sts cs E)" for e c
  proof -
    have "(e_stmt_idx e, c) \<in> set ?R" using that assms(3) by (auto simp: resolve_contested_groups)
    then show ?thesis using mem_dict_get [OF resolved_keys_distinct [OF assms(1)]] by (simp add: new_id_def)
  qed
  have "new_id ?R ` set E = snd ` set (resolve_group ts sts cs E)"
  proof (intro equalityI subsetI)
    fix x assume "x \<in> new_id ?R ` set E"
    then obtain e where e: "e \<in> set E" "x = new_id ?R e" by auto
    then have "e_stmt_idx e \<in> fst ` set (resolve_group ts sts cs E)" using g by (metis image_eqI set_map)
    then obtain c where "(e_stmt_idx e, c) \<in> set (resolve_group ts sts cs E)" by auto
    then show "x \<in> snd ` set (resolve_group ts sts cs E)" using val e by force
  next
    fix x assume "x \<in> snd ` set (resolve_group ts sts cs E)"
    then obtain i where i: "(i, x) \<in> set (resolve_group ts sts cs E)" by auto
    then have "i \<in> e_stmt_idx ` set E" by (rule resolve_group_key)
    then show "x \<in> new_id ?R ` set E" using val i by force
  qed
  then show "card (new_id ?R ` set E) = card (set E)"
    using g d(2) by (simp add: card_image distinct_map)
qed simp

section \<open>The result\<close>

lemma by_id_eq: "distinct (map t_id ts) \<Longrightarrow> t \<in> set ts \<Longrightarrow> by_id ts (t_id t) = t"
  unfolding by_id_def
proof (cases "List.find (\<lambda>x. t_id x = t_id t) ts")
  case None
  assume "t \<in> set ts"
  then show "the (List.find (\<lambda>x. t_id x = t_id t) ts) = t" using find_None_D [OF None, of t] by simp
next
  case (Some x)
  assume "distinct (map t_id ts)" "t \<in> set ts"
  then show "the (List.find (\<lambda>x. t_id x = t_id t) ts) = t"
    using find_Some_D [OF Some] Some by (auto simp: distinct_map inj_on_def)
qed

lemma reassign_fields [simp]:
  "e_stmt_idx (reassign pd ts sts c e) = e_stmt_idx e"
  "entry_of sts' (reassign pd ts sts c e) = entry_of sts' e"
  by (simp_all add: reassign_def Let_def entry_of_def)

lemma finite_candidates [simp]: "finite (candidates_of (candidate_sets pd (build_pool ts) sts) i)"
  by (rule finite_subset [of _ "t_id ` set ts"]) (auto simp: candidates_of_near stored_near_def)

lemma named_candidate:
  assumes "named_by ts sts (candidate_sets pd (build_pool ts) sts) i = [c]" "distinct (map t_id ts)"
  obtains t where "i < length sts" "stored_near pd ts (sts ! i) t" "t_id t = c" "by_id ts c = t"
    "row_names_candidate (row_at sts i) t"
proof -
  have "c \<in> set (named_by ts sts (candidate_sets pd (build_pool ts) sts) i)" using assms(1) by simp
  then have c: "c \<in> candidates_of (candidate_sets pd (build_pool ts) sts) i" "row_names_candidate (row_at sts i) (by_id ts c)"
    by (auto simp: named_by_def)
  then obtain t where t: "i < length sts" "stored_near pd ts (sts ! i) t" "t_id t = c"
    by (auto simp: candidates_of_near split: if_splits)
  then have "by_id ts c = t" using by_id_eq [OF assms(2)] by (auto simp: stored_near_def)
  then show ?thesis using that t c by blast
qed

text \<open>The parts of a run that the proofs below share: the greedy result \<open>M\<close>, its contested entries
  \<open>C\<close> and the resolved pairs \<open>R\<close>.\<close>

definition greedy_run ::
  "date_parser \<Rightarrow> string list \<Rightarrow> transaction list \<Rightarrow> stmt_txn list \<Rightarrow> matched_entry list \<Rightarrow> missing_entry list \<Rightarrow>
   matched_entry list \<Rightarrow> (nat \<times> nat) list \<Rightarrow> bool" where
  "greedy_run pd masks ts sts M N C R \<longleftrightarrow> distinct (map t_id ts) \<and>
     M = gs_matched (greedy_pass pd masks ts sts) \<and> N = gs_missing (greedy_pass pd masks ts sts) \<and>
     C = filter (is_contested masks ts sts (candidate_sets pd (build_pool ts) sts)) M \<and>
     R = resolve_contested ts sts (candidate_sets pd (build_pool ts) sts) C"

definition demoted_of :: "(nat \<times> nat) list \<Rightarrow> matched_entry list \<Rightarrow> matched_entry list" where
  "demoted_of R C = filter (\<lambda>e. dict_get R (e_stmt_idx e) = None) C"

definition kept_of :: "(nat \<times> nat) list \<Rightarrow> matched_entry list \<Rightarrow> matched_entry list \<Rightarrow> matched_entry list" where
  "kept_of R C M = filter (\<lambda>e. e_stmt_idx e \<notin> e_stmt_idx ` set (demoted_of R C)) M"

definition final_entry :: "date_parser \<Rightarrow> transaction list \<Rightarrow> stmt_txn list \<Rightarrow> (nat \<times> nat) list \<Rightarrow> matched_entry \<Rightarrow> matched_entry" where
  "final_entry pd ts sts R e = (case dict_get R (e_stmt_idx e) of None \<Rightarrow> e | Some cid \<Rightarrow> reassign pd ts sts cid e)"

lemma final_entry_fields [simp]:
  "e_stmt_idx (final_entry pd ts sts R e) = e_stmt_idx e"
  "entry_of sts' (final_entry pd ts sts R e) = entry_of sts' e"
  by (simp_all add: final_entry_def split: option.split)

lemma reconcile_rows_run:
  assumes "distinct (map t_id ts)" "reconcile_rows pd masks ts sts = (matched, missing)"
  obtains M N C R where "greedy_run pd masks ts sts M N C R"
    "matched = map (final_entry pd ts sts R) (kept_of R C M)"
    "missing = sort_key e_stmt_idx (N @ map (demote (candidate_sets pd (build_pool ts) sts)) (demoted_of R C))"
proof -
  let ?cs = "candidate_sets pd (build_pool ts) sts"
  let ?M = "gs_matched (greedy_pass pd masks ts sts)" and ?N = "gs_missing (greedy_pass pd masks ts sts)"
  let ?C = "filter (is_contested masks ts sts ?cs) ?M"
  let ?R = "resolve_contested ts sts ?cs ?C"
  have f: "(\<lambda>e. case dict_get ?R (e_stmt_idx e) of None \<Rightarrow> e | Some cid \<Rightarrow> reassign pd ts sts cid e) = final_entry pd ts sts ?R"
    by (rule ext) (simp add: final_entry_def)
  have "matched = map (final_entry pd ts sts ?R) (kept_of ?R ?C ?M)"
    "missing = sort_key e_stmt_idx (?N @ map (demote ?cs) (demoted_of ?R ?C))"
    using assms(2) unfolding reconcile_rows_def Let_def f
    by (auto simp: kept_of_def demoted_of_def filter_map comp_def)
  moreover have "greedy_run pd masks ts sts ?M ?N ?C ?R" using assms(1) by (simp add: greedy_run_def)
  ultimately show ?thesis using that by blast
qed

lemma greedy_run_facts:
  assumes "greedy_run pd masks ts sts M N C R"
  shows "distinct (map me_db_txn_id M)" "distinct (map e_stmt_idx M)" "sorted (map e_stmt_idx M)"
    "mset (map e_stmt_idx M) + mset (map e_stmt_idx N) = mset [0..<length sts]"
    "\<And>e. e \<in> set M \<Longrightarrow> match_ok pd masks ts sts e" "\<And>e. e \<in> set N \<Longrightarrow> miss_ok pd ts sts e" "set C \<subseteq> set M"
    "distinct (map e_stmt_idx C)" "distinct (map me_db_txn_id C)"
proof -
  have ok: "greedy_ok pd masks ts sts (length sts) (greedy_pass pd masks ts sts)"
    using assms greedy_pass_ok by (simp add: greedy_run_def)
  then show m: "distinct (map me_db_txn_id M)" "sorted (map e_stmt_idx M)"
    "mset (map e_stmt_idx M) + mset (map e_stmt_idx N) = mset [0..<length sts]"
    "\<And>e. e \<in> set M \<Longrightarrow> match_ok pd masks ts sts e" "\<And>e. e \<in> set N \<Longrightarrow> miss_ok pd ts sts e"
    using assms by (simp_all add: greedy_ok_def greedy_run_def)
  have "mset (map e_stmt_idx M @ map e_stmt_idx N) = mset [0..<length sts]" using m(3) by simp
  then show d: "distinct (map e_stmt_idx M)" using mset_eq_imp_distinct_iff by (metis distinct_append distinct_upt)
  show "set C \<subseteq> set M" using assms by (auto simp: greedy_run_def)
  show "distinct (map e_stmt_idx C)" "distinct (map me_db_txn_id C)"
    using assms d m(1) by (simp_all add: greedy_run_def distinct_map_filter)
qed

lemma length_one: "length xs = 1 \<Longrightarrow> u \<in> set xs \<Longrightarrow> v \<in> set xs \<Longrightarrow> u = v"
  by (cases xs) auto

text \<open>A resolved pair: both sides of the pairing are unambiguous.\<close>

lemma resolved_pair:
  assumes run: "greedy_run pd masks ts sts M N C R" and e: "e \<in> set C" "dict_get R (e_stmt_idx e) = Some c"
  obtains t where "stored_near pd ts (sts ! e_stmt_idx e) t" "t_id t = c" "by_id ts c = t" "compatible masks t"
    "row_names_candidate (row_at sts (e_stmt_idx e)) t"
    "\<And>j. j < length sts \<Longrightarrow> j \<noteq> e_stmt_idx e \<Longrightarrow> stored_near pd ts (sts ! j) t \<Longrightarrow> \<not> row_names_candidate (row_at sts j) t"
proof -
  let ?cs = "candidate_sets pd (build_pool ts) sts"
  have ts: "distinct (map t_id ts)" and R: "R = resolve_contested ts sts ?cs C" using run by (simp_all add: greedy_run_def)
  note facts = greedy_run_facts [OF run]
  obtain E where E: "E \<in> set (contest_groups ?cs C)" "e \<in> set E" "(e_stmt_idx e, c) \<in> set (resolve_group ts sts ?cs E)"
    using group_of_resolved [OF facts(8) e(2) [unfolded R] e(1)] by blast
  have g: "snd ` set (resolve_group ts sts ?cs E) = me_db_txn_id ` set E"
    "named_by ts sts ?cs (e_stmt_idx e) = [c]" "\<not> spoiled ts sts ?cs (me_db_txn_id ` set E)"
    using resolve_group_facts [of ts sts ?cs E] E(3) by fastforce+
  obtain t where t: "e_stmt_idx e < length sts" "stored_near pd ts (sts ! e_stmt_idx e) t" "t_id t = c" "by_id ts c = t"
    "row_names_candidate (row_at sts (e_stmt_idx e)) t"
    using named_candidate [OF g(2) ts] by blast
  have "c \<in> me_db_txn_id ` set E" using g(1) E(3) by force
  then obtain e' where e': "e' \<in> set M" "me_db_txn_id e' = c"
    using contest_groups_sub [OF E(1)] facts(7) by auto
  then obtain t' where t': "stored_near pd ts (sts ! e_stmt_idx e') t'" "t_id t' = c" "compatible masks t'"
    using facts(5) [OF e'(1)] e'(2) unfolding match_ok_def by metis
  then have "t' = t" using by_id_eq [OF ts, of t'] t(4) by (auto simp: stored_near_def)
  moreover have "\<not> row_names_candidate (row_at sts j) t"
    if j: "j < length sts" "j \<noteq> e_stmt_idx e" "stored_near pd ts (sts ! j) t" for j
  proof
    assume n: "row_names_candidate (row_at sts j) t"
    let ?P = "\<lambda>(i, X). c \<in> X \<and> row_names_candidate (row_at sts i) (by_id ts c)"
    let ?L = "filter ?P (filter (\<lambda>(i, X). X \<inter> me_db_txn_id ` set E \<noteq> {}) ?cs)"
    have mem: "\<exists>X. (i, X) \<in> set ?L" if i: "i < length sts" "stored_near pd ts (sts ! i) t"
      "row_names_candidate (row_at sts i) t" for i
    proof -
      have "c \<in> candidates_of ?cs i" using i t(3) by (auto simp: candidates_of_near)
      then obtain X where X: "dict_get ?cs i = Some X" "c \<in> X"
        by (cases "dict_get ?cs i") (auto simp: candidates_of_def)
      then have "X \<inter> me_db_txn_id ` set E \<noteq> {}" using \<open>c \<in> me_db_txn_id ` set E\<close> by blast
      then have "(i, X) \<in> set ?L" using dict_get_mem [OF X(1)] X(2) i(3) t(4) by simp
      then show ?thesis by blast
    qed
    have "length ?L = 1"
      using g(3) \<open>c \<in> me_db_txn_id ` set E\<close> unfolding spoiled_def Let_def by blast
    moreover obtain X where X: "(j, X) \<in> set ?L" using mem [OF j(1,3) n] by blast
    moreover obtain Y where "(e_stmt_idx e, Y) \<in> set ?L" using mem [OF t(1,2,5)] by blast
    ultimately have "(j, X) = (e_stmt_idx e, Y)" using length_one [of ?L] by blast
    then show False using j(2) by simp
  qed
  ultimately show ?thesis using that t t' by blast
qed

text \<open>The resolved row names no other stored row it could be.\<close>

lemma resolved_names_one:
  assumes run: "greedy_run pd masks ts sts M N C R" and e: "e \<in> set C" "dict_get R (e_stmt_idx e) = Some c"
    and u: "stored_near pd ts (sts ! e_stmt_idx e) u" "row_names_candidate (row_at sts (e_stmt_idx e)) u"
  shows "t_id u = c"
proof -
  let ?cs = "candidate_sets pd (build_pool ts) sts"
  have ts: "distinct (map t_id ts)" and R: "R = resolve_contested ts sts ?cs C" using run by (simp_all add: greedy_run_def)
  obtain E where "(e_stmt_idx e, c) \<in> set (resolve_group ts sts ?cs E)"
    using group_of_resolved [OF greedy_run_facts(8) [OF run] e(2) [unfolded R] e(1)] by blast
  then have n: "named_by ts sts ?cs (e_stmt_idx e) = [c]" using resolve_group_facts [of ts sts ?cs E] by fastforce
  have "e_stmt_idx e < length sts" using named_candidate [OF n ts] by metis
  then have "t_id u \<in> candidates_of ?cs (e_stmt_idx e)" using u(1) by (auto simp: candidates_of_near)
  moreover have "by_id ts (t_id u) = u" using by_id_eq [OF ts, of u] u(1) by (simp add: stored_near_def)
  ultimately have "t_id u \<in> set (named_by ts sts ?cs (e_stmt_idx e))"
    using u(2) finite_candidates by (simp add: named_by_def)
  then show ?thesis using n by simp
qed

lemma unresolved_outside:
  assumes run: "greedy_run pd masks ts sts M N C R" and e: "e \<in> set M" "e \<notin> set C"
  shows "dict_get R (e_stmt_idx e) = None"
proof (rule ccontr)
  let ?cs = "candidate_sets pd (build_pool ts) sts"
  assume "dict_get R (e_stmt_idx e) \<noteq> None"
  then obtain c where "(e_stmt_idx e, c) \<in> set (resolve_contested ts sts ?cs C)"
    using dict_get_mem run by (fastforce simp: greedy_run_def)
  then obtain E where "E \<in> set (contest_groups ?cs C)" "(e_stmt_idx e, c) \<in> set (resolve_group ts sts ?cs E)"
    by (auto simp: resolve_contested_groups)
  then obtain e' where "e' \<in> set C" "e_stmt_idx e' = e_stmt_idx e"
    using resolve_group_key contest_groups_sub by fastforce
  then show False using e greedy_run_facts(2,7) [OF run] by (auto simp: distinct_map inj_on_def)
qed

lemma final_entry_ok:
  assumes run: "greedy_run pd masks ts sts M N C R" and e: "e \<in> set (kept_of R C M)"
  shows "match_ok pd masks ts sts (final_entry pd ts sts R e) \<and>
    me_db_txn_id (final_entry pd ts sts R e) = new_id R e"
proof -
  note facts = greedy_run_facts [OF run]
  have m: "e \<in> set M" using e by (simp add: kept_of_def)
  show ?thesis
  proof (cases "dict_get R (e_stmt_idx e)")
    case None
    then show ?thesis using facts(5) [OF m] by (simp add: final_entry_def new_id_def)
  next
    case (Some c)
    then have eC: "e \<in> set C" using unresolved_outside [OF run m] by auto
    obtain t where t: "stored_near pd ts (sts ! e_stmt_idx e) t" "t_id t = c" "by_id ts c = t" "compatible masks t"
      using resolved_pair [OF run eC Some] by metis
    have "match_ok pd masks ts sts (reassign pd ts sts c e)"
      unfolding match_ok_def reassign_fields
      using facts(5) [OF m] t by (auto simp: match_ok_def reassign_def Let_def intro!: exI [of _ t])
    then show ?thesis using Some t(2,3) by (simp add: final_entry_def new_id_def reassign_def Let_def)
  qed
qed

lemma kept_contested: "e \<in> set (kept_of R C M) \<Longrightarrow> e \<in> set C \<Longrightarrow> \<exists>c. dict_get R (e_stmt_idx e) = Some c"
  by (auto simp: kept_of_def demoted_of_def)

text \<open>A new key is the greedy key of an entry of the same group.\<close>

lemma new_id_group:
  assumes run: "greedy_run pd masks ts sts M N C R" and e: "e \<in> set C" "dict_get R (e_stmt_idx e) = Some c"
  obtains E e' where "E \<in> set (contest_groups (candidate_sets pd (build_pool ts) sts) C)" "e \<in> set E" "e' \<in> set E"
    "new_id R e = me_db_txn_id e'" "inj_on (new_id R) (set E)"
proof -
  let ?cs = "candidate_sets pd (build_pool ts) sts"
  note facts = greedy_run_facts [OF run]
  have R: "R = resolve_contested ts sts ?cs C" using run by (simp add: greedy_run_def)
  obtain E where E: "E \<in> set (contest_groups ?cs C)" "e \<in> set E" "(e_stmt_idx e, c) \<in> set (resolve_group ts sts ?cs E)"
    using group_of_resolved [OF facts(8) e(2) [unfolded R] e(1)] by blast
  then have ne: "resolve_group ts sts ?cs E \<noteq> []" by auto
  have "c \<in> snd ` set (resolve_group ts sts ?cs E)" using E(3) by force
  then have "c \<in> me_db_txn_id ` set E" using resolve_group_facts [OF ne] by simp
  then obtain e' where "e' \<in> set E" "me_db_txn_id e' = c" by auto
  moreover have "inj_on (new_id R) (set E)" using new_id_inj_group [OF facts(8,9) E(1) ne] R by simp
  ultimately show ?thesis using that E e(2) by (simp add: new_id_def)
qed

lemma new_id_inj:
  assumes run: "greedy_run pd masks ts sts M N C R"
  shows "inj_on (new_id R) (set (kept_of R C M))"
proof (rule inj_onI)
  fix x y assume x: "x \<in> set (kept_of R C M)" and y: "y \<in> set (kept_of R C M)" and eq: "new_id R x = new_id R y"
  let ?cs = "candidate_sets pd (build_pool ts) sts"
  note facts = greedy_run_facts [OF run]
  have M: "x \<in> set M" "y \<in> set M" using x y by (auto simp: kept_of_def)
  have key: "u = v" if "u \<in> set M" "v \<in> set M" "me_db_txn_id u = me_db_txn_id v" for u v
    using facts(1) that by (auto simp: distinct_map inj_on_def)
  have one: "z = w" if z: "z \<in> set C" "dict_get R (e_stmt_idx z) = Some c" and w: "w \<in> set (kept_of R C M)"
    "dict_get R (e_stmt_idx w) = None \<or> w \<notin> set C" "new_id R w = me_db_txn_id w" "new_id R z = new_id R w" for z w c
  proof -
    obtain E e' where E: "E \<in> set (contest_groups ?cs C)" "e' \<in> set E" "new_id R z = me_db_txn_id e'"
      using new_id_group [OF run z] by metis
    then have "e' \<in> set C" using contest_groups_sub by blast
    moreover from this have "w = e'" using key [of w e'] w E(3) facts(7) by (auto simp: kept_of_def)
    ultimately show ?thesis using w(1,2) kept_contested by fastforce
  qed
  have loose: "new_id R w = me_db_txn_id w \<and> (dict_get R (e_stmt_idx w) = None \<or> w \<notin> set C)"
    if "w \<in> set M" "w \<notin> set C" for w
    using unresolved_outside [OF run that] by (simp add: new_id_def)
  show "x = y"
  proof (cases "x \<in> set C")
    case False
    show ?thesis
    proof (cases "y \<in> set C")
      case True
      then show ?thesis using one [of y _ x] kept_contested [OF y] loose [OF M(1) False] x eq by metis
    next
      case False': False
      then show ?thesis using key M eq loose [OF M(1) False] loose [OF M(2) False'] by metis
    qed
  next
    case True
    obtain c where c: "dict_get R (e_stmt_idx x) = Some c" using kept_contested [OF x True] by blast
    show ?thesis
    proof (cases "y \<in> set C")
      case False
      then show ?thesis using one [OF True c y] loose [OF M(2) False] eq by metis
    next
      case True': True
      obtain c' where c': "dict_get R (e_stmt_idx y) = Some c'" using kept_contested [OF y True'] by blast
      obtain E u where E: "E \<in> set (contest_groups ?cs C)" "x \<in> set E" "u \<in> set E"
        "new_id R x = me_db_txn_id u" "inj_on (new_id R) (set E)"
        using new_id_group [OF run True c] by metis
      obtain F v where F: "F \<in> set (contest_groups ?cs C)" "y \<in> set F" "v \<in> set F"
        "new_id R y = me_db_txn_id v"
        using new_id_group [OF run True' c'] by metis
      have "u = v" using key [of u v] eq E F contest_groups_sub [OF E(1)] contest_groups_sub [OF F(1)] facts(7) by auto
      then have "E = F" using group_unique [OF facts(8) E(1) F(1) E(3)] F(3) by simp
      then show ?thesis using inj_onD [OF E(5) eq] E(2) F(2) by simp
    qed
  qed
qed

text \<open>Could the stored row be the transaction of the entry? Card-blind, as in \<open>_reachable\<close>.\<close>

definition could_be :: "date_parser \<Rightarrow> 'a recon_entry_scheme \<Rightarrow> transaction \<Rightarrow> bool" where
  "could_be pd e t \<longleftrightarrow> (\<exists>a d x. parse_cc_amount (e_amount e) = Some a \<and> parse_cc_date pd (e_date e) = Some d \<and>
     t_amount t = a \<and> t_direction t = e_direction e \<and> t_transaction_date t = Some x \<and> \<bar>x - d\<bar> \<le> 1)"

lemma stored_near_entry:
  assumes "entry_of sts e"
  shows "stored_near pd ts (sts ! e_stmt_idx e) t \<longleftrightarrow> t \<in> set ts \<and> could_be pd e t"
  using assms
  by (cases "sts ! e_stmt_idx e")
    (auto simp: entry_of_def stored_near_def row_identity_def could_be_def near_event_def split: option.split)

lemma demote_ok:
  assumes "match_ok pd masks ts sts e"
  shows "miss_ok pd ts sts (demote cs e)"
  using assms by (auto simp: match_ok_def miss_ok_def demote_def entry_of_def)

lemma demote_idx [simp]: "e_stmt_idx (demote cs e) = e_stmt_idx e"
  by (simp add: demote_def)

lemma kept_demoted_count:
  assumes run: "greedy_run pd masks ts sts M N C R"
  shows "mset (map e_stmt_idx (kept_of R C M)) + mset (map e_stmt_idx (demoted_of R C)) = mset (map e_stmt_idx M)"
proof -
  note facts = greedy_run_facts [OF run]
  have "filter (\<lambda>e. e_stmt_idx e \<in> e_stmt_idx ` set (demoted_of R C)) M = demoted_of R C"
  proof -
    have "demoted_of R C = filter (\<lambda>e. e \<in> set (demoted_of R C)) M"
      using run by (auto simp: demoted_of_def greedy_run_def intro!: filter_cong)
    also have "\<dots> = filter (\<lambda>e. e_stmt_idx e \<in> e_stmt_idx ` set (demoted_of R C)) M"
      using facts(2,7) by (intro filter_cong) (auto simp: demoted_of_def distinct_map inj_on_def)
    finally show ?thesis by simp
  qed
  then have "mset M = mset (kept_of R C M) + mset (demoted_of R C)"
    using multiset_partition [of "mset M" "\<lambda>e. e_stmt_idx e \<notin> e_stmt_idx ` set (demoted_of R C)"]
    by (simp add: kept_of_def flip: mset_filter)
  then show ?thesis by simp
qed

lemma unclaimed_credits_twins:
  "\<exists>dropped. mset rs = mset (unclaimed_credits twins rs) + dropped \<and> image_mset ledger_twin_key dropped \<subseteq># twins \<and>
     (\<forall>r \<in># dropped. r_credit_reasons r = Some ''emi_installment_transfer'')"
proof (induction rs arbitrary: twins)
  case (Cons r rs)
  show ?case
  proof (cases "fst (claim_internal_transfer_twin r twins)")
    case True
    then have c: "claim_internal_transfer_twin r twins = (True, twins - {#ledger_twin_key r#})"
      "ledger_twin_key r \<in># twins" "r_credit_reasons r = Some ''emi_installment_transfer''"
      by (auto simp: claim_internal_transfer_twin_def INTERNAL_TRANSFER_CREDIT_REASONS_def split: if_splits option.splits)
    obtain dropped where "mset rs = mset (unclaimed_credits (twins - {#ledger_twin_key r#}) rs) + dropped"
      "image_mset ledger_twin_key dropped \<subseteq># twins - {#ledger_twin_key r#}"
      "\<forall>r \<in># dropped. r_credit_reasons r = Some ''emi_installment_transfer''" using Cons by blast
    then show ?thesis
      using c by (intro exI [of _ "add_mset r dropped"]) (auto simp: insert_subset_eq_iff)
  next
    case False
    then have c: "claim_internal_transfer_twin r twins = (False, twins)"
      by (auto simp: claim_internal_transfer_twin_def split: if_splits)
    obtain dropped where "mset rs = mset (unclaimed_credits twins rs) + dropped" "image_mset ledger_twin_key dropped \<subseteq># twins"
      "\<forall>r \<in># dropped. r_credit_reasons r = Some ''emi_installment_transfer''" using Cons by blast
    then show ?thesis using c by (intro exI [of _ dropped]) simp
  qed
qed simp

lemma reconcile_statement_run:
  assumes "distinct (map t_id ts)" "reconcile_statement pd parsed ts masks = Some r"
  obtains M N C R where "greedy_run pd masks ts (stmt_txns parsed) M N C R"
    "rc_matched r = map (final_entry pd ts (stmt_txns parsed) R) (kept_of R C M)"
    "rc_missing r = sort_key e_stmt_idx (N @
       map (demote (candidate_sets pd (build_pool ts) (stmt_txns parsed))) (demoted_of R C))"
proof -
  have "reconcile_rows pd masks ts (stmt_txns parsed) = (rc_matched r, rc_missing r)"
    using assms(2) by (auto simp: reconcile_statement_def split: option.splits prod.splits)
  then show ?thesis using reconcile_rows_run [OF assms(1)] that by blast
qed

lemma missing_ok:
  assumes run: "greedy_run pd masks ts sts M N C R" and e: "e \<in> set N \<union> demote cs ` set (demoted_of R C)"
  shows "miss_ok pd ts sts e"
  using e greedy_run_facts(5,6,7) [OF run] demote_ok by (fastforce simp: demoted_of_def)

text \<open>C26. Every row of the statement is accounted for exactly once, under its own content and in
  statement order: as a match or as a missing row; the only rows left out are credits tagged as
  internal transfers, and each has a debit twin of its own on the statement.\<close>

theorem reconcile_accounts_rows:
  assumes "distinct (map t_id ts)" "reconcile_statement pd parsed ts masks = Some r"
  shows "mset (map e_stmt_idx (rc_matched r)) + mset (map e_stmt_idx (rc_missing r)) = mset [0..<length (stmt_txns parsed)] \<and>
    sorted (map e_stmt_idx (rc_matched r)) \<and> sorted (map e_stmt_idx (rc_missing r)) \<and>
    (\<forall>e \<in> set (rc_matched r). entry_of (stmt_txns parsed) e) \<and> (\<forall>e \<in> set (rc_missing r). entry_of (stmt_txns parsed) e) \<and>
    (\<exists>credits dropped. stmt_txns parsed = map (\<lambda>x. (''transactions'', ''debit'', x)) (p_transactions parsed) @
         map (\<lambda>x. (''payments_refunds'', ''credit'', x)) credits \<and>
       mset (p_payments_refunds parsed) = mset credits + dropped \<and>
       image_mset ledger_twin_key dropped \<subseteq># mset (map ledger_twin_key (p_transactions parsed)) \<and>
       (\<forall>x \<in># dropped. r_credit_reasons x = Some ''emi_installment_transfer''))"
proof -
  obtain M N C R where run: "greedy_run pd masks ts (stmt_txns parsed) M N C R"
    and r: "rc_matched r = map (final_entry pd ts (stmt_txns parsed) R) (kept_of R C M)"
    "rc_missing r = sort_key e_stmt_idx (N @
       map (demote (candidate_sets pd (build_pool ts) (stmt_txns parsed))) (demoted_of R C))"
    using reconcile_statement_run [OF assms] by blast
  note facts = greedy_run_facts [OF run]
  have "mset (map e_stmt_idx (rc_matched r)) + mset (map e_stmt_idx (rc_missing r)) =
      mset (map e_stmt_idx (kept_of R C M)) + mset (map e_stmt_idx (demoted_of R C)) + mset (map e_stmt_idx N)"
    by (simp add: r comp_def multiset.map_comp)
  then have count: "mset (map e_stmt_idx (rc_matched r)) + mset (map e_stmt_idx (rc_missing r)) = mset [0..<length (stmt_txns parsed)]"
    using kept_demoted_count [OF run] facts(4) by simp
  have "map e_stmt_idx (rc_matched r) = map e_stmt_idx (kept_of R C M)" by (simp add: r)
  then have "sorted (map e_stmt_idx (rc_matched r))" using sorted_filter [OF facts(3)] by (simp add: kept_of_def)
  moreover have "\<forall>e \<in> set (rc_matched r). entry_of (stmt_txns parsed) e"
    using final_entry_ok [OF run] by (auto simp: r match_ok_def)
  moreover have "\<forall>e \<in> set (rc_missing r). entry_of (stmt_txns parsed) e"
    using missing_ok [OF run] by (auto simp: r miss_ok_def)
  ultimately show ?thesis
    using count unclaimed_credits_twins [of "p_payments_refunds parsed" "internal_transfer_debit_twins (p_transactions parsed)"]
    by (auto simp: stmt_txns_def internal_transfer_debit_twins_def r(2))
qed

text \<open>C27. No stored row is matched twice, and every match is with one of the given stored rows, of
  the same amount and direction, dated the same day or the day before or after, whose card mask is
  compatible with the card masks of the account.\<close>

theorem reconcile_matches_sound:
  assumes "distinct (map t_id ts)" "reconcile_statement pd parsed ts masks = Some r"
  shows "distinct (map me_db_txn_id (rc_matched r)) \<and> (\<forall>e \<in> set (rc_matched r). \<exists>t \<in> set ts.
    me_db_txn_id e = t_id t \<and> me_db_counterparty e = t_counterparty t \<and> could_be pd e t \<and>
    cc_card_compatible (t_card_mask t) masks)"
proof -
  obtain M N C R where run: "greedy_run pd masks ts (stmt_txns parsed) M N C R"
    and r: "rc_matched r = map (final_entry pd ts (stmt_txns parsed) R) (kept_of R C M)"
    using reconcile_statement_run [OF assms] by metis
  note ok = final_entry_ok [OF run]
  have "map me_db_txn_id (rc_matched r) = map (new_id R) (kept_of R C M)" using ok by (simp add: r)
  moreover have "distinct (kept_of R C M)"
    using greedy_run_facts(1) [OF run] by (simp add: kept_of_def distinct_of_map)
  ultimately have "distinct (map me_db_txn_id (rc_matched r))"
    using new_id_inj [OF run] by (simp add: distinct_map)
  moreover have "\<exists>t \<in> set ts. me_db_txn_id e = t_id t \<and> me_db_counterparty e = t_counterparty t \<and>
      could_be pd e t \<and> cc_card_compatible (t_card_mask t) masks" if "e \<in> set (rc_matched r)" for e
  proof -
    have "match_ok pd masks ts (stmt_txns parsed) e" using ok that by (auto simp: r)
    then show ?thesis using stored_near_entry by (fastforce simp: match_ok_def compatible_def)
  qed
  ultimately show ?thesis by blast
qed

text \<open>C28. A missing row is held back from import exactly when some stored row of the account
  could be its transaction; so what the import may insert has no stored counterpart of the same
  amount and direction within a day, and a row without one is never held back.\<close>

theorem held_back_iff_stored:
  assumes "distinct (map t_id ts)" "reconcile_statement pd parsed ts masks = Some r" "e \<in> set (rc_missing r)"
  shows "mi_ambiguous e \<longleftrightarrow> (\<exists>t \<in> set ts. could_be pd e t)"
proof -
  obtain M N C R where run: "greedy_run pd masks ts (stmt_txns parsed) M N C R"
    and r: "rc_missing r = sort_key e_stmt_idx (N @
       map (demote (candidate_sets pd (build_pool ts) (stmt_txns parsed))) (demoted_of R C))"
    using reconcile_statement_run [OF assms(1,2)] by metis
  have "miss_ok pd ts (stmt_txns parsed) e" using missing_ok [OF run] assms(3) by (auto simp: r)
  then show ?thesis using stored_near_entry by (fastforce simp: miss_ok_def)
qed

lemma not_contested:
  assumes "\<not> is_contested masks ts sts cs e" "j \<in> set (real_rivals masks ts sts cs e)"
  shows "refresh_identity (row_at sts j) = refresh_identity (row_at sts (e_stmt_idx e))"
proof -
  let ?S = "set (map (refresh_identity \<circ> row_at sts) (e_stmt_idx e # real_rivals masks ts sts cs e))"
  have "real_rivals masks ts sts cs e \<noteq> []" using assms(2) by auto
  then have "\<not> 1 < card ?S" using assms(1) unfolding is_contested_def Let_def by (simp only: if_False not_False_eq_True)
  then have "card ?S \<le> Suc 0" by (simp only: not_less One_nat_def)
  then have eq: "\<forall>a \<in> ?S. \<forall>b \<in> ?S. a = b" by (simp only: card_le_Suc0_iff_eq [OF finite_set])
  have "refresh_identity (row_at sts j) \<in> ?S" "refresh_identity (row_at sts (e_stmt_idx e)) \<in> ?S"
    using assms(2) by auto
  then show ?thesis using eq by blast
qed

lemma rival_of_near:
  assumes "j < length sts" "stored_near pd ts (sts ! j) t" "j \<noteq> e_stmt_idx e" "me_db_txn_id e = t_id t"
  shows "j \<in> set (rivals (candidate_sets pd (build_pool ts) sts) e)"
proof -
  let ?cs = "candidate_sets pd (build_pool ts) sts"
  have "t_id t \<in> candidates_of ?cs j" using assms(1,2) by (auto simp: candidates_of_near)
  then obtain X where X: "dict_get ?cs j = Some X" "t_id t \<in> X"
    by (cases "dict_get ?cs j") (auto simp: candidates_of_def)
  show ?thesis using dict_get_mem [OF X(1)] X(2) assms(3,4) by (force simp: rivals_def)
qed

text \<open>C29. A match that is kept is beyond dispute: any other statement row that could be the same
  stored row carries the same narration, or is confirmed to be on another card while the match is
  confirmed on the row's card, or the narrations tell the two apart: the match names the stored
  row's counterparty and that of no other stored row it could be, and the rival does not name it.\<close>

theorem kept_matches_undisputed:
  assumes "distinct (map t_id ts)" "reconcile_statement pd parsed ts masks = Some r"
    and "e \<in> set (rc_matched r)" "t \<in> set ts" "me_db_txn_id e = t_id t"
    and "j < length (stmt_txns parsed)" "j \<noteq> e_stmt_idx e" "stored_near pd ts (stmt_txns parsed ! j) t"
  shows "refresh_identity (row_at (stmt_txns parsed) j) = refresh_identity (row_at (stmt_txns parsed) (e_stmt_idx e)) \<or>
    confirmed_same_card (e_card_number e) (t_card_mask t) masks \<and>
      confirmed_different_card (r_card_number (row_at (stmt_txns parsed) j)) (t_card_mask t) \<or>
    row_names_candidate (row_at (stmt_txns parsed) (e_stmt_idx e)) t \<and>
      \<not> row_names_candidate (row_at (stmt_txns parsed) j) t \<and>
      (\<forall>u \<in> set ts. could_be pd e u \<and> row_names_candidate (row_at (stmt_txns parsed) (e_stmt_idx e)) u \<longrightarrow> u = t)"
proof -
  let ?sts = "stmt_txns parsed" and ?cs = "candidate_sets pd (build_pool ts) (stmt_txns parsed)"
  obtain M N C R where run: "greedy_run pd masks ts ?sts M N C R"
    and r: "rc_matched r = map (final_entry pd ts ?sts R) (kept_of R C M)"
    using reconcile_statement_run [OF assms(1,2)] by metis
  obtain e0 where e0: "e0 \<in> set (kept_of R C M)" "e = final_entry pd ts ?sts R e0"
    using assms(3) by (auto simp: r)
  have m: "e0 \<in> set M" using e0(1) by (simp add: kept_of_def)
  have idx: "e_stmt_idx e = e_stmt_idx e0" and new: "me_db_txn_id e = new_id R e0"
    using e0 final_entry_ok [OF run e0(1)] by simp_all
  have t: "by_id ts (t_id t) = t" using by_id_eq assms(1,4) by blast
  show ?thesis
  proof (cases "e0 \<in> set C")
    case True
    then obtain c where c: "dict_get R (e_stmt_idx e0) = Some c" using kept_contested [OF e0(1)] by blast
    then have ct: "c = t_id t" using new assms(5) by (simp add: new_id_def)
    have en: "entry_of ?sts e" using final_entry_ok [OF run e0(1)] e0(2) by (simp add: match_ok_def)
    have "u = t" if u: "u \<in> set ts" "could_be pd e u" "row_names_candidate (row_at ?sts (e_stmt_idx e)) u" for u
    proof -
      have "stored_near pd ts (?sts ! e_stmt_idx e0) u" using stored_near_entry [OF en, of pd ts u] u idx by simp
      then have "t_id u = t_id t" using resolved_names_one [OF run True c] u(3) idx ct by simp
      then show ?thesis using u(1) assms(1,4) by (simp add: distinct_map inj_on_def)
    qed
    moreover have "by_id ts c = t" using ct t by simp
    then have "row_names_candidate (row_at ?sts (e_stmt_idx e)) t \<and> \<not> row_names_candidate (row_at ?sts j) t"
      using resolved_pair [OF run True c] assms(6-8) idx by metis
    ultimately show ?thesis by blast
  next
    case False
    have e: "e = e0" using unresolved_outside [OF run m False] e0(2) by (simp add: final_entry_def)
    have nc: "\<not> is_contested masks ts ?sts ?cs e0" using False m run by (auto simp: greedy_run_def)
    have rival: "j \<in> set (rivals ?cs e0)"
      using rival_of_near [OF assms(6,8)] assms(5,7) e by simp
    then have "j \<in> set (real_rivals masks ts ?sts ?cs e0) \<or> confirmed_same_card (e_card_number e) (t_card_mask t) masks \<and>
        confirmed_different_card (r_card_number (row_at ?sts j)) (t_card_mask t)"
      using t assms(5) e by (auto simp: real_rivals_def Let_def)
    then show ?thesis using not_contested [OF nc, of j] idx by auto
  qed
qed

section \<open>Witnesses\<close>

text \<open>Two rows of equal amount that the greedy pass crosses, an instalment with its bookkeeping
  credit, and an instalment the account does not hold.\<close>

definition recon_demo_pd :: date_parser where
  "recon_demo_pd s = (if s = ''1'' then Some 8 else if s = ''2'' then Some 9 else None)"

definition recon_demo_txn :: "nat \<Rightarrow> string \<Rightarrow> transaction" where
  "recon_demo_txn i who = blank_txn\<lparr>t_id := i, t_account_id := Some 5, t_direction := ''debit'', t_amount := 6,
     t_transaction_date := Some 8, t_counterparty := Some who\<rparr>"

definition recon_demo_db :: "transaction list" where
  "recon_demo_db = [recon_demo_txn 11 ''C'', recon_demo_txn 12 ''D'']"

definition recon_demo_row :: "string \<Rightarrow> string \<Rightarrow> string \<Rightarrow> string option \<Rightarrow> cc_row" where
  "recon_demo_row day amount narration reason = \<lparr>r_card_number = None, r_date = day, r_amount = amount,
     r_narration = narration, r_person = None, r_credit_reasons = reason\<rparr>"

definition recon_demo_parsed :: cc_parsed where
  "recon_demo_parsed = \<lparr>p_bank = ''axis'', p_card_number = None, p_due_date = None, p_total_amount_due = None,
     p_transactions = [recon_demo_row ''1'' ''6'' ''D'' None, recon_demo_row ''2'' ''6'' ''c'' None,
       recon_demo_row ''1'' ''3'' ''E'' None],
     p_payments_refunds = [recon_demo_row ''1'' ''3'' ''E'' (Some ''emi_installment_transfer'')],
     p_adjustment_pairs = []\<rparr>"

definition recon_demo :: "matched_entry list \<times> missing_entry list" where
  "recon_demo = reconcile_rows recon_demo_pd [] recon_demo_db (stmt_txns recon_demo_parsed)"

definition recon_demo_result :: recon where
  "recon_demo_result = \<lparr>rc_matched = fst recon_demo, rc_missing = snd recon_demo,
     rc_adjustments_debit_total = format_cc_amount 0, rc_adjustments_credit_total = format_cc_amount 0\<rparr>"

lemma recon_demo_result: "reconcile_statement recon_demo_pd recon_demo_parsed recon_demo_db [] = Some recon_demo_result"
proof -
  have "p_adjustment_pairs recon_demo_parsed = []" by (simp add: recon_demo_parsed_def)
  then show ?thesis
    by (simp add: reconcile_statement_def adjustment_total_def recon_demo_def recon_demo_result_def case_prod_beta Let_def)
qed

lemma recon_demo_run:
  "map (\<lambda>e. (e_stmt_idx e, me_db_txn_id e)) (fst recon_demo) = [(0, 12), (1, 11)] \<and>
   map (\<lambda>e. (e_stmt_idx e, mi_ambiguous e)) (snd recon_demo) = [(2, False)]"
  by code_simp

lemma recon_demo_facts:
  "distinct (map t_id recon_demo_db)"
  "map (\<lambda>e. (e_stmt_idx e, me_db_txn_id e)) (rc_matched recon_demo_result) = [(0, 12), (1, 11)]"
  "map (\<lambda>e. (e_stmt_idx e, mi_ambiguous e)) (rc_missing recon_demo_result) = [(2, False)]"
  using recon_demo_run by (simp_all add: recon_demo_result_def recon_demo_db_def recon_demo_txn_def)

theorem reconcile_accounts_rows_witness:
  "mset (map e_stmt_idx (rc_matched recon_demo_result)) + mset (map e_stmt_idx (rc_missing recon_demo_result)) =
     mset [0..<length (stmt_txns recon_demo_parsed)] \<and> length (stmt_txns recon_demo_parsed) = 3"
proof
  show "mset (map e_stmt_idx (rc_matched recon_demo_result)) + mset (map e_stmt_idx (rc_missing recon_demo_result)) =
     mset [0..<length (stmt_txns recon_demo_parsed)]"
    using reconcile_accounts_rows [OF recon_demo_facts(1) recon_demo_result] by blast
  show "length (stmt_txns recon_demo_parsed) = 3" by code_simp
qed

theorem reconcile_matches_sound_witness:
  "distinct (map me_db_txn_id (rc_matched recon_demo_result)) \<and>
   map (\<lambda>e. (e_stmt_idx e, me_db_txn_id e)) (rc_matched recon_demo_result) = [(0, 12), (1, 11)]"
  using reconcile_matches_sound [OF recon_demo_facts(1) recon_demo_result] recon_demo_facts(2) by blast

theorem held_back_iff_stored_witness:
  "\<exists>e. rc_missing recon_demo_result = [e] \<and> \<not> mi_ambiguous e \<and> \<not> (\<exists>t \<in> set recon_demo_db. could_be recon_demo_pd e t)"
proof -
  obtain e where e: "rc_missing recon_demo_result = [e]" "\<not> mi_ambiguous e"
    using recon_demo_facts(3) by auto
  then show ?thesis using held_back_iff_stored [OF recon_demo_facts(1) recon_demo_result, of e] by auto
qed

theorem kept_matches_undisputed_witness:
  "row_names_candidate (row_at (stmt_txns recon_demo_parsed) 0) (recon_demo_txn 12 ''D'') \<and>
   \<not> row_names_candidate (row_at (stmt_txns recon_demo_parsed) 1) (recon_demo_txn 12 ''D'') \<and>
   (\<exists>e \<in> set (rc_matched recon_demo_result). me_db_txn_id e = 12 \<and> (\<forall>u \<in> set recon_demo_db.
      could_be recon_demo_pd e u \<and> row_names_candidate (row_at (stmt_txns recon_demo_parsed) 0) u \<longrightarrow> t_id u = 12))"
proof -
  obtain e rest where "rc_matched recon_demo_result = e # rest" "e_stmt_idx e = 0" "me_db_txn_id e = 12"
    using recon_demo_facts(2) by auto
  then have e: "e \<in> set (rc_matched recon_demo_result)" "e_stmt_idx e = 0" "me_db_txn_id e = 12" by simp_all
  have n: "1 < length (stmt_txns recon_demo_parsed)" by code_simp
  have c: "(1::nat) \<noteq> e_stmt_idx e" using e(2) by simp
  have t: "recon_demo_txn 12 ''D'' \<in> set recon_demo_db" by (simp add: recon_demo_db_def)
  have i: "row_identity recon_demo_pd (stmt_txns recon_demo_parsed ! 1) = Some (9, 6)"
    "fst (snd (stmt_txns recon_demo_parsed ! 1)) = ''debit''" by code_simp+
  have near: "stored_near recon_demo_pd recon_demo_db (stmt_txns recon_demo_parsed ! 1) (recon_demo_txn 12 ''D'')"
    using t i by (simp add: stored_near_def near_event_def recon_demo_txn_def)
  have d: "me_db_txn_id e = t_id (recon_demo_txn 12 ''D'')" using e(3) by (simp add: recon_demo_txn_def)
  have "refresh_identity (row_at (stmt_txns recon_demo_parsed) 1) \<noteq> refresh_identity (row_at (stmt_txns recon_demo_parsed) 0)"
    by code_simp
  moreover have "\<not> confirmed_different_card (r_card_number (row_at (stmt_txns recon_demo_parsed) 1))
      (t_card_mask (recon_demo_txn 12 ''D''))" by code_simp
  ultimately show ?thesis
    using kept_matches_undisputed [OF recon_demo_facts(1) recon_demo_result e(1) t d n c near] e
    by (auto simp: recon_demo_txn_def intro!: bexI [of _ e])
qed

end
