(* ===== verification/Cc_Lifecycle.thy ===== *)
theory Cc_Lifecycle
  imports Cc_Payments
begin

text \<open>
  The life of the payment state of a card statement (\<open>services/reminders.py\<close>), as a transition
  system over the operations of \<open>Cc_Payments\<close>: what every reachable state satisfies, which
  operations can undo a payment, and what a reminder pass sends.
\<close>

section \<open>Operations as rewritten of one statement\<close>

definition rewritten :: "pay_state \<Rightarrow> pay_state \<Rightarrow> statement_upload \<Rightarrow> statement_upload \<Rightarrow> bool" where
  "rewritten s s' u v \<longleftrightarrow> u \<in> set (uploads (ps_db s)) \<and> same_bill u v \<and> ps_db s' = ps_db (put_upload v s)"

text \<open>A paid statement covers its total, and any other has a nonnegative paid amount.\<close>

definition covered :: "statement_upload \<Rightarrow> bool" where
  "covered u \<longleftrightarrow> (if u_payment_status u = Some PAID then (\<forall>d. amount_due u = Some d \<longrightarrow> d \<le> paid_amount u)
     else 0 \<le> paid_amount u)"

definition credits_ok :: "db \<Rightarrow> bool" where
  "credits_ok s \<longleftrightarrow> (\<forall>t \<in> set (transactions s). 0 \<le> t_amount t)"

lemma amount_due_paid_state [simp]: "amount_due (paid_state now p d z u) = amount_due u"
  by (simp add: amount_due_def)

lemma covered_paid_state: "amount_due u = Some d \<Longrightarrow> 0 \<le> p \<Longrightarrow> covered (paid_state now p d z u)"
  by (simp add: covered_def paid_amount_def) (simp add: paid_state_def Let_def)

lemma quantize2_nonneg: "0 \<le> q \<Longrightarrow> 0 \<le> quantize2 q"
  by (auto simp: quantize2_def Let_def)

lemma qualifying_sum_nonneg:
  assumes "credits_ok s"
  shows "0 \<le> qualifying_payment_credit_sum pd now s u"
proof -
  have "\<forall>t \<in> set (qualifying_credits pd now s u). 0 \<le> t_amount t"
    using assms set_qualifying [of pd now s u] by (auto simp: credits_ok_def)
  then have "0 \<le> sum_list (map t_amount (qualifying_credits pd now s u))"
    by (intro sum_list_nonneg) auto
  then show ?thesis by (simp add: qualifying_payment_credit_sum_def foldl_amount quantize2_nonneg)
qed

lemma recompute_rewrites:
  assumes "recompute_cc_payment_state pd now s u z = Some (p, s')" "u \<in> set (uploads (ps_db s))"
  obtains v where "rewritten s s' u v" "credits_ok (ps_db s) \<Longrightarrow> covered v"
proof -
  obtain d where d: "amount_due u = Some d" "p = qualifying_payment_credit_sum pd now (ps_db s) u"
    "s' = snd (emit_cc_snapshot now (paid_state now p d z u) (put_upload (paid_state now p d z u) s))"
    using assms(1) by (auto simp: recompute_Some)
  show thesis
  proof (rule that [of "paid_state now p d z u"])
    show "rewritten s s' u (paid_state now p d z u)" using assms(2) d(3) by (simp add: rewritten_def)
    show "covered (paid_state now p d z u)" if "credits_ok (ps_db s)"
      using covered_paid_state d(1) qualifying_sum_nonneg [OF that] d(2) by blast
  qed
qed

lemma init_rewrites:
  assumes "init_payment_tracking pd now today s i = (b, s')" "s' \<noteq> s"
  obtains u v where "rewritten s s' u v" "u_payment_status u = None" "credits_ok (ps_db s) \<Longrightarrow> covered v"
proof -
  note obt = that
  obtain u dd d where u: "get_upload s i = Some u" "u_payment_status u = None" "due pd (u_due_date u) = Some dd"
    "amount_due u = Some d"
    using assms by (auto simp: init_payment_tracking_def split: option.splits if_splits)
  note m = get_upload_Some [OF u(1)]
  show thesis
  proof (cases "d \<le> 0")
    case True
    let ?v = "u\<lparr>u_payment_status := Some PAID, u_payment_paid_at := Some now, u_payment_paid_amount := Some d\<rparr>"
    have "s' = snd (emit_cc_snapshot now ?v (put_upload ?v s))"
      using assms u True by (auto simp: init_payment_tracking_def Let_def split: if_splits)
    moreover have "same_bill u ?v" by (simp add: same_bill_def bill_key_def)
    moreover have "covered ?v" using u(4) by (simp add: covered_def amount_due_def paid_amount_def)
    ultimately show thesis using obt [of u ?v] m u(2) by (simp add: rewritten_def)
  next
    case False
    then obtain p where "recompute_cc_payment_state pd now s u True = Some (p, s')"
      using assms u by (auto simp: init_payment_tracking_def Let_def split: if_splits option.splits)
    from recompute_rewrites [OF this conjunct1 [OF m]] show thesis using obt u(2) by blast
  qed
qed

lemma mark_rewrites:
  assumes "mark_paid now s i = (a, s')" "s' \<noteq> s"
  obtains u v where "rewritten s s' u v" "u_payment_status u \<noteq> Some PAID" "covered v"
proof -
  obtain u where u: "get_upload s i = Some u" "u_payment_status u \<noteq> Some PAID"
    using assms by (auto simp: mark_paid_def split: option.splits if_splits)
  let ?w = "u\<lparr>u_payment_status := Some PAID, u_payment_paid_at := Some now\<rparr>"
  let ?v = "case amount_due ?w of None \<Rightarrow> ?w | Some d \<Rightarrow> ?w\<lparr>u_payment_paid_amount := Some d\<rparr>"
  have "s' = snd (emit_cc_snapshot now ?v (put_upload ?v s))"
    using assms(1) u by (simp add: mark_paid_def Let_def)
  moreover have "same_bill u ?v" by (simp add: same_bill_def bill_key_def split: option.split)
  moreover have "covered ?v" by (auto simp: covered_def amount_due_def paid_amount_def split: option.split)
  ultimately show thesis using that [of u ?v] get_upload_Some [OF u(1)] u(2) by (simp add: rewritten_def)
qed

section \<open>The latest statement of each account\<close>

definition entry_ok :: "date_parser \<Rightarrow> statement_upload list \<Rightarrow> nat \<times> date \<times> statement_upload \<Rightarrow> bool" where
  "entry_ok pd us x = (case x of (a, d, u) \<Rightarrow> u \<in> set us \<and> u_account_id u = a \<and> due pd (u_due_date u) = Some d \<and>
     (\<forall>w \<in> set us. \<forall>e. u_account_id w = a \<longrightarrow> due pd (u_due_date w) = Some e \<longrightarrow> e \<le> d))"

definition latest_ok :: "date_parser \<Rightarrow> statement_upload list \<Rightarrow> (nat \<times> date \<times> statement_upload) list \<Rightarrow> bool" where
  "latest_ok pd us D \<longleftrightarrow> distinct (map fst D) \<and> (\<forall>x \<in> set D. entry_ok pd us x) \<and>
   (\<forall>w \<in> set us. due pd (u_due_date w) \<noteq> None \<longrightarrow> u_account_id w \<in> fst ` set D)"

lemma set_dict_put: "distinct (map fst d) \<Longrightarrow> set (dict_put d k v) = insert (k, v) {x \<in> set d. fst x \<noteq> k}"
  by (induction d k v rule: dict_put.induct) (auto simp: image_iff)

lemma entry_ok_snoc:
  "entry_ok pd us x \<Longrightarrow> (\<And>e. u_account_id u = fst x \<Longrightarrow> due pd (u_due_date u) = Some e \<Longrightarrow> e \<le> fst (snd x)) \<Longrightarrow>
   entry_ok pd (us @ [u]) x"
  by (cases x) (auto simp: entry_ok_def)

lemma latest_ok_put:
  assumes ok: "latest_ok pd us D" and d: "due pd (u_due_date u) = Some d"
    and max: "\<And>w e. w \<in> set us \<Longrightarrow> u_account_id w = u_account_id u \<Longrightarrow> due pd (u_due_date w) = Some e \<Longrightarrow> e \<le> d"
  shows "latest_ok pd (us @ [u]) (dict_put D (u_account_id u) (d, u))"
proof -
  have dis: "distinct (map fst D)" using ok by (simp add: latest_ok_def)
  have new: "entry_ok pd (us @ [u]) (u_account_id u, d, u)" using d max by (auto simp: entry_ok_def)
  have old: "entry_ok pd (us @ [u]) x" if "x \<in> set D" "fst x \<noteq> u_account_id u" for x
    using that ok by (intro entry_ok_snoc) (auto simp: latest_ok_def)
  have "\<forall>x \<in> set (dict_put D (u_account_id u) (d, u)). entry_ok pd (us @ [u]) x"
    using new old by (simp add: set_dict_put [OF dis])
  moreover have "fst ` set (dict_put D (u_account_id u) (d, u)) = insert (u_account_id u) (fst ` set D)"
    using set_keys_dict_put [of D "u_account_id u" "(d, u)"] by (simp only: set_map)
  ultimately show ?thesis using ok dis by (auto simp: latest_ok_def)
qed

lemma latest_step:
  assumes ok: "latest_ok pd us D"
  shows "latest_ok pd (us @ [u]) (take_latest pd D u)"
proof (cases "due pd (u_due_date u)")
  case None
  have "entry_ok pd (us @ [u]) x" if "x \<in> set D" for x
    using that ok None by (intro entry_ok_snoc) (auto simp: latest_ok_def)
  then show ?thesis using ok None by (auto simp: latest_ok_def take_latest_def)
next
  case (Some d)
  have dis: "distinct (map fst D)" using ok by (simp add: latest_ok_def)
  show ?thesis
  proof (cases "dict_get D (u_account_id u)")
    case None
    then have "u_account_id u \<notin> fst ` set D" by (simp add: dict_get_None_iff)
    then have "e \<le> d" if "w \<in> set us" "u_account_id w = u_account_id u" "due pd (u_due_date w) = Some e" for w e
      using ok that by (metis latest_ok_def option.distinct(1))
    then show ?thesis using latest_ok_put [OF ok Some] Some None by (simp add: take_latest_def)
  next
    case c: (Some c)
    obtain e x where ex: "c = (e, x)" by force
    have m: "(u_account_id u, e, x) \<in> set D" using dict_get_mem [OF c] ex by simp
    then have max: "f \<le> e" if "w \<in> set us" "u_account_id w = u_account_id u" "due pd (u_due_date w) = Some f" for w f
      using ok that by (auto simp: latest_ok_def entry_ok_def)
    show ?thesis
    proof (cases "e < d")
      case True
      then have "f \<le> d" if "w \<in> set us" "u_account_id w = u_account_id u" "due pd (u_due_date w) = Some f" for w f
        using max [OF that] by simp
      then show ?thesis using latest_ok_put [OF ok Some] Some c ex True by (simp add: take_latest_def)
    next
      case False
      have "entry_ok pd (us @ [u]) y" if y: "y \<in> set D" for y
      proof -
        obtain a d' z where yz: "y = (a, d', z)" by (cases y) auto
        have "d \<le> d'" if "u_account_id u = a"
          using mem_dict_get [OF dis y [unfolded yz]] c ex that False by simp
        then show ?thesis using ok y yz Some by (intro entry_ok_snoc) (auto simp: latest_ok_def)
      qed
      moreover have "u_account_id u \<in> fst ` set D" using m by force
      ultimately show ?thesis using ok Some c ex False by (auto simp: latest_ok_def take_latest_def)
    qed
  qed
qed

lemma latest_ok_fold: "latest_ok pd us (foldl (take_latest pd) [] us)"
proof (induction us rule: rev_induct)
  case (snoc u us)
  then show ?case using latest_step by simp
qed (simp add: latest_ok_def)

text \<open>What the callers use: the result holds listed statements, one per account, each with the
  latest due date of its account.\<close>

lemma latest_per_account_facts:
  "set (latest_per_account pd us) \<subseteq> set us"
  "distinct (map u_account_id (latest_per_account pd us))"
  "u \<in> set (latest_per_account pd us) \<Longrightarrow> w \<in> set us \<Longrightarrow> u_account_id w = u_account_id u \<Longrightarrow>
    due pd (u_due_date w) = Some e \<Longrightarrow> \<exists>d. due pd (u_due_date u) = Some d \<and> e \<le> d"
proof -
  define D where "D = foldl (take_latest pd) [] us"
  have ok: "latest_ok pd us D" unfolding D_def by (rule latest_ok_fold)
  have l: "latest_per_account pd us = map (snd \<circ> snd) D" by (simp add: latest_per_account_def D_def)
  show "set (latest_per_account pd us) \<subseteq> set us" using ok by (auto simp: l latest_ok_def entry_ok_def)
  have "map u_account_id (latest_per_account pd us) = map fst D"
    using ok by (auto simp: l latest_ok_def entry_ok_def)
  then show "distinct (map u_account_id (latest_per_account pd us))" using ok by (simp add: latest_ok_def)
  show "\<exists>d. due pd (u_due_date u) = Some d \<and> e \<le> d"
    if "u \<in> set (latest_per_account pd us)" "w \<in> set us" "u_account_id w = u_account_id u"
      "due pd (u_due_date w) = Some e"
    using that ok by (fastforce simp: l latest_ok_def entry_ok_def)
qed

lemma latest_active_cycle_facts:
  assumes "latest_active_cycle pd s a include_paid = Some u"
  shows "u \<in> set (uploads (ps_db s))" "u_account_id u = a" "active u \<or> include_paid \<and> u_payment_status u = Some PAID"
proof -
  let ?us = "filter (\<lambda>u. u_account_id u = a \<and>
         (active u \<or> include_paid \<and> u_payment_status u = Some PAID) \<and> u_due_date u \<noteq> None) (uploads (ps_db s))"
  have "u \<in> set (latest_per_account pd ?us)"
    using assms by (auto simp: latest_active_cycle_def split: list.splits)
  then have "u \<in> set ?us" using latest_per_account_facts(1) by blast
  then show "u \<in> set (uploads (ps_db s))" "u_account_id u = a"
    "active u \<or> include_paid \<and> u_payment_status u = Some PAID" by auto
qed

lemma active_not_paid: "active u \<Longrightarrow> u_payment_status u \<noteq> Some PAID"
  by (auto simp: active_def ACTIVE_STATUSES_def)

lemma check_rewrites:
  assumes "check_payment_received pd now s a = (b, s')" "s' \<noteq> s"
  obtains u v where "rewritten s s' u v" "active u" "credits_ok (ps_db s) \<Longrightarrow> covered v"
proof -
  note obt = that
  obtain u p where u: "latest_active_cycle pd s a False = Some u"
    "recompute_cc_payment_state pd now s u False = Some (p, s')"
    using assms by (auto simp: check_payment_received_def split: option.splits if_splits)
  note l = latest_active_cycle_facts [OF u(1)]
  from recompute_rewrites [OF u(2) l(1)] show thesis using obt l(3) by auto
qed

lemma resync_rewrites:
  assumes "resync_tracked_cc_payment_state pd now s u = (b, s')" "s' \<noteq> s" "u \<in> set (uploads (ps_db s))"
  obtains v where "rewritten s s' u v" "active u" "credits_ok (ps_db s) \<Longrightarrow> covered v"
proof -
  note obt = that
  obtain p where u: "active u" "recompute_cc_payment_state pd now s u True = Some (p, s')"
    using assms(1,2) by (auto simp: resync_tracked_cc_payment_state_def split: option.splits if_splits)
  from recompute_rewrites [OF u(2) assms(3)] show thesis using obt u(1) by auto
qed

lemma reopen_rewrites:
  assumes "recompute_cc_payment_for_account pd now s a = (r, s')" "s' \<noteq> s"
  obtains u v where "rewritten s s' u v" "credits_ok (ps_db s) \<Longrightarrow> covered v"
proof -
  note obt = that
  obtain u p where u: "latest_active_cycle pd s a True = Some u"
    "recompute_cc_payment_state pd now s u False = Some (p, s')"
    using assms by (auto simp: recompute_cc_payment_for_account_def split: option.splits if_splits)
  from recompute_rewrites [OF u(2) latest_active_cycle_facts(1) [OF u(1)]] show thesis using obt by auto
qed

text \<open>One statement of a reminder pass.\<close>

definition reminded :: "statement_upload \<Rightarrow> statement_upload \<Rightarrow> bool" where
  "reminded u v \<longleftrightarrow> same_bill u v \<and> paid_amount v = paid_amount u \<and>
     (u_payment_status v = Some PAID \<longrightarrow> (\<exists>d. amount_due u = Some d \<and> d \<le> 0))"

lemma mark_late_facts [simp]:
  "u_id (mark_late today dd u) = u_id u" "amount_due (mark_late today dd u) = amount_due u"
  "u_sent_offsets (mark_late today dd u) = u_sent_offsets u" "paid_amount (mark_late today dd u) = paid_amount u"
  "same_bill u (mark_late today dd u)" "u_due_date (mark_late today dd u) = u_due_date u"
  by (simp_all add: mark_late_def amount_due_def paid_amount_def same_bill_def bill_key_def)

lemma active_mark_late [simp]: "active (mark_late today dd u) = active u"
  by (auto simp: mark_late_def active_def ACTIVE_STATUSES_def)

lemma remind_row_facts [simp]:
  "u_id (snd (remind_row now today dd os u)) = u_id u" "amount_due (snd (remind_row now today dd os u)) = amount_due u"
  "u_payment_status (snd (remind_row now today dd os u)) = u_payment_status u"
  "paid_amount (snd (remind_row now today dd os u)) = paid_amount u"
  "same_bill u (snd (remind_row now today dd os u))"
  "u_due_date (snd (remind_row now today dd os u)) = u_due_date u"
  by (simp_all add: remind_row_def amount_due_def paid_amount_def same_bill_def bill_key_def case_prod_unfold Let_def)

lemma same_bill_id: "same_bill u v \<Longrightarrow> u_id v = u_id u"
  by (simp add: same_bill_def bill_key_def)

lemma remind_one_rewrites:
  assumes a: "active u"
  shows "snd (remind_one pd now today offsets (out, s) u) = s \<or> (\<exists>v. reminded u v \<and>
    ps_db (snd (remind_one pd now today offsets (out, s) u)) = ps_db (put_upload v s))"
proof (cases "due pd (u_due_date u)")
  case None
  then show ?thesis by (simp add: remind_one_def)
next
  case (Some dd)
  let ?u = "mark_late today dd u" and ?p = "mark_late today dd u\<lparr>u_payment_status := Some PAID\<rparr>"
  let ?r = "snd (remind_row now today dd offsets ?u)"
  have np: "u_payment_status ?u \<noteq> Some PAID" using active_not_paid a active_mark_late by blast
  have u: "reminded u ?u" using np by (simp add: reminded_def)
  have r: "reminded u ?r" using np same_bill_trans [of u ?u ?r] by (simp add: reminded_def)
  have pd: "same_bill u ?p" "u_id ?p = u_id u" "paid_amount ?p = paid_amount u"
    using mark_late_facts(5) [of u today dd]
    by (simp_all add: same_bill_def bill_key_def paid_amount_def) (metis mark_late_facts(4) paid_amount_def)
  show ?thesis
  proof (cases "STALE_DAYS < today - dd \<or> amount_due u = None")
    case True
    then have "snd (remind_one pd now today offsets (out, s) u) = put_upload ?u s"
      using Some by (auto simp: remind_one_def Let_def)
    then show ?thesis using u by auto
  next
    case False
    then obtain d where d: "amount_due u = Some d" "\<not> STALE_DAYS < today - dd" by auto
    show ?thesis
    proof (cases "d \<le> 0")
      case True
      then have "ps_db (snd (remind_one pd now today offsets (out, s) u)) = ps_db (put_upload ?p s)"
        using Some d pd(2) by (simp add: remind_one_def Let_def)
      moreover have "reminded u ?p" using pd True d by (simp add: reminded_def)
      ultimately show ?thesis by blast
    next
      case False
      then have "snd (remind_one pd now today offsets (out, s) u) = put_upload ?r s"
        using Some d by (simp add: remind_one_def Let_def case_prod_unfold)
      then show ?thesis using r by auto
    qed
  qed
qed

text \<open>A pass over statements with distinct keys rewrites each of them at most once, in the state it
  had when the pass began.\<close>

lemma put_keeps_other:
  "r \<in> set (uploads (ps_db s)) \<Longrightarrow> u_id r \<noteq> u_id v \<Longrightarrow> r \<in> set (uploads (ps_db (put_upload v s)))"
  by (force simp: put_upload_db)

lemma remind_pass_inv:
  assumes step: "\<And>s u v s'. I s \<Longrightarrow> rewritten s s' u v \<Longrightarrow> active u \<Longrightarrow> reminded u v \<Longrightarrow> I s'"
    and cong: "\<And>s s'. ps_db s' = ps_db s \<Longrightarrow> I s \<Longrightarrow> I s'"
  shows "I s \<Longrightarrow> keys_ok (ps_db s) \<Longrightarrow> distinct (map u_id us) \<Longrightarrow> set us \<subseteq> set (uploads (ps_db s)) \<Longrightarrow>
    \<forall>u \<in> set us. active u \<Longrightarrow> I (snd (foldl (remind_one pd now today offsets) (out, s) us))"
proof (induction us arbitrary: out s)
  case (Cons u us)
  obtain out1 s1 where r: "remind_one pd now today offsets (out, s) u = (out1, s1)" by force
  have a: "active u" and u: "u \<in> set (uploads (ps_db s))" using Cons.prems by auto
  from remind_one_rewrites [OF a, of pd now today offsets out s] r
  consider "s1 = s" | v where "reminded u v" "ps_db s1 = ps_db (put_upload v s)" by auto
  then have "I s1 \<and> keys_ok (ps_db s1) \<and> set us \<subseteq> set (uploads (ps_db s1))"
  proof cases
    case 1
    then show ?thesis using Cons.prems by auto
  next
    case (2 v)
    have b: "same_bill u v" using 2(1) by (simp add: reminded_def)
    have "rewritten s s1 u v" using u b 2(2) by (simp add: rewritten_def)
    moreover have "w \<in> set (uploads (ps_db s1))" if "w \<in> set us" for w
    proof -
      have "u_id w \<noteq> u_id v" using that Cons.prems(3) same_bill_id [OF b] by (metis distinct.simps(2) image_eqI list.simps(9) set_map)
      then show ?thesis using that Cons.prems(4) 2(2) put_keeps_other by auto
    qed
    ultimately show ?thesis
      using step Cons.prems(1) a 2 keys_ok_put [OF Cons.prems(2) u b] by auto
  qed
  then show ?case using Cons.IH [of s1 out1] Cons.prems r by simp
qed simp

lemma remind_inv:
  assumes step: "\<And>s u v s'. I s \<Longrightarrow> rewritten s s' u v \<Longrightarrow> active u \<Longrightarrow> reminded u v \<Longrightarrow> I s'"
    and cong: "\<And>s s'. ps_db s' = ps_db s \<Longrightarrow> I s \<Longrightarrow> I s'"
    and "I s" "keys_ok (ps_db s)"
  shows "I (snd (check_and_send_reminders pd now today enabled offsets s))"
proof -
  let ?us = "latest_per_account pd (filter active (uploads (ps_db s)))"
  have sub: "set ?us \<subseteq> set (uploads (ps_db s))" "\<forall>u \<in> set ?us. active u"
    using latest_per_account_facts(1) [of pd "filter active (uploads (ps_db s))"] by auto
  have d: "distinct ?us" using latest_per_account_facts(2) [of pd "filter active (uploads (ps_db s))"] by (simp add: distinct_map)
  have "inj_on u_id (set ?us)"
    by (rule inj_onI) (use sub(1) upload_key_eq [OF assms(4)] in blast)
  then have ids: "distinct (map u_id ?us)" using d by (simp add: distinct_map)
  have "I (snd (foldl (remind_one pd now today offsets) ([], s) ?us))"
    by (rule remind_pass_inv [of I, OF step cong assms(3,4) ids sub])
  then show ?thesis
    using assms(3) unfolding check_and_send_reminders_def by (cases "\<not> enabled \<or> offsets = []") simp_all
qed

section \<open>Reparsing, the statement page and the startup migration\<close>

text \<open>The other writers of the payment columns: \<open>action=mark_unpaid\<close> of \<open>statement_payment\<close>
  (\<open>web/statements.py\<close>), whose \<open>action=mark_paid\<close> is \<open>mark_paid\<close>; the bill that a reparse stores
  (\<open>services/statements/shared.py\<close>) and the one that \<open>statement_reprocess\<close> stores; the deletion of
  a statement; the update of \<open>db/init_db.py\<close> that runs at every start.\<close>

definition unmarked :: "statement_upload \<Rightarrow> statement_upload" where
  "unmarked u =
     (let was_partial = (u_payment_status u = Some PARTIALLY_PAID);
          u = u\<lparr>u_payment_status := Some (if was_partial then PARTIALLY_PAID else UNPAID), u_payment_paid_at := None\<rparr>;
          u = (if was_partial then u else u\<lparr>u_payment_paid_amount := Some 0\<rparr>)
      in u\<lparr>u_sent_offsets := [], u_last_reminded_at := None\<rparr>)"

definition mark_unpaid :: "datetime \<Rightarrow> pay_state \<Rightarrow> nat \<Rightarrow> pay_state" where
  "mark_unpaid now s i =
     (case get_upload s i of
        None \<Rightarrow> s
      | Some u \<Rightarrow>
          if u_payment_status u = None then s
          else snd (emit_cc_snapshot now (unmarked u) (put_upload (unmarked u) s)))"

definition rebilled :: "string option \<Rightarrow> string option \<Rightarrow> statement_upload \<Rightarrow> statement_upload" where
  "rebilled due_text bill u = u\<lparr>u_due_date := due_text, u_total_amount_due := bill\<rparr>"

definition reprocessed_bill :: "string option \<Rightarrow> string option \<Rightarrow> statement_upload \<Rightarrow> statement_upload" where
  "reprocessed_bill due_text bill u = rebilled due_text bill
     (if u_due_date u \<noteq> due_text \<or> u_total_amount_due u \<noteq> bill
      then u\<lparr>u_payment_status := None, u_payment_paid_amount := Some 0, u_payment_paid_at := None,
             u_sent_offsets := [], u_last_reminded_at := None\<rparr>
      else u)"

definition delete_statement :: "pay_state \<Rightarrow> nat \<Rightarrow> pay_state" where
  "delete_statement s i =
     (if get_upload s i = None then s
      else s\<lparr>ps_db := (ps_db s)\<lparr>
        transactions := map (\<lambda>t. if t_statement_upload_id t = Some i then t\<lparr>t_statement_upload_id := None\<rparr> else t)
          (transactions (ps_db s)),
        uploads := filter (\<lambda>u. u_id u \<noteq> i) (uploads (ps_db s))\<rparr>\<rparr>)"

definition backfill_status :: "date \<Rightarrow> statement_upload \<Rightarrow> statement_upload" where
  "backfill_status today u =
     (if truthy (u_due_date u) \<and> truthy (u_total_amount_due u) \<and> u_payment_status u = None \<and>
         (case u_created_at u of None \<Rightarrow> False
          | Some c \<Rightarrow> ord_of (year_of today) (month_of today) 1 \<le> date_of c)
      then u\<lparr>u_payment_status := Some UNPAID\<rparr> else u)"

definition backfill_statuses :: "date \<Rightarrow> pay_state \<Rightarrow> pay_state" where
  "backfill_statuses today s =
     s\<lparr>ps_db := (ps_db s)\<lparr>uploads := map (backfill_status today) (uploads (ps_db s))\<rparr>\<rparr>"

text \<open>The columns the payment state of a statement depends on; a reparse also rewrites the others.\<close>

definition pay_columns :: "statement_upload \<Rightarrow> nat \<times> nat \<times> datetime option \<times> string option \<times> string option \<times>
    payment_status option \<times> datetime option \<times> rat option \<times> int list \<times> datetime option" where
  "pay_columns u = (u_id u, u_account_id u, u_created_at u, u_due_date u, u_total_amount_due u,
     u_payment_status u, u_payment_paid_at u, u_payment_paid_amount u, u_sent_offsets u, u_last_reminded_at u)"

lemma pay_columns_eq:
  assumes "pay_columns v = pay_columns u"
  shows "u_id v = u_id u" "u_due_date v = u_due_date u" "u_total_amount_due v = u_total_amount_due u"
    "u_payment_status v = u_payment_status u" "paid_amount v = paid_amount u" "amount_due v = amount_due u"
    "covered v = covered u"
  using assms by (simp_all add: pay_columns_def paid_amount_def amount_due_def covered_def)

section \<open>Runs of the payment state\<close>

text \<open>One step is one commit of one operation. The ledger, the accounts and the snapshots may change in any
  way between the operations; a reparse commits its import (\<open>Ledger\<close>) with the new bill (\<open>Reparse\<close>) and
  goes on to track (\<open>Track\<close>) or to resynchronise (\<open>Resync\<close>) the statement.\<close>

datatype pay_action = Ledger | Upload nat | Backfill | Track nat | Remind | Mark_paid nat | Mark_unpaid nat |
  Payment_received nat | Payment_deleted nat | Resync nat | Reparse nat "string option" "string option" |
  Reprocess nat "string option" "string option" | Delete_statement nat

inductive pay_step :: "date_parser \<Rightarrow> pay_state \<Rightarrow> pay_action \<Rightarrow> pay_state \<Rightarrow> bool" for pd where
  ledger: "keys_ok db \<Longrightarrow> credits_ok db \<Longrightarrow> uploads db = uploads (ps_db s) \<Longrightarrow> pay_step pd s Ledger (s\<lparr>ps_db := db, ps_snapshots := snapshots\<rparr>)"
| upload: "u_id u \<notin> u_id ` set (uploads (ps_db s)) \<Longrightarrow> u_payment_status u = None \<Longrightarrow> paid_amount u = 0 \<Longrightarrow>
    pay_step pd s (Upload (u_id u)) (s\<lparr>ps_db := (ps_db s)\<lparr>uploads := uploads (ps_db s) @ [u]\<rparr>\<rparr>)"
| backfill: "pay_step pd s Backfill (backfill_statuses today s)"
| track: "pay_step pd s (Track i) (snd (init_payment_tracking pd now today s i))"
| remind: "pay_step pd s Remind (snd (check_and_send_reminders pd now today enabled offsets s))"
| mark: "pay_step pd s (Mark_paid i) (snd (mark_paid now s i))"
| unmark: "pay_step pd s (Mark_unpaid i) (mark_unpaid now s i)"
| received: "pay_step pd s (Payment_received account_id) (snd (check_payment_received pd now s account_id))"
| deleted: "pay_step pd s (Payment_deleted account_id) (snd (recompute_cc_payment_for_account pd now s account_id))"
| resync: "get_upload s i = Some u \<Longrightarrow> pay_step pd s (Resync i) (snd (resync_tracked_cc_payment_state pd now s u))"
| reparse: "get_upload s i = Some u \<Longrightarrow> pay_columns v = pay_columns (rebilled due_text bill u) \<Longrightarrow>
    pay_step pd s (Reparse i due_text bill) (snd (emit_cc_snapshot now v (put_upload v s)))"
| reprocess: "get_upload s i = Some u \<Longrightarrow> pay_columns v = pay_columns (reprocessed_bill due_text bill u) \<Longrightarrow>
    pay_step pd s (Reprocess i due_text bill) (snd (emit_cc_snapshot now v (put_upload v s)))"
| delete: "pay_step pd s (Delete_statement i) (delete_statement s i)"

inductive pay_run :: "date_parser \<Rightarrow> pay_state \<Rightarrow> pay_action list \<Rightarrow> pay_state \<Rightarrow> bool" for pd and s where
  stay: "pay_run pd s [] s"
| more: "pay_run pd s as s' \<Longrightarrow> pay_step pd s' a s'' \<Longrightarrow> pay_run pd s (as @ [a]) s''"

definition pay_start :: "pay_state \<Rightarrow> bool" where
  "pay_start s \<longleftrightarrow> keys_ok (ps_db s) \<and> credits_ok (ps_db s) \<and> uploads (ps_db s) = []"

text \<open>An operation that rewrites one statement leaves every other row alone.\<close>

lemma ids_put_upload [simp]: "map u_id (uploads (ps_db (put_upload u s))) = map u_id (uploads (ps_db s))"
  by (simp add: put_upload_db comp_def if_distrib cong: if_cong)

lemma put_upload_rows: "v \<in> set (uploads (ps_db (put_upload u s))) \<Longrightarrow> v = u \<or> v \<in> set (uploads (ps_db s))"
  by (auto simp: put_upload_db)

lemma put_upload_ok [simp]:
  "keys_ok (ps_db (put_upload u s)) = keys_ok (ps_db s)" "credits_ok (ps_db (put_upload u s)) = credits_ok (ps_db s)"
  using ids_put_upload [of u s] by (simp_all add: keys_ok_def credits_ok_def put_upload_db del: ids_put_upload map_map)

definition tables_ok :: "pay_state \<Rightarrow> bool" where
  "tables_ok s \<longleftrightarrow> keys_ok (ps_db s) \<and> credits_ok (ps_db s) \<and>
     (\<forall>u \<in> set (uploads (ps_db s)). u_payment_status u \<noteq> Some PAID \<longrightarrow> 0 \<le> paid_amount u)"

lemma tables_okD: "tables_ok s \<Longrightarrow> u \<in> set (uploads (ps_db s)) \<Longrightarrow> u_payment_status u \<noteq> Some PAID \<Longrightarrow> covered u"
  by (auto simp: tables_ok_def covered_def)

lemma rewritten_rows:
  assumes "rewritten s s' u w" "v \<in> set (uploads (ps_db s'))"
  shows "v = w \<or> v \<in> set (uploads (ps_db s))"
  using assms put_upload_rows by (auto simp: rewritten_def)

text \<open>Where the rows after a step come from: a row keeps its payment columns, or the step leaves it
  covered, or a reparse gives a new bill to a statement that is already paid.\<close>

definition rebilled_paid :: "pay_state \<Rightarrow> pay_action \<Rightarrow> statement_upload \<Rightarrow> bool" where
  "rebilled_paid s a v \<longleftrightarrow> (\<exists>w \<in> set (uploads (ps_db s)). a = Reparse (u_id v) (u_due_date v) (u_total_amount_due v) \<and>
     u_id w = u_id v \<and> u_payment_status w = Some PAID \<and> u_payment_status v = Some PAID \<and> paid_amount w = paid_amount v)"

definition comes_from :: "pay_state \<Rightarrow> pay_action \<Rightarrow> statement_upload \<Rightarrow> bool" where
  "comes_from s a v \<longleftrightarrow> (\<exists>w \<in> set (uploads (ps_db s)). pay_columns w = pay_columns v) \<or> covered v \<or> rebilled_paid s a v"

lemma comes_from_rewritten:
  "rewritten s s' u w \<Longrightarrow> covered w \<Longrightarrow> v \<in> set (uploads (ps_db s')) \<Longrightarrow> comes_from s a v"
  using rewritten_rows by (fastforce simp: comes_from_def)

lemma covered_reminded: "active u \<Longrightarrow> covered u \<Longrightarrow> reminded u v \<Longrightarrow> covered v"
  using active_not_paid [of u] same_bill_fields [of u v] by (auto simp: covered_def reminded_def)

lemma remind_comes_from:
  assumes "tables_ok s" "v \<in> set (uploads (ps_db (snd (check_and_send_reminders pd now today enabled offsets s))))"
  shows "comes_from s a v"
proof -
  let ?I = "\<lambda>x. keys_ok (ps_db x) \<and> (\<forall>v \<in> set (uploads (ps_db x)). v \<in> set (uploads (ps_db s)) \<or> covered v)"
  have "?I (snd (check_and_send_reminders pd now today enabled offsets s))"
  proof (rule remind_inv [of ?I])
    show "?I s2" if I: "?I s1" and r: "rewritten s1 s2 u w" and "active u" "reminded u w" for s1 u w s2
    proof -
      have "covered u" using I r tables_okD [OF assms(1)] active_not_paid [OF \<open>active u\<close>] by (auto simp: rewritten_def)
      then have "covered w" using covered_reminded \<open>active u\<close> \<open>reminded u w\<close> by blast
      then show ?thesis using I rewritten_rows [OF r] keys_ok_put [of s1 u w] r by (auto simp: rewritten_def)
    qed
  qed (use assms in \<open>auto simp: tables_ok_def\<close>)
  then show ?thesis using assms(2) by (auto simp: comes_from_def)
qed

lemma unmarked_facts [simp]: "u_id (unmarked u) = u_id u"
  by (simp add: unmarked_def Let_def)

lemma covered_unmarked:
  assumes "tables_ok s" "u \<in> set (uploads (ps_db s))"
  shows "covered (unmarked u)"
proof -
  have "0 \<le> paid_amount u" if "u_payment_status u = Some PARTIALLY_PAID"
    using that assms by (auto simp: tables_ok_def)
  then show ?thesis by (auto simp: unmarked_def Let_def covered_def paid_amount_def)
qed

lemma mark_unpaid_cases:
  obtains "mark_unpaid now s i = s"
  | u where "u \<in> set (uploads (ps_db s))" "u_id u = i" "ps_db (mark_unpaid now s i) = ps_db (put_upload (unmarked u) s)"
proof (cases "get_upload s i")
  case None
  then show thesis using that(1) by (simp add: mark_unpaid_def)
next
  case (Some u)
  then show thesis
    using that(1) that(2) [of u] get_upload_Some [OF Some] by (cases "u_payment_status u = None") (simp_all add: mark_unpaid_def)
qed

text \<open>One step, row by row.\<close>

lemma rebilled_comes_from:
  assumes "get_upload s i = Some u" "pay_columns v = pay_columns (rebilled due_text bill u)" "tables_ok s"
  shows "comes_from s (Reparse i due_text bill) v"
proof -
  note u = get_upload_Some [OF assms(1)] and e = pay_columns_eq [OF assms(2)]
  have f: "u_id v = i" "u_due_date v = due_text" "u_total_amount_due v = bill"
    "u_payment_status v = u_payment_status u" "paid_amount v = paid_amount u"
    using e u by (simp_all add: rebilled_def paid_amount_def)
  show ?thesis
  proof (cases "u_payment_status u = Some PAID")
    case True
    then have "rebilled_paid s (Reparse i due_text bill) v" using u f by (auto simp: rebilled_paid_def)
    then show ?thesis by (simp add: comes_from_def)
  next
    case False
    then have "covered v" using tables_okD [OF assms(3)] u f by (simp add: covered_def)
    then show ?thesis by (simp add: comes_from_def)
  qed
qed

lemma reprocessed_comes_from:
  assumes "get_upload s i = Some u" "pay_columns v = pay_columns (reprocessed_bill due_text bill u)"
  shows "comes_from s a v"
proof (cases "u_due_date u \<noteq> due_text \<or> u_total_amount_due u \<noteq> bill")
  case True
  then have "covered v"
    using pay_columns_eq(7) [OF assms(2)] by (simp add: reprocessed_bill_def rebilled_def covered_def paid_amount_def)
  then show ?thesis by (simp add: comes_from_def)
next
  case False
  then have "pay_columns v = pay_columns u" using assms(2) by (auto simp: reprocessed_bill_def rebilled_def pay_columns_def)
  then show ?thesis using get_upload_Some [OF assms(1)] by (auto simp: comes_from_def)
qed

lemma kept_comes_from: "v \<in> set (uploads (ps_db s)) \<Longrightarrow> comes_from s a v"
  by (auto simp: comes_from_def)

lemma put_comes_from:
  "v \<in> set (uploads (ps_db (put_upload w s))) \<Longrightarrow> comes_from s a w \<Longrightarrow> comes_from s a v"
  using put_upload_rows kept_comes_from by metis

lemma step_rows:
  assumes "pay_step pd s a s'" and ok: "tables_ok s" and v: "v \<in> set (uploads (ps_db s'))"
  shows "comes_from s a v"
proof (cases "s' = s")
  case False
  have c: "credits_ok (ps_db s)" using ok by (simp add: tables_ok_def)
  have w: "comes_from s a v" if "rewritten s s' u x" "credits_ok (ps_db s) \<Longrightarrow> covered x" for u x
    using comes_from_rewritten [OF that(1) that(2) [OF c] v] .
  from assms(1) show ?thesis
  proof cases
    case (ledger db snapshots)
    then show ?thesis using v kept_comes_from by simp
  next
    case (upload u)
    then have "v = u \<or> v \<in> set (uploads (ps_db s))" using v by auto
    moreover have "covered u" using upload by (simp add: covered_def)
    ultimately show ?thesis using kept_comes_from by (auto simp: comes_from_def)
  next
    case (backfill today)
    then obtain u where u: "u \<in> set (uploads (ps_db s))" "v = backfill_status today u"
      using v by (auto simp: backfill_statuses_def)
    then show ?thesis
      using tables_okD [OF ok u(1)] kept_comes_from [OF u(1)]
      by (auto simp: comes_from_def backfill_status_def covered_def paid_amount_def)
  next
    case (track i now today)
    then show ?thesis using init_rewrites [OF prod.collapse [symmetric], of pd now today s i] False w by metis
  next
    case (remind now today enabled offsets)
    then show ?thesis using remind_comes_from [OF ok] v by simp
  next
    case (mark i now)
    then show ?thesis using mark_rewrites [OF prod.collapse [symmetric], of now s i] False w by metis
  next
    case (unmark i now)
    show ?thesis
    proof (rule mark_unpaid_cases [of now s i])
      fix u assume "u \<in> set (uploads (ps_db s))" "ps_db (mark_unpaid now s i) = ps_db (put_upload (unmarked u) s)"
      then show ?thesis
        using covered_unmarked [OF ok] v unmark put_comes_from [of v "unmarked u" s a] by (simp add: comes_from_def)
    qed (use unmark False in simp)
  next
    case (received account_id now)
    then show ?thesis using check_rewrites [OF prod.collapse [symmetric], of pd now s account_id] False w by metis
  next
    case (deleted account_id now)
    then show ?thesis using reopen_rewrites [OF prod.collapse [symmetric], of pd now s account_id] False w by metis
  next
    case (resync i u now)
    then show ?thesis
      using resync_rewrites [OF prod.collapse [symmetric], of pd now s u] get_upload_Some [of s i u] False w by metis
  next
    case (reparse i u x due_text bill)
    then show ?thesis using rebilled_comes_from [OF _ _ ok] put_comes_from [of v x s a] v by simp
  next
    case (reprocess i u x due_text bill)
    then show ?thesis using reprocessed_comes_from [of s i u x] put_comes_from [of v x s a] v by simp
  next
    case (delete i)
    then show ?thesis using v kept_comes_from by (auto simp: delete_statement_def split: if_splits)
  qed
qed (use v kept_comes_from in simp)

definition keys_credits :: "pay_state \<Rightarrow> bool" where
  "keys_credits s \<longleftrightarrow> keys_ok (ps_db s) \<and> credits_ok (ps_db s)"

lemma keys_credits_put: "keys_credits s \<Longrightarrow> ps_db s' = ps_db (put_upload w s) \<Longrightarrow> keys_credits s'"
  by (simp add: keys_credits_def)

lemma keys_credits_rewritten: "keys_credits s \<Longrightarrow> rewritten s s' u w \<Longrightarrow> keys_credits s'"
  by (auto simp: rewritten_def intro: keys_credits_put)

lemma keys_credits_map:
  assumes "keys_credits s" "\<And>u. u_id (f u) = u_id u"
  shows "keys_credits (s\<lparr>ps_db := (ps_db s)\<lparr>uploads := map f (uploads (ps_db s))\<rparr>\<rparr>)"
  using assms by (simp add: keys_credits_def keys_ok_def credits_ok_def comp_def)

lemma keys_credits_delete: "keys_credits s \<Longrightarrow> keys_credits (delete_statement s i)"
  by (auto simp: keys_credits_def delete_statement_def keys_ok_def credits_ok_def distinct_map_filter comp_def
    if_distrib [of t_id] if_distrib [of t_amount] cong: if_cong)

lemma keys_credits_step:
  assumes "pay_step pd s a s'" "keys_credits s"
  shows "keys_credits s'"
proof (cases "s' = s")
  case False
  note w = keys_credits_rewritten [OF assms(2)] and p = keys_credits_put [OF assms(2)]
  from assms(1) show ?thesis
  proof cases
    case (ledger db snapshots)
    then show ?thesis by (simp add: keys_credits_def)
  next
    case (upload u)
    then show ?thesis using assms(2) by (auto simp: keys_credits_def keys_ok_def credits_ok_def)
  next
    case (backfill today)
    then show ?thesis using keys_credits_map [OF assms(2)] by (simp add: backfill_statuses_def backfill_status_def)
  next
    case (track i now today)
    then show ?thesis using init_rewrites [OF prod.collapse [symmetric], of pd now today s i] False w by blast
  next
    case (remind now today enabled offsets)
    have "keys_credits (snd (check_and_send_reminders pd now today enabled offsets s))"
    proof (rule remind_inv [of keys_credits])
      show "keys_credits s2" if "keys_credits s1" "rewritten s1 s2 u v" for s1 u v s2
        by (rule keys_credits_rewritten [OF that])
    qed (use assms(2) in \<open>simp_all add: keys_credits_def\<close>)
    then show ?thesis using remind by simp
  next
    case (mark i now)
    then show ?thesis using mark_rewrites [OF prod.collapse [symmetric], of now s i] False w by blast
  next
    case (unmark i now)
    then show ?thesis using mark_unpaid_cases [of now s i] False p by metis
  next
    case (received account_id now)
    then show ?thesis using check_rewrites [OF prod.collapse [symmetric], of pd now s account_id] False w by blast
  next
    case (deleted account_id now)
    then show ?thesis using reopen_rewrites [OF prod.collapse [symmetric], of pd now s account_id] False w by blast
  next
    case (resync i u now)
    then show ?thesis
      using resync_rewrites [OF prod.collapse [symmetric], of pd now s u] get_upload_Some [of s i u] False w by blast
  next
    case (delete i)
    then show ?thesis using keys_credits_delete [OF assms(2)] by simp
  qed (use p in simp_all)
qed (use assms in simp)

lemma tables_ok_step:
  assumes "pay_step pd s a s'" "tables_ok s"
  shows "tables_ok s'"
proof -
  have "keys_credits s'" using keys_credits_step [OF assms(1)] assms(2) by (simp add: keys_credits_def tables_ok_def)
  moreover have "0 \<le> paid_amount v" if v: "v \<in> set (uploads (ps_db s'))" "u_payment_status v \<noteq> Some PAID" for v
  proof -
    from step_rows [OF assms v(1)] v(2) consider w where "w \<in> set (uploads (ps_db s))" "pay_columns w = pay_columns v" | "covered v"
      unfolding comes_from_def rebilled_paid_def by blast
    then show ?thesis
    proof cases
      case (1 w)
      have "u_payment_status w \<noteq> Some PAID" "paid_amount w = paid_amount v" using pay_columns_eq(4,5) [OF 1(2)] v(2) by simp_all
      then show ?thesis using bspec [of "set (uploads (ps_db s))" _ w] 1(1) assms(2) by (auto simp: tables_ok_def)
    next
      case 2
      then show ?thesis using v(2) by (simp add: covered_def)
    qed
  qed
  ultimately show ?thesis by (auto simp: tables_ok_def keys_credits_def)
qed

lemma tables_ok_run: "pay_run pd s as s' \<Longrightarrow> tables_ok s \<Longrightarrow> tables_ok s'"
  by (induction rule: pay_run.induct) (auto intro: tables_ok_step)

lemma pay_start_ok: "pay_start s \<Longrightarrow> tables_ok s"
  by (simp add: pay_start_def tables_ok_def)

section \<open>Paid means covered\<close>

text \<open>The bill of the statement was stored by a reparse of the run when the statement was already
  paid, with the paid amount it has now.\<close>

definition rebilled_in :: "date_parser \<Rightarrow> pay_state \<Rightarrow> pay_action list \<Rightarrow> statement_upload \<Rightarrow> bool" where
  "rebilled_in pd s as v \<longleftrightarrow> (\<exists>before later s1 u. as = before @ Reparse (u_id v) (u_due_date v) (u_total_amount_due v) # later \<and>
     pay_run pd s before s1 \<and> u \<in> set (uploads (ps_db s1)) \<and> u_id u = u_id v \<and> u_payment_status u = Some PAID \<and>
     paid_amount u = paid_amount v)"

lemma rebilled_in_more: "rebilled_in pd s as v \<Longrightarrow> rebilled_in pd s (as @ [a]) v"
  unfolding rebilled_in_def by (metis append.assoc append_Cons)

lemma rebilled_in_cong: "pay_columns w = pay_columns v \<Longrightarrow> rebilled_in pd s as w = rebilled_in pd s as v"
  using pay_columns_eq [of w v] by (simp add: rebilled_in_def)

lemma covered_or_rebilled:
  "pay_run pd s as s' \<Longrightarrow> pay_start s \<Longrightarrow> v \<in> set (uploads (ps_db s')) \<Longrightarrow> covered v \<or> rebilled_in pd s as v"
proof (induction arbitrary: v rule: pay_run.induct)
  case stay
  then show ?case by (simp add: pay_start_def)
next
  case (more as s1 a s2)
  have "comes_from s1 a v"
    using step_rows [OF more.hyps(2)] tables_ok_run [OF more.hyps(1)] pay_start_ok more.prems by blast
  then consider (kept) w where "w \<in> set (uploads (ps_db s1))" "pay_columns w = pay_columns v" | "covered v"
    | (new) "rebilled_paid s1 a v" unfolding comes_from_def by blast
  then show ?case
  proof cases
    case kept
    then show ?thesis
      using more.IH [OF more.prems(1) kept(1)] rebilled_in_more rebilled_in_cong [OF kept(2)] pay_columns_eq(7) [OF kept(2)] by blast
  next
    case new
    then have "rebilled_in pd s (as @ [a]) v"
      using more.hyps(1) unfolding rebilled_paid_def rebilled_in_def by blast
    then show ?thesis by blast
  qed blast
qed

text \<open>C16. A statement becomes paid only when it is paid for. After any sequence of ledger changes,
  uploads, reminder passes, payments, manual marks and unmarks, reparses, reprocessings,
  deletions and restarts that starts from no statements, with no negative credit: a statement
  that is not paid has a nonnegative recorded payment; and if a paid statement has recorded less
  than its total, then the due date and the total it shows were stored by a reparse that met it
  already paid, with the same recorded payment.\<close>

theorem paid_means_covered:
  assumes "pay_start s" "pay_run pd s as s'" "v \<in> set (uploads (ps_db s'))"
  shows "(u_payment_status v \<noteq> Some PAID \<longrightarrow> 0 \<le> paid_amount v) \<and>
    (u_payment_status v = Some PAID \<and> amount_due v = Some d \<and> paid_amount v < d \<longrightarrow>
     (\<exists>before later s1 u. as = before @ Reparse (u_id v) (u_due_date v) (u_total_amount_due v) # later \<and>
        pay_run pd s before s1 \<and> u \<in> set (uploads (ps_db s1)) \<and> u_id u = u_id v \<and>
        u_payment_status u = Some PAID \<and> paid_amount u = paid_amount v))"
proof -
  have "tables_ok s'" using tables_ok_run [OF assms(2) pay_start_ok [OF assms(1)]] .
  then show ?thesis
    using covered_or_rebilled [OF assms(2,1,3)] assms(3) unfolding rebilled_in_def
    by (auto simp: tables_ok_def covered_def)
qed

section \<open>What reopens a paid statement\<close>

text \<open>The actions aimed at the payment state of a statement: the deletion of a payment of its
  account, the page's unmark, a new bill, its own deletion.\<close>

fun reopens :: "statement_upload \<Rightarrow> pay_action \<Rightarrow> bool" where
  "reopens u (Payment_deleted a) = (a = u_account_id u)"
| "reopens u (Mark_unpaid i) = (i = u_id u)"
| "reopens u (Reparse i due_text bill) = (i = u_id u \<and> (due_text, bill) \<noteq> (u_due_date u, u_total_amount_due u))"
| "reopens u (Reprocess i due_text bill) = (i = u_id u \<and> (due_text, bill) \<noteq> (u_due_date u, u_total_amount_due u))"
| "reopens u (Delete_statement i) = (i = u_id u)"
| "reopens u _ = False"

definition holds :: "statement_upload \<Rightarrow> pay_state \<Rightarrow> bool" where
  "holds r s \<longleftrightarrow> keys_ok (ps_db s) \<and> (\<exists>w \<in> set (uploads (ps_db s)). pay_columns w = pay_columns r)"

lemma holds_row: "keys_ok (ps_db s') \<Longrightarrow> w \<in> set (uploads (ps_db s')) \<Longrightarrow> pay_columns w = pay_columns r \<Longrightarrow> holds r s'"
  by (auto simp: holds_def)

lemma put_keeps_row:
  "w \<in> set (uploads (ps_db s)) \<Longrightarrow> u_id v \<noteq> u_id w \<Longrightarrow> w \<in> set (uploads (ps_db (put_upload v s)))"
  by (force simp: put_upload_db)

lemma put_row: "w \<in> set (uploads (ps_db s)) \<Longrightarrow> u_id v = u_id w \<Longrightarrow> v \<in> set (uploads (ps_db (put_upload v s)))"
  by (force simp: put_upload_db)

text \<open>Rewriting another statement.\<close>

lemma holds_rewritten:
  assumes "holds r s" "rewritten s s' u v" "u_payment_status u \<noteq> u_payment_status r \<or> u_account_id u \<noteq> u_account_id r"
  shows "holds r s'"
proof -
  obtain w where w: "keys_ok (ps_db s)" "w \<in> set (uploads (ps_db s))" "pay_columns w = pay_columns r"
    using assms(1) by (auto simp: holds_def)
  have u: "u \<in> set (uploads (ps_db s))" "same_bill u v" "ps_db s' = ps_db (put_upload v s)"
    using assms(2) by (auto simp: rewritten_def)
  have "u \<noteq> w" using assms(3) w(3) by (auto simp: pay_columns_def)
  then have "u_id v \<noteq> u_id w" using upload_key_eq [OF w(1) u(1) w(2)] same_bill_id [OF u(2)] by auto
  then show ?thesis using put_keeps_row [OF w(2)] w u(3) by (intro holds_row [of _ w]) simp_all
qed

text \<open>Storing a bill.\<close>

lemma holds_put:
  assumes "holds r s" "get_upload s i = Some u" "pay_columns v = pay_columns u'" "u_id u' = u_id u"
    "u_id u = u_id r \<Longrightarrow> pay_columns u = pay_columns r \<Longrightarrow> pay_columns u' = pay_columns r"
  shows "holds r (snd (emit_cc_snapshot now v (put_upload v s)))"
proof -
  obtain w where w: "keys_ok (ps_db s)" "w \<in> set (uploads (ps_db s))" "pay_columns w = pay_columns r"
    using assms(1) by (auto simp: holds_def)
  note u = get_upload_Some [OF assms(2)]
  have v: "u_id v = u_id u" using pay_columns_eq(1) [OF assms(3)] assms(4) by simp
  show ?thesis
  proof (cases "u_id u = u_id w")
    case True
    then have "u = w" using upload_key_eq [OF w(1) conjunct1 [OF u] w(2)] by simp
    moreover have "u_id w = u_id r" by (rule pay_columns_eq [OF w(3)])
    ultimately have "pay_columns v = pay_columns r" using assms(3,5) w(3) True by simp
    then show ?thesis using w(1) put_row [OF w(2), of v] v True by (intro holds_row [of _ v]) simp_all
  next
    case False
    then show ?thesis using w put_keeps_row [OF w(2), of v] v by (intro holds_row [of _ w]) simp_all
  qed
qed

lemma holds_step:
  assumes "pay_step pd s a s'" "holds r s" and paid: "u_payment_status r = Some PAID" and "\<not> reopens r a"
  shows "holds r s'"
proof (cases "s' = s")
  case False
  note w = holds_rewritten [OF assms(2)]
  obtain x where x: "keys_ok (ps_db s)" "x \<in> set (uploads (ps_db s))" "pay_columns x = pay_columns r"
    using assms(2) by (auto simp: holds_def)
  have px: "u_payment_status x = Some PAID" "u_id x = u_id r" using pay_columns_eq [OF x(3)] paid by simp_all
  have act: "u_payment_status u \<noteq> u_payment_status r" if "active u" for u using active_not_paid [OF that] paid by simp
  from assms(1) show ?thesis
  proof cases
    case (ledger db snapshots)
    then show ?thesis using x by (auto simp: holds_def)
  next
    case (upload u)
    then show ?thesis using x by (auto simp: holds_def keys_ok_def)
  next
    case (backfill today)
    have "backfill_status today x = x" using px by (simp add: backfill_status_def)
    moreover have "map u_id (uploads (ps_db s')) = map u_id (uploads (ps_db s))"
      using backfill by (simp add: backfill_statuses_def backfill_status_def comp_def)
    ultimately show ?thesis
      using backfill x by (intro holds_row [of _ x]) (auto simp: backfill_statuses_def keys_ok_def simp del: map_map, force)
  next
    case (track i now today)
    then obtain u v where u: "rewritten s s' u v" "u_payment_status u = None"
      using init_rewrites [OF prod.collapse [symmetric], of pd now today s i] False by blast
    then show ?thesis using w [OF u(1)] paid by simp
  next
    case (remind now today enabled offsets)
    have "holds r (snd (check_and_send_reminders pd now today enabled offsets s))"
    proof (rule remind_inv [of "holds r"])
      show "holds r s2" if "holds r s1" "rewritten s1 s2 u v" "active u" "reminded u v" for s1 u v s2
        using holds_rewritten [OF that(1,2)] act [OF that(3)] by blast
    qed (use x in \<open>auto simp: holds_def\<close>)
    then show ?thesis using remind by simp
  next
    case (mark i now)
    then obtain u v where u: "rewritten s s' u v" "u_payment_status u \<noteq> Some PAID"
      using mark_rewrites [OF prod.collapse [symmetric], of now s i] False by blast
    then show ?thesis using w [OF u(1)] paid by simp
  next
    case (unmark i now)
    obtain u where u: "u_id u = i" "ps_db s' = ps_db (put_upload (unmarked u) s)"
      using mark_unpaid_cases [of now s i] unmark False by metis
    have "i \<noteq> u_id x" using assms(4) unmark px by simp
    then show ?thesis using x u put_keeps_row [OF x(2), of "unmarked u"] by (intro holds_row [of _ x]) simp_all
  next
    case (received account_id now)
    then obtain u v where u: "rewritten s s' u v" "active u"
      using check_rewrites [OF prod.collapse [symmetric], of pd now s account_id] False by blast
    show ?thesis using w [OF u(1)] act [OF u(2)] by blast
  next
    case (deleted account_id now)
    then obtain u p where u: "latest_active_cycle pd s account_id True = Some u"
      "recompute_cc_payment_state pd now s u False = Some (p, s')"
      using False by (auto simp: recompute_cc_payment_for_account_def split: option.splits if_splits)
    note l = latest_active_cycle_facts [OF u(1)]
    obtain v where v: "rewritten s s' u v" using recompute_rewrites [OF u(2) l(1)] by blast
    have "u_account_id u \<noteq> u_account_id r" using assms(4) deleted l(2) by simp
    then show ?thesis using w [OF v] by blast
  next
    case (resync i u now)
    then obtain v where u: "rewritten s s' u v" "active u"
      using resync_rewrites [OF prod.collapse [symmetric], of pd now s u] get_upload_Some [of s i u] False by blast
    show ?thesis using w [OF u(1)] act [OF u(2)] by blast
  next
    case (reparse i u v due_text bill)
    have n: "i = u_id r \<longrightarrow> (due_text, bill) = (u_due_date r, u_total_amount_due r)" using assms(4) reparse by simp
    show ?thesis unfolding reparse
    proof (rule holds_put [OF assms(2) reparse(3,4)])
      show "pay_columns (rebilled due_text bill u) = pay_columns r" if "u_id u = u_id r" "pay_columns u = pay_columns r"
        using that n get_upload_Some [OF reparse(3)] by (simp add: rebilled_def pay_columns_def)
    qed (simp add: rebilled_def)
  next
    case (reprocess i u v due_text bill)
    have n: "i = u_id r \<longrightarrow> (due_text, bill) = (u_due_date r, u_total_amount_due r)" using assms(4) reprocess by simp
    show ?thesis unfolding reprocess
    proof (rule holds_put [OF assms(2) reprocess(3,4)])
      show "pay_columns (reprocessed_bill due_text bill u) = pay_columns r" if "u_id u = u_id r" "pay_columns u = pay_columns r"
        using that n get_upload_Some [OF reprocess(3)] by (simp add: reprocessed_bill_def rebilled_def pay_columns_def)
    qed (simp add: reprocessed_bill_def rebilled_def)
  next
    case (delete i)
    then have "i \<noteq> u_id x" using assms(4) px by simp
    then have "x \<in> set (uploads (ps_db s'))" using x(2) delete by (simp add: delete_statement_def)
    moreover have "keys_ok (ps_db s')"
      using x(1) delete by (auto simp: delete_statement_def keys_ok_def distinct_map_filter comp_def if_distrib [of t_id] cong: if_cong)
    ultimately show ?thesis using x(3) by (auto simp: holds_def)
  qed
qed (use assms in simp)

text \<open>C17. What can reopen a paid statement. Along any run in which no payment of its account is
  deleted, the statement itself is neither marked unpaid nor deleted, and no reparse or
  reprocessing gives it another due date or total, a statement marked as paid (by hand or by its
  payments) keeps its status, its recorded payment and the time of it, its bill and its
  reminders, whatever ledger changes, uploads, reminder passes, payments, marks, reparses and
  restarts the run has.\<close>

theorem paid_stays_paid:
  assumes "pay_run pd s as s'" "keys_ok (ps_db s)" "u \<in> set (uploads (ps_db s))" "u_payment_status u = Some PAID"
    and "\<forall>a \<in> set as. \<not> reopens u a"
  shows "\<exists>v \<in> set (uploads (ps_db s')). pay_columns v = pay_columns u"
proof -
  have "holds u s'"
    using assms(1,5)
  proof induction
    case stay
    then show ?case using assms(2,3) by (auto simp: holds_def)
  next
    case (more as s1 a s2)
    then show ?case using holds_step [OF more.hyps(2) _ assms(4)] by simp
  qed
  then show ?thesis by (auto simp: holds_def)
qed

section \<open>What a reminder pass sends\<close>

text \<open>The loop over the offsets in closed form.\<close>

definition elapsed :: "date \<Rightarrow> date \<Rightarrow> bool \<Rightarrow> int \<Rightarrow> bool" where
  "elapsed today dd late n \<longleftrightarrow> late \<and> 0 < n \<or> dd - n \<le> today"

definition rings :: "date \<Rightarrow> date \<Rightarrow> bool \<Rightarrow> int \<Rightarrow> bool" where
  "rings today dd late n \<longleftrightarrow> \<not> (late \<and> 0 < n) \<and> dd - n \<le> today"

lemma remind_offsets_closed:
  "remind_offsets today dd late os (al, ch, se) =
    (al \<union> {n \<in> set os. elapsed today dd late n},
     ch \<or> (\<exists>n \<in> set os. n \<notin> al \<and> elapsed today dd late n),
     se \<or> (\<exists>n \<in> set os. n \<notin> al \<and> rings today dd late n))"
proof (induction os arbitrary: al ch se)
  case (Cons n os)
  consider (old) "n \<in> al" | (past) "n \<notin> al" "late \<and> 0 < n" | (ring) "n \<notin> al" "\<not> (late \<and> 0 < n)" "dd - n \<le> today"
    | (wait) "n \<notin> al" "\<not> (late \<and> 0 < n)" "\<not> dd - n \<le> today" by blast
  then show ?case
  proof cases
    case old
    then show ?thesis using Cons [of al ch se] by auto
  next
    case past
    then have "elapsed today dd late n" "\<not> rings today dd late n" by (auto simp: elapsed_def rings_def)
    then show ?thesis using past Cons [of "insert n al" True se] by auto
  next
    case ring
    then have "elapsed today dd late n" "rings today dd late n" by (auto simp: elapsed_def rings_def)
    then show ?thesis using ring Cons [of "insert n al" True True] by auto
  next
    case wait
    then have "\<not> elapsed today dd late n" "\<not> rings today dd late n" by (auto simp: elapsed_def rings_def)
    then show ?thesis using wait Cons [of al ch se] by auto
  qed
qed simp

text \<open>What a pass does to one statement, and what it sends about it.\<close>

definition pass_row :: "date_parser \<Rightarrow> datetime \<Rightarrow> date \<Rightarrow> int list \<Rightarrow> statement_upload \<Rightarrow> statement_upload" where
  "pass_row pd now today os u = (case due pd (u_due_date u) of None \<Rightarrow> u
     | Some dd \<Rightarrow> if STALE_DAYS < today - dd \<or> amount_due u = None then mark_late today dd u
         else if the (amount_due u) \<le> 0 then (mark_late today dd u)\<lparr>u_payment_status := Some PAID\<rparr>
         else snd (remind_row now today dd os (mark_late today dd u)))"

definition pass_out :: "date_parser \<Rightarrow> datetime \<Rightarrow> date \<Rightarrow> int list \<Rightarrow> statement_upload \<Rightarrow> reminder list" where
  "pass_out pd now today os u = (case due pd (u_due_date u) of None \<Rightarrow> []
     | Some dd \<Rightarrow> if STALE_DAYS < today - dd \<or> amount_due u = None \<or> the (amount_due u) \<le> 0 then []
         else if fst (remind_row now today dd os (mark_late today dd u)) then [(u_id u, dd - today)] else [])"

lemma pass_row_facts [simp]:
  "u_id (pass_row pd now today os u) = u_id u" "u_due_date (pass_row pd now today os u) = u_due_date u"
  "amount_due (pass_row pd now today os u) = amount_due u" "u_account_id (pass_row pd now today os u) = u_account_id u"
proof -
  have a: "u_account_id (snd (remind_row now today dd os v)) = u_account_id v" for dd v
    by (simp add: remind_row_def case_prod_unfold Let_def)
  have b: "u_account_id (mark_late today dd v) = u_account_id v" for dd v by (simp add: mark_late_def)
  have c: "amount_due (v\<lparr>u_payment_status := x\<rparr>) = amount_due v" for v x by (simp add: amount_due_def)
  show "u_id (pass_row pd now today os u) = u_id u" "u_due_date (pass_row pd now today os u) = u_due_date u"
    "amount_due (pass_row pd now today os u) = amount_due u" "u_account_id (pass_row pd now today os u) = u_account_id u"
    by (simp_all add: pass_row_def a b c split: option.split)
qed

lemma put_same: "keys_ok (ps_db s) \<Longrightarrow> u \<in> set (uploads (ps_db s)) \<Longrightarrow> put_upload u s = s"
proof -
  assume "keys_ok (ps_db s)" "u \<in> set (uploads (ps_db s))"
  then have "map (\<lambda>r. if u_id r = u_id u then u else r) (uploads (ps_db s)) = uploads (ps_db s)"
    using upload_key_eq by (intro map_idI) auto
  then show "put_upload u s = s" by (simp add: put_upload_def)
qed

lemma remind_one_pass:
  assumes "keys_ok (ps_db s)" "u \<in> set (uploads (ps_db s))"
  shows "fst (remind_one pd now today os (out, s) u) = out @ pass_out pd now today os u"
    and "ps_db (snd (remind_one pd now today os (out, s) u)) = ps_db (put_upload (pass_row pd now today os u) s)"
    and "(\<forall>d. amount_due u = Some d \<longrightarrow> 0 < d) \<Longrightarrow>
      snd (remind_one pd now today os (out, s) u) = put_upload (pass_row pd now today os u) s"
  using put_same [OF assms]
  by (simp_all add: remind_one_def pass_out_def pass_row_def case_prod_unfold Let_def split: option.split)
    (auto simp: not_le [symmetric])

lemma remind_pass_closed:
  assumes "keys_ok (ps_db s)" "distinct (map u_id us)" "set us \<subseteq> set (uploads (ps_db s))"
  shows "fst (foldl (remind_one pd now today os) (out, s) us) = out @ concat (map (pass_out pd now today os) us)"
    and "ps_db (snd (foldl (remind_one pd now today os) (out, s) us)) = (ps_db s)\<lparr>uploads :=
      map (\<lambda>r. if r \<in> set us then pass_row pd now today os r else r) (uploads (ps_db s))\<rparr>"
    and "(\<forall>u \<in> set us. \<forall>d. amount_due u = Some d \<longrightarrow> 0 < d) \<Longrightarrow>
      snd (foldl (remind_one pd now today os) (out, s) us) = s\<lparr>ps_db := (ps_db s)\<lparr>uploads :=
      map (\<lambda>r. if r \<in> set us then pass_row pd now today os r else r) (uploads (ps_db s))\<rparr>\<rparr>"
proof -
  let ?R = "pass_row pd now today os" and ?f = "remind_one pd now today os"
  have "fst (foldl ?f (out, s) us) = out @ concat (map (pass_out pd now today os) us) \<and>
      ps_db (snd (foldl ?f (out, s) us)) = (ps_db s)\<lparr>uploads := map (\<lambda>r. if r \<in> set us then ?R r else r) (uploads (ps_db s))\<rparr> \<and>
      ((\<forall>u \<in> set us. \<forall>d. amount_due u = Some d \<longrightarrow> 0 < d) \<longrightarrow>
        ps_snapshots (snd (foldl ?f (out, s) us)) = ps_snapshots s)"
    using assms(2,3)
  proof (induction us rule: rev_induct)
    case (snoc u us)
    obtain o1 s1 where f: "foldl ?f (out, s) us = (o1, s1)" by force
    let ?g = "\<lambda>r. if r \<in> set us then ?R r else r"
    have ih: "o1 = out @ concat (map (pass_out pd now today os) us)"
      "ps_db s1 = (ps_db s)\<lparr>uploads := map ?g (uploads (ps_db s))\<rparr>"
      "(\<forall>u \<in> set us. \<forall>d. amount_due u = Some d \<longrightarrow> 0 < d) \<longrightarrow> ps_snapshots s1 = ps_snapshots s"
      using snoc f by auto
    have new: "u_id u \<notin> u_id ` set us" and um: "u \<in> set (uploads (ps_db s))" using snoc.prems by auto
    then have gu: "?g u = u" by auto
    have k1: "keys_ok (ps_db s1)" using assms(1) by (simp add: ih(2) keys_ok_def comp_def if_distrib cong: if_cong)
    have u1: "u \<in> set (uploads (ps_db s1))" using um gu by (force simp: ih(2))
    have "(if u_id (?g r) = u_id u then ?R u else ?g r) = (if r \<in> set (us @ [u]) then ?R r else r)"
      if "r \<in> set (uploads (ps_db s))" for r
      using upload_key_eq [OF assms(1) that um] new by auto
    then have "ps_db (put_upload (?R u) s1) = (ps_db s)\<lparr>uploads :=
        map (\<lambda>r. if r \<in> set (us @ [u]) then ?R r else r) (uploads (ps_db s))\<rparr>"
      by (simp add: put_upload_db ih(2))
    moreover have "ps_snapshots (put_upload (?R u) s1) = ps_snapshots s1" by (simp add: put_upload_def)
    ultimately show ?case
      using remind_one_pass [OF k1 u1, of pd now today os o1] ih(1,3) by (simp add: f)
  qed simp
  then show "fst (foldl ?f (out, s) us) = out @ concat (map (pass_out pd now today os) us)"
    and "ps_db (snd (foldl ?f (out, s) us)) = (ps_db s)\<lparr>uploads := map (\<lambda>r. if r \<in> set us then ?R r else r) (uploads (ps_db s))\<rparr>"
    and "(\<forall>u \<in> set us. \<forall>d. amount_due u = Some d \<longrightarrow> 0 < d) \<Longrightarrow>
      snd (foldl ?f (out, s) us) = s\<lparr>ps_db := (ps_db s)\<lparr>uploads :=
      map (\<lambda>r. if r \<in> set us then ?R r else r) (uploads (ps_db s))\<rparr>\<rparr>"
    by auto
qed

lemma dict_get_map: "dict_get (map (\<lambda>(a, d, u). (a, d, f u)) D) k = map_option (\<lambda>(d, u). (d, f u)) (dict_get D k)"
  by (induction D) auto

lemma dict_put_map:
  "dict_put (map (\<lambda>(a, d, u). (a, d, f u)) D) k (e, f v) = map (\<lambda>(a, d, u). (a, d, f u)) (dict_put D k (e, v))"
  by (induction D) auto

text \<open>Rewriting rows without touching due date and account does not change which are the latest.\<close>

lemma latest_per_account_map:
  assumes "\<And>u. u_due_date (f u) = u_due_date u" "\<And>u. u_account_id (f u) = u_account_id u"
  shows "latest_per_account pd (map f us) = map f (latest_per_account pd us)"
proof -
  have "take_latest pd (map (\<lambda>(a, d, u). (a, d, f u)) D) (f u) = map (\<lambda>(a, d, u). (a, d, f u)) (take_latest pd D u)" for D u
    by (auto simp: take_latest_def assms dict_get_map dict_put_map split: option.split)
  then have "foldl (take_latest pd) (map (\<lambda>(a, d, u). (a, d, f u)) D) (map f us) =
      map (\<lambda>(a, d, u). (a, d, f u)) (foldl (take_latest pd) D us)" for D
    by (induction us arbitrary: D) simp_all
  from this [of "[]"] show ?thesis by (simp add: latest_per_account_def comp_def case_prod_unfold)
qed

lemma latest_distinct_ids:
  assumes "keys_ok s" "set us \<subseteq> set (uploads s)"
  shows "distinct (map u_id (latest_per_account pd us))"
proof -
  let ?l = "latest_per_account pd us"
  have "inj_on u_id (set ?l)"
    by (rule inj_onI) (use assms(2) latest_per_account_facts(1) [of pd us] upload_key_eq [OF assms(1)] in blast)
  then show ?thesis
    using latest_per_account_facts(2) [of pd us] by (simp add: distinct_map)
qed

lemma remind_row_closed:
  "remind_row now today dd os u =
    (let late = u_payment_status u = Some LATE; seen = set (u_sent_offsets u);
         sent = (\<exists>n \<in> set os. n \<notin> seen \<and> rings today dd late n);
         u = (if sent then u\<lparr>u_last_reminded_at := Some now\<rparr> else u)
     in (sent, if \<exists>n \<in> set os. n \<notin> seen \<and> elapsed today dd late n
         then u\<lparr>u_sent_offsets := sorted_list_of_set (seen \<union> {n \<in> set os. elapsed today dd late n})\<rparr> else u))"
  by (simp add: remind_row_def remind_offsets_closed Let_def)

text \<open>After a pass every elapsed offset is recorded, so a second one has nothing to do.\<close>

lemma remind_row_records:
  "{n \<in> set os. elapsed today dd (u_payment_status u = Some LATE) n} \<subseteq>
     set (u_sent_offsets (snd (remind_row now today dd os u)))"
  by (auto simp: remind_row_closed Let_def)

lemma remind_row_quiet:
  assumes "{n \<in> set os. elapsed today dd (u_payment_status u = Some LATE) n} \<subseteq> set (u_sent_offsets u)"
  shows "remind_row now today dd os u = (False, u)"
proof -
  have e: "\<not> (\<exists>n \<in> set os. n \<notin> set (u_sent_offsets u) \<and> elapsed today dd (u_payment_status u = Some LATE) n)"
    using assms by blast
  moreover have "rings today dd late n \<Longrightarrow> elapsed today dd late n" for late n
    by (simp add: rings_def elapsed_def)
  ultimately have r: "\<not> (\<exists>n \<in> set os. n \<notin> set (u_sent_offsets u) \<and> rings today dd (u_payment_status u = Some LATE) n)"
    by blast
  show ?thesis by (simp only: remind_row_closed Let_def e r if_False)
qed

lemma mark_late_idem: "u_payment_status v = u_payment_status (mark_late today dd u) \<Longrightarrow> mark_late today dd v = v"
  by (simp add: mark_late_def split: if_splits)

lemma pass_row_again:
  assumes a: "active u" and d: "\<forall>d. amount_due u = Some d \<longrightarrow> 0 < d"
  shows "pass_row pd now' today os (pass_row pd now today os u) = pass_row pd now today os u"
    and "pass_out pd now' today os (pass_row pd now today os u) = []" and "active (pass_row pd now today os u)"
proof -
  let ?v = "pass_row pd now today os u"
  have "pass_row pd now' today os ?v = ?v \<and> pass_out pd now' today os ?v = [] \<and> active ?v"
  proof (cases "due pd (u_due_date u)")
    case None
    then show ?thesis using a by (simp add: pass_row_def pass_out_def)
  next
    case (Some dd)
    let ?u = "mark_late today dd u"
    show ?thesis
    proof (cases "STALE_DAYS < today - dd \<or> amount_due u = None")
      case True
      then have v: "?v = ?u" using Some by (auto simp: pass_row_def)
      have "mark_late today dd ?u = ?u" by (rule mark_late_idem) simp
      then show ?thesis using Some True a by (auto simp: v pass_row_def pass_out_def)
    next
      case False
      then have nd: "\<not> the (amount_due u) \<le> 0" using d by auto
      have v: "?v = snd (remind_row now today dd os ?u)" using Some False nd by (auto simp: pass_row_def)
      have m: "mark_late today dd ?v = ?v" by (rule mark_late_idem) (simp add: v)
      have "remind_row now' today dd os ?v = (False, ?v)"
        using remind_row_records [of os today dd ?u now] by (intro remind_row_quiet) (simp add: v)
      moreover have "active ?v" using a active_mark_late [of today dd u] by (simp add: v active_def)
      ultimately show ?thesis using Some False nd m by (auto simp: pass_row_def [of pd now'] pass_out_def)
    qed
  qed
  then show "pass_row pd now' today os ?v = ?v" "pass_out pd now' today os ?v = []" "active ?v" by auto
qed

text \<open>A reminder pass is idempotent within a day. When every open statement owes something, a
  second pass on the same day sends nothing and changes nothing, however many offsets have
  come due: what was sent, or skipped as overdue, is recorded.\<close>

theorem reminders_idempotent:
  assumes k: "keys_ok (ps_db s)"
    and pos: "\<forall>u \<in> set (uploads (ps_db s)). active u \<longrightarrow> (\<forall>d. amount_due u = Some d \<longrightarrow> 0 < d)"
    and s': "s' = snd (check_and_send_reminders pd now today enabled offsets s)"
  shows "check_and_send_reminders pd now' today enabled offsets s' = ([], s')"
proof (cases "\<not> enabled \<or> offsets = []")
  case False
  let ?L = "latest_per_account pd (filter active (uploads (ps_db s)))"
  let ?R = "pass_row pd now today offsets" and ?R' = "pass_row pd now' today offsets"
  let ?f = "\<lambda>r. if r \<in> set ?L then ?R r else r"
  have sub: "set ?L \<subseteq> set (uploads (ps_db s))" "\<And>u. u \<in> set ?L \<Longrightarrow> active u"
    using latest_per_account_facts(1) [of pd "filter active (uploads (ps_db s))"] by auto
  have pL: "\<forall>u \<in> set ?L. \<forall>d. amount_due u = Some d \<longrightarrow> 0 < d" using pos sub by blast
  have ids: "distinct (map u_id ?L)" by (rule latest_distinct_ids [OF k]) auto
  have e: "s' = s\<lparr>ps_db := (ps_db s)\<lparr>uploads := map ?f (uploads (ps_db s))\<rparr>\<rparr>"
    unfolding s' check_and_send_reminders_def using False remind_pass_closed(3) [OF k ids sub(1) pL] by simp
  have act: "active (?f r) = active r" for r
  proof (cases "r \<in> set ?L")
    case True
    then show ?thesis using sub(2) [OF True] pass_row_again(3) [OF sub(2) [OF True] bspec [OF pL True]] by simp
  next
    case False
    then show ?thesis by (simp only: if_False)
  qed
  have "filter active (map ?f (uploads (ps_db s))) = map ?f (filter active (uploads (ps_db s)))"
    by (simp add: filter_map comp_def act)
  then have L': "latest_per_account pd (filter active (uploads (ps_db s'))) = map ?f ?L"
    using latest_per_account_map [of ?f pd "filter active (uploads (ps_db s))"] by (simp add: e)
  have fL: "map ?f ?L = map ?R ?L" by simp
  have again: "?R' (?R u) = ?R u" "pass_out pd now' today offsets (?R u) = []" if "u \<in> set ?L" for u
    using pass_row_again(1,2) [OF sub(2) [OF that]] pL that by auto
  have fid: "map u_id (uploads (ps_db s')) = map u_id (uploads (ps_db s))" by (simp add: e comp_def if_distrib cong: if_cong)
  then have k': "keys_ok (ps_db s')" using k by (simp add: keys_ok_def e del: map_map)
  have "map u_id (map ?R ?L) = map u_id ?L" by (simp add: comp_def)
  then have ids': "distinct (map u_id (map ?R ?L))" using ids by (simp only:)
  have sub': "set (map ?R ?L) \<subseteq> set (uploads (ps_db s'))" using sub(1) by (auto simp: e)
  have pL': "\<forall>u \<in> set (map ?R ?L). \<forall>d. amount_due u = Some d \<longrightarrow> 0 < d" using pL by auto
  note c = remind_pass_closed [OF k' ids' sub', of pd now' today offsets "[]"]
  have out: "concat (map (pass_out pd now' today offsets) (map ?R ?L)) = []" using again(2) by simp
  have "map (\<lambda>r. if r \<in> set (map ?R ?L) then ?R' r else r) (uploads (ps_db s')) = uploads (ps_db s')"
    using again(1) by (intro map_idI) auto
  then have "snd (foldl (remind_one pd now' today offsets) ([], s') (map ?R ?L)) = s'"
    using c(3) [OF pL'] by simp
  moreover have "fst (foldl (remind_one pd now' today offsets) ([], s') (map ?R ?L)) = []"
    using c(1) out by simp
  moreover have "check_and_send_reminders pd now' today enabled offsets s' =
      foldl (remind_one pd now' today offsets) ([], s') (map ?R ?L)"
    unfolding check_and_send_reminders_def L' fL if_not_P [OF False] ..
  ultimately show ?thesis by (simp only: prod_eq_iff fst_conv snd_conv)
qed (auto simp: check_and_send_reminders_def)

lemma pass_out_fst: "map fst (concat (map (pass_out pd now today os) us)) =
    map u_id (filter (\<lambda>u. pass_out pd now today os u \<noteq> []) us)"
  by (induction us) (auto simp: pass_out_def split: option.splits if_splits)

lemma pass_out_mem:
  assumes "(i, n) \<in> set (pass_out pd now today os u)"
  obtains d k where "i = u_id u" "due pd (u_due_date u) = Some (today + n)" "- 7 \<le> n" "amount_due u = Some d" "0 < d"
    "k \<in> set os" "n \<le> k" "k \<notin> set (u_sent_offsets u)" "k \<in> set (u_sent_offsets (pass_row pd now today os u))"
proof -
  obtain dd where dd: "due pd (u_due_date u) = Some dd" "\<not> STALE_DAYS < today - dd" "amount_due u \<noteq> None"
    "\<not> the (amount_due u) \<le> 0" "fst (remind_row now today dd os (mark_late today dd u))" "i = u_id u" "n = dd - today"
    using assms by (cases "due pd (u_due_date u)") (auto simp: pass_out_def split: if_splits)
  let ?u = "mark_late today dd u"
  obtain k where k: "k \<in> set os" "k \<notin> set (u_sent_offsets u)" "rings today dd (u_payment_status ?u = Some LATE) k"
    using dd(5) by (auto simp: remind_row_closed Let_def)
  then have "elapsed today dd (u_payment_status ?u = Some LATE) k" by (simp add: rings_def elapsed_def)
  then have "k \<in> set (u_sent_offsets (snd (remind_row now today dd os ?u)))"
    using k(1) remind_row_records [of os today dd ?u now] by blast
  moreover have "pass_row pd now today os u = snd (remind_row now today dd os ?u)"
    using dd by (auto simp: pass_row_def)
  ultimately show thesis
    using that [of "the (amount_due u)" k] dd k by (auto simp: rings_def STALE_DAYS_def)
qed

text \<open>What a reminder stands for. A pass sends at most one message per statement, and only about
  the open statement of its account with the latest due date, at most seven days late and with
  a positive total; each message uses up an offset of the settings that had not been used for
  this statement before and is recorded as used afterwards, so no offset rings twice.\<close>

theorem reminders_sound:
  assumes k: "keys_ok (ps_db s)"
    and p: "check_and_send_reminders pd now today enabled offsets s = (out, s')"
  shows "distinct (map fst out) \<and> (\<forall>(i, n) \<in> set out. \<exists>u v d. u \<in> set (uploads (ps_db s)) \<and> u_id u = i \<and>
    active u \<and> amount_due u = Some d \<and> 0 < d \<and> due pd (u_due_date u) = Some (today + n) \<and> - 7 \<le> n \<and>
    (\<forall>w \<in> set (uploads (ps_db s)). active w \<and> u_account_id w = u_account_id u \<longrightarrow>
       (\<forall>e. due pd (u_due_date w) = Some e \<longrightarrow> e \<le> today + n)) \<and>
    v \<in> set (uploads (ps_db s')) \<and> u_id v = i \<and>
    (\<exists>k \<in> set offsets. n \<le> k \<and> k \<notin> set (u_sent_offsets u) \<and> k \<in> set (u_sent_offsets v)))"
proof (cases "\<not> enabled \<or> offsets = []")
  case False
  let ?L = "latest_per_account pd (filter active (uploads (ps_db s)))"
  have sub: "set ?L \<subseteq> set (uploads (ps_db s))" "\<And>u. u \<in> set ?L \<Longrightarrow> active u"
    using latest_per_account_facts(1) [of pd "filter active (uploads (ps_db s))"] by auto
  have ids: "distinct (map u_id ?L)" by (rule latest_distinct_ids [OF k]) auto
  have fold: "foldl (remind_one pd now today offsets) ([], s) ?L = (out, s')"
    using p False by (simp add: check_and_send_reminders_def)
  note c = remind_pass_closed [OF k ids sub(1), of pd now today offsets "[]", unfolded fold fst_conv snd_conv]
  show ?thesis
  proof (intro conjI ballI)
    show "distinct (map fst out)" using ids by (simp add: c(1) pass_out_fst distinct_map_filter)
    fix x assume "x \<in> set out"
    moreover obtain i n where x: "x = (i, n)" by (rule prod.exhaust)
    ultimately obtain u where u: "u \<in> set ?L" "x = (i, n)" "(i, n) \<in> set (pass_out pd now today offsets u)"
      unfolding c(1) by auto
    from u(3) obtain d k where d: "i = u_id u" "due pd (u_due_date u) = Some (today + n)" "- 7 \<le> n"
      "amount_due u = Some d" "0 < d" "k \<in> set offsets" "n \<le> k" "k \<notin> set (u_sent_offsets u)"
      "k \<in> set (u_sent_offsets (pass_row pd now today offsets u))" by (rule pass_out_mem)
    have "u \<in> set (uploads (ps_db s))" using u(1) sub(1) by blast
    then have v: "pass_row pd now today offsets u \<in> set (uploads (ps_db s'))"
      unfolding c(2) using u(1) by (auto intro: rev_image_eqI)
    have max: "\<forall>w \<in> set (uploads (ps_db s)). active w \<and> u_account_id w = u_account_id u \<longrightarrow>
       (\<forall>e. due pd (u_due_date w) = Some e \<longrightarrow> e \<le> today + n)"
    proof (intro ballI impI allI)
      fix w e assume "w \<in> set (uploads (ps_db s))" "active w \<and> u_account_id w = u_account_id u" "due pd (u_due_date w) = Some e"
      then show "e \<le> today + n"
        using latest_per_account_facts(3) [OF u(1), of w e] d(2) by simp
    qed
    show "case x of (i, n) \<Rightarrow> \<exists>u v d. u \<in> set (uploads (ps_db s)) \<and> u_id u = i \<and>
        active u \<and> amount_due u = Some d \<and> 0 < d \<and> due pd (u_due_date u) = Some (today + n) \<and> - 7 \<le> n \<and>
        (\<forall>w \<in> set (uploads (ps_db s)). active w \<and> u_account_id w = u_account_id u \<longrightarrow>
           (\<forall>e. due pd (u_due_date w) = Some e \<longrightarrow> e \<le> today + n)) \<and>
        v \<in> set (uploads (ps_db s')) \<and> u_id v = i \<and>
        (\<exists>k \<in> set offsets. n \<le> k \<and> k \<notin> set (u_sent_offsets u) \<and> k \<in> set (u_sent_offsets v))"
      unfolding u(2) prod.case
    proof (rule exI [of _ u], rule exI [of _ "pass_row pd now today offsets u"], rule exI [of _ d], intro conjI)
      show "u \<in> set (uploads (ps_db s))" "active u" using u(1) sub by auto
      show "\<exists>k \<in> set offsets. n \<le> k \<and> k \<notin> set (u_sent_offsets u) \<and>
          k \<in> set (u_sent_offsets (pass_row pd now today offsets u))" using d(6-9) by blast
    qed (use d v max in simp_all)
  qed
qed (use p in \<open>auto simp: check_and_send_reminders_def\<close>)

section \<open>An example\<close>

text \<open>One statement of the card of \<open>Cc_Cycle\<close>, uploaded and tracked; and its reminder, three days
  before the due date.\<close>

definition life_demo_upload :: statement_upload where
  "life_demo_upload = (cycle_demo_upload 11 130 115)\<lparr>u_payment_status := None\<rparr>"

definition life_demo :: "statement_upload list \<Rightarrow> pay_state" where
  "life_demo us = pay_demo\<lparr>ps_db := (ps_db pay_demo)\<lparr>uploads := us\<rparr>\<rparr>"

lemma life_demo_keys: "keys_ok (ps_db (life_demo [life_demo_upload]))" "keys_ok (ps_db (life_demo []))"
  "keys_ok (ps_db (life_demo [cycle_demo_upload 11 130 115]))"
  by code_simp+

text \<open>Uploaded, marked as paid by hand, reparsed to a total of 20 instead of 12, resynchronised: it still
  reads as paid, and the recorded payment is that of the old bill.\<close>

definition life_demo_states :: "pay_state list" where
  "life_demo_states = (let s1 = life_demo [life_demo_upload]; s2 = snd (mark_paid 7 s1 11);
     u = hd (uploads (ps_db s2)); v = rebilled (u_due_date u) (Some ''20'') u;
     s3 = snd (emit_cc_snapshot 8 v (put_upload v s2))
   in [s1, s2, s3, snd (resync_tracked_cc_payment_state cycle_demo_pd 8 s3 v)])"

definition life_demo_actions :: "pay_action list" where
  "life_demo_actions = [Upload 11, Mark_paid 11, Reparse 11 (u_due_date life_demo_upload) (Some ''20''), Resync 11]"

lemma life_demo_run:
  "pay_run cycle_demo_pd (life_demo []) (take 2 life_demo_actions) (life_demo_states ! 1)"
  "pay_run cycle_demo_pd (life_demo []) life_demo_actions (life_demo_states ! 3)"
proof -
  let ?R = "pay_run cycle_demo_pd (life_demo [])" and ?s = "life_demo_states"
  have p: "u_id life_demo_upload = 11" "paid_amount life_demo_upload = 0" "u_payment_status life_demo_upload = None"
    by code_simp+
  have 1: "?R [Upload 11] (?s ! 0)"
    using pay_run.more [OF pay_run.stay pay_step.upload [of life_demo_upload "life_demo []" cycle_demo_pd]] p
    by (simp add: life_demo_def life_demo_states_def Let_def)
  have 2: "?R [Upload 11, Mark_paid 11] (?s ! 1)"
    using pay_run.more [OF 1 pay_step.mark [of cycle_demo_pd _ 11 7]] by (simp add: life_demo_states_def Let_def)
  then show "?R (take 2 life_demo_actions) (?s ! 1)" by (simp add: life_demo_actions_def)
  let ?u = "hd (uploads (ps_db (?s ! 1)))"
  have u: "get_upload (?s ! 1) 11 = Some ?u" "u_due_date ?u = u_due_date life_demo_upload" by code_simp+
  have 3: "?R [Upload 11, Mark_paid 11, Reparse 11 (u_due_date life_demo_upload) (Some ''20'')] (?s ! 2)"
    using pay_run.more [OF 2 pay_step.reparse [OF u(1) refl, of cycle_demo_pd "u_due_date ?u" "Some ''20''" 8]] u(2)
    by (simp add: life_demo_states_def Let_def)
  have v: "get_upload (?s ! 2) 11 = Some (rebilled (u_due_date ?u) (Some ''20'') ?u)" by code_simp
  show "?R life_demo_actions (?s ! 3)"
    using pay_run.more [OF 3 pay_step.resync [OF v, of cycle_demo_pd 8]]
    by (simp add: life_demo_states_def life_demo_actions_def Let_def)
qed

lemma life_demo_start: "pay_start (life_demo [])"
  using life_demo_keys(2) by (simp add: pay_start_def life_demo_def credits_ok_def pay_demo_def cycle_demo_txn_def)

theorem paid_means_covered_witness:
  "let s = life_demo_states ! 3; v = hd (uploads (ps_db s)) in
   u_payment_status v = Some PAID \<and> amount_due v = Some 20 \<and> paid_amount v = 12 \<and>
   (\<exists>before later s1 u. life_demo_actions = before @ Reparse 11 (u_due_date v) (Some ''20'') # later \<and>
      pay_run cycle_demo_pd (life_demo []) before s1 \<and> u \<in> set (uploads (ps_db s1)) \<and> u_id u = 11 \<and>
      u_payment_status u = Some PAID \<and> paid_amount u = 12)"
proof -
  let ?s = "life_demo_states ! 3"
  let ?v = "hd (uploads (ps_db ?s))"
  have f: "?v \<in> set (uploads (ps_db ?s))" "u_id ?v = 11" "u_payment_status ?v = Some PAID" "amount_due ?v = Some 20"
    "paid_amount ?v = 12" "u_total_amount_due ?v = Some ''20''" by code_simp+
  from conjunct2 [OF paid_means_covered [OF life_demo_start life_demo_run(2) f(1), of 20]] show ?thesis
    using f by (simp add: Let_def)
qed

theorem paid_stays_paid_witness:
  "let s = life_demo_states ! 1; u = hd (uploads (ps_db s)); s' = snd (check_payment_received cycle_demo_pd 9 s 21) in
   u_payment_status u = Some PAID \<and> (\<exists>v \<in> set (uploads (ps_db s')). pay_columns v = pay_columns u)"
proof -
  let ?s = "life_demo_states ! 1"
  have f: "keys_ok (ps_db ?s)" "hd (uploads (ps_db ?s)) \<in> set (uploads (ps_db ?s))"
    "u_payment_status (hd (uploads (ps_db ?s))) = Some PAID"
    by code_simp+
  have "pay_run cycle_demo_pd ?s [Payment_received 21] (snd (check_payment_received cycle_demo_pd 9 ?s 21))"
    using pay_run.more [OF pay_run.stay pay_step.received] by simp
  from paid_stays_paid [OF this f] f(3) show ?thesis by (simp add: Let_def)
qed

theorem reminders_idempotent_witness:
  "let r = check_and_send_reminders cycle_demo_pd 5 127 True [7, 3] (life_demo [cycle_demo_upload 11 130 115]) in
   fst r = [(11, 3)] \<and> check_and_send_reminders cycle_demo_pd 6 127 True [7, 3] (snd r) = ([], snd r)"
proof -
  let ?s = "life_demo [cycle_demo_upload 11 130 115]"
  have 1: "\<forall>u \<in> set (uploads (ps_db ?s)). active u \<longrightarrow> (case amount_due u of None \<Rightarrow> True | Some d \<Rightarrow> 0 < d)"
    by code_simp
  have 2: "\<forall>u \<in> set (uploads (ps_db ?s)). active u \<longrightarrow> (\<forall>d. amount_due u = Some d \<longrightarrow> 0 < d)"
    using 1 by fastforce
  have 3: "fst (check_and_send_reminders cycle_demo_pd 5 127 True [7, 3] ?s) = [(11, 3)]" by code_simp
  show ?thesis using reminders_idempotent [OF life_demo_keys(3) 2 refl] 3 by (simp add: Let_def)
qed

theorem reminders_sound_witness:
  "let (out, s') = check_and_send_reminders cycle_demo_pd 5 127 True [7, 3] (life_demo [cycle_demo_upload 11 130 115]) in
   out = [(11, 3)] \<and> (\<exists>v \<in> set (uploads (ps_db s')). u_id v = 11 \<and> (\<exists>k \<in> {7, 3}. 3 \<le> k \<and> k \<in> set (u_sent_offsets v)))"
proof -
  let ?r = "check_and_send_reminders cycle_demo_pd 5 127 True [7, 3] (life_demo [cycle_demo_upload 11 130 115])"
  have o: "fst ?r = [(11, 3)]" by code_simp
  have "?r = (fst ?r, snd ?r)" by simp
  from conjunct2 [OF reminders_sound [OF life_demo_keys(3) this]] have
    "\<exists>v. v \<in> set (uploads (ps_db (snd ?r))) \<and> u_id v = 11 \<and> (\<exists>k \<in> set [7, 3]. 3 \<le> k \<and> k \<in> set (u_sent_offsets v))"
    unfolding o by auto
  then show ?thesis using o by (auto simp: case_prod_unfold)
qed

end
