(* ===== verification/Cc_Import.thy ===== *)
theory Cc_Import
  imports Cc_Recon_Sound Cc_Lifecycle Merge_Contract Linker
begin

text \<open>
  What happens around the reconciliation in \<open>services/statements/cc.py\<close>, \<open>shared.py\<close>,
  \<open>dates.py\<close> and \<open>skip_summary.py\<close>: the account a statement belongs to, the import of the
  missing rows, the enrichment of the matched ones, the two operations that process a parsed
  statement (\<open>process_parsed\<close>, the part of \<open>process_statement_email\<close> after the PDF is read, and
  \<open>retry_parsed\<close>, that of \<open>retry_cc_statement_upload\<close>) and the summaries that banks print in the
  mail itself. Reading the PDF, the notifications and the stored JSON copy of the result are
  left out. An exception that leaves an operation is \<open>None\<close>.
\<close>

section \<open>Which account a statement belongs to\<close>

text \<open>SQLite's \<open>lower\<close> changes ASCII letters only.\<close>

definition sql_lower :: "string \<Rightarrow> string" where
  "sql_lower = map (\<lambda>c. if 65 \<le> code c \<and> code c \<le> 90 then char_of (code c + 32) else c)"

definition cc_accounts_of_bank :: "db \<Rightarrow> string \<Rightarrow> account list" where
  "cc_accounts_of_bank s bank = filter (\<lambda>a. sql_lower (a_bank a) = lower bank \<and> a_type a = ''credit_card'' \<and>
     a_active a = Some True) (accounts s)"

definition stored_masks :: "db \<Rightarrow> account \<Rightarrow> string list" where
  "stored_masks s a = filter (\<lambda>m. m \<noteq> []) (normalize_mask (a_account_number a) #
     map (\<lambda>c. normalize_mask (Some (c_card_mask c))) (filter (\<lambda>c. c_account_id c = a_id a) (cards s)))"

definition load_account_card_masks :: "db \<Rightarrow> nat \<Rightarrow> string list" where
  "load_account_card_masks s i = (case get_account s i of None \<Rightarrow> [] | Some a \<Rightarrow> stored_masks s a)"

definition mask_refutes :: "string \<Rightarrow> string list \<Rightarrow> bool" where
  "mask_refutes stmt_mask stored =
     (if \<not> list_ex is_ascii_digit stmt_mask then False
      else if stored = [] then False
      else \<not> list_ex (mask_matches stmt_mask) stored)"

definition mask_selects :: "string \<Rightarrow> string list \<Rightarrow> bool" where
  "mask_selects stmt_mask masks \<longleftrightarrow> list_ex (\<lambda>m. 0 < trailing_visible_digits m \<and> mask_matches stmt_mask m) masks"

definition match_account_by_mask :: "db \<Rightarrow> account list \<Rightarrow> string \<Rightarrow> account option" where
  "match_account_by_mask s accs stmt_mask =
     (case remdups (map a_id (filter (\<lambda>a. mask_selects stmt_mask (stored_masks s a)) accs)) of
        [i] \<Rightarrow> List.find (\<lambda>a. a_id a = i) accs
      | _ \<Rightarrow> None)"

definition find_account :: "db \<Rightarrow> string \<Rightarrow> cc_parsed \<Rightarrow> account option" where
  "find_account s bank parsed = (let stmt_mask = normalize_mask (p_card_number parsed) in
     if trailing_visible_digits stmt_mask = 0 then None
     else match_account_by_mask s (cc_accounts_of_bank s bank) stmt_mask)"

definition resolve_cc_card_mask :: "db \<Rightarrow> account option \<Rightarrow> string option \<Rightarrow> string option" where
  "resolve_cc_card_mask s acct raw =
     (case mask_last4 False raw of
        Some l4 \<Rightarrow> Some l4
      | None \<Rightarrow> (case acct of
          None \<Rightarrow> None
        | Some a \<Rightarrow>
            let last4s = List.map_filter (\<lambda>c. mask_last4 False (Some (c_card_mask c)))
                  (filter (\<lambda>c. c_account_id c = a_id a) (cards s));
                partial = mask_digits raw
            in case (if partial \<noteq> [] then List.find (suffix partial) last4s else None) of
                 Some cl4 \<Rightarrow> Some cl4
               | None \<Rightarrow> mask_last4 False (a_account_number a)))"

section \<open>Importing the missing rows\<close>

text \<open>The dash of the message is outside Latin-1; an ASCII one stands for it.\<close>

definition AMBIGUOUS_ERROR :: string where
  "AMBIGUOUS_ERROR = ''ambiguous match - the DB may already hold this transaction under a '' @
     ''row it could not be safely paired with; resolve manually''"

definition cc_import_row ::
  "cat_env \<Rightarrow> db \<Rightarrow> statement_upload \<Rightarrow> string \<Rightarrow> account option \<Rightarrow> missing_entry \<Rightarrow> rat \<Rightarrow> date \<Rightarrow> transaction" where
  "cc_import_row env s u bank acct e amount d = blank_txn\<lparr>t_id := next_txn_id s,
     t_statement_upload_id := Some (u_id u), t_account_id := Some (u_account_id u), t_bank := bank,
     t_email_type := ''cc_statement'', t_direction := e_direction e, t_amount := amount,
     t_currency := Some ''INR'', t_transaction_date := Some d, t_counterparty := Some (e_narration e),
     t_card_mask := resolve_cc_card_mask s acct (e_card_number e), t_channel := Some ''cc_statement'',
     t_raw_description := Some (e_narration e), t_created_at := Some (env_now env)\<rparr>"

text \<open>One entry: the entry with its tags, the database, the key of the new row. \<open>None\<close> is the
  \<open>InvalidOperation\<close> of \<open>Decimal\<close>, which \<open>except ValueError, KeyError\<close> does not catch.\<close>

definition import_entry ::
  "cat_env \<Rightarrow> date_parser \<Rightarrow> link_context \<Rightarrow> statement_upload \<Rightarrow> string \<Rightarrow> account option \<Rightarrow> db \<Rightarrow> missing_entry \<Rightarrow>
   (missing_entry \<times> db \<times> nat list) option" where
  "import_entry env pd ctx u bank acct s e =
     (if mi_imported e then Some (e, s, [])
      else if mi_ambiguous e then Some (e\<lparr>mi_import_error := Some AMBIGUOUS_ERROR\<rparr>, s, [])
      else case parse_cc_amount (e_amount e) of
        None \<Rightarrow> None
      | Some amount \<Rightarrow> (case parse_cc_date pd (e_date e) of
          None \<Rightarrow> Some (e\<lparr>mi_import_error := Some ''could not parse amount/date''\<rparr>, s, [])
        | Some d \<Rightarrow>
            let row = snd (link_transaction ctx (cc_import_row env s u bank acct e amount d));
                s' = s\<lparr>transactions := transactions s @ [row]\<rparr>
            in if \<not> ref_index_ok s'
               then Some (e\<lparr>mi_duplicate := True, mi_import_error := Some ''duplicate transaction''\<rparr>, s, [])
               else Some (e\<lparr>mi_imported := True, mi_imported_txn_id := Some (t_id row)\<rparr>,
                 snd (apply_reference_self_transfer_rule env s' row), [t_id row])))"

fun import_entries ::
  "cat_env \<Rightarrow> date_parser \<Rightarrow> link_context \<Rightarrow> statement_upload \<Rightarrow> string \<Rightarrow> account option \<Rightarrow> db \<Rightarrow> missing_entry list \<Rightarrow>
   (missing_entry list \<times> db \<times> nat list) option" where
  "import_entries env pd ctx u bank acct s [] = Some ([], s, [])"
| "import_entries env pd ctx u bank acct s (e # es) =
     (case import_entry env pd ctx u bank acct s e of
        None \<Rightarrow> None
      | Some (e, s, new) \<Rightarrow> (case import_entries env pd ctx u bank acct s es of
          None \<Rightarrow> None
        | Some (es, s, ids) \<Rightarrow> Some (e # es, s, new @ ids)))"

definition import_missing_cc_txns ::
  "cat_env \<Rightarrow> date_parser \<Rightarrow> db \<Rightarrow> statement_upload \<Rightarrow> string \<Rightarrow> account option \<Rightarrow> recon \<Rightarrow> (recon \<times> db \<times> nat list) option" where
  "import_missing_cc_txns env pd s u bank acct r =
     (case import_entries env pd (build_link_context s) u bank acct s (rc_missing r) of
        None \<Rightarrow> None
      | Some (es, s, ids) \<Rightarrow> Some (r\<lparr>rc_missing := es\<rparr>, s, ids))"

definition join_comma :: "string list \<Rightarrow> string" where
  "join_comma xs = (case xs of [] \<Rightarrow> [] | x # ys \<Rightarrow> x @ concat (map (\<lambda>y. '', '' @ y) ys))"

definition import_skip_summary :: "missing_entry list \<Rightarrow> nat \<times> nat \<times> string option" where
  "import_skip_summary es =
     (let duplicate_count = length (filter mi_duplicate es); error_count = length (filter mi_import_failed es)
      in (duplicate_count, error_count,
        if 0 < duplicate_count \<or> 0 < error_count
        then Some (''Skipped '' @ join_comma
          ((if 0 < duplicate_count then [str_nat duplicate_count @ '' duplicate''] else []) @
           (if 0 < error_count then [str_nat error_count @ '' unexpected error''] else [])) @
          '' row(s) during auto-import; see reconciliation details.'')
        else None))"

section \<open>Enriching the matched rows\<close>

definition GENERIC_COUNTERPARTIES :: "string list" where
  "GENERIC_COUNTERPARTIES = [''payment received'', ''payment successful'', ''payment done'']"

definition enrich_entry :: "db \<times> nat \<Rightarrow> matched_entry \<Rightarrow> db \<times> nat" where
  "enrich_entry sn e = (let (s, n) = sn; narration = strip (e_narration e) in
     if narration = [] then (s, n)
     else if me_db_txn_id e = 0 then (s, n)
     else case List.find (\<lambda>t. t_id t = me_db_txn_id e) (transactions s) of
       None \<Rightarrow> (s, n)
     | Some t \<Rightarrow> (let existing = strip (or_empty (t_counterparty t)) in
         if existing \<noteq> [] \<and> lower existing \<notin> set GENERIC_COUNTERPARTIES then (s, n)
         else (put_txn (t\<lparr>t_counterparty := Some narration\<rparr>) s, n + 1)))"

definition enrich_matched_transactions :: "db \<Rightarrow> recon \<Rightarrow> db \<times> nat" where
  "enrich_matched_transactions s r = foldl enrich_entry (s, 0) (rc_matched r)"

section \<open>Processing a parsed statement\<close>

definition next_upload_id :: "db \<Rightarrow> nat" where
  "next_upload_id s = Suc (fold max (map u_id (uploads s)) 0)"

definition account_rows :: "db \<Rightarrow> nat \<Rightarrow> transaction list" where
  "account_rows s i = filter (\<lambda>t. t_account_id t = Some i) (transactions s)"

text \<open>The counters and the status after an import.\<close>

definition finish_upload :: "recon \<Rightarrow> nat list \<Rightarrow> statement_upload \<Rightarrow> statement_upload" where
  "finish_upload r ids u =
     (let missing = length (filter (\<lambda>e. \<not> mi_imported e) (rc_missing r));
          u = u\<lparr>u_imported_count := length ids, u_missing_count := missing\<rparr>
      in if missing = 0 then u\<lparr>u_status := ''imported''\<rparr>
         else if ids \<noteq> [] then u\<lparr>u_status := ''partial_import''\<rparr> else u)"

definition new_statement :: "datetime \<Rightarrow> db \<Rightarrow> account \<Rightarrow> string \<Rightarrow> cc_parsed \<Rightarrow> recon \<Rightarrow> statement_upload" where
  "new_statement now s a bank parsed r = blank_upload\<lparr>u_id := next_upload_id s, u_account_id := a_id a,
     u_bank := (if cc_parsed.p_bank parsed \<noteq> [] then cc_parsed.p_bank parsed else bank), u_card_number := p_card_number parsed,
     u_due_date := p_due_date parsed, u_total_amount_due := p_total_amount_due parsed,
     u_parsed_txn_count := length (rc_matched r) + length (rc_missing r),
     u_matched_count := length (rc_matched r), u_missing_count := length (rc_missing r), u_created_at := Some now\<rparr>"

datatype processed = Deduped nat | Processed nat recon "nat list"

definition process_parsed ::
  "cat_env \<Rightarrow> date_parser \<Rightarrow> date \<Rightarrow> pay_state \<Rightarrow> account \<Rightarrow> string \<Rightarrow> cc_parsed \<Rightarrow> (processed \<times> pay_state) option" where
  "process_parsed env pd today s a bank parsed =
     (let now = env_now env in
      case (if p_due_date parsed = None then None
            else List.find (\<lambda>u. u_account_id u = a_id a \<and> u_due_date u = p_due_date parsed) (uploads (ps_db s))) of
        Some u \<Rightarrow> Some (Deduped (u_id u), s)
      | None \<Rightarrow> (case reconcile_statement pd parsed (account_rows (ps_db s) (a_id a)) (load_account_card_masks (ps_db s) (a_id a)) of
          None \<Rightarrow> None
        | Some r \<Rightarrow>
            let u = new_statement now (ps_db s) a bank parsed r;
                db1 = (ps_db s)\<lparr>uploads := uploads (ps_db s) @ [u]\<rparr>
            in (case import_missing_cc_txns env pd db1 u (cc_parsed.p_bank parsed) (Some a) r of
                None \<Rightarrow> None
              | Some (r, db2, ids) \<Rightarrow>
                  let u = finish_upload r ids u;
                      u = (case snd (snd (import_skip_summary (rc_missing r))) of None \<Rightarrow> u | Some e \<Rightarrow> u\<lparr>u_error := Some e\<rparr>);
                      s = put_upload u (s\<lparr>ps_db := db2\<rparr>);
                      s = snd (emit_cc_snapshot now u s);
                      s = s\<lparr>ps_db := fst (enrich_matched_transactions (ps_db s) r)\<rparr>
                  in Some (Processed (u_id u) r ids, snd (init_payment_tracking pd now today s (u_id u))))))"

section \<open>Reparsing a stored statement\<close>

definition STMT_RECONCILE_DATE_BUFFER_DAYS :: int where
  "STMT_RECONCILE_DATE_BUFFER_DAYS = 7"

definition cc_stmt_date_range :: "date_parser \<Rightarrow> cc_parsed \<Rightarrow> (date \<times> date) option" where
  "cc_stmt_date_range pd parsed =
     (let dates = List.map_filter (\<lambda>r. parse_cc_date pd (r_date r)) (p_transactions parsed @ p_payments_refunds parsed)
      in if dates = [] then None else Some (Min (set dates), Max (set dates)))"

definition window_rows :: "date_parser \<Rightarrow> cc_parsed \<Rightarrow> db \<Rightarrow> nat \<Rightarrow> transaction list" where
  "window_rows pd parsed s i = (case cc_stmt_date_range pd parsed of
       None \<Rightarrow> account_rows s i
     | Some (lo, hi) \<Rightarrow> filter (\<lambda>t. case t_transaction_date t of None \<Rightarrow> False
         | Some d \<Rightarrow> lo - STMT_RECONCILE_DATE_BUFFER_DAYS \<le> d \<and> d \<le> hi + STMT_RECONCILE_DATE_BUFFER_DAYS) (account_rows s i))"

definition reparsed :: "cc_parsed \<Rightarrow> recon \<Rightarrow> statement_upload \<Rightarrow> statement_upload" where
  "reparsed parsed r u = u\<lparr>u_status := ''parsed'', u_bank := cc_parsed.p_bank parsed, u_card_number := p_card_number parsed,
     u_due_date := p_due_date parsed, u_total_amount_due := p_total_amount_due parsed,
     u_parsed_txn_count := length (rc_matched r) + length (rc_missing r), u_matched_count := length (rc_matched r),
     u_missing_count := length (rc_missing r), u_error := None\<rparr>"

text \<open>The result tells whether the upload was reprocessed, with the keys of the rows imported.\<close>

definition retry_parsed ::
  "cat_env \<Rightarrow> date_parser \<Rightarrow> date \<Rightarrow> pay_state \<Rightarrow> nat \<Rightarrow> cc_parsed \<Rightarrow> ((bool \<times> nat list) \<times> pay_state) option" where
  "retry_parsed env pd today s i parsed =
     (let now = env_now env in
      case get_upload s i of
        None \<Rightarrow> Some ((False, []), s)
      | Some u \<Rightarrow>
          if u_source_kind u = ''email_summary'' then Some ((False, []), s)
          else (case reconcile_statement pd parsed (window_rows pd parsed (ps_db s) (u_account_id u))
                  (load_account_card_masks (ps_db s) (u_account_id u)) of
            None \<Rightarrow> None
          | Some r \<Rightarrow>
              let db1 = fst (enrich_matched_transactions (ps_db s) r) in
              (case get_account db1 (u_account_id u) of
                 None \<Rightarrow> Some ((False, []), s\<lparr>ps_db := db1\<rparr>)
               | Some a \<Rightarrow>
                   let u = reparsed parsed r u; s1 = put_upload u (s\<lparr>ps_db := db1\<rparr>) in
                   (case import_missing_cc_txns env pd (ps_db s1) u (cc_parsed.p_bank parsed) (Some a) r of
                      None \<Rightarrow> None
                    | Some (r, db2, ids) \<Rightarrow>
                        let u = (finish_upload r ids u)\<lparr>u_error := snd (snd (import_skip_summary (rc_missing r)))\<rparr>;
                            s = put_upload u (s1\<lparr>ps_db := db2\<rparr>);
                            s = snd (emit_cc_snapshot now u s);
                            (tracked, s) = init_payment_tracking pd now today s i
                        in Some ((True, ids), if tracked then s
                             else case get_upload s i of None \<Rightarrow> s
                               | Some u \<Rightarrow> snd (resync_tracked_cc_payment_state pd now s u))))))"

section \<open>The account is identified\<close>

lemma remdups_single_iff: "remdups xs = [i] \<longleftrightarrow> set xs = {i}"
proof
  assume "set xs = {i}"
  then have "set (remdups xs) = {i}" by simp
  moreover have "length (remdups xs) = 1" using \<open>set xs = {i}\<close> by (simp add: length_remdups_card_conv)
  ultimately show "remdups xs = [i]" by (cases "remdups xs") auto
qed (metis list.set(1,2) set_remdups)

lemma match_account_by_mask_Some:
  assumes "keys_ok s" "set accs \<subseteq> set (accounts s)"
  shows "match_account_by_mask s accs m = Some a \<longleftrightarrow> {b \<in> set accs. mask_selects m (stored_masks s b)} = {a}"
proof -
  let ?sel = "filter (\<lambda>b. mask_selects m (stored_masks s b)) accs"
  let ?S = "{b \<in> set accs. mask_selects m (stored_masks s b)}"
  have key: "x = y" if "x \<in> set accs" "y \<in> set accs" "a_id x = a_id y" for x y
    using keys_ok_account_eq [OF assms(1)] assms(2) that by blast
  have ids: "set (map a_id ?sel) = a_id ` ?S" by auto
  have found: "List.find (\<lambda>b. a_id b = a_id x) accs = Some x" if "x \<in> set accs" for x
  proof (cases "List.find (\<lambda>b. a_id b = a_id x) accs")
    case None
    then show ?thesis using find_None_D [OF None that] by simp
  next
    case (Some y)
    then show ?thesis using find_Some_D [OF Some] key that by simp
  qed
  show ?thesis
  proof
    assume "match_account_by_mask s accs m = Some a"
    then obtain i where i: "remdups (map a_id ?sel) = [i]" "List.find (\<lambda>b. a_id b = i) accs = Some a"
      by (auto simp: match_account_by_mask_def split: list.splits)
    then have "a_id ` ?S = {i}" using ids remdups_single_iff [of "map a_id ?sel" i] by simp
    then obtain x where "?S = {x}" "a_id x = i" using key by (auto simp: set_eq_iff image_iff) (metis (no_types, lifting))
    then show "?S = {a}" using i(2) found [of x] by auto
  next
    assume S: "?S = {a}"
    then have "remdups (map a_id ?sel) = [a_id a]" using ids by (simp add: remdups_single_iff)
    then show "match_account_by_mask s accs m = Some a"
      using found [of a] S by (auto simp: match_account_by_mask_def)
  qed
qed

text \<open>A statement is filed under an account exactly when its mask shows trailing digits and the
  account is the only active credit card account of the bank with a stored mask, itself with
  trailing digits, that agrees with the statement's.\<close>

theorem find_account_identifies:
  assumes "keys_ok s"
  shows "find_account s bank parsed = Some a \<longleftrightarrow> 0 < trailing_visible_digits (normalize_mask (p_card_number parsed)) \<and>
    {b \<in> set (accounts s). sql_lower (a_bank b) = lower bank \<and> a_type b = ''credit_card'' \<and> a_active b = Some True \<and>
       (\<exists>m \<in> set (stored_masks s b). 0 < trailing_visible_digits m \<and>
          mask_matches (normalize_mask (p_card_number parsed)) m)} = {a}"
proof -
  let ?m = "normalize_mask (p_card_number parsed)"
  let ?accs = "cc_accounts_of_bank s bank"
  have "set ?accs \<subseteq> set (accounts s)" by (auto simp: cc_accounts_of_bank_def)
  note iff = match_account_by_mask_Some [OF assms this, of ?m a]
  have "{b \<in> set ?accs. mask_selects ?m (stored_masks s b)} =
    {b \<in> set (accounts s). sql_lower (a_bank b) = lower bank \<and> a_type b = ''credit_card'' \<and> a_active b = Some True \<and>
       (\<exists>m \<in> set (stored_masks s b). 0 < trailing_visible_digits m \<and> mask_matches ?m m)}"
    by (auto simp: cc_accounts_of_bank_def mask_selects_def list_ex_iff)
  then show ?thesis using iff by (simp add: find_account_def Let_def)
qed

section \<open>What an import does\<close>

lemma link_linked [simp]: "t_account_id t = Some i \<Longrightarrow> link_transaction ctx t = (True, t)"
  by (simp add: link_transaction_def)

lemma rule_without_reference: "t_reference_number t = None \<Longrightarrow> apply_reference_self_transfer_rule env s t = (False, s)"
  by (simp add: apply_reference_self_transfer_rule_def self_transfer_matches_def)

lemma ref_index_ok_append:
  "t_reference_number t = None \<Longrightarrow> ref_index_ok (s\<lparr>transactions := transactions s @ [t]\<rparr>) = ref_index_ok s"
  by (simp add: ref_index_ok_def ref_key_def)

lemma cc_import_row_fields [simp]:
  "t_account_id (cc_import_row env s u bank acct e a d) = Some (u_account_id u)"
  "t_reference_number (cc_import_row env s u bank acct e a d) = None"
  "t_id (cc_import_row env s u bank acct e a d) = next_txn_id s"
  by (simp_all add: cc_import_row_def blank_txn_def)

text \<open>The row stands for the entry.\<close>

definition row_of_entry :: "date_parser \<Rightarrow> statement_upload \<Rightarrow> missing_entry \<Rightarrow> transaction \<Rightarrow> bool" where
  "row_of_entry pd u e t \<longleftrightarrow> parse_cc_amount (e_amount e) = Some (t_amount t) \<and>
     parse_cc_date pd (e_date e) = t_transaction_date t \<and> t_transaction_date t \<noteq> None \<and> t_direction t = e_direction e \<and>
     t_counterparty t = Some (e_narration e) \<and> t_account_id t = Some (u_account_id u) \<and>
     t_statement_upload_id t = Some (u_id u) \<and> t_card_id t = None \<and> t_reference_number t = None"

definition open_entry :: "missing_entry \<Rightarrow> bool" where
  "open_entry e \<longleftrightarrow> \<not> mi_imported e \<and> \<not> mi_ambiguous e"

lemma import_entry_cases:
  assumes "ref_index_ok s"
  shows "import_entry env pd ctx u bank acct s e =
    (if open_entry e then (case parse_cc_amount (e_amount e) of None \<Rightarrow> None
       | Some a \<Rightarrow> (case parse_cc_date pd (e_date e) of
           None \<Rightarrow> Some (e\<lparr>mi_import_error := Some ''could not parse amount/date''\<rparr>, s, [])
         | Some d \<Rightarrow> Some (e\<lparr>mi_imported := True, mi_imported_txn_id := Some (next_txn_id s)\<rparr>,
             s\<lparr>transactions := transactions s @ [cc_import_row env s u bank acct e a d]\<rparr>, [next_txn_id s])))
     else Some (if mi_imported e then e else e\<lparr>mi_import_error := Some AMBIGUOUS_ERROR\<rparr>, s, []))"
  using assms
  by (simp add: import_entry_def open_entry_def ref_index_ok_append rule_without_reference Let_def split: option.split)

lemma import_row_of_entry:
  "parse_cc_amount (e_amount e) = Some a \<Longrightarrow> parse_cc_date pd (e_date e) = Some d \<Longrightarrow>
   row_of_entry pd u e (cc_import_row env s u bank acct e a d)"
  by (simp add: row_of_entry_def cc_import_row_def blank_txn_def)

lemma next_txn_id_snoc: "next_txn_id (s\<lparr>transactions := transactions s @ [t]\<rparr>) = Suc (max (t_id t) (next_txn_id s - 1))"
  by (simp add: next_txn_id_def)

text \<open>What the import makes of an entry, and the entries that get a row.\<close>

definition entry_after :: "date_parser \<Rightarrow> missing_entry \<Rightarrow> missing_entry \<Rightarrow> bool" where
  "entry_after pd e e' \<longleftrightarrow> e_stmt_idx e' = e_stmt_idx e \<and> mi_ambiguous e' = mi_ambiguous e \<and>
     (mi_imported e' \<longleftrightarrow> mi_imported e \<or> open_entry e \<and> parse_cc_date pd (e_date e) \<noteq> None)"

definition gets_row :: "date_parser \<Rightarrow> missing_entry \<Rightarrow> bool" where
  "gets_row pd e \<longleftrightarrow> open_entry e \<and> parse_cc_date pd (e_date e) \<noteq> None"

definition imports_as :: "date_parser \<Rightarrow> statement_upload \<Rightarrow> db \<Rightarrow> missing_entry list \<Rightarrow> missing_entry list \<Rightarrow> db \<Rightarrow> nat list \<Rightarrow> bool" where
  "imports_as pd u s es es' s' ids \<longleftrightarrow> list_all2 (entry_after pd) es es' \<and>
     (\<exists>new. s' = s\<lparr>transactions := transactions s @ new\<rparr> \<and> ids = map t_id new \<and>
        map t_id new = [next_txn_id s ..< next_txn_id s + length new] \<and>
        list_all2 (row_of_entry pd u) (filter (gets_row pd) es) new)"

lemma import_entry_closed:
  assumes "\<not> open_entry e" "ref_index_ok s"
  obtains e' where "import_entry env pd ctx u bank acct s e = Some (e', s, [])" "entry_after pd e e'"
  using import_entry_cases [OF assms(2), of env pd ctx u bank acct e] assms(1)
  by (cases "mi_imported e") (auto simp: entry_after_def)

lemma import_entry_undated:
  assumes "open_entry e" "ref_index_ok s" "parse_cc_amount (e_amount e) = Some a" "parse_cc_date pd (e_date e) = None"
  obtains e' where "import_entry env pd ctx u bank acct s e = Some (e', s, [])" "entry_after pd e e'"
  using import_entry_cases [OF assms(2), of env pd ctx u bank acct e] assms
  by (simp add: entry_after_def)

lemma import_entry_new:
  assumes "open_entry e" "ref_index_ok s" "parse_cc_amount (e_amount e) = Some a" "parse_cc_date pd (e_date e) = Some d"
  obtains e' where "import_entry env pd ctx u bank acct s e =
      Some (e', s\<lparr>transactions := transactions s @ [cc_import_row env s u bank acct e a d]\<rparr>, [next_txn_id s])"
    "entry_after pd e e'"
  using import_entry_cases [OF assms(2), of env pd ctx u bank acct e] assms
  by (simp add: entry_after_def open_entry_def)

lemma imports_as_skip:
  "imports_as pd u s es es' s' ids \<Longrightarrow> entry_after pd e e' \<Longrightarrow> \<not> gets_row pd e \<Longrightarrow> imports_as pd u s (e # es) (e' # es') s' ids"
  by (simp add: imports_as_def)

lemma imports_as_new:
  assumes "imports_as pd u (s\<lparr>transactions := transactions s @ [t]\<rparr>) es es' s' ids" "entry_after pd e e'" "gets_row pd e"
    "row_of_entry pd u e t" "t_id t = next_txn_id s"
  shows "imports_as pd u s (e # es) (e' # es') s' (t_id t # ids)"
proof -
  let ?s = "s\<lparr>transactions := transactions s @ [t]\<rparr>"
  have nxt: "next_txn_id ?s = Suc (next_txn_id s)" using assms(5) by (simp add: next_txn_id_snoc)
  obtain more where more: "s' = ?s\<lparr>transactions := transactions ?s @ more\<rparr>" "ids = map t_id more"
    "map t_id more = [next_txn_id ?s ..< next_txn_id ?s + length more]"
    "list_all2 (row_of_entry pd u) (filter (gets_row pd) es) more"
    using assms(1) unfolding imports_as_def by blast
  have "map t_id (t # more) = [next_txn_id s ..< next_txn_id s + length (t # more)]"
    using more(3) nxt assms(5) by (simp add: upt_conv_Cons del: upt_Suc)
  moreover have "list_all2 (entry_after pd) (e # es) (e' # es')" using assms(1,2) by (simp add: imports_as_def)
  moreover have "list_all2 (row_of_entry pd u) (filter (gets_row pd) (e # es)) (t # more)" using more(4) assms(3,4) by simp
  moreover have "s' = s\<lparr>transactions := transactions s @ (t # more)\<rparr>" using more(1) by simp
  ultimately show ?thesis using more(2) unfolding imports_as_def
    by (intro conjI exI [of _ "t # more"]) simp_all
qed

text \<open>An import fails exactly when the amount of an open entry cannot be read; otherwise it appends one
  row for each open entry with a readable date, in order, and touches nothing else.\<close>

lemma import_entries_spec:
  assumes "ref_index_ok s"
  shows "(case import_entries env pd ctx u bank acct s es of
     None \<Rightarrow> \<exists>e \<in> set es. open_entry e \<and> parse_cc_amount (e_amount e) = None
   | Some (es', s', ids) \<Rightarrow> (\<forall>e \<in> set es. open_entry e \<longrightarrow> parse_cc_amount (e_amount e) \<noteq> None) \<and>
       imports_as pd u s es es' s' ids)"
  using assms
proof (induction es arbitrary: s)
  case Nil
  then show ?case by (simp add: imports_as_def)
next
  case (Cons e es)
  show ?case
  proof (cases "parse_cc_amount (e_amount e)")
    case bad: None
    show ?thesis
    proof (cases "open_entry e")
      case True
      then show ?thesis using import_entry_cases [OF Cons.prems, of env pd ctx u bank acct e] bad by simp
    next
      case False
      obtain e' where e: "import_entry env pd ctx u bank acct s e = Some (e', s, [])" "entry_after pd e e'"
        using import_entry_closed [OF False Cons.prems] .
      have "\<not> gets_row pd e" using False by (simp add: gets_row_def)
      then show ?thesis using Cons.IH [OF Cons.prems] e False
        by (cases "import_entries env pd ctx u bank acct s es") (auto intro!: imports_as_skip)
    qed
  next
    case a: (Some a)
    show ?thesis
    proof (cases "gets_row pd e")
      case False
      obtain e' where e: "import_entry env pd ctx u bank acct s e = Some (e', s, [])" "entry_after pd e e'"
        using import_entry_closed [OF _ Cons.prems] import_entry_undated [OF _ Cons.prems a] False
        unfolding gets_row_def by metis
      then show ?thesis using Cons.IH [OF Cons.prems] False a
        by (cases "import_entries env pd ctx u bank acct s es") (auto intro!: imports_as_skip)
    next
      case True
      then obtain d where d: "open_entry e" "parse_cc_date pd (e_date e) = Some d" by (auto simp: gets_row_def)
      let ?t = "cc_import_row env s u bank acct e a d"
      let ?s = "s\<lparr>transactions := transactions s @ [?t]\<rparr>"
      obtain e' where e: "import_entry env pd ctx u bank acct s e = Some (e', ?s, [next_txn_id s])" "entry_after pd e e'"
        using import_entry_new [OF d(1) Cons.prems a d(2)] .
      have ok: "ref_index_ok ?s" using Cons.prems by (simp add: ref_index_ok_append)
      have step: "imports_as pd u s (e # es) (e' # es') s' (next_txn_id s # ids)" if "imports_as pd u ?s es es' s' ids" for es' s' ids
        using imports_as_new [OF that e(2) True import_row_of_entry [OF a d(2)]] by simp
      show ?thesis using Cons.IH [OF ok] e(1) a step
        by (cases "import_entries env pd ctx u bank acct ?s es") auto
    qed
  qed
qed

section \<open>Importing the result of a reconciliation\<close>

lemma import_missing_spec:
  assumes "ref_index_ok s"
  shows "(case import_missing_cc_txns env pd s u bank acct r of
     None \<Rightarrow> \<exists>e \<in> set (rc_missing r). open_entry e \<and> parse_cc_amount (e_amount e) = None
   | Some (r', s', ids) \<Rightarrow> (\<forall>e \<in> set (rc_missing r). open_entry e \<longrightarrow> parse_cc_amount (e_amount e) \<noteq> None) \<and>
       rc_matched r' = rc_matched r \<and> imports_as pd u s (rc_missing r) (rc_missing r') s' ids)"
  using import_entries_spec [OF assms, where env = env and pd = pd and u = u and bank = bank and acct = acct and
    ctx = "build_link_context s" and es = "rc_missing r"]
  by (auto simp: import_missing_cc_txns_def split: option.splits prod.splits)

lemma recon_entries:
  assumes "distinct (map t_id ts)" "reconcile_statement pd parsed ts masks = Some r"
  shows "\<And>e. e \<in> set (rc_matched r) \<Longrightarrow> match_ok pd masks ts (stmt_txns parsed) e"
    "\<And>e. e \<in> set (rc_missing r) \<Longrightarrow> miss_ok pd ts (stmt_txns parsed) e"
    "\<And>i. i < length (stmt_txns parsed) \<Longrightarrow> i \<in> e_stmt_idx ` set (rc_matched r) \<or> i \<in> e_stmt_idx ` set (rc_missing r)"
proof -
  obtain M N C R where run: "greedy_run pd masks ts (stmt_txns parsed) M N C R"
    and r: "rc_matched r = map (final_entry pd ts (stmt_txns parsed) R) (kept_of R C M)"
    "rc_missing r = sort_key e_stmt_idx (N @
       map (demote (candidate_sets pd (build_pool ts) (stmt_txns parsed))) (demoted_of R C))"
    using reconcile_statement_run [OF assms] by blast
  show "\<And>e. e \<in> set (rc_matched r) \<Longrightarrow> match_ok pd masks ts (stmt_txns parsed) e"
    using final_entry_ok [OF run] by (auto simp: r)
  show "\<And>e. e \<in> set (rc_missing r) \<Longrightarrow> miss_ok pd ts (stmt_txns parsed) e"
    using missing_ok [OF run] by (auto simp: r)
  have "mset (map e_stmt_idx (rc_matched r)) + mset (map e_stmt_idx (rc_missing r)) =
      mset (map e_stmt_idx (kept_of R C M)) + mset (map e_stmt_idx (demoted_of R C)) + mset (map e_stmt_idx N)"
    by (simp add: r comp_def multiset.map_comp)
  then have "mset (map e_stmt_idx (rc_matched r)) + mset (map e_stmt_idx (rc_missing r)) = mset [0..<length (stmt_txns parsed)]"
    using kept_demoted_count [OF run] greedy_run_facts(4) [OF run] by simp
  then have "set_mset (mset (map e_stmt_idx (rc_matched r)) + mset (map e_stmt_idx (rc_missing r))) = {0..<length (stmt_txns parsed)}"
    by simp
  then show "\<And>i. i < length (stmt_txns parsed) \<Longrightarrow> i \<in> e_stmt_idx ` set (rc_matched r) \<or> i \<in> e_stmt_idx ` set (rc_missing r)"
    by auto
qed

text \<open>A row without a readable identity has no stored counterpart: it is an open entry.\<close>

lemma unreadable_open:
  assumes "distinct (map t_id ts)" "reconcile_statement pd parsed ts masks = Some r" "i < length (stmt_txns parsed)"
    "row_identity pd (stmt_txns parsed ! i) = None"
  obtains e where "e \<in> set (rc_missing r)" "e_stmt_idx e = i" "entry_of (stmt_txns parsed) e" "open_entry e"
proof -
  note facts = recon_entries [OF assms(1,2)]
  have none: "\<not> stored_near pd ts (stmt_txns parsed ! i) t" for t using assms(4) by (simp add: stored_near_def)
  have "i \<notin> e_stmt_idx ` set (rc_matched r)" using facts(1) none by (auto simp: match_ok_def)
  then obtain e where e: "e \<in> set (rc_missing r)" "e_stmt_idx e = i" using facts(3) [OF assms(3)] by auto
  then have "entry_of (stmt_txns parsed) e" "open_entry e" using facts(2) [OF e(1)] none by (auto simp: miss_ok_def open_entry_def)
  then show thesis using that e by blast
qed

text \<open>C35. An import adds exactly the missing rows. It appends one transaction for each entry that is
  open and has a readable date, in statement order, with the entry's amount, date, direction and
  narration, filed under the statement and its account, under fresh consecutive keys, which it
  returns; every other table and row stays as it is, and only those entries are marked imported.\<close>

theorem import_is_exact:
  assumes "ref_index_ok s" "import_missing_cc_txns env pd s u bank acct r = Some (r', s', ids)"
  shows "rc_matched r' = rc_matched r \<and> list_all2 (entry_after pd) (rc_missing r) (rc_missing r') \<and>
    (\<exists>new. s' = s\<lparr>transactions := transactions s @ new\<rparr> \<and> ids = map t_id new \<and>
       ids = [next_txn_id s ..< next_txn_id s + length new] \<and>
       list_all2 (row_of_entry pd u) (filter (gets_row pd) (rc_missing r)) new)"
proof -
  have "imports_as pd u s (rc_missing r) (rc_missing r') s' ids" "rc_matched r' = rc_matched r"
    using import_missing_spec [OF assms(1), where env = env and pd = pd and u = u and bank = bank and acct = acct and r = r] assms(2) by simp_all
  then show ?thesis unfolding imports_as_def by metis
qed

text \<open>C36. One unreadable amount stops the whole import. If the amount of any row of the statement cannot
  be parsed, the import of the reconciled statement ends with the exception and no row of it is
  stored, although every other row of it could be.\<close>

theorem unreadable_amount_aborts_import:
  assumes "distinct (map t_id ts)" "reconcile_statement pd parsed ts masks = Some r" "ref_index_ok s"
    "(l, dir, row) \<in> set (stmt_txns parsed)" "parse_cc_amount (r_amount row) = None"
  shows "import_missing_cc_txns env pd s u bank acct r = None"
proof -
  obtain i where i: "i < length (stmt_txns parsed)" "stmt_txns parsed ! i = (l, dir, row)"
    using assms(4) by (metis in_set_conv_nth)
  then have "row_identity pd (stmt_txns parsed ! i) = None"
    using assms(5) by (simp add: row_identity_def split: option.split)
  then obtain e where e: "e \<in> set (rc_missing r)" "e_stmt_idx e = i" "entry_of (stmt_txns parsed) e" "open_entry e"
    using unreadable_open [OF assms(1,2) i(1)] by blast
  then have "parse_cc_amount (e_amount e) = None" using i(2) assms(5) by (simp add: entry_of_def)
  then show ?thesis using import_missing_spec [OF assms(3), where env = env and pd = pd and u = u and bank = bank and acct = acct and r = r] e(1,4)
    by (cases "import_missing_cc_txns env pd s u bank acct r") auto
qed

end
