(* ===== verification/Cc_Replay.thy ===== *)
theory Cc_Replay
  imports Cc_Import
begin

text \<open>
  A statement that is processed and later reparsed (\<open>process_statement_email\<close> followed by
  \<open>retry_cc_statement_upload\<close>): the second pass finds a stored row for every row of the statement
  and imports nothing. The file holds the coverage of a statement by the stored rows, what the
  steps of the two operations leave alone, and the properties.
\<close>

section \<open>Coverage\<close>

text \<open>Every row of the statement has a readable amount and, when it has a readable date, a stored row
  that could be it.\<close>

definition covered_by :: "date_parser \<Rightarrow> cc_parsed \<Rightarrow> transaction list \<Rightarrow> bool" where
  "covered_by pd parsed ts \<longleftrightarrow> (\<forall>st \<in> set (stmt_txns parsed). parse_cc_amount (r_amount (snd (snd st))) \<noteq> None \<and>
     (row_identity pd st \<noteq> None \<longrightarrow> (\<exists>t. stored_near pd ts st t)))"

lemma stored_near_mono: "stored_near pd ts st t \<Longrightarrow> set ts \<subseteq> set ts' \<Longrightarrow> stored_near pd ts' st t"
  by (auto simp: stored_near_def)

text \<open>Once an import has gone through, the statement is covered.\<close>

lemma imported_row_near:
  assumes "row_of_entry pd u e t" "entry_of sts e" "t \<in> set ts"
  shows "stored_near pd ts (sts ! e_stmt_idx e) t"
proof -
  have "could_be pd e t" using assms(1) by (auto simp: row_of_entry_def could_be_def)
  then show ?thesis using stored_near_entry [OF assms(2)] assms(3) by blast
qed

lemma covered_after_import:
  assumes r: "distinct (map t_id ts)" "reconcile_statement pd parsed ts masks = Some r"
    and imp: "ref_index_ok s" "import_missing_cc_txns env pd s u bank acct r = Some (r', s', ids)"
    and new: "s' = s\<lparr>transactions := transactions s @ new\<rparr>" "list_all2 (row_of_entry pd u) (filter (gets_row pd) (rc_missing r)) new"
    and sub: "set ts \<union> set new \<subseteq> set ts'"
  shows "covered_by pd parsed ts'"
  unfolding covered_by_def
proof
  fix st assume "st \<in> set (stmt_txns parsed)"
  then obtain i where i: "i < length (stmt_txns parsed)" "stmt_txns parsed ! i = st" by (metis in_set_conv_nth)
  note facts = recon_entries [OF r]
  have lift: "stored_near pd ts' st' t" if "stored_near pd ts st' t" for st' t
    using stored_near_mono [OF that] sub by simp
  have open_ok: "\<forall>e \<in> set (rc_missing r). open_entry e \<longrightarrow> parse_cc_amount (e_amount e) \<noteq> None"
    using import_missing_spec [OF imp(1), where env = env and pd = pd and u = u and bank = bank and acct = acct and r = r] imp(2)
    by simp
  show "parse_cc_amount (r_amount (snd (snd st))) \<noteq> None \<and> (row_identity pd st \<noteq> None \<longrightarrow> (\<exists>t. stored_near pd ts' st t))"
  proof (intro conjI impI notI)
    assume none: "parse_cc_amount (r_amount (snd (snd st))) = None"
    then have "row_identity pd (stmt_txns parsed ! i) = None" using i(2) by (simp add: row_identity_def)
    then obtain e where "e \<in> set (rc_missing r)" "e_stmt_idx e = i" "entry_of (stmt_txns parsed) e" "open_entry e"
      using unreadable_open [OF r i(1)] by blast
    then show False using open_ok none i(2) by (auto simp: entry_of_def)
  next
    assume id: "row_identity pd st \<noteq> None"
    consider (matched) e where "e \<in> set (rc_matched r)" "e_stmt_idx e = i"
      | (missing) e where "e \<in> set (rc_missing r)" "e_stmt_idx e = i"
      using facts(3) [OF i(1)] by auto
    then show "\<exists>t. stored_near pd ts' st t"
    proof cases
      case matched
      obtain t where "stored_near pd ts (stmt_txns parsed ! i) t"
        using facts(1) [OF matched(1)] matched(2) unfolding match_ok_def by metis
      then show ?thesis using lift i(2) by blast
    next
      case missing
      note m = facts(2) [OF missing(1)]
      show ?thesis
      proof (cases "mi_ambiguous e")
        case True
        then obtain t where "stored_near pd ts (stmt_txns parsed ! i) t" using m missing(2) unfolding miss_ok_def by metis
        then show ?thesis using lift i(2) by blast
      next
        case False
        have entry: "entry_of (stmt_txns parsed) e" using m by (simp add: miss_ok_def)
        have "gets_row pd e" using False m id i(2) missing(2) entry
          by (cases st) (auto simp: miss_ok_def gets_row_def open_entry_def entry_of_def row_identity_def split: option.splits)
        then have "e \<in> set (filter (gets_row pd) (rc_missing r))" using missing(1) by simp
        then obtain t where "t \<in> set new" "row_of_entry pd u e t"
          using new(2) by (metis in_set_conv_nth list_all2_conv_all_nth)
        then show ?thesis using imported_row_near [OF _ entry] sub missing(2) i(2) by blast
      qed
    qed
  qed
qed

text \<open>An import of a covered statement adds nothing.\<close>

lemma import_covered:
  assumes "covered_by pd parsed ts" "distinct (map t_id ts)" "reconcile_statement pd parsed ts masks = Some r" "ref_index_ok s"
  obtains r' where "import_missing_cc_txns env pd s u bank acct r = Some (r', s, [])"
proof -
  note facts = recon_entries [OF assms(2,3)]
  have cov: "parse_cc_amount (e_amount e) \<noteq> None" "open_entry e \<Longrightarrow> parse_cc_date pd (e_date e) = None"
    if e: "e \<in> set (rc_missing r)" for e
  proof -
    have m: "miss_ok pd ts (stmt_txns parsed) e" using facts(2) [OF e] .
    let ?st = "stmt_txns parsed ! e_stmt_idx e"
    have entry: "entry_of (stmt_txns parsed) e" and st: "?st \<in> set (stmt_txns parsed)"
      using m by (simp_all add: miss_ok_def entry_of_def)
    have amt: "r_amount (snd (snd ?st)) = e_amount e" "r_date (snd (snd ?st)) = e_date e"
      using entry by (auto simp: entry_of_def split: prod.splits)
    show a: "parse_cc_amount (e_amount e) \<noteq> None" using assms(1) st amt by (auto simp: covered_by_def)
    show "parse_cc_date pd (e_date e) = None" if "open_entry e"
    proof (rule ccontr)
      assume "parse_cc_date pd (e_date e) \<noteq> None"
      then have "row_identity pd ?st \<noteq> None" using a amt by (auto simp: row_identity_def)
      then have "\<exists>t. stored_near pd ts ?st t" using assms(1) st by (auto simp: covered_by_def)
      then show False using m that by (auto simp: miss_ok_def open_entry_def)
    qed
  qed
  note spec = import_missing_spec [OF assms(4), where env = env and pd = pd and u = u and bank = bank and acct = acct and r = r]
  have none: "filter (gets_row pd) (rc_missing r) = []" using cov by (auto simp: filter_empty_conv gets_row_def)
  show thesis
  proof (cases "import_missing_cc_txns env pd s u bank acct r")
    case None
    then show ?thesis using spec cov(1) by auto
  next
    case (Some res)
    obtain r' s' ids where res: "res = (r', s', ids)" by (cases res)
    then have "imports_as pd u s (rc_missing r) (rc_missing r') s' ids" using spec Some by simp
    then have "s' = s" "ids = []" unfolding imports_as_def none by auto
    then show ?thesis using that Some res by simp
  qed
qed

section \<open>What the steps leave alone\<close>

lemma put_upload_frame [simp]:
  "transactions (ps_db (put_upload u s)) = transactions (ps_db s)" "accounts (ps_db (put_upload u s)) = accounts (ps_db s)"
  by (simp_all add: put_upload_db)

lemma recompute_frame:
  assumes "recompute_cc_payment_state pd now s u z = Some (p, s')"
  shows "transactions (ps_db s') = transactions (ps_db s)" "accounts (ps_db s') = accounts (ps_db s)"
  using assms by (auto simp: recompute_Some)

lemma init_frame [simp]:
  "transactions (ps_db (snd (init_payment_tracking pd now today s i))) = transactions (ps_db s)"
  "accounts (ps_db (snd (init_payment_tracking pd now today s i))) = accounts (ps_db s)"
  by (auto simp: init_payment_tracking_def Let_def recompute_frame split: option.split)

lemma resync_frame [simp]:
  "transactions (ps_db (snd (resync_tracked_cc_payment_state pd now s u))) = transactions (ps_db s)"
  by (auto simp: resync_tracked_cc_payment_state_def recompute_frame split: option.split)

text \<open>The columns that the enrichment does not write.\<close>

definition core :: "transaction \<Rightarrow> nat \<times> nat option \<times> rat \<times> string \<times> date option \<times> string \<times> string option" where
  "core t = (t_id t, t_account_id t, t_amount t, t_direction t, t_transaction_date t, t_bank t, t_reference_number t)"

lemma core_put_counterparty:
  assumes "distinct (map t_id (transactions s))" "t \<in> set (transactions s)"
  shows "map core (transactions (put_txn (t\<lparr>t_counterparty := c\<rparr>) s)) = map core (transactions s)"
proof -
  have "core (if t_id r = t_id (t\<lparr>t_counterparty := c\<rparr>) then t\<lparr>t_counterparty := c\<rparr> else r) = core r"
    if "r \<in> set (transactions s)" for r
    using assms that by (auto simp: core_def distinct_map inj_on_def)
  then show ?thesis by (simp add: put_txn_def)
qed

lemma enrich_entry_frame:
  assumes "distinct (map t_id (transactions s))"
  shows "map core (transactions (fst (enrich_entry (s, n) e))) = map core (transactions s) \<and>
    accounts (fst (enrich_entry (s, n) e)) = accounts s \<and> uploads (fst (enrich_entry (s, n) e)) = uploads s"
proof (cases "List.find (\<lambda>t. t_id t = me_db_txn_id e) (transactions s)")
  case None
  then show ?thesis by (simp add: enrich_entry_def Let_def)
next
  case (Some t)
  then have "t \<in> set (transactions s)" using find_Some_D by fast
  then show ?thesis using Some core_put_counterparty [OF assms] by (simp add: enrich_entry_def Let_def)
qed

lemma core_ids:
  assumes "map core ts = map core ts'"
  shows "map t_id ts = map t_id ts'"
proof -
  have "map t_id xs = map fst (map core xs)" for xs by (simp add: core_def)
  then show ?thesis using assms by metis
qed

lemma enrich_frame:
  assumes "distinct (map t_id (transactions s))"
  shows "map core (transactions (fst (enrich_matched_transactions s r))) = map core (transactions s) \<and>
    accounts (fst (enrich_matched_transactions s r)) = accounts s \<and> uploads (fst (enrich_matched_transactions s r)) = uploads s"
proof -
  have "map core (transactions (fst (foldl enrich_entry (s, n) es))) = map core (transactions s) \<and>
    accounts (fst (foldl enrich_entry (s, n) es)) = accounts s \<and> uploads (fst (foldl enrich_entry (s, n) es)) = uploads s" for n es
    using assms
  proof (induction es arbitrary: s n)
    case (Cons e es)
    obtain s' n' where e: "enrich_entry (s, n) e = (s', n')" by (cases "enrich_entry (s, n) e")
    note step = enrich_entry_frame [OF Cons.prems, of n e, unfolded e fst_conv]
    then have "distinct (map t_id (transactions s'))" using Cons.prems core_ids by metis
    from Cons.IH [OF this, of n'] show ?case using step e by simp
  qed simp
  then show ?thesis by (simp add: enrich_matched_transactions_def)
qed

lemma ref_index_core:
  assumes "map core (transactions s') = map core (transactions s)" "ref_index_ok s"
  shows "ref_index_ok s'"
proof -
  let ?k = "\<lambda>(i, acc, a, dir, d, b, n). map_option (\<lambda>r. (b, r, dir)) n"
  have "map ref_key xs = map ?k (map core xs)" for xs by (simp add: ref_key_def core_def)
  then have "map ref_key (transactions s') = map ref_key (transactions s)" using assms(1) by metis
  then show ?thesis using assms(2) unfolding ref_index_ok_def by metis
qed

lemma near_core: "core t' = core t \<Longrightarrow> near_event d a dir t' = near_event d a dir t"
  by (simp add: core_def near_event_def)

lemma covered_core:
  assumes "map core (transactions s') = map core (transactions s)" "covered_by pd parsed (account_rows s i)"
  shows "covered_by pd parsed (account_rows s' i)"
proof -
  have "\<exists>t. stored_near pd (account_rows s' i) st t" if near: "stored_near pd (account_rows s i) st t" for st t
  proof -
    have "core t \<in> core ` set (transactions s')"
      using near arg_cong [OF assms(1), of set] by (auto simp: stored_near_def account_rows_def)
    then obtain t' where t': "t' \<in> set (transactions s')" "core t' = core t" by (metis image_iff)
    then have "t' \<in> set (account_rows s' i)" using near by (auto simp: stored_near_def account_rows_def core_def)
    then have "stored_near pd (account_rows s' i) st t'"
      using near near_core [OF t'(2)] by (auto simp: stored_near_def split: option.splits)
    then show ?thesis by blast
  qed
  then show ?thesis using assms(2) unfolding covered_by_def by blast
qed

text \<open>The window of the second pass holds every row that could be on the statement.\<close>

lemma stmt_txns_rows:
  assumes "(l, dir, row) \<in> set (stmt_txns parsed)"
  shows "row \<in> set (p_transactions parsed @ p_payments_refunds parsed)"
proof -
  have "set (unclaimed_credits tw rs) \<subseteq> set rs" for tw rs
    using unclaimed_credits_twins [of rs tw] by (metis mset_subset_eq_add_left set_mset_mono set_mset_mset)
  then show ?thesis using assms by (auto simp: stmt_txns_def)
qed

lemma near_in_window:
  assumes "st \<in> set (stmt_txns parsed)" "stored_near pd (account_rows s i) st t"
  shows "stored_near pd (window_rows pd parsed s i) st t"
proof -
  obtain l dir row where st: "st = (l, dir, row)" by (cases st)
  obtain d a where id: "row_identity pd st = Some (d, a)" "t \<in> set (account_rows s i)" "near_event d a dir t"
    using assms(2) st by (auto simp: stored_near_def split: option.splits)
  let ?dates = "List.map_filter (\<lambda>r. parse_cc_date pd (r_date r)) (p_transactions parsed @ p_payments_refunds parsed)"
  have date: "parse_cc_date pd (r_date row) = Some d" using id(1) st by (auto simp: row_identity_def split: option.splits)
  have "row \<in> set (p_transactions parsed @ p_payments_refunds parsed)" using stmt_txns_rows assms(1) st by metis
  then have d: "d \<in> set ?dates" using date by (force simp: map_filter_def)
  then have rng: "Min (set ?dates) \<le> d" "d \<le> Max (set ?dates)" by simp_all
  obtain x where x: "t_transaction_date t = Some x" "\<bar>x - d\<bar> \<le> 1" using id(3) by (auto simp: near_event_def)
  have wide: "Min (set ?dates) - 7 \<le> x" "x \<le> Max (set ?dates) + 7" using rng x(2) by linarith+
  have "?dates \<noteq> []" using d by (metis empty_iff list.set(1))
  then have "t \<in> set (window_rows pd parsed s i)"
    using id(2) x(1) wide by (simp add: window_rows_def cc_stmt_date_range_def STMT_RECONCILE_DATE_BUFFER_DAYS_def Let_def)
  then show ?thesis using assms(2) by (simp add: stored_near_def)
qed

lemma covered_window: "covered_by pd parsed (account_rows s i) \<Longrightarrow> covered_by pd parsed (window_rows pd parsed s i)"
  unfolding covered_by_def using near_in_window by blast

section \<open>The first pass\<close>

lemma next_upload_id_fresh: "u \<in> set (uploads s) \<Longrightarrow> u_id u < next_upload_id s"
  by (simp add: next_upload_id_def less_Suc_eq_le fold_max_ge)

text \<open>What the first pass leaves for the second.\<close>

definition replayable :: "date_parser \<Rightarrow> cc_parsed \<Rightarrow> account \<Rightarrow> db \<Rightarrow> bool" where
  "replayable pd parsed a s \<longleftrightarrow> distinct (map t_id (transactions s)) \<and> ref_index_ok s \<and>
     get_account s (a_id a) = Some a \<and> covered_by pd parsed (account_rows s (a_id a))"

lemma replayable_core:
  assumes "replayable pd parsed a s" "map core (transactions s') = map core (transactions s)" "accounts s' = accounts s"
  shows "replayable pd parsed a s'"
  using assms core_ids [OF assms(2)] ref_index_core [OF assms(2)] covered_core [OF assms(2)]
  by (simp add: replayable_def get_account_def)

lemma replayable_after_import:
  assumes r: "distinct (map t_id (transactions s))" "reconcile_statement pd parsed (account_rows s (a_id a)) masks = Some r"
    and s: "ref_index_ok s" "get_account s (a_id a) = Some a" "u_account_id u = a_id a"
    and s': "s' = s\<lparr>uploads := us\<rparr>" "import_missing_cc_txns env pd s' u bank acct r = Some (r', s'', ids)"
  shows "replayable pd parsed a s''"
proof -
  have ok: "ref_index_ok s'" using s(1) s'(1) by (simp add: ref_index_ok_def)
  have "imports_as pd u s' (rc_missing r) (rc_missing r') s'' ids"
    using import_missing_spec [OF ok, where env = env and pd = pd and u = u and bank = bank and acct = acct and r = r] s'(2) by simp
  then obtain new where new: "s'' = s'\<lparr>transactions := transactions s' @ new\<rparr>"
    "map t_id new = [next_txn_id s' ..< next_txn_id s' + length new]"
    "list_all2 (row_of_entry pd u) (filter (gets_row pd) (rc_missing r)) new" unfolding imports_as_def by blast
  have row: "t_account_id t = Some (a_id a)" "t_reference_number t = None" "next_txn_id s' \<le> t_id t" if t: "t \<in> set new" for t
  proof -
    obtain k where k: "k < length new" "new ! k = t" using t by (metis in_set_conv_nth)
    then have "row_of_entry pd u (filter (gets_row pd) (rc_missing r) ! k) t" using new(3) by (metis list_all2_conv_all_nth)
    then show "t_account_id t = Some (a_id a)" "t_reference_number t = None" using s(3) by (simp_all add: row_of_entry_def)
    have "t_id t \<in> set (map t_id new)" using t by simp
    then show "next_txn_id s' \<le> t_id t" unfolding new(2) by simp
  qed
  have tx: "transactions s' = transactions s" "transactions s'' = transactions s @ new" "accounts s'' = accounts s"
    unfolding new(1) s'(1) by simp_all
  have fresh: "t_id x \<noteq> t_id y" if "x \<in> set (transactions s)" "y \<in> set new" for x y
    using next_txn_id_fresh [of x s'] row(3) [OF that(2)] that(1) tx(1) by simp
  have "distinct (map t_id new)" unfolding new(2) by simp
  then have d: "distinct (map t_id (transactions s''))"
    unfolding tx(2) using r(1) fresh by fastforce
  have "filter (\<lambda>k. k \<noteq> None) (map ref_key new) = []" using row(2) by (auto simp: ref_key_def filter_empty_conv)
  then have i: "ref_index_ok s''" using s(1) unfolding ref_index_ok_def tx(2) map_append filter_append by (simp only: append_Nil2)
  have "set new \<subseteq> set (account_rows s'' (a_id a))" using row(1) by (auto simp: account_rows_def tx(2))
  then have sub: "set (account_rows s (a_id a)) \<union> set new \<subseteq> set (account_rows s'' (a_id a))"
    by (simp add: account_rows_def tx(2))
  have da: "distinct (map t_id (account_rows s (a_id a)))" using r(1) by (simp add: account_rows_def distinct_map_filter)
  have "covered_by pd parsed (account_rows s'' (a_id a))" by (rule covered_after_import [OF da r(2) ok s'(2) new(1,3) sub])
  then show ?thesis using d i s(2) by (simp only: replayable_def get_account_def tx(3))
qed

lemma get_upload_put:
  assumes "get_upload s i = Some u" "u_id v = i"
  shows "get_upload (put_upload v s) i = Some v"
proof -
  have "List.find (\<lambda>u. u_id u = i) xs = Some u \<Longrightarrow>
    List.find (\<lambda>u. u_id u = i) (map (\<lambda>r. if u_id r = i then v else r) xs) = Some v" for xs
    using assms(2) by (induction xs) auto
  then show ?thesis using assms by (simp add: get_upload_def put_upload_db)
qed

lemma get_upload_cong: "ps_db s' = ps_db s \<Longrightarrow> get_upload s' i = get_upload s i"
  by (simp add: get_upload_def)

lemma recompute_get:
  assumes "recompute_cc_payment_state pd now s u z = Some (p, s')" "get_upload s i = Some u"
  obtains v where "get_upload s' i = Some v" "u_account_id v = u_account_id u"
proof -
  obtain d where s': "s' = snd (emit_cc_snapshot now (paid_state now p d z u) (put_upload (paid_state now p d z u) s))"
    using assms(1) by (auto simp: recompute_Some)
  have "get_upload (put_upload (paid_state now p d z u) s) i = Some (paid_state now p d z u)"
    using get_upload_put [OF assms(2)] get_upload_Some [OF assms(2)] by simp
  then have "get_upload s' i = Some (paid_state now p d z u)" using get_upload_cong [of s'] s' by simp
  then show thesis using that by simp
qed

lemma get_upload_init:
  assumes "get_upload s i = Some u"
  obtains v where "get_upload (snd (init_payment_tracking pd now today s i)) i = Some v" "u_account_id v = u_account_id u"
proof (cases "snd (init_payment_tracking pd now today s i) = s")
  case True
  then show ?thesis using assms that by simp
next
  case False
  then obtain dd d where d: "due pd (u_due_date u) = Some dd" "amount_due u = Some d" "truthy (u_due_date u)"
    "truthy (u_total_amount_due u)" "u_payment_status u = None" "\<not> dd < ord_of (year_of today) (month_of today) 1"
    using assms by (auto simp: init_payment_tracking_def split: option.splits if_splits)
  show ?thesis
  proof (cases "d \<le> 0")
    case True
    let ?v = "u\<lparr>u_payment_status := Some PAID, u_payment_paid_at := Some now, u_payment_paid_amount := Some d\<rparr>"
    have "snd (init_payment_tracking pd now today s i) = snd (emit_cc_snapshot now ?v (put_upload ?v s))"
      using assms d True by (simp add: init_payment_tracking_def Let_def)
    moreover have "get_upload (put_upload ?v s) i = Some ?v"
      using get_upload_put [OF assms] get_upload_Some [OF assms] by simp
    ultimately have "get_upload (snd (init_payment_tracking pd now today s i)) i = Some ?v"
      using get_upload_cong [of "snd (init_payment_tracking pd now today s i)" "put_upload ?v s"] by simp
    then show ?thesis using that by simp
  next
    case n: False
    then obtain p where "recompute_cc_payment_state pd now s u True = Some (p, snd (init_payment_tracking pd now today s i))"
      using assms d False by (auto simp: init_payment_tracking_def Let_def split: option.splits)
    from recompute_get [OF this assms] show ?thesis using that by blast
  qed
qed

lemma import_uploads:
  assumes "ref_index_ok s" "import_missing_cc_txns env pd s u bank acct r = Some (r', s', ids)"
  shows "uploads s' = uploads s"
  using import_missing_spec [OF assms(1), where env = env and pd = pd and u = u and bank = bank and acct = acct and r = r] assms(2)
  by (auto simp: imports_as_def)

lemma find_append_fresh: "(\<And>x. x \<in> set xs \<Longrightarrow> \<not> P x) \<Longrightarrow> List.find P (xs @ ys) = List.find P ys"
  by (induction xs) auto

lemma process_replayable:
  assumes s: "keys_ok (ps_db s)" "ref_index_ok (ps_db s)" "get_account (ps_db s) (a_id a) = Some a"
    and p: "process_parsed env pd today s a bank parsed = Some (Processed i r ids, s')"
  obtains u where "replayable pd parsed a (ps_db s')" "get_upload s' i = Some u" "u_account_id u = a_id a"
proof -
  let ?now = "env_now env"
  obtain r0 where r0: "reconcile_statement pd parsed (account_rows (ps_db s) (a_id a))
      (load_account_card_masks (ps_db s) (a_id a)) = Some r0"
    using p by (auto simp: process_parsed_def Let_def split: option.splits)
  let ?u = "new_statement ?now (ps_db s) a bank parsed r0"
  let ?db1 = "(ps_db s)\<lparr>uploads := uploads (ps_db s) @ [?u]\<rparr>"
  obtain r1 db2 ids1 where imp: "import_missing_cc_txns env pd ?db1 ?u (cc_parsed.p_bank parsed) (Some a) r0 = Some (r1, db2, ids1)"
    using p r0 by (auto simp: process_parsed_def Let_def split: option.splits)
  define w where "w = (case snd (snd (import_skip_summary (rc_missing r1))) of None \<Rightarrow> finish_upload r1 ids1 ?u
    | Some e \<Rightarrow> (finish_upload r1 ids1 ?u)\<lparr>u_error := Some e\<rparr>)"
  define s2 where "s2 = snd (emit_cc_snapshot ?now w (put_upload w (s\<lparr>ps_db := db2\<rparr>)))"
  define s3 where "s3 = s2\<lparr>ps_db := fst (enrich_matched_transactions (ps_db s2) r1)\<rparr>"
  have out: "i = u_id w" "s' = snd (init_payment_tracking pd ?now today s3 (u_id w))"
    using p r0 imp by (auto simp: process_parsed_def Let_def w_def s2_def s3_def split: option.splits)
  have d: "distinct (map t_id (transactions (ps_db s)))" using s(1) by (simp add: keys_ok_def)
  have "u_account_id ?u = a_id a" by (simp add: new_statement_def)
  note rp = replayable_after_import [OF d r0 s(2,3) this refl imp]
  have db2: "ps_db s2 = ps_db (put_upload w (s\<lparr>ps_db := db2\<rparr>))" by (simp add: s2_def)
  have "distinct (map t_id (transactions (ps_db s2)))" using rp db2 by (simp add: replayable_def)
  note e = enrich_frame [OF this, of r1]
  have "map core (transactions (ps_db s')) = map core (transactions db2)" "accounts (ps_db s') = accounts db2"
    using e db2 out(2) by (simp_all add: s3_def)
  note final = replayable_core [OF rp this]
  have w: "u_id w = next_upload_id (ps_db s)" "u_account_id w = a_id a"
    by (simp_all add: w_def finish_upload_def new_statement_def Let_def split: option.split)
  have "uploads db2 = uploads (ps_db s) @ [?u]" using import_uploads [OF _ imp] s(2) by (simp add: ref_index_ok_def)
  moreover have "u_id x \<noteq> u_id w" if "x \<in> set (uploads (ps_db s))" for x
    using next_upload_id_fresh [OF that] w(1) by simp
  then have "List.find (\<lambda>x. u_id x = u_id w) (uploads (ps_db s) @ [?u]) = List.find (\<lambda>x. u_id x = u_id w) [?u]"
    by (rule find_append_fresh)
  ultimately have "get_upload (s\<lparr>ps_db := db2\<rparr>) (u_id w) = Some ?u"
    using w(1) by (simp add: get_upload_def new_statement_def)
  then have "get_upload (put_upload w (s\<lparr>ps_db := db2\<rparr>)) (u_id w) = Some w" using get_upload_put by blast
  then have "get_upload s3 (u_id w) = Some w" using e db2 by (simp add: s3_def get_upload_def)
  from get_upload_init [OF this] show thesis using that final w(2) out by metis
qed

section \<open>The second pass\<close>

lemma reconcile_again: "reconcile_statement pd parsed ts masks = None \<longleftrightarrow> reconcile_statement pd parsed ts' masks' = None"
  by (auto simp: reconcile_statement_def split: option.splits prod.splits)

lemma retry_replayable:
  assumes rp: "replayable pd parsed a (ps_db s)" and u: "get_upload s i = Some u" "u_account_id u = a_id a"
    and some: "reconcile_statement pd parsed ts masks \<noteq> None"
  obtains b s' where "retry_parsed env pd today s i parsed = Some ((b, []), s')"
    "map core (transactions (ps_db s')) = map core (transactions (ps_db s))"
proof (cases "u_source_kind u = ''email_summary''")
  case True
  then have "retry_parsed env pd today s i parsed = Some ((False, []), s)" using u by (simp add: retry_parsed_def Let_def)
  then show ?thesis using that by blast
next
  case False
  let ?ts = "window_rows pd parsed (ps_db s) (u_account_id u)"
  obtain r where r: "reconcile_statement pd parsed ?ts (load_account_card_masks (ps_db s) (u_account_id u)) = Some r"
    using some reconcile_again by (metis option.exhaust)
  have d: "distinct (map t_id (transactions (ps_db s)))" and acc: "get_account (ps_db s) (a_id a) = Some a"
    using rp by (simp_all add: replayable_def)
  note e = enrich_frame [OF d, of r]
  define db1 where "db1 = fst (enrich_matched_transactions (ps_db s) r)"
  define s1 where "s1 = put_upload (reparsed parsed r u) (s\<lparr>ps_db := db1\<rparr>)"
  have s1: "map core (transactions (ps_db s1)) = map core (transactions (ps_db s))" "accounts (ps_db s1) = accounts (ps_db s)"
    using e by (simp_all add: s1_def db1_def)
  have ok: "ref_index_ok (ps_db s1)" using ref_index_core [OF s1(1)] rp by (simp add: replayable_def)
  have "distinct (map t_id ?ts)"
    using d by (simp add: window_rows_def account_rows_def distinct_map_filter split: option.split)
  moreover have "covered_by pd parsed ?ts" using rp covered_window u(2) by (simp add: replayable_def)
  ultimately obtain r' where imp: "import_missing_cc_txns env pd (ps_db s1) (reparsed parsed r u) (cc_parsed.p_bank parsed) (Some a) r =
      Some (r', ps_db s1, [])"
    using import_covered [OF _ _ r ok] by blast
  have "get_account db1 (u_account_id u) = Some a" using acc e u(2) by (simp add: get_account_def db1_def)
  then have "\<exists>s'. retry_parsed env pd today s i parsed = Some ((True, []), s') \<and> transactions (ps_db s') = transactions (ps_db s1)"
    using u(1) False r imp
    by (simp add: retry_parsed_def Let_def case_prod_beta flip: db1_def s1_def) (auto split: option.split)
  then show ?thesis using that s1(1) by metis
qed

text \<open>C37. Reparsing a processed statement imports nothing. After a statement was processed, the
  reparsing of the same content, on any later day, ends without exception, adds no transaction, and
  leaves every stored one with its key, account, amount, direction, date and reference.\<close>

theorem reprocess_imports_nothing:
  assumes "keys_ok (ps_db s)" "ref_index_ok (ps_db s)" "get_account (ps_db s) (a_id a) = Some a"
    and "process_parsed env pd today s a bank parsed = Some (Processed i r ids, s1)"
  shows "\<exists>b s2. retry_parsed env' pd today' s1 i parsed = Some ((b, []), s2) \<and>
    map core (transactions (ps_db s2)) = map core (transactions (ps_db s1))"
proof -
  have some: "reconcile_statement pd parsed (account_rows (ps_db s) (a_id a)) (load_account_card_masks (ps_db s) (a_id a)) \<noteq> None"
    using assms(4) by (auto simp: process_parsed_def Let_def split: option.splits)
  obtain u where "replayable pd parsed a (ps_db s1)" "get_upload s1 i = Some u" "u_account_id u = a_id a"
    using process_replayable [OF assms] .
  from retry_replayable [OF this some] show ?thesis by metis
qed

section \<open>Witnesses\<close>

definition replay_account :: account where
  "replay_account = \<lparr>a_id = 5, a_bank = ''axis'', a_label = [], a_type = ''credit_card'', a_account_number = None,
     a_active = Some True\<rparr>"

definition replay_db :: db where
  "replay_db = empty_db\<lparr>accounts := [replay_account]\<rparr>"

definition replay_env :: cat_env where
  "replay_env = \<lparr>env_hash = (\<lambda>_. []), env_vocab = 1, env_now = 0\<rparr>"

definition replay_start :: pay_state where
  "replay_start = \<lparr>ps_db = replay_db, ps_snapshots = []\<rparr>"

definition replay_parsed :: cc_parsed where
  "replay_parsed = recon_demo_parsed\<lparr>p_transactions := [recon_demo_row ''1'' ''3'' ''E'' None], p_payments_refunds := []\<rparr>"

definition bad_parsed :: cc_parsed where
  "bad_parsed = recon_demo_parsed\<lparr>p_transactions := [recon_demo_row ''1'' ''3'' ''E'' None, recon_demo_row ''1'' ''x'' ''F'' None],
     p_payments_refunds := []\<rparr>"

definition replay_first :: "(processed \<times> pay_state) option" where
  "replay_first = process_parsed replay_env recon_demo_pd 10 replay_start replay_account ''axis'' replay_parsed"

lemma replay_first_run: "case replay_first of Some (Processed i r ids, s) \<Rightarrow> i = 1 \<and> ids = [1] | _ \<Rightarrow> False"
  by code_simp

lemma replay_start_ok:
  "keys_ok (ps_db replay_start)" "ref_index_ok (ps_db replay_start)"
  "get_account (ps_db replay_start) (a_id replay_account) = Some replay_account"
  by (simp_all add: keys_ok_def ref_index_ok_def get_account_def replay_start_def replay_db_def empty_db_def replay_account_def)

theorem reprocess_imports_nothing_witness:
  "\<exists>r s1 b s2. replay_first = Some (Processed 1 r [1], s1) \<and>
     retry_parsed replay_env recon_demo_pd 11 s1 1 replay_parsed = Some ((b, []), s2) \<and>
     map core (transactions (ps_db s2)) = map core (transactions (ps_db s1))"
proof -
  obtain r s1 where first: "replay_first = Some (Processed 1 r [1], s1)"
    using replay_first_run by (auto split: option.splits processed.splits)
  from reprocess_imports_nothing [OF replay_start_ok this [unfolded replay_first_def], of replay_env 11]
  show ?thesis using first by blast
qed


text \<open>The first row of the statement as an open entry, and a statement with an amount that is not a number.\<close>

definition import_demo :: recon where
  "import_demo = \<lparr>rc_matched = [], rc_missing = [missing_of 0 (''transactions'', ''debit'', recon_demo_row ''1'' ''3'' ''E'' None) False
     (candidate_evidence {} ''no_match'' [])], rc_adjustments_debit_total = [], rc_adjustments_credit_total = []\<rparr>"

lemma import_demo_run:
  "case import_missing_cc_txns replay_env recon_demo_pd replay_db blank_upload ''axis'' None import_demo of
     None \<Rightarrow> False | Some (r, s, ids) \<Rightarrow> ids = [1]"
  by code_simp

theorem import_is_exact_witness:
  "\<exists>r s t. import_missing_cc_txns replay_env recon_demo_pd replay_db blank_upload ''axis'' None import_demo = Some (r, s, [1]) \<and>
     s = replay_db\<lparr>transactions := [t]\<rparr> \<and> t_id t = 1"
proof -
  obtain r s where run: "import_missing_cc_txns replay_env recon_demo_pd replay_db blank_upload ''axis'' None import_demo = Some (r, s, [1])"
    using import_demo_run by (auto split: option.splits)
  have "ref_index_ok replay_db" using replay_start_ok(2) by (simp add: replay_start_def)
  from import_is_exact [OF this run] obtain new where new: "s = replay_db\<lparr>transactions := transactions replay_db @ new\<rparr>" "[1] = map t_id new"
    by (elim conjE exE) simp
  from new(2) obtain t where t: "new = [t]" "t_id t = 1" by (auto simp: Cons_eq_map_conv)
  have "transactions replay_db = []" by (simp add: replay_db_def empty_db_def)
  then have "s = replay_db\<lparr>transactions := [t]\<rparr>" using new(1) t(1) by simp
  then show ?thesis using run t(2) by blast
qed

theorem unreadable_amount_aborts_import_witness:
  "\<exists>r. reconcile_statement recon_demo_pd bad_parsed [] [] = Some r \<and>
     import_missing_cc_txns replay_env recon_demo_pd replay_db blank_upload ''axis'' None r = None"
proof -
  have "p_adjustment_pairs bad_parsed = []" by (simp add: bad_parsed_def recon_demo_parsed_def)
  then obtain r where r: "reconcile_statement recon_demo_pd bad_parsed [] [] = Some r"
    by (simp add: reconcile_statement_def adjustment_total_def case_prod_beta Let_def)
  have bad: "(''transactions'', ''debit'', recon_demo_row ''1'' ''x'' ''F'' None) \<in> set (stmt_txns bad_parsed)"
    by (simp add: stmt_txns_def bad_parsed_def)
  have amount: "parse_cc_amount (r_amount (recon_demo_row ''1'' ''x'' ''F'' None)) = None" by code_simp
  have ok: "ref_index_ok replay_db" using replay_start_ok(2) by (simp add: replay_start_def)
  have "distinct (map t_id [])" by simp
  from unreadable_amount_aborts_import [OF this r ok bad amount] show ?thesis using r by blast
qed

definition find_demo_db :: db where
  "find_demo_db = empty_db\<lparr>accounts := [replay_account\<lparr>a_account_number := Some ''XX12''\<rparr>, replay_account\<lparr>a_id := 6, a_account_number := Some ''XX34''\<rparr>]\<rparr>"

definition find_demo_parsed :: cc_parsed where
  "find_demo_parsed = replay_parsed\<lparr>p_card_number := Some ''9934''\<rparr>"

lemma find_demo_run: "map_option a_id (find_account find_demo_db ''axis'' find_demo_parsed) = Some 6"
  by code_simp

theorem find_account_identifies_witness:
  "\<exists>a. find_account find_demo_db ''axis'' find_demo_parsed = Some a \<and> a_id a = 6 \<and>
     {b \<in> set (accounts find_demo_db). sql_lower (a_bank b) = lower ''axis'' \<and> a_type b = ''credit_card'' \<and> a_active b = Some True \<and>
       (\<exists>m \<in> set (stored_masks find_demo_db b). 0 < trailing_visible_digits m \<and>
          mask_matches (normalize_mask (p_card_number find_demo_parsed)) m)} = {a}"
proof -
  obtain a where a: "find_account find_demo_db ''axis'' find_demo_parsed = Some a" "a_id a = 6"
    using find_demo_run by auto
  have "keys_ok find_demo_db" by (simp add: keys_ok_def find_demo_db_def empty_db_def replay_account_def)
  from find_account_identifies [OF this, of "''axis''" find_demo_parsed a] show ?thesis using a by blast
qed

end
