(* ===== verification/Cc_Handlers.thy ===== *)
theory Cc_Handlers
  imports Cc_Replay
begin

text \<open>
  The operations that process a parsed statement, as runs of the payment system of \<open>Cc_Lifecycle\<close>:
  \<open>process_parsed\<close> and \<open>retry_parsed\<close> of \<open>Cc_Import\<close>, and \<open>reprocess_parsed\<close>, the part of
  \<open>statement_reprocess\<close> (\<open>web/statements.py\<close>) after the PDF is read. So what the runs guarantee
  holds of the code's operations, whatever they interleave with.
\<close>

section \<open>Reprocessing from the statement page\<close>

definition reprocessed ::
  "recon \<Rightarrow> nat list \<Rightarrow> statement_upload \<Rightarrow> statement_upload" where
  "reprocessed r ids u =
     (let missing = length (filter (\<lambda>e. \<not> mi_imported e) (rc_missing r));
          u = u\<lparr>u_parsed_txn_count := length (rc_matched r) + length (rc_missing r), u_matched_count := length (rc_matched r),
                u_missing_count := missing, u_imported_count := u_imported_count u + length ids\<rparr>;
          u = (if missing = 0 then u\<lparr>u_status := ''imported''\<rparr>
               else if ids \<noteq> [] then u\<lparr>u_status := ''partial_import''\<rparr> else u)
      in case snd (snd (import_skip_summary (rc_missing r))) of None \<Rightarrow> u | Some e \<Rightarrow> u\<lparr>u_error := Some e\<rparr>)"

definition reprocess_parsed ::
  "cat_env \<Rightarrow> date_parser \<Rightarrow> date \<Rightarrow> pay_state \<Rightarrow> nat \<Rightarrow> cc_parsed \<Rightarrow> (nat list \<times> pay_state) option" where
  "reprocess_parsed env pd today s i parsed =
     (let now = env_now env in
      case get_upload s i of
        None \<Rightarrow> Some ([], s)
      | Some u \<Rightarrow>
          if u_source_kind u = ''email_summary'' then Some ([], s)
          else (case reconcile_statement pd parsed (account_rows (ps_db s) (u_account_id u))
                  (load_account_card_masks (ps_db s) (u_account_id u)) of
            None \<Rightarrow> None
          | Some r \<Rightarrow>
              let acct = get_account (ps_db s) (u_account_id u);
                  db1 = fst (enrich_matched_transactions (ps_db s) r);
                  u = reprocessed_bill (p_due_date parsed) (p_total_amount_due parsed)
                    (u\<lparr>u_bank := cc_parsed.p_bank parsed, u_card_number := p_card_number parsed\<rparr>);
                  s1 = put_upload u (s\<lparr>ps_db := db1\<rparr>) in
              (case import_missing_cc_txns env pd (ps_db s1) u (cc_parsed.p_bank parsed) acct r of
                 None \<Rightarrow> None
               | Some (r, db2, ids) \<Rightarrow>
                   let u = reprocessed r ids u;
                       s = put_upload u (s1\<lparr>ps_db := db2\<rparr>);
                       s = snd (emit_cc_snapshot now u s)
                   in Some (ids, snd (init_payment_tracking pd now today s i)))))"

lemma reprocessed_columns:
  "pay_columns (reprocessed r ids u) = pay_columns u" "u_id (reprocessed r ids u) = u_id u"
  "pay_columns (reprocessed_bill d t (u\<lparr>u_bank := b, u_card_number := n\<rparr>)) = pay_columns (reprocessed_bill d t u)"
  "u_id (reprocessed_bill d t u) = u_id u"
  by (simp_all add: reprocessed_def reprocessed_bill_def unmarked_def rebilled_def pay_columns_def Let_def split: option.split)

section \<open>Imports keep the keys\<close>

lemma import_keys:
  assumes "keys_ok s" "ref_index_ok s" "import_missing_cc_txns env pd s u bank acct r = Some (r', s', ids)"
  shows "keys_ok s'" "uploads s' = uploads s"
proof -
  have "imports_as pd u s (rc_missing r) (rc_missing r') s' ids"
    using import_missing_spec [OF assms(2), where env = env and pd = pd and u = u and bank = bank and acct = acct and r = r] assms(3) by simp
  then obtain new where new: "s' = s\<lparr>transactions := transactions s @ new\<rparr>"
    "map t_id new = [next_txn_id s ..< next_txn_id s + length new]" unfolding imports_as_def by blast
  have "distinct (map t_id new)" unfolding new(2) by simp
  moreover have "t_id x \<noteq> t_id y" if "x \<in> set (transactions s)" "y \<in> set new" for x y
  proof -
    have "t_id y \<in> set (map t_id new)" using that(2) by simp
    then have "next_txn_id s \<le> t_id y" unfolding new(2) by simp
    then show ?thesis using next_txn_id_fresh [of x s] that(1) by simp
  qed
  ultimately show "keys_ok s'" using assms(1) unfolding new(1) by (fastforce simp: keys_ok_def)
  show "uploads s' = uploads s" unfolding new(1) by simp
qed

lemma enrich_entry_cards: "cards (fst (enrich_entry sn e)) = cards (fst sn)"
  by (cases sn) (simp add: enrich_entry_def Let_def split: option.split)

lemma enrich_cards: "cards (fst (enrich_matched_transactions s r)) = cards s"
proof -
  have "cards (fst (foldl enrich_entry sn es)) = cards (fst sn)" for sn es
    by (induction es arbitrary: sn) (simp_all add: enrich_entry_cards)
  then show ?thesis by (simp add: enrich_matched_transactions_def)
qed

lemma enrich_ok:
  assumes "keys_ok s"
  shows "keys_ok (fst (enrich_matched_transactions s r))" "uploads (fst (enrich_matched_transactions s r)) = uploads s"
    "ref_index_ok s \<Longrightarrow> ref_index_ok (fst (enrich_matched_transactions s r))"
    "credits_ok (fst (enrich_matched_transactions s r)) = credits_ok s"
proof -
  have d: "distinct (map t_id (transactions s))" using assms by (simp add: keys_ok_def)
  note f = enrich_frame [OF d, of r]
  show "keys_ok (fst (enrich_matched_transactions s r))"
    using f core_ids [OF conjunct1 [OF f]] enrich_cards [of s r] assms by (simp add: keys_ok_def)
  show "uploads (fst (enrich_matched_transactions s r)) = uploads s" using f by simp
  show "ref_index_ok s \<Longrightarrow> ref_index_ok (fst (enrich_matched_transactions s r))" using ref_index_core f by blast
  have amounts: "map t_amount xs = map (\<lambda>(i, acc, a, x). a) (map core xs)" for xs by (simp add: core_def)
  have "credits_ok x = (\<forall>a \<in> set (map t_amount (transactions x)). 0 \<le> a)" for x by (simp add: credits_ok_def)
  then show "credits_ok (fst (enrich_matched_transactions s r)) = credits_ok s" using amounts f by metis
qed

section \<open>The operations are runs\<close>

lemma keys_credits_track [simp]: "keys_credits (snd (init_payment_tracking pd now today s i)) = keys_credits s"
proof (cases "snd (init_payment_tracking pd now today s i) = s")
  case False
  then show ?thesis using init_rewrites [OF prod.collapse [symmetric], of pd now today s i]
    by (metis keys_credits_def put_upload_ok rewritten_def)
qed simp

lemma keys_credits_resync:
  assumes "get_upload s i = Some u"
  shows "keys_credits (snd (resync_tracked_cc_payment_state pd now s u)) = keys_credits s"
proof (cases "snd (resync_tracked_cc_payment_state pd now s u) = s")
  case False
  then show ?thesis
    using resync_rewrites [OF prod.collapse [symmetric], of pd now s u] get_upload_Some [OF assms]
    by (metis keys_credits_def put_upload_ok rewritten_def)
qed simp

lemma pay_run_trans: "pay_run pd s as s1 \<Longrightarrow> pay_run pd s1 bs s2 \<Longrightarrow> pay_run pd s (as @ bs) s2"
  by (rotate_tac, induction rule: pay_run.induct) (auto simp flip: append_assoc intro: pay_run.more)

lemma pay_run_one: "pay_step pd s a s' \<Longrightarrow> pay_run pd s [a] s'"
  using pay_run.more [OF pay_run.stay] by fastforce

text \<open>The import of a stored statement: the ledger first, then its row.\<close>

lemma import_step:
  assumes u: "get_upload s i = Some u" and k: "keys_ok (ps_db s)" "ref_index_ok (ps_db s)"
    and v: "u_id v = i" "u_id w = i"
    and imp: "import_missing_cc_txns env pd (ps_db (put_upload v (s\<lparr>ps_db := fst (enrich_matched_transactions (ps_db s) r)\<rparr>)))
       x bank acct q = Some (r', db2, ids)"
    and c: "credits_ok db2"
    and step: "\<And>t. get_upload t i = Some u \<Longrightarrow> pay_step pd t a (snd (emit_cc_snapshot now w (put_upload w t)))"
  shows "pay_run pd s [Ledger, a] (snd (emit_cc_snapshot now w (put_upload w
    (put_upload v (s\<lparr>ps_db := fst (enrich_matched_transactions (ps_db s) r)\<rparr>)\<lparr>ps_db := db2\<rparr>))))"
proof -
  let ?e = "s\<lparr>ps_db := fst (enrich_matched_transactions (ps_db s) r)\<rparr>"
  note e = enrich_ok [OF k(1), of r]
  have "keys_ok (ps_db (put_upload v ?e))" "ref_index_ok (ps_db (put_upload v ?e))"
    using e k(2) by (simp_all add: ref_index_ok_def)
  note i = import_keys [OF this imp]
  let ?d = "db2\<lparr>uploads := uploads (ps_db s)\<rparr>"
  have ids: "map u_id (uploads db2) = map u_id (uploads (ps_db s))" using i(2) ids_put_upload [of v ?e] e(2) by simp
  let ?t = "s\<lparr>ps_db := ?d\<rparr>"
  have "keys_ok ?d" using i(1) ids by (simp add: keys_ok_def)
  moreover have "credits_ok ?d" using c by (simp add: credits_ok_def)
  ultimately have 1: "pay_step pd s Ledger ?t"
    using pay_step.ledger [of ?d s pd "ps_snapshots s"] by simp
  have "get_upload ?t i = Some u" using u by (simp add: get_upload_def)
  note 2 = step [OF this]
  have "put_upload w ?t = put_upload w (put_upload v ?e\<lparr>ps_db := db2\<rparr>)"
    using i(2) e(2) v by (auto simp: put_upload_def)
  then show ?thesis using pay_run_trans [OF pay_run_one [OF 1] pay_run_one [of pd ?t a]] 2 by simp
qed

text \<open>The operations that process a parsed statement are runs: a retry (the API's and the page's reparse,
  the unlocked statements) imports, stores the bill, then tracks the statement or resynchronises it;
  the page's reprocessing imports, stores the bill with its reset, and tracks.\<close>

theorem retry_is_run:
  assumes "retry_parsed env pd today s i parsed = Some (x, s')" "keys_ok (ps_db s)" "ref_index_ok (ps_db s)" "keys_credits s'"
  shows "\<exists>as. pay_run pd s as s' \<and> set as \<subseteq> {Ledger, Reparse i (p_due_date parsed) (p_total_amount_due parsed), Track i, Resync i}"
proof -
  let ?now = "env_now env" and ?A = "{Ledger, Reparse i (p_due_date parsed) (p_total_amount_due parsed), Track i, Resync i}"
  have stay: "\<exists>as. pay_run pd s as s \<and> set as \<subseteq> ?A" using pay_run.stay by (intro exI [of _ "[]"]) simp
  show ?thesis
  proof (cases "get_upload s i")
    case None
    then show ?thesis using assms(1) stay by (simp add: retry_parsed_def Let_def)
  next
    case (Some u)
    show ?thesis
    proof (cases "u_source_kind u = ''email_summary''")
      case True
      then show ?thesis using assms(1) Some stay by (simp add: retry_parsed_def Let_def)
    next
      case False
      obtain r where r: "reconcile_statement pd parsed (window_rows pd parsed (ps_db s) (u_account_id u))
          (load_account_card_masks (ps_db s) (u_account_id u)) = Some r"
        using assms(1) Some False by (auto simp: retry_parsed_def Let_def split: option.splits)
      let ?e = "s\<lparr>ps_db := fst (enrich_matched_transactions (ps_db s) r)\<rparr>"
      note e = enrich_ok [OF assms(2), of r]
      show ?thesis
      proof (cases "get_account (ps_db ?e) (u_account_id u)")
        case None
        then have "s' = ?e" using assms(1) Some False r by (simp add: retry_parsed_def Let_def)
        moreover have "pay_step pd s Ledger (s\<lparr>ps_db := ps_db ?e, ps_snapshots := ps_snapshots s\<rparr>)"
          using e assms(4) calculation by (intro pay_step.ledger) (simp_all add: keys_credits_def)
        ultimately show ?thesis using pay_run_one by (intro exI [of _ "[Ledger]"]) simp
      next
        case a: (Some a)
        let ?u = "reparsed parsed r u"
        obtain r' db2 ids where imp: "import_missing_cc_txns env pd (ps_db (put_upload ?u ?e)) ?u (cc_parsed.p_bank parsed) (Some a) r = Some (r', db2, ids)"
          using assms(1) Some False r a by (auto simp: retry_parsed_def Let_def split: option.splits)
        define w where "w = (finish_upload r' ids ?u)\<lparr>u_error := snd (snd (import_skip_summary (rc_missing r')))\<rparr>"
        define s2 where "s2 = snd (emit_cc_snapshot ?now w (put_upload w (put_upload ?u ?e\<lparr>ps_db := db2\<rparr>)))"
        define s3 where "s3 = snd (init_payment_tracking pd ?now today s2 i)"
        have "s' = (case init_payment_tracking pd ?now today s2 i of (tracked, t) \<Rightarrow> if tracked then t
            else case get_upload t i of None \<Rightarrow> t | Some u \<Rightarrow> snd (resync_tracked_cc_payment_state pd ?now t u))"
          using assms(1) Some False r a imp by (auto simp: retry_parsed_def Let_def w_def s2_def split: prod.splits)
        then have s': "s' = (if fst (init_payment_tracking pd ?now today s2 i) then s3
            else case get_upload s3 i of None \<Rightarrow> s3 | Some u \<Rightarrow> snd (resync_tracked_cc_payment_state pd ?now s3 u))"
          unfolding s3_def case_prod_unfold .
        have tracked: "pay_step pd s2 (Track i) s3" unfolding s3_def by (rule pay_step.track)
        obtain as where as: "pay_run pd s2 as s'" "set as \<subseteq> ?A"
        proof (cases "s' = s3")
          case True
          then show ?thesis using that [of "[Track i]"] pay_run_one [OF tracked] by simp
        next
          case n: False
          then obtain y where y: "get_upload s3 i = Some y" "s' = snd (resync_tracked_cc_payment_state pd ?now s3 y)"
            using s' by (auto split: if_splits option.splits)
          have "pay_step pd s3 (Resync i) s'" unfolding y(2) by (rule pay_step.resync [OF y(1)])
          from that [of "[Track i, Resync i]"] pay_run_trans [OF pay_run_one [OF tracked] pay_run_one [OF this]] show ?thesis by simp
        qed
        have "keys_credits s2" using assms(4) s' keys_credits_resync unfolding s3_def by (auto split: if_splits option.splits)
        then have c: "credits_ok db2" by (simp add: keys_credits_def s2_def)
        have w: "u_id ?u = i" "u_id w = i" "pay_columns w = pay_columns (rebilled (p_due_date parsed) (p_total_amount_due parsed) u)"
          using get_upload_Some [OF Some]
          by (simp_all add: w_def finish_upload_def reparsed_def Let_def rebilled_def pay_columns_def)
        have "pay_run pd s [Ledger, Reparse i (p_due_date parsed) (p_total_amount_due parsed)] s2"
          unfolding s2_def by (rule import_step [OF Some assms(2,3) w(1,2) imp c]) (rule pay_step.reparse [OF _ w(3)])
        from pay_run_trans [OF this as(1)] as(2) show ?thesis
          by (intro exI [of _ "[Ledger, Reparse i (p_due_date parsed) (p_total_amount_due parsed)] @ as"]) simp
      qed
    qed
  qed
qed

theorem reprocess_is_run:
  assumes "reprocess_parsed env pd today s i parsed = Some (ids, s')" "keys_ok (ps_db s)" "ref_index_ok (ps_db s)" "keys_credits s'"
  shows "\<exists>as. pay_run pd s as s' \<and> set as \<subseteq> {Ledger, Reprocess i (p_due_date parsed) (p_total_amount_due parsed), Track i}"
proof -
  let ?now = "env_now env" and ?bill = "reprocessed_bill (p_due_date parsed) (p_total_amount_due parsed)"
  have stay: "\<exists>as. pay_run pd s as s \<and> set as \<subseteq> {Ledger, Reprocess i (p_due_date parsed) (p_total_amount_due parsed), Track i}"
    using pay_run.stay by (intro exI [of _ "[]"]) simp
  show ?thesis
  proof (cases "get_upload s i")
    case None
    then show ?thesis using assms(1) stay by (simp add: reprocess_parsed_def Let_def)
  next
    case (Some u)
    show ?thesis
    proof (cases "u_source_kind u = ''email_summary''")
      case True
      then show ?thesis using assms(1) Some stay by (simp add: reprocess_parsed_def Let_def)
    next
      case False
      obtain r where r: "reconcile_statement pd parsed (account_rows (ps_db s) (u_account_id u))
          (load_account_card_masks (ps_db s) (u_account_id u)) = Some r"
        using assms(1) Some False by (auto simp: reprocess_parsed_def Let_def split: option.splits)
      let ?e = "s\<lparr>ps_db := fst (enrich_matched_transactions (ps_db s) r)\<rparr>"
      let ?u = "?bill (u\<lparr>u_bank := cc_parsed.p_bank parsed, u_card_number := p_card_number parsed\<rparr>)"
      obtain r' db2 where imp: "import_missing_cc_txns env pd (ps_db (put_upload ?u ?e)) ?u (cc_parsed.p_bank parsed)
          (get_account (ps_db s) (u_account_id u)) r = Some (r', db2, ids)"
        using assms(1) Some False r by (auto simp: reprocess_parsed_def Let_def split: option.splits)
      define w where "w = reprocessed r' ids ?u"
      define s2 where "s2 = snd (emit_cc_snapshot ?now w (put_upload w (put_upload ?u ?e\<lparr>ps_db := db2\<rparr>)))"
      have s': "s' = snd (init_payment_tracking pd ?now today s2 i)"
        using assms(1) Some False r imp by (simp add: reprocess_parsed_def Let_def w_def s2_def)
      have tracked: "pay_step pd s2 (Track i) s'" unfolding s' by (rule pay_step.track)
      have "keys_credits s2" using assms(4) s' by simp
      then have c: "credits_ok db2" by (simp add: keys_credits_def s2_def)
      have w: "u_id ?u = i" "u_id w = i" "pay_columns w = pay_columns (?bill u)"
        using get_upload_Some [OF Some] by (simp_all add: w_def reprocessed_columns)
      have "pay_run pd s [Ledger, Reprocess i (p_due_date parsed) (p_total_amount_due parsed)] s2"
        unfolding s2_def by (rule import_step [OF Some assms(2,3) w(1,2) imp c]) (rule pay_step.reprocess [OF _ w(3)])
      from pay_run_trans [OF this pay_run_one [OF tracked]] show ?thesis
        by (intro exI [of _ "[Ledger, Reprocess i (p_due_date parsed) (p_total_amount_due parsed), Track i]"]) simp
    qed
  qed
qed

end
