(* ===== verification/Cc_Resolve.thy ===== *)
theory Cc_Resolve
  imports Cc_Lifecycle
begin

text \<open>
  \<open>services/cc_disambiguation.py\<close>: which credit card account a bill payment without a card mask
  belongs to, when the linker could not tell. The resolver takes the sole card of the bank, else the
  card whose statement total, then whose remaining balance equals the amount, then the only card
  with a balance; otherwise it returns the payload of a question for the user. The lemmas say that
  a card is only taken on unambiguous evidence and that a payment is never dropped.
\<close>

section \<open>The code\<close>

definition load_cc_candidates :: "db \<Rightarrow> string \<Rightarrow> (nat \<times> string) list" where
  "load_cc_candidates s bank = map (\<lambda>a. (a_id a, a_label a))
     (filter (\<lambda>a. a_bank a = bank \<and> a_type a = ''credit_card'') (accounts s))"

definition latest_statements :: "date_parser \<Rightarrow> db \<Rightarrow> nat list \<Rightarrow> statement_upload list" where
  "latest_statements pd s candidate_ids = latest_per_account pd
     (filter (\<lambda>u. u_account_id u \<in> set candidate_ids \<and> u_due_date u \<noteq> None \<and> u_total_amount_due u \<noteq> None) (uploads s))"

definition parse_outstanding :: "statement_upload \<Rightarrow> rat option" where
  "parse_outstanding u = map_option (\<lambda>d. d - paid_amount u) (amount_due u)"

definition active_statements :: "date_parser \<Rightarrow> db \<Rightarrow> nat list \<Rightarrow> statement_upload list" where
  "active_statements pd s candidate_ids = latest_per_account pd
     (filter (\<lambda>u. u_account_id u \<in> set candidate_ids \<and> active u \<and> u_due_date u \<noteq> None \<and> u_total_amount_due u \<noteq> None) (uploads s))"

text \<open>The optional list of candidates is loaded when the caller has none.\<close>

definition find_cc_account_by_total_due ::
  "date_parser \<Rightarrow> db \<Rightarrow> string \<Rightarrow> rat \<Rightarrow> nat list option \<Rightarrow> nat option" where
  "find_cc_account_by_total_due pd s bank amount candidates =
     (let candidate_ids = (case candidates of None \<Rightarrow> map fst (load_cc_candidates s bank) | Some ids \<Rightarrow> ids)
      in if length candidate_ids < 2 then None
         else sole (map u_account_id (filter (\<lambda>u. amount_due u = Some amount) (active_statements pd s candidate_ids))))"

record cc_prompt =
  cp_txn_id :: nat
  cp_account_ids :: "nat list"
  cp_labels :: "(nat \<times> string) list"
  cp_amount :: rat
  cp_bank :: string

definition build_payload_from_candidates :: "(nat \<times> string) list \<Rightarrow> transaction \<Rightarrow> cc_prompt" where
  "build_payload_from_candidates candidates t = \<lparr>cp_txn_id = t_id t, cp_account_ids = map fst candidates,
     cp_labels = foldl (\<lambda>d (i, l). dict_put d i l) [] candidates, cp_amount = t_amount t, cp_bank = t_bank t\<rparr>"

text \<open>The loop over the latest statements: the accounts whose remaining balance is the amount, those
  with a balance, and whether a statement is untracked.\<close>

record scan =
  sc_matches :: "nat list"
  sc_open :: "nat list"
  sc_untracked :: bool

definition scan_step :: "rat \<Rightarrow> scan \<Rightarrow> statement_upload \<Rightarrow> scan" where
  "scan_step target sc u =
     (if u_payment_status u = None then sc\<lparr>sc_untracked := True\<rparr>
      else case parse_outstanding u of
        None \<Rightarrow> sc\<lparr>sc_untracked := True\<rparr>
      | Some remaining \<Rightarrow>
          let sc = (if 0 < remaining then sc\<lparr>sc_open := sc_open sc @ [u_account_id u]\<rparr> else sc)
          in if remaining = target then sc\<lparr>sc_matches := sc_matches sc @ [u_account_id u]\<rparr> else sc)"

definition outstanding_scan :: "rat \<Rightarrow> statement_upload list \<Rightarrow> scan" where
  "outstanding_scan target us = foldl (scan_step target) \<lparr>sc_matches = [], sc_open = [], sc_untracked = False\<rparr> us"

definition sole_outstanding :: "scan \<Rightarrow> statement_upload list \<Rightarrow> rat option" where
  "sole_outstanding sc latest = (if sc_untracked sc then None
     else case sole (sc_open sc) of None \<Rightarrow> None
       | Some a \<Rightarrow> Option.bind (List.find (\<lambda>u. u_account_id u = a) latest) parse_outstanding)"

definition resolve_cc_payment_account :: "date_parser \<Rightarrow> db \<Rightarrow> transaction \<Rightarrow> cc_prompt option \<times> transaction" where
  "resolve_cc_payment_account pd s t =
     (if t_account_id t \<noteq> None \<or> t_direction t \<noteq> ''credit'' \<or> \<not> is_cc_payment_received_email (Some (t_email_type t)) then (None, t)
      else if t_amount t \<le> 0 then (None, t)
      else let candidates = load_cc_candidates s (t_bank t);
               candidate_ids = map fst candidates
      in if candidates = [] then (None, t)
      else if length candidates = 1 then (None, t\<lparr>t_account_id := Some (hd candidate_ids)\<rparr>)
      else case find_cc_account_by_total_due pd s (t_bank t) (t_amount t) (Some candidate_ids) of
        Some a \<Rightarrow> (None, t\<lparr>t_account_id := Some a\<rparr>)
      | None \<Rightarrow>
          let target = t_amount t;
              latest = latest_statements pd s candidate_ids;
              prompt = (Some (build_payload_from_candidates candidates t), t)
          in if u_account_id ` set latest \<noteq> set candidate_ids then prompt
          else let sc = outstanding_scan target latest
          in if \<not> sc_untracked sc \<and> length (sc_matches sc) = 1
             then (None, t\<lparr>t_account_id := Some (hd (sc_matches sc))\<rparr>)
             else case sole_outstanding sc latest of
               None \<Rightarrow> prompt
             | Some remaining \<Rightarrow> if target \<le> remaining then (None, t\<lparr>t_account_id := Some (hd (sc_open sc))\<rparr>) else prompt)"

section \<open>The scan\<close>

definition tracked :: "statement_upload \<Rightarrow> bool" where
  "tracked u \<longleftrightarrow> u_payment_status u \<noteq> None \<and> parse_outstanding u \<noteq> None"

lemma scan_fold:
  "foldl (scan_step target) sc us =
     \<lparr>sc_matches = sc_matches sc @ map u_account_id (filter (\<lambda>u. tracked u \<and> parse_outstanding u = Some target) us),
      sc_open = sc_open sc @ map u_account_id (filter (\<lambda>u. tracked u \<and> (\<exists>r. parse_outstanding u = Some r \<and> 0 < r)) us),
      sc_untracked = (sc_untracked sc \<or> (\<exists>u \<in> set us. \<not> tracked u))\<rparr>"
proof (induction us arbitrary: sc)
  case (Cons u us)
  have "scan_step target sc u =
     \<lparr>sc_matches = sc_matches sc @ (if tracked u \<and> parse_outstanding u = Some target then [u_account_id u] else []),
      sc_open = sc_open sc @ (if tracked u \<and> (\<exists>r. parse_outstanding u = Some r \<and> 0 < r) then [u_account_id u] else []),
      sc_untracked = (sc_untracked sc \<or> \<not> tracked u)\<rparr>"
    by (cases sc; cases "parse_outstanding u") (auto simp: scan_step_def tracked_def Let_def)
  then show ?case using Cons.IH [of "scan_step target sc u"] by auto
qed simp

lemma scan_spec:
  "sc_matches (outstanding_scan target us) = map u_account_id (filter (\<lambda>u. tracked u \<and> parse_outstanding u = Some target) us)"
  "sc_open (outstanding_scan target us) = map u_account_id (filter (\<lambda>u. tracked u \<and> (\<exists>r. parse_outstanding u = Some r \<and> 0 < r)) us)"
  "sc_untracked (outstanding_scan target us) \<longleftrightarrow> (\<exists>u \<in> set us. \<not> tracked u)"
  unfolding outstanding_scan_def scan_fold by simp_all

section \<open>The evidence\<close>

definition cards_of :: "db \<Rightarrow> string \<Rightarrow> account list" where
  "cards_of s bank = filter (\<lambda>a. a_bank a = bank \<and> a_type a = ''credit_card'') (accounts s)"

lemma candidate_ids: "map fst (load_cc_candidates s bank) = map a_id (cards_of s bank)"
  by (simp add: load_cc_candidates_def cards_of_def)

lemma candidates_length: "length (load_cc_candidates s bank) = length (cards_of s bank)"
  by (simp add: load_cc_candidates_def cards_of_def)

lemma candidates_empty: "load_cc_candidates s bank = [] \<longleftrightarrow> cards_of s bank = []"
  by (simp add: load_cc_candidates_def cards_of_def)

text \<open>Some statement of the list has the property, and all that have it are statements of \<open>a\<close>.\<close>

definition points_to :: "statement_upload list \<Rightarrow> (statement_upload \<Rightarrow> bool) \<Rightarrow> nat \<Rightarrow> bool" where
  "points_to us P a \<longleftrightarrow> (\<exists>u \<in> set us. u_account_id u = a \<and> P u) \<and> (\<forall>u \<in> set us. P u \<longrightarrow> u_account_id u = a)"

lemma sole_points:
  assumes "map u_account_id (filter P us) = [a]"
  shows "points_to us P a"
proof -
  have s: "u_account_id ` set (filter P us) = {a}" using arg_cong [OF assms, of set] by simp
  have "a \<in> u_account_id ` set (filter P us)" unfolding s by simp
  then obtain u where "u \<in> set us" "P u" "u_account_id u = a" by auto
  moreover have "u_account_id u = a" if "u \<in> set us" "P u" for u
  proof -
    have "u_account_id u \<in> u_account_id ` set (filter P us)" using that by simp
    then show ?thesis unfolding s by simp
  qed
  ultimately show ?thesis unfolding points_to_def by blast
qed

definition owes_total :: "date_parser \<Rightarrow> db \<Rightarrow> transaction \<Rightarrow> nat \<Rightarrow> bool" where
  "owes_total pd s t = points_to (active_statements pd s (map a_id (cards_of s (t_bank t)))) (\<lambda>u. amount_due u = Some (t_amount t))"

text \<open>Every card has a latest statement, tracked and with a readable total.\<close>

definition all_known :: "date_parser \<Rightarrow> db \<Rightarrow> transaction \<Rightarrow> bool" where
  "all_known pd s t \<longleftrightarrow> (let ids = map a_id (cards_of s (t_bank t)); us = latest_statements pd s ids in
     u_account_id ` set us = set ids \<and> (\<forall>u \<in> set us. tracked u))"

definition owes_rest :: "date_parser \<Rightarrow> db \<Rightarrow> transaction \<Rightarrow> nat \<Rightarrow> bool" where
  "owes_rest pd s t = points_to (latest_statements pd s (map a_id (cards_of s (t_bank t))))
     (\<lambda>u. parse_outstanding u = Some (t_amount t))"

definition only_open :: "date_parser \<Rightarrow> db \<Rightarrow> transaction \<Rightarrow> nat \<Rightarrow> bool" where
  "only_open pd s t a \<longleftrightarrow> (let us = latest_statements pd s (map a_id (cards_of s (t_bank t))) in
     points_to us (\<lambda>u. \<exists>r. parse_outstanding u = Some r \<and> 0 < r) a \<and>
     (\<exists>u \<in> set us. u_account_id u = a \<and> (\<exists>r. parse_outstanding u = Some r \<and> t_amount t \<le> r)))"

section \<open>The tiers\<close>

lemma latest_accounts:
  "u \<in> set (latest_statements pd s ids) \<Longrightarrow> u_account_id u \<in> set ids"
  "u \<in> set (active_statements pd s ids) \<Longrightarrow> u_account_id u \<in> set ids"
  unfolding latest_statements_def active_statements_def by (drule subsetD [OF latest_per_account_facts(1)], simp)+

lemma find_total:
  assumes "find_cc_account_by_total_due pd s (t_bank t) (t_amount t) (Some (map a_id (cards_of s (t_bank t)))) = Some i"
  shows "owes_total pd s t i" "i \<in> a_id ` set (cards_of s (t_bank t))"
proof -
  let ?us = "active_statements pd s (map a_id (cards_of s (t_bank t)))"
  have l: "map u_account_id (filter (\<lambda>u. amount_due u = Some (t_amount t)) ?us) = [i]"
    using assms by (simp add: find_cc_account_by_total_due_def sole_Some_iff split: if_splits)
  show "owes_total pd s t i" unfolding owes_total_def by (rule sole_points [OF l])
  have "i \<in> u_account_id ` set ?us" using arg_cong [OF l, of set] by auto
  then show "i \<in> a_id ` set (cards_of s (t_bank t))" using latest_accounts(2) [of _ pd s "map a_id (cards_of s (t_bank t))"] by fastforce
qed

lemma tracked_all: "\<forall>u \<in> set us. tracked u \<Longrightarrow> filter (\<lambda>u. tracked u \<and> P u) us = filter P us"
  by (rule filter_cong) auto

lemma scan_match:
  assumes "\<not> sc_untracked (outstanding_scan target us)" "length (sc_matches (outstanding_scan target us)) = 1"
  shows "points_to us (\<lambda>u. parse_outstanding u = Some target) (hd (sc_matches (outstanding_scan target us)))"
proof -
  let ?m = "sc_matches (outstanding_scan target us)"
  have one: "?m = [hd ?m]" using assms(2) by (cases ?m) auto
  have tracked: "\<forall>u \<in> set us. tracked u" using assms(1) by (simp add: scan_spec(3))
  show ?thesis by (rule sole_points) (use one in \<open>simp only: scan_spec(1) tracked_all [OF tracked]\<close>)
qed

lemma scan_open:
  assumes "sole_outstanding (outstanding_scan target us) us = Some remaining" "target \<le> remaining"
  shows "\<forall>u \<in> set us. tracked u" "points_to us (\<lambda>u. \<exists>r. parse_outstanding u = Some r \<and> 0 < r) (hd (sc_open (outstanding_scan target us)))"
    "\<exists>u \<in> set us. u_account_id u = hd (sc_open (outstanding_scan target us)) \<and> (\<exists>r. parse_outstanding u = Some r \<and> target \<le> r)"
proof -
  let ?o = "sc_open (outstanding_scan target us)"
  show tracked: "\<forall>u \<in> set us. tracked u" using assms(1) by (auto simp: sole_outstanding_def scan_spec(3) split: if_splits)
  obtain a where a: "?o = [a]" "Option.bind (List.find (\<lambda>u. u_account_id u = a) us) parse_outstanding = Some remaining"
    using assms(1) by (auto simp: sole_outstanding_def sole_Some_iff split: if_splits option.splits)
  show "points_to us (\<lambda>u. \<exists>r. parse_outstanding u = Some r \<and> 0 < r) (hd ?o)"
    unfolding a(1) list.sel by (rule sole_points) (use a(1) in \<open>simp only: scan_spec(2) tracked_all [OF tracked]\<close>)
  obtain u where u: "List.find (\<lambda>u. u_account_id u = a) us = Some u" "parse_outstanding u = Some remaining"
    using a(2) by (auto simp: bind_eq_Some_conv)
  have "u \<in> set us" "u_account_id u = a" using u(1) by (auto simp: find_Some_iff)
  then show "\<exists>u \<in> set us. u_account_id u = hd ?o \<and> (\<exists>r. parse_outstanding u = Some r \<and> target \<le> r)"
    unfolding a(1) list.sel using u(2) assms(2) by blast
qed

section \<open>Never a guess, never a loss\<close>

definition open_payment :: "transaction \<Rightarrow> bool" where
  "open_payment t \<longleftrightarrow> t_account_id t = None \<and> t_direction t = ''credit'' \<and>
     is_cc_payment_received_email (Some (t_email_type t)) \<and> 0 < t_amount t"

text \<open>The answers for an open payment: the sole card, a card the evidence names, or the question.\<close>

definition backed :: "date_parser \<Rightarrow> db \<Rightarrow> transaction \<Rightarrow> account \<Rightarrow> bool" where
  "backed pd s t a \<longleftrightarrow> cards_of s (t_bank t) = [a] \<or> owes_total pd s t (a_id a) \<or>
     all_known pd s t \<and> (owes_rest pd s t (a_id a) \<or> only_open pd s t (a_id a))"

definition question :: "db \<Rightarrow> transaction \<Rightarrow> cc_prompt" where
  "question s t = build_payload_from_candidates (load_cc_candidates s (t_bank t)) t"

lemma points_candidate:
  "points_to (latest_statements pd s (map a_id (cards_of s b))) P i \<Longrightarrow> i \<in> a_id ` set (cards_of s b)"
  using latest_accounts(1) [of _ pd s "map a_id (cards_of s b)"] by (fastforce simp: points_to_def)

lemma resolve_tiers:
  assumes t: "open_payment t" and two: "2 \<le> length (cards_of s (t_bank t))"
  shows "resolve_cc_payment_account pd s t = (Some (question s t), t) \<or>
    (\<exists>a \<in> set (cards_of s (t_bank t)). backed pd s t a \<and> resolve_cc_payment_account pd s t = (None, t\<lparr>t_account_id := Some (a_id a)\<rparr>))"
proof -
  let ?ids = "map a_id (cards_of s (t_bank t))"
  let ?L = "latest_statements pd s ?ids"
  let ?sc = "outstanding_scan (t_amount t) ?L"
  let ?f = "find_cc_account_by_total_due pd s (t_bank t) (t_amount t) (Some ?ids)"
  have gate: "\<not> (t_account_id t \<noteq> None \<or> t_direction t \<noteq> ''credit'' \<or> \<not> is_cc_payment_received_email (Some (t_email_type t)))"
    and pos: "\<not> t_amount t \<le> 0" using t by (simp_all add: open_payment_def)
  have some: "load_cc_candidates s (t_bank t) \<noteq> []" and several: "length (load_cc_candidates s (t_bank t)) \<noteq> 1"
    using two candidates_empty [of s "t_bank t"] by (auto simp: candidates_length)
  have r: "resolve_cc_payment_account pd s t = (case ?f of Some a \<Rightarrow> (None, t\<lparr>t_account_id := Some a\<rparr>)
      | None \<Rightarrow> if u_account_id ` set ?L \<noteq> set ?ids then (Some (question s t), t)
        else if \<not> sc_untracked ?sc \<and> length (sc_matches ?sc) = 1 then (None, t\<lparr>t_account_id := Some (hd (sc_matches ?sc))\<rparr>)
        else case sole_outstanding ?sc ?L of None \<Rightarrow> (Some (question s t), t)
          | Some remaining \<Rightarrow> if t_amount t \<le> remaining then (None, t\<lparr>t_account_id := Some (hd (sc_open ?sc))\<rparr>)
              else (Some (question s t), t))"
    by (simp only: resolve_cc_payment_account_def Let_def candidate_ids question_def if_not_P [OF gate]
        if_not_P [OF pos] if_not_P [OF some] if_not_P [OF several])
  have named: ?thesis if "resolve_cc_payment_account pd s t = (None, t\<lparr>t_account_id := Some i\<rparr>)" "i \<in> a_id ` set (cards_of s (t_bank t))"
    "owes_total pd s t i \<or> all_known pd s t \<and> (owes_rest pd s t i \<or> only_open pd s t i)" for i
    using that by (auto simp: backed_def)
  consider i where "?f = Some i" | "?f = None" "u_account_id ` set ?L \<noteq> set ?ids"
    | "?f = None" "u_account_id ` set ?L = set ?ids" "\<not> sc_untracked ?sc" "length (sc_matches ?sc) = 1"
    | "?f = None" "u_account_id ` set ?L = set ?ids" "sc_untracked ?sc \<or> length (sc_matches ?sc) \<noteq> 1" by blast
  then show ?thesis
  proof cases
    case 1
    show ?thesis using named [of i] find_total [OF 1] 1 by (auto simp: r)
  next
    case 3
    have all: "all_known pd s t" using 3(2,3) by (simp add: all_known_def Let_def scan_spec(3))
    have rest: "owes_rest pd s t (hd (sc_matches ?sc))" unfolding owes_rest_def by (rule scan_match [OF 3(3,4)])
    have "resolve_cc_payment_account pd s t = (None, t\<lparr>t_account_id := Some (hd (sc_matches ?sc))\<rparr>)" using 3 by (simp add: r)
    then show ?thesis using all rest points_candidate [OF rest [unfolded owes_rest_def]] by (intro named) blast+
  next
    case 4
    show ?thesis
    proof (cases "\<exists>m. sole_outstanding ?sc ?L = Some m \<and> t_amount t \<le> m")
      case True
      then obtain m where m: "sole_outstanding ?sc ?L = Some m" "t_amount t \<le> m" by blast
      note so = scan_open [OF m]
      have all: "all_known pd s t" using 4(2) so(1) by (simp add: all_known_def Let_def)
      have op: "only_open pd s t (hd (sc_open ?sc))" using so(2,3) by (simp add: only_open_def Let_def)
      have "resolve_cc_payment_account pd s t = (None, t\<lparr>t_account_id := Some (hd (sc_open ?sc))\<rparr>)" using 4 m by (auto simp: r)
      then show ?thesis using all op points_candidate [OF so(2)] by (intro named) blast+
    qed (use 4 in \<open>auto simp: r split: option.split\<close>)
  qed (simp add: r)
qed

text \<open>C18. A link is backed by the tables. If the resolver changes the row, it only sets the account, to
  a credit card of the row's bank, and asks nothing; that card is the bank's only one (no statement
  is needed then), or the only one whose newest open statement totals the amount (open: unpaid,
  partly paid or late, even when a later, paid statement supersedes it), or, when the newest
  statement of every card is known, the only one that still owes exactly the amount or the only
  one that owes anything and at least the amount.\<close>

theorem resolve_never_guesses:
  assumes "resolve_cc_payment_account pd s t = (q, t')" "t' \<noteq> t"
  shows "q = None \<and> (\<exists>a \<in> set (cards_of s (t_bank t)). backed pd s t a \<and> t' = t\<lparr>t_account_id := Some (a_id a)\<rparr>)"
proof -
  have t: "open_payment t" and some: "cards_of s (t_bank t) \<noteq> []"
    using assms by (auto simp: resolve_cc_payment_account_def open_payment_def candidates_empty not_le split: if_splits)
  show ?thesis
  proof (cases "2 \<le> length (cards_of s (t_bank t))")
    case True
    from resolve_tiers [OF t this, of pd] show ?thesis using assms by auto
  next
    case False
    then obtain a where a: "cards_of s (t_bank t) = [a]" using some by (cases "cards_of s (t_bank t)") (auto simp: Suc_le_eq)
    then have "resolve_cc_payment_account pd s t = (None, t\<lparr>t_account_id := Some (a_id a)\<rparr>)"
      using t candidates_empty [of s "t_bank t"]
      by (simp add: resolve_cc_payment_account_def open_payment_def Let_def candidate_ids candidates_length)
    then show ?thesis using assms a by (auto simp: backed_def)
  qed
qed

text \<open>No payment is dropped. An unlinked card payment of a bank with at least one card is either
  linked to one of its cards, or there are several and the user is asked about all of them.\<close>

theorem open_payment_answered:
  assumes "open_payment t" "cards_of s (t_bank t) \<noteq> []"
  shows "(\<exists>a \<in> set (cards_of s (t_bank t)). resolve_cc_payment_account pd s t = (None, t\<lparr>t_account_id := Some (a_id a)\<rparr>)) \<or>
    (\<exists>q. resolve_cc_payment_account pd s t = (Some q, t) \<and> cp_txn_id q = t_id t \<and>
       cp_account_ids q = map a_id (cards_of s (t_bank t)) \<and> 2 \<le> length (cp_account_ids q))"
proof (cases "2 \<le> length (cards_of s (t_bank t))")
  case True
  have "cp_txn_id (question s t) = t_id t" "cp_account_ids (question s t) = map a_id (cards_of s (t_bank t))"
    by (simp_all add: question_def build_payload_from_candidates_def candidate_ids)
  then show ?thesis using resolve_tiers [OF assms(1) True, of pd] True by auto
next
  case False
  then obtain a where a: "cards_of s (t_bank t) = [a]" using assms(2) by (cases "cards_of s (t_bank t)") (auto simp: Suc_le_eq)
  then show ?thesis
    using assms(1) candidates_empty [of s "t_bank t"]
    by (simp add: resolve_cc_payment_account_def open_payment_def Let_def candidate_ids candidates_length)
qed

section \<open>Examples\<close>

text \<open>Two cards of one bank. Card 21 has an old statement of 12, never paid off, and a newer one that
  is paid; card 22 owes 50.\<close>

definition resolve_demo_card :: "nat \<Rightarrow> account" where
  "resolve_demo_card i = \<lparr>a_id = i, a_bank = ''hdfc'', a_label = ''card'', a_type = ''credit_card'', a_account_number = None, a_active = Some True\<rparr>"

definition resolve_demo_db :: db where
  "resolve_demo_db = empty_db\<lparr>accounts := [resolve_demo_card 21, resolve_demo_card 22],
     uploads := [cycle_demo_upload 11 100 80, (cycle_demo_upload 12 130 110)\<lparr>u_total_amount_due := Some ''30'', u_payment_status := Some PAID\<rparr>,
       (cycle_demo_upload 13 130 110)\<lparr>u_account_id := 22, u_total_amount_due := Some ''50''\<rparr>]\<rparr>"

definition resolve_demo_txn :: "rat \<Rightarrow> transaction" where
  "resolve_demo_txn x = cycle_demo_txn\<lparr>t_account_id := None, t_bank := ''hdfc'', t_amount := x\<rparr>"

text \<open>The status filter of \<open>find_cc_account_by_total_due\<close> runs before \<open>latest_per_account\<close>: the old statement
  counts as the newest although a newer, paid one supersedes it.\<close>

lemma superseded_cycle_matches:
  "resolve_cc_payment_account cycle_demo_pd resolve_demo_db (resolve_demo_txn 12) = (None, (resolve_demo_txn 12)\<lparr>t_account_id := Some 21\<rparr>) \<and>
   map u_id (active_statements cycle_demo_pd resolve_demo_db [21, 22]) = [11, 13] \<and>
   map u_id (latest_statements cycle_demo_pd resolve_demo_db [21, 22]) = [12, 13]"
  by code_simp

theorem resolve_never_guesses_witness:
  "\<exists>a \<in> set (cards_of resolve_demo_db ''hdfc''). backed cycle_demo_pd resolve_demo_db (resolve_demo_txn 50) a \<and> a_id a = 22"
proof -
  let ?t = "resolve_demo_txn 50"
  have r: "resolve_cc_payment_account cycle_demo_pd resolve_demo_db ?t = (None, ?t\<lparr>t_account_id := Some 22\<rparr>)" by code_simp
  have bank: "t_bank ?t = ''hdfc''" by code_simp
  have change: "?t\<lparr>t_account_id := Some 22\<rparr> \<noteq> ?t" by code_simp
  from resolve_never_guesses [OF r change] obtain a where a: "a \<in> set (cards_of resolve_demo_db (t_bank ?t))"
    "backed cycle_demo_pd resolve_demo_db ?t a" "?t\<lparr>t_account_id := Some 22\<rparr> = ?t\<lparr>t_account_id := Some (a_id a)\<rparr>" by blast
  have "t_account_id (?t\<lparr>t_account_id := Some 22\<rparr>) = t_account_id (?t\<lparr>t_account_id := Some (a_id a)\<rparr>)" by (simp only: a(3))
  then show ?thesis using a(1,2) bank by auto
qed

theorem open_payment_answered_witness:
  "\<exists>q. resolve_cc_payment_account cycle_demo_pd resolve_demo_db (resolve_demo_txn 70) = (Some q, resolve_demo_txn 70) \<and>
     cp_account_ids q = [21, 22]"
proof -
  have "open_payment (resolve_demo_txn 70)" "cards_of resolve_demo_db (t_bank (resolve_demo_txn 70)) \<noteq> []"
    "map a_id (cards_of resolve_demo_db (t_bank (resolve_demo_txn 70))) = [21, 22]"
    "fst (resolve_cc_payment_account cycle_demo_pd resolve_demo_db (resolve_demo_txn 70)) \<noteq> None" by code_simp+
  then show ?thesis using open_payment_answered [of "resolve_demo_txn 70" resolve_demo_db cycle_demo_pd] by auto
qed

end
