(* ===== verification/Bank_Recon.thy ===== *)
theory Bank_Recon
  imports Cc_Recon
begin

text \<open>
  The pairing half of \<open>services/statements/bank.py\<close>: \<open>reconcile_bank_statement\<close> pairs the rows of a
  parsed account statement with the stored rows of the account. A first pass claims by reference
  and amount, a second by date (within a day), amount, direction and the evidence of the two
  narrations; a claim that another row of the statement could have made, and that would not leave
  the stored row the same, is then withdrawn. A parsed statement comes from a third-party package
  and is the record \<open>bank_parsed\<close> of what the code reads of it; the date reader is the parameter
  \<open>pd\<close> (\<open>None\<close> is a parse error). As for cards, an amount text that spells an infinity or a NaN is not
  modelled. The passed-through display totals of the result are left out.
\<close>

section \<open>Parsed statements\<close>

record bank_row =
  br_transaction_type :: string
  br_date :: string
  br_amount :: string
  br_narration :: "string option"
  br_counterparty :: "string option"
  br_reference_number :: "string option"
  br_channel :: "string option"
  br_balance :: "string option"

record bank_parsed =
  bp_bank :: string
  bp_account_number :: "string option"
  bp_account_holder_name :: "string option"
  bp_transactions :: "bank_row list"
  bp_opening_balance :: "string option"
  bp_closing_balance :: "string option"
  bp_debit_total :: "string option"
  bp_credit_total :: "string option"

definition parse_bank_amount :: "string \<Rightarrow> rat option" where
  "parse_bank_amount s = py_decimal (filter (\<lambda>c. c \<noteq> CHR '','') s)"

definition parse_bank_date :: "date_parser \<Rightarrow> string \<Rightarrow> date option" where
  "parse_bank_date pd s = (if strip s = [] then None else pd (strip s))"

section \<open>Evidence in the narrations\<close>

definition MIN_REF_SUBSTRING_LEN :: nat where
  "MIN_REF_SUBSTRING_LEN = 6"

definition is_ascii_letter :: "char \<Rightarrow> bool" where
  "is_ascii_letter c \<longleftrightarrow> 65 \<le> code c \<and> code c \<le> 90 \<or> 97 \<le> code c \<and> code c \<le> 122"

text \<open>The search for \<open>(?<![A-Za-z0-9])ref(?![A-Za-z0-9])\<close>.\<close>

definition is_ref_char :: "char \<Rightarrow> bool" where
  "is_ref_char c \<longleftrightarrow> is_ascii_letter c \<or> is_ascii_digit c"

definition ref_at :: "string \<Rightarrow> string \<Rightarrow> nat \<Rightarrow> bool" where
  "ref_at ref text i \<longleftrightarrow> prefix ref (drop i text) \<and> (i = 0 \<or> \<not> is_ref_char (text ! (i - 1))) \<and>
     (i + length ref \<ge> length text \<or> \<not> is_ref_char (text ! (i + length ref)))"

definition ref_appears_in :: "string option \<Rightarrow> string option \<Rightarrow> bool" where
  "ref_appears_in ref text =
     (if \<not> truthy ref \<or> \<not> truthy text \<or> length (or_empty ref) < MIN_REF_SUBSTRING_LEN then False
      else list_ex (ref_at (or_empty ref) (or_empty text)) [0..<Suc (length (or_empty text))])"

text \<open>\<open>[A-Za-z]{4,}\<close>: the maximal runs of ASCII letters, those of four or more.\<close>

function letter_runs :: "string \<Rightarrow> string list" where
  "letter_runs s = (case dropWhile (\<lambda>c. \<not> is_ascii_letter c) s of [] \<Rightarrow> []
     | c # cs \<Rightarrow> (c # takeWhile is_ascii_letter cs) # letter_runs (dropWhile is_ascii_letter cs))"
  by pat_completeness auto
termination
proof (relation "measure length", goal_cases)
  case (2 s c cs)
  have "length (dropWhile (\<lambda>c. \<not> is_ascii_letter c) s) \<le> length s" by (rule length_dropWhile_le)
  moreover have "length (dropWhile is_ascii_letter cs) \<le> length cs" by (rule length_dropWhile_le)
  ultimately show ?case using 2 by simp
qed simp

declare letter_runs.simps [simp del]

definition name_tokens :: "string option \<Rightarrow> string set" where
  "name_tokens text = set (map upper (filter (\<lambda>w. 4 \<le> length w) (letter_runs (or_empty text))))"

definition significant_tokens :: "string option \<Rightarrow> string set \<Rightarrow> string set" where
  "significant_tokens text exclude = (if \<not> truthy text then {} else name_tokens text - exclude)"

definition holder_name_tokens :: "string option \<Rightarrow> string set" where
  "holder_name_tokens name = (if \<not> truthy name then {} else name_tokens name)"

definition OVERLAP_STOPWORDS :: "string list" where
  "OVERLAP_STOPWORDS = [''PAYMENT'', ''PAYMENTS'', ''PAID'', ''CREDIT'', ''CREDITS'', ''CREDITED'', ''CRED'',
     ''DEBIT'', ''DEBITS'', ''DEBITED'', ''TRANSFER'', ''TRANSFERS'', ''TRANSFERRED'', ''SELFTRANSFER'', ''SELF'',
     ''BANK'', ''ACCOUNT'', ''BENEFICIARY'', ''REMITTER'', ''SENDER'', ''FROM'', ''VIA'', ''FOR'', ''WITH'', ''RECEIVED'',
     ''RECEIPT'', ''SENT'', ''AMOUNT'', ''BALANCE'', ''AVAILABLE'', ''INDIA'', ''INTERNATIONAL'', ''TRANSACTION'',
     ''TXNRECONCILE'', ''TXN'', ''REFUND'', ''REFUNDS'', ''REVERSAL'', ''REVERSED'', ''UPI'', ''IMPS'', ''NEFT'', ''RTGS'',
     ''ACH'', ''NACH'', ''SLICE'', ''ICICI'', ''HDFC'', ''AXIS'', ''KOTAK'', ''IDFC'', ''INDUSIND'', ''SBI'', ''YESBANK'',
     ''EQUITAS'', ''JUPITER'', ''ONECARD'', ''HSBC'', ''OKAXIS'', ''OKICICI'', ''OKHDFCBANK'', ''OKSBI'', ''YBL'', ''PAYTM'']"

section \<open>Compatibility\<close>

definition known_balance_compatible :: "rat option \<Rightarrow> string option \<Rightarrow> bool" where
  "known_balance_compatible candidate_balance statement_balance = (case (candidate_balance, statement_balance) of
     (Some b, Some text) \<Rightarrow> (case parse_bank_amount text of None \<Rightarrow> True | Some q \<Rightarrow> b = q)
   | _ \<Rightarrow> True)"

definition candidate_narration :: "transaction \<Rightarrow> string option" where
  "candidate_narration t = (if truthy (t_raw_description t) then t_raw_description t else t_counterparty t)"

definition same_reference :: "bank_row \<Rightarrow> transaction \<Rightarrow> bool" where
  "same_reference r t \<longleftrightarrow> truthy (br_reference_number r) \<and> truthy (t_reference_number t) \<and>
     br_reference_number r = t_reference_number t"

definition is_statement_candidate_compatible :: "string set \<Rightarrow> bool \<Rightarrow> bank_row \<Rightarrow> transaction \<Rightarrow> bool" where
  "is_statement_candidate_compatible holder has_date_offset r t =
     (if same_reference r t then True
      else if \<not> known_balance_compatible (t_balance t) (br_balance r) then False
      else if \<not> (truthy (br_reference_number r) \<and> truthy (t_reference_number t)) then True
      else if has_date_offset then False
      else if ref_appears_in (t_reference_number t) (br_narration r) then True
      else if ref_appears_in (br_reference_number r) (candidate_narration t) then True
      else if br_channel r = Some ''upi'' \<and> t_channel t = Some ''upi'' \<and>
        significant_tokens (candidate_narration t) (set OVERLAP_STOPWORDS \<union> holder) \<inter>
        significant_tokens (br_narration r) (set OVERLAP_STOPWORDS \<union> holder) \<noteq> {} then True
      else False)"

record refresh_id =
  ri_counterparty :: string
  ri_channel :: "string option"

definition bank_refresh_identity :: "bank_row \<Rightarrow> refresh_id" where
  "bank_refresh_identity r = (let counterparty = strip (or_empty (br_counterparty r)); narration = strip (or_empty (br_narration r))
     in \<lparr>ri_counterparty = (if counterparty \<noteq> [] then counterparty else narration), ri_channel = br_channel r\<rparr>)"

section \<open>Entries\<close>

definition BANK_RECONCILIATION_GATES :: "string list" where
  "BANK_RECONCILIATION_GATES = [''account_scope'', ''reference_direction'', ''reference_amount_compatibility'',
     ''known_balance_compatibility'', ''direction_amount'', ''date_window_plus_minus_one_day'',
     ''reference_or_narration_compatibility'', ''unique_unconsumed_candidate'', ''contention'']"

record bank_entry =
  be_stmt_idx :: nat
  be_date :: string
  be_amount :: string
  be_direction :: string
  be_narration :: "string option"
  be_counterparty :: "string option"
  be_reference_number :: "string option"
  be_channel :: "string option"
  be_balance :: "string option"
  be_evidence :: evidence

record bank_match = bank_entry +
  bm_db_txn_id :: nat
  bm_db_counterparty :: "string option"
  bm_db_reference :: "string option"
  bm_db_date :: "string option"
  bm_enriched :: bool

record bank_miss = bank_entry +
  bx_ambiguous :: bool
  bx_imported :: bool
  bx_imported_txn_id :: "nat option"
  bx_duplicate :: bool
  bx_import_error :: "string option"

definition bank_miss_of :: "nat \<Rightarrow> bank_row \<Rightarrow> bool \<Rightarrow> evidence \<Rightarrow> bank_miss" where
  "bank_miss_of i r ambiguous ev = \<lparr>be_stmt_idx = i, be_date = br_date r, be_amount = br_amount r,
     be_direction = br_transaction_type r, be_narration = br_narration r, be_counterparty = br_counterparty r,
     be_reference_number = br_reference_number r, be_channel = br_channel r, be_balance = br_balance r,
     be_evidence = ev, bx_ambiguous = ambiguous, bx_imported = False, bx_imported_txn_id = None,
     bx_duplicate = False, bx_import_error = None\<rparr>"

definition bank_match_of :: "nat \<Rightarrow> bank_row \<Rightarrow> transaction \<Rightarrow> evidence \<Rightarrow> bank_match" where
  "bank_match_of i r t ev = \<lparr>be_stmt_idx = i, be_date = br_date r, be_amount = br_amount r,
     be_direction = br_transaction_type r, be_narration = br_narration r, be_counterparty = br_counterparty r,
     be_reference_number = br_reference_number r, be_channel = br_channel r, be_balance = br_balance r,
     be_evidence = ev, bm_db_txn_id = t_id t, bm_db_counterparty = t_counterparty t,
     bm_db_reference = t_reference_number t, bm_db_date = map_option date_text (t_transaction_date t),
     bm_enriched = False\<rparr>"

section \<open>The rows and the pools\<close>

text \<open>The rows of the statement whose amount and date can be read, with what was read; and the
  others, which are missing from the start.\<close>

record parsed_row =
  pr_idx :: nat
  pr_txn :: bank_row
  pr_amount :: rat
  pr_date :: date

definition parsed_row_of :: "date_parser \<Rightarrow> nat \<times> bank_row \<Rightarrow> parsed_row option" where
  "parsed_row_of pd ir = (case ir of (i, r) \<Rightarrow> (case parse_bank_amount (br_amount r) of None \<Rightarrow> None
     | Some a \<Rightarrow> (case parse_bank_date pd (br_date r) of None \<Rightarrow> None
       | Some d \<Rightarrow> Some \<lparr>pr_idx = i, pr_txn = r, pr_amount = a, pr_date = d\<rparr>)))"

definition parsed_rows :: "date_parser \<Rightarrow> bank_row list \<Rightarrow> parsed_row list" where
  "parsed_rows pd rs = List.map_filter (parsed_row_of pd) (enumerate 0 rs)"

definition unparsed_misses :: "date_parser \<Rightarrow> bank_row list \<Rightarrow> bank_miss list" where
  "unparsed_misses pd rs = map (\<lambda>(i, r). bank_miss_of i r False
       (candidate_evidence {} ''unparseable_statement_identity'' [''parse_amount'', ''parse_date'']))
     (filter (\<lambda>ir. parsed_row_of pd ir = None) (enumerate 0 rs))"

definition pr_direction :: "parsed_row \<Rightarrow> string" where
  "pr_direction row = br_transaction_type (pr_txn row)"

text \<open>\<open>db_by_id.get\<close>; primary keys are unique.\<close>

definition db_by_id :: "transaction list \<Rightarrow> nat \<Rightarrow> transaction option" where
  "db_by_id ts i = List.find (\<lambda>t. t_id t = i) ts"

type_synonym ref_pool = "((string \<times> string) \<times> nat list) list"
type_synonym date_pool = "((date \<times> rat \<times> string) \<times> nat list) list"

definition build_ref_pool :: "transaction list \<Rightarrow> ref_pool" where
  "build_ref_pool ts = foldl (\<lambda>pool t. if truthy (t_reference_number t) \<and> t_direction t \<noteq> []
     then dict_append pool (or_empty (t_reference_number t), t_direction t) (t_id t) else pool) [] ts"

definition build_date_pool :: "transaction list \<Rightarrow> date_pool" where
  "build_date_pool ts = foldl (\<lambda>pool t. case t_transaction_date t of None \<Rightarrow> pool
     | Some d \<Rightarrow> if t_direction t \<noteq> [] then dict_append pool (d, t_amount t, t_direction t) (t_id t) else pool) [] ts"

section \<open>Candidates\<close>

definition reference_compatible_ids :: "nat list \<Rightarrow> transaction list \<Rightarrow> rat \<Rightarrow> nat list" where
  "reference_compatible_ids candidate_ids ts amount =
     filter (\<lambda>i. case db_by_id ts i of None \<Rightarrow> False | Some t \<Rightarrow> t_amount t = amount) candidate_ids"

text \<open>\<open>reference_evidence_sets\<close> and \<open>compatible_reference_ids\<close>, by row.\<close>

definition reference_ids :: "transaction list \<Rightarrow> parsed_row \<Rightarrow> nat list" where
  "reference_ids ts row = (if \<not> truthy (br_reference_number (pr_txn row)) then []
     else dict_list (build_ref_pool ts) (or_empty (br_reference_number (pr_txn row)), pr_direction row))"

definition compatible_reference_ids :: "transaction list \<Rightarrow> parsed_row \<Rightarrow> nat list" where
  "compatible_reference_ids ts row = reference_compatible_ids (reference_ids ts row) ts (pr_amount row)"

definition take_sole_unconsumed :: "nat list \<Rightarrow> nat set \<Rightarrow> nat option" where
  "take_sole_unconsumed candidates consumed = sole (filter (\<lambda>c. c \<notin> consumed) candidates)"

record compatible_candidates =
  strong_ids :: "nat list"
  compatible_ids :: "nat list"

definition find_compatible ::
  "string set \<Rightarrow> transaction list \<Rightarrow> bank_row \<Rightarrow> bool \<Rightarrow> nat set \<Rightarrow> nat list \<Rightarrow> compatible_candidates" where
  "find_compatible holder ts r has_date_offset consumed candidate_ids =
     (let compatible = filter (\<lambda>i. i \<notin> consumed \<and> (case db_by_id ts i of None \<Rightarrow> False
            | Some t \<Rightarrow> is_statement_candidate_compatible holder has_date_offset r t)) candidate_ids
      in \<lparr>strong_ids = filter (\<lambda>i. case db_by_id ts i of None \<Rightarrow> False
            | Some t \<Rightarrow> ref_appears_in (t_reference_number t) (br_narration r) \<or>
                ref_appears_in (br_reference_number r) (candidate_narration t)) compatible,
          compatible_ids = compatible\<rparr>)"

definition select_unique_compatible :: "compatible_candidates \<Rightarrow> nat option" where
  "select_unique_compatible cc = sole (if strong_ids cc \<noteq> [] then strong_ids cc else compatible_ids cc)"

text \<open>One date bucket of the window, and the window.\<close>

definition bucket_candidates :: "string set \<Rightarrow> transaction list \<Rightarrow> nat set \<Rightarrow> parsed_row \<Rightarrow> int \<Rightarrow> compatible_candidates" where
  "bucket_candidates holder ts consumed row offset =
     find_compatible holder ts (pr_txn row) (offset \<noteq> 0) consumed
       (dict_list (build_date_pool ts) (pr_date row + offset, pr_amount row, pr_direction row))"

definition fuzzy_set :: "string set \<Rightarrow> transaction list \<Rightarrow> parsed_row \<Rightarrow> nat set" where
  "fuzzy_set holder ts row = (\<Union>offset \<in> set WINDOW. set (compatible_ids (bucket_candidates holder ts {} row offset)))"

definition evidence_set :: "string set \<Rightarrow> transaction list \<Rightarrow> parsed_row \<Rightarrow> nat set" where
  "evidence_set holder ts row = set (reference_ids ts row) \<union> fuzzy_set holder ts row"

definition contention_set :: "string set \<Rightarrow> transaction list \<Rightarrow> parsed_row \<Rightarrow> nat set" where
  "contention_set holder ts row = set (compatible_reference_ids ts row) \<union> fuzzy_set holder ts row"

fun pick_by_date :: "string set \<Rightarrow> transaction list \<Rightarrow> nat set \<Rightarrow> parsed_row \<Rightarrow> int list \<Rightarrow> nat option" where
  "pick_by_date holder ts consumed row [] = None"
| "pick_by_date holder ts consumed row (offset # os) =
     (case select_unique_compatible (bucket_candidates holder ts consumed row offset) of
        Some i \<Rightarrow> Some i
      | None \<Rightarrow> pick_by_date holder ts consumed row os)"

section \<open>The two passes\<close>

record claims =
  cl_consumed :: "nat set"
  cl_claimed :: "(nat \<times> nat) list"

definition record_claim :: "parsed_row \<Rightarrow> nat option \<Rightarrow> claims \<Rightarrow> claims" where
  "record_claim row choice s = (case choice of None \<Rightarrow> s
     | Some i \<Rightarrow> s\<lparr>cl_consumed := insert i (cl_consumed s), cl_claimed := cl_claimed s @ [(pr_idx row, i)]\<rparr>)"

definition reference_step :: "transaction list \<Rightarrow> claims \<Rightarrow> parsed_row \<Rightarrow> claims" where
  "reference_step ts s row =
     record_claim row (take_sole_unconsumed (compatible_reference_ids ts row) (cl_consumed s)) s"

definition reference_pass :: "transaction list \<Rightarrow> parsed_row list \<Rightarrow> claims" where
  "reference_pass ts rows = foldl (reference_step ts) \<lparr>cl_consumed = {}, cl_claimed = []\<rparr> rows"

definition date_step :: "string set \<Rightarrow> transaction list \<Rightarrow> claims \<Rightarrow> parsed_row \<Rightarrow> claims" where
  "date_step holder ts s row = (if pr_idx row \<in> fst ` set (cl_claimed s) then s
     else record_claim row (pick_by_date holder ts (cl_consumed s) row WINDOW) s)"

definition date_pass :: "string set \<Rightarrow> transaction list \<Rightarrow> parsed_row list \<Rightarrow> claims \<Rightarrow> claims" where
  "date_pass holder ts rows s = foldl (date_step holder ts) s rows"

section \<open>Contention\<close>

definition bank_rivals :: "string set \<Rightarrow> transaction list \<Rightarrow> parsed_row list \<Rightarrow> nat \<times> nat \<Rightarrow> parsed_row list" where
  "bank_rivals holder ts rows claim = filter (\<lambda>row. pr_idx row \<noteq> fst claim \<and> snd claim \<in> contention_set holder ts row) rows"

definition contested_claim :: "string set \<Rightarrow> transaction list \<Rightarrow> parsed_row list \<Rightarrow> nat \<times> nat \<Rightarrow> bool" where
  "contested_claim holder ts rows claim = (let rs = bank_rivals holder ts rows claim in
     if rs = [] then False
     else 1 < card (set (map (bank_refresh_identity \<circ> pr_txn) (filter (\<lambda>row. pr_idx row = fst claim) rows @ rs))))"

definition contested_indices :: "string set \<Rightarrow> transaction list \<Rightarrow> parsed_row list \<Rightarrow> claims \<Rightarrow> nat list" where
  "contested_indices holder ts rows s = map fst (filter (contested_claim holder ts rows) (cl_claimed s))"

section \<open>Reconciliation\<close>

record balance_check =
  bc_computed_closing :: string
  bc_delta :: string
  bc_is_balanced :: bool

record bank_recon =
  bk_matched :: "bank_match list"
  bk_missing :: "bank_miss list"
  bk_balance_verification :: "balance_check option"

definition row_match :: "string set \<Rightarrow> transaction list \<Rightarrow> nat set \<Rightarrow> parsed_row \<Rightarrow> transaction \<Rightarrow> bank_match" where
  "row_match holder ts by_reference row t = bank_match_of (pr_idx row) (pr_txn row) t
     (candidate_evidence (evidence_set holder ts row)
       (if pr_idx row \<in> by_reference then ''matched_reference'' else ''matched_date_amount'') BANK_RECONCILIATION_GATES)"

definition row_miss :: "string set \<Rightarrow> transaction list \<Rightarrow> nat list \<Rightarrow> parsed_row \<Rightarrow> bank_miss" where
  "row_miss holder ts contested row = (let candidates = evidence_set holder ts row in
     bank_miss_of (pr_idx row) (pr_txn row) (contended_miss candidates)
       (candidate_evidence candidates
         (if pr_idx row \<in> set contested then ''contested_match_demoted''
          else if candidates \<noteq> {} then ''candidate_refused_or_consumed'' else ''no_candidate'')
         BANK_RECONCILIATION_GATES))"

definition reconcile_bank_rows ::
  "date_parser \<Rightarrow> string set \<Rightarrow> transaction list \<Rightarrow> bank_row list \<Rightarrow> bank_match list \<times> bank_miss list" where
  "reconcile_bank_rows pd holder ts rs =
     (let rows = parsed_rows pd rs;
          first = reference_pass ts rows;
          s = date_pass holder ts rows first;
          contested = contested_indices holder ts rows s;
          matched_db_ids = filter (\<lambda>c. fst c \<notin> set contested) (cl_claimed s);
          matched_row = (\<lambda>row. case dict_get matched_db_ids (pr_idx row) of None \<Rightarrow> None | Some i \<Rightarrow> db_by_id ts i)
      in (List.map_filter (\<lambda>row. map_option (row_match holder ts (fst ` set (cl_claimed first)) row) (matched_row row)) rows,
          unparsed_misses pd rs @ map (row_miss holder ts contested) (filter (\<lambda>row. matched_row row = None) rows)))"

text \<open>\<open>None\<close> is the exception of a balance text that cannot be read. (A difference that rounds to zero from
  below prints as \<open>-0.00\<close> in Python and as \<open>0.00\<close> here.)\<close>

definition verify_balance :: "bank_parsed \<Rightarrow> balance_check option option" where
  "verify_balance p = (if \<not> (truthy (bp_opening_balance p) \<and> truthy (bp_closing_balance p)) then Some None
     else case (parse_bank_amount (or_empty (bp_opening_balance p)), parse_bank_amount (or_empty (bp_closing_balance p)),
         parse_bank_amount (if truthy (bp_credit_total p) then or_empty (bp_credit_total p) else ''0''),
         parse_bank_amount (if truthy (bp_debit_total p) then or_empty (bp_debit_total p) else ''0'')) of
       (Some opening, Some closing, Some credits, Some debits) \<Rightarrow>
         (let computed_closing = opening + credits - debits; delta = closing - computed_closing in
          Some (Some \<lparr>bc_computed_closing = format_cc_amount computed_closing, bc_delta = format_cc_amount delta,
            bc_is_balanced = \<bar>delta\<bar> < 1\<rparr>))
     | _ \<Rightarrow> None)"

definition reconcile_bank_statement :: "date_parser \<Rightarrow> bank_parsed \<Rightarrow> transaction list \<Rightarrow> bank_recon option" where
  "reconcile_bank_statement pd p ts = (case verify_balance p of None \<Rightarrow> None
     | Some b \<Rightarrow> (let (matched, missing) =
           reconcile_bank_rows pd (holder_name_tokens (bp_account_holder_name p)) ts (bp_transactions p)
         in Some \<lparr>bk_matched = matched, bk_missing = missing, bk_balance_verification = b\<rparr>))"

end
