(* ===== verification/Bank_Recon_Sound.thy ===== *)
theory Bank_Recon_Sound
  imports Bank_Recon Cc_Recon_Sound
begin

text \<open>
  The correctness of \<open>reconcile_bank_statement\<close>. The two passes are the same greedy walk with
  different ways to pick, so what they share is proved once over the interface \<open>claim_pass\<close>: a pick
  is a stored row the statement row may be and nobody has taken, and a row with one possibility
  that is still free gets it. On top of it: the entries account for every row, the matches are
  sound, a row is held back exactly when a stored row could be it, a kept match is beyond dispute,
  and a row with one undisputed counterpart is matched with it.
\<close>

section \<open>What the candidate sets hold\<close>

lemma db_by_id_iff:
  assumes "distinct (map t_id ts)"
  shows "db_by_id ts i = Some t \<longleftrightarrow> t \<in> set ts \<and> t_id t = i"
proof
  assume "db_by_id ts i = Some t"
  then show "t \<in> set ts \<and> t_id t = i" unfolding db_by_id_def by (rule find_Some_D)
next
  assume t: "t \<in> set ts \<and> t_id t = i"
  show "db_by_id ts i = Some t"
  proof (cases "db_by_id ts i")
    case None
    then show ?thesis using find_None_D [of "\<lambda>x. t_id x = i" ts t] t by (simp add: db_by_id_def)
  next
    case (Some u)
    then have "u \<in> set ts" "t_id u = i" unfolding db_by_id_def by (auto dest: find_Some_D)
    then show ?thesis using Some t assms by (auto simp: distinct_map inj_on_def)
  qed
qed

lemma db_by_id_self [simp]: "distinct (map t_id ts) \<Longrightarrow> t \<in> set ts \<Longrightarrow> db_by_id ts (t_id t) = Some t"
  by (simp add: db_by_id_iff)

text \<open>The stored row carries the reference of the statement row, in the same direction.\<close>

definition refers :: "parsed_row \<Rightarrow> transaction \<Rightarrow> bool" where
  "refers row t \<longleftrightarrow> same_reference (pr_txn row) t \<and> t_direction t = pr_direction row \<and> pr_direction row \<noteq> []"

definition refers_exactly :: "parsed_row \<Rightarrow> transaction \<Rightarrow> bool" where
  "refers_exactly row t \<longleftrightarrow> refers row t \<and> t_amount t = pr_amount row"

text \<open>The stored row is dated \<open>offset\<close> days from the statement row and agrees with it.\<close>

definition dated :: "string set \<Rightarrow> parsed_row \<Rightarrow> int \<Rightarrow> transaction \<Rightarrow> bool" where
  "dated holder row offset t \<longleftrightarrow> same_event (pr_date row + offset) (pr_amount row) (pr_direction row) t \<and>
     pr_direction row \<noteq> [] \<and> is_statement_candidate_compatible holder (offset \<noteq> 0) (pr_txn row) t"

definition by_date :: "string set \<Rightarrow> parsed_row \<Rightarrow> transaction \<Rightarrow> bool" where
  "by_date holder row t \<longleftrightarrow> (\<exists>offset \<in> set WINDOW. dated holder row offset t)"

definition may_be :: "string set \<Rightarrow> parsed_row \<Rightarrow> transaction \<Rightarrow> bool" where
  "may_be holder row t \<longleftrightarrow> refers_exactly row t \<or> by_date holder row t"

lemma ref_pool_list:
  "dict_list (build_ref_pool ts) (r, dir) =
     map t_id (filter (\<lambda>t. t_reference_number t = Some r \<and> r \<noteq> [] \<and> t_direction t = dir \<and> dir \<noteq> []) ts)"
proof -
  have "dict_list (foldl (\<lambda>pool t. if truthy (t_reference_number t) \<and> t_direction t \<noteq> []
       then dict_append pool (or_empty (t_reference_number t), t_direction t) (t_id t) else pool) p ts) (r, dir) =
     dict_list p (r, dir) @
       map t_id (filter (\<lambda>t. t_reference_number t = Some r \<and> r \<noteq> [] \<and> t_direction t = dir \<and> dir \<noteq> []) ts)" for p
    by (induction ts arbitrary: p) (auto simp: truthy_def or_empty_def split: option.splits)
  then show ?thesis by (simp add: build_ref_pool_def)
qed

lemma date_pool_list:
  "dict_list (build_date_pool ts) (d, a, dir) = map t_id (filter (\<lambda>t. same_event d a dir t \<and> dir \<noteq> []) ts)"
proof -
  have "dict_list (foldl (\<lambda>pool t. case t_transaction_date t of None \<Rightarrow> pool
     | Some d \<Rightarrow> if t_direction t \<noteq> [] then dict_append pool (d, t_amount t, t_direction t) (t_id t) else pool) p ts) (d, a, dir) =
     dict_list p (d, a, dir) @ map t_id (filter (\<lambda>t. same_event d a dir t \<and> dir \<noteq> []) ts)" for p
    by (induction ts arbitrary: p) (auto simp: same_event_def split: option.splits)
  then show ?thesis by (simp add: build_date_pool_def)
qed

lemma reference_ids_eq: "reference_ids ts row = map t_id (filter (refers row) ts)"
proof (cases "br_reference_number (pr_txn row)")
  case None
  then show ?thesis by (simp add: reference_ids_def refers_def same_reference_def)
next
  case (Some r)
  then show ?thesis
    by (auto simp: reference_ids_def refers_def same_reference_def ref_pool_list intro!: arg_cong [of _ _ "map t_id"] filter_cong)
qed

lemma compatible_reference_ids_eq:
  assumes "distinct (map t_id ts)"
  shows "compatible_reference_ids ts row = map t_id (filter (refers_exactly row) ts)"
proof -
  have "compatible_reference_ids ts row =
      map t_id (filter (\<lambda>t. case db_by_id ts (t_id t) of None \<Rightarrow> False | Some t \<Rightarrow> t_amount t = pr_amount row)
        (filter (refers row) ts))"
    by (simp add: compatible_reference_ids_def reference_compatible_ids_def reference_ids_eq filter_map comp_def)
  also have "\<dots> = map t_id (filter (refers_exactly row) ts)"
    unfolding filter_filter by (intro arg_cong [of _ _ "map t_id"] filter_cong) (use assms in \<open>auto simp: refers_exactly_def\<close>)
  finally show ?thesis .
qed

lemma bucket_compatible_ids:
  assumes "distinct (map t_id ts)"
  shows "compatible_ids (bucket_candidates holder ts taken row offset) =
    map t_id (filter (\<lambda>t. dated holder row offset t \<and> t_id t \<notin> taken) ts)"
proof -
  have "compatible_ids (bucket_candidates holder ts taken row offset) =
      map t_id (filter (\<lambda>t. t_id t \<notin> taken \<and> (case db_by_id ts (t_id t) of None \<Rightarrow> False
          | Some t \<Rightarrow> is_statement_candidate_compatible holder (offset \<noteq> 0) (pr_txn row) t))
        (filter (\<lambda>t. same_event (pr_date row + offset) (pr_amount row) (pr_direction row) t \<and> pr_direction row \<noteq> []) ts))"
    by (simp add: bucket_candidates_def find_compatible_def date_pool_list filter_map comp_def)
  also have "\<dots> = map t_id (filter (\<lambda>t. dated holder row offset t \<and> t_id t \<notin> taken) ts)"
    unfolding filter_filter by (intro arg_cong [of _ _ "map t_id"] filter_cong) (use assms in \<open>auto simp: dated_def\<close>)
  finally show ?thesis .
qed

lemma strong_ids_sub: "set (strong_ids (bucket_candidates holder ts taken row offset)) \<subseteq>
    set (compatible_ids (bucket_candidates holder ts taken row offset))"
  by (auto simp: bucket_candidates_def find_compatible_def Let_def)

lemma fuzzy_set_eq:
  assumes "distinct (map t_id ts)"
  shows "fuzzy_set holder ts row = t_id ` {t \<in> set ts. by_date holder row t}"
  by (auto simp: fuzzy_set_def bucket_compatible_ids [OF assms] by_date_def)

lemma evidence_set_eq:
  assumes "distinct (map t_id ts)"
  shows "evidence_set holder ts row = t_id ` {t \<in> set ts. refers row t \<or> by_date holder row t}"
  by (auto simp: evidence_set_def fuzzy_set_eq [OF assms] reference_ids_eq)

lemma contention_set_eq:
  assumes "distinct (map t_id ts)"
  shows "contention_set holder ts row = t_id ` {t \<in> set ts. may_be holder row t}"
  by (auto simp: contention_set_def fuzzy_set_eq [OF assms] compatible_reference_ids_eq [OF assms] may_be_def)

lemma contention_set_iff:
  assumes "distinct (map t_id ts)" "t \<in> set ts"
  shows "t_id t \<in> contention_set holder ts row \<longleftrightarrow> may_be holder row t"
  using assms by (auto simp: contention_set_eq distinct_map inj_on_def)

section \<open>A pass\<close>

text \<open>The claims are consistent: no row claims twice, none is claimed twice, and every claim is of a
  stored row that the statement row may be.\<close>

definition claims_ok :: "(parsed_row \<Rightarrow> transaction \<Rightarrow> bool) \<Rightarrow> transaction list \<Rightarrow> parsed_row list \<Rightarrow> claims \<Rightarrow> bool" where
  "claims_ok R ts rows s \<longleftrightarrow> distinct (map fst (cl_claimed s)) \<and> distinct (map snd (cl_claimed s)) \<and>
     cl_consumed s = snd ` set (cl_claimed s) \<and>
     (\<forall>c \<in> set (cl_claimed s). \<exists>row \<in> set rows. \<exists>t \<in> set ts. c = (pr_idx row, t_id t) \<and> R row t)"

definition claimed_rows :: "claims \<Rightarrow> nat set" where
  "claimed_rows s = fst ` set (cl_claimed s)"

text \<open>The walk both passes make.\<close>

definition guarded :: "(nat set \<Rightarrow> parsed_row \<Rightarrow> nat option) \<Rightarrow> claims \<Rightarrow> parsed_row \<Rightarrow> claims" where
  "guarded pick s row = (if pr_idx row \<in> claimed_rows s then s else record_claim row (pick (cl_consumed s) row) s)"

lemma record_claim_rows: "claimed_rows (record_claim row c s) = claimed_rows s \<union> (if c = None then {} else {pr_idx row})"
  by (auto simp: record_claim_def claimed_rows_def split: option.split)

lemma guarded_mono: "set (cl_claimed s) \<subseteq> set (cl_claimed (guarded pick s row))"
  by (auto simp: guarded_def record_claim_def split: option.split)

lemma guarded_fold_mono: "set (cl_claimed s) \<subseteq> set (cl_claimed (foldl (guarded pick) s rs))"
proof (induction rs arbitrary: s)
  case (Cons row rs)
  then show ?case using guarded_mono [of s pick row] by (auto simp: subset_iff)
qed simp

locale claim_pass =
  fixes ts :: "transaction list" and R :: "parsed_row \<Rightarrow> transaction \<Rightarrow> bool"
    and may :: "parsed_row \<Rightarrow> transaction \<Rightarrow> bool" and pick :: "nat set \<Rightarrow> parsed_row \<Rightarrow> nat option"
  assumes may_R: "may row t \<Longrightarrow> R row t"
    and pick_sound: "distinct (map t_id ts) \<Longrightarrow> pick taken row = Some i \<Longrightarrow>
      i \<notin> taken \<and> (\<exists>t \<in> set ts. t_id t = i \<and> may row t)"
    and pick_sole: "distinct (map t_id ts) \<Longrightarrow> t \<in> set ts \<Longrightarrow> may row t \<Longrightarrow> t_id t \<notin> taken \<Longrightarrow>
      (\<And>u. u \<in> set ts \<Longrightarrow> may row u \<Longrightarrow> u = t) \<Longrightarrow> pick taken row = Some (t_id t)"
begin

lemma guarded_ok:
  assumes "distinct (map t_id ts)" "claims_ok R ts rows s" "row \<in> set rows"
  shows "claims_ok R ts rows (guarded pick s row)"
proof (cases "pr_idx row \<in> claimed_rows s \<or> pick (cl_consumed s) row = None")
  case True
  then show ?thesis using assms(2) by (auto simp: guarded_def record_claim_def)
next
  case False
  then obtain i where i: "pick (cl_consumed s) row = Some i" "pr_idx row \<notin> claimed_rows s" by auto
  then obtain t where t: "i \<notin> cl_consumed s" "t \<in> set ts" "t_id t = i" "R row t"
    using pick_sound [OF assms(1)] may_R by metis
  then show ?thesis
    using i assms(2,3) by (auto simp: guarded_def record_claim_def claims_ok_def claimed_rows_def)
qed

lemma pass_ok:
  assumes "distinct (map t_id ts)" "claims_ok R ts rows s" "set rs \<subseteq> set rows"
  shows "claims_ok R ts rows (foldl (guarded pick) s rs)"
  using assms(2,3) by (induction rs arbitrary: s) (simp_all add: guarded_ok [OF assms(1)])

lemma step_claims:
  assumes ts: "distinct (map t_id ts)" and s: "claims_ok R ts rows s" and t: "t \<in> set ts" "may row t"
    and sole: "\<And>u. u \<in> set ts \<Longrightarrow> may row u \<Longrightarrow> u = t"
    and free: "\<And>other. other \<in> set rows \<Longrightarrow> R other t \<Longrightarrow> other = row"
  shows "pr_idx row \<in> claimed_rows (guarded pick s row)"
proof (cases "pr_idx row \<in> claimed_rows s")
  case True
  then show ?thesis by (simp add: guarded_def)
next
  case False
  have "t_id t \<notin> cl_consumed s"
  proof
    assume "t_id t \<in> cl_consumed s"
    then obtain c where "c \<in> set (cl_claimed s)" "snd c = t_id t" using s by (auto simp: claims_ok_def)
    then obtain other u where o: "other \<in> set rows" "u \<in> set ts" "c = (pr_idx other, t_id u)" "R other u" "t_id u = t_id t"
      using s by (fastforce simp: claims_ok_def)
    then have "u = t" using ts t(1) by (auto simp: distinct_map inj_on_def)
    then have "other = row" using free o by simp
    then show False using False o \<open>c \<in> _\<close> by (force simp: claimed_rows_def)
  qed
  then have "pick (cl_consumed s) row = Some (t_id t)" using pick_sole [OF ts t] sole by blast
  then show ?thesis using False by (simp add: guarded_def record_claim_rows)
qed

lemma pass_claims:
  assumes ts: "distinct (map t_id ts)" and s: "claims_ok R ts rows s" "set rs \<subseteq> set rows" "row \<in> set rs"
    and t: "t \<in> set ts" "may row t" and sole: "\<And>u. u \<in> set ts \<Longrightarrow> may row u \<Longrightarrow> u = t"
    and free: "\<And>other. other \<in> set rows \<Longrightarrow> R other t \<Longrightarrow> other = row"
  shows "pr_idx row \<in> claimed_rows (foldl (guarded pick) s rs)"
  using s
proof (induction rs arbitrary: s)
  case (Cons x rs)
  show ?case
  proof (cases "row = x")
    case True
    then have "pr_idx row \<in> claimed_rows (guarded pick s x)" using step_claims [OF ts Cons.prems(1) t sole free] by simp
    then show ?thesis using guarded_fold_mono [of "guarded pick s x" pick rs] by (auto simp: claimed_rows_def)
  next
    case False
    then show ?thesis using Cons guarded_ok [OF ts] by simp
  qed
qed simp

end

section \<open>The two passes\<close>

lemma take_sole_unconsumed_Some: "take_sole_unconsumed xs taken = Some i \<Longrightarrow> i \<in> set xs \<and> i \<notin> taken"
  by (auto simp: take_sole_unconsumed_def dest: sole_in_set)

lemma select_unique_Some:
  assumes "select_unique_compatible (bucket_candidates holder ts taken row offset) = Some i"
  shows "i \<in> set (compatible_ids (bucket_candidates holder ts taken row offset))"
proof -
  let ?cc = "bucket_candidates holder ts taken row offset"
  have "i \<in> set (if strong_ids ?cc \<noteq> [] then strong_ids ?cc else compatible_ids ?cc)"
    using assms unfolding select_unique_compatible_def by (rule sole_in_set)
  then show ?thesis using strong_ids_sub [of holder ts taken row offset] by (auto split: if_splits)
qed

lemma select_unique_sole:
  assumes "compatible_ids (bucket_candidates holder ts taken row offset) = [i]"
  shows "select_unique_compatible (bucket_candidates holder ts taken row offset) = Some i"
  using assms by (simp add: select_unique_compatible_def bucket_candidates_def find_compatible_def Let_def)

lemma select_unique_empty:
  assumes "compatible_ids (bucket_candidates holder ts taken row offset) = []"
  shows "select_unique_compatible (bucket_candidates holder ts taken row offset) = None"
  using strong_ids_sub [of holder ts taken row offset] assms by (simp add: select_unique_compatible_def)

lemma pick_by_date_sound:
  assumes "distinct (map t_id ts)" "pick_by_date holder ts taken row os = Some i" "set os \<subseteq> set WINDOW"
  shows "i \<notin> taken \<and> (\<exists>t \<in> set ts. t_id t = i \<and> by_date holder row t)"
  using assms(2,3)
proof (induction os)
  case (Cons o' os)
  show ?case
  proof (cases "select_unique_compatible (bucket_candidates holder ts taken row o')")
    case None
    then show ?thesis using Cons by simp
  next
    case (Some j)
    then show ?thesis
      using select_unique_Some [OF Some] Cons.prems by (auto simp: bucket_compatible_ids [OF assms(1)] by_date_def)
  qed
qed simp

lemma distinct_mapD: "distinct (map f xs) \<Longrightarrow> distinct xs"
  by (simp add: distinct_map)

lemma sole_filter:
  "distinct xs \<Longrightarrow> x \<in> set xs \<Longrightarrow> P x \<Longrightarrow> (\<And>y. y \<in> set xs \<Longrightarrow> P y \<Longrightarrow> y = x) \<Longrightarrow> filter P xs = [x]"
proof (induction xs)
  case (Cons y ys)
  show ?case
  proof (cases "y = x")
    case True
    then have "\<not> P z" if "z \<in> set ys" for z using Cons.prems(1) Cons.prems(4) [of z] that by auto
    then show ?thesis using True Cons.prems(3) by (simp add: filter_empty_conv)
  next
    case False
    then have "\<not> P y" using Cons.prems(4) [of y] by auto
    moreover have "filter P ys = [x]" using Cons.IH Cons.prems False by (metis distinct.simps(2) list.set_intros(2) set_ConsD)
    ultimately show ?thesis by simp
  qed
qed simp

lemma bucket_sole:
  assumes "distinct (map t_id ts)" "t \<in> set ts" "t_id t \<notin> taken" "\<And>u. u \<in> set ts \<Longrightarrow> by_date holder row u \<Longrightarrow> u = t"
    "offset \<in> set WINDOW"
  shows "compatible_ids (bucket_candidates holder ts taken row offset) = (if dated holder row offset t then [t_id t] else [])"
proof (cases "dated holder row offset t")
  case True
  have sole: "u = t" if "u \<in> set ts" "dated holder row offset u \<and> t_id u \<notin> taken" for u
    using assms(4) [OF that(1)] assms(5) that(2) unfolding by_date_def by blast
  have "filter (\<lambda>t. dated holder row offset t \<and> t_id t \<notin> taken) ts = [t]"
    by (rule sole_filter [OF distinct_mapD [OF assms(1)] assms(2) _ sole]) (simp_all add: True assms(3))
  then show ?thesis using True by (simp add: bucket_compatible_ids [OF assms(1)])
next
  case False
  have "\<not> dated holder row offset u" if "u \<in> set ts" for u
    using assms(4) [OF that] assms(5) False unfolding by_date_def by blast
  then show ?thesis using False by (simp add: bucket_compatible_ids [OF assms(1)])
qed

lemma pick_by_date_sole:
  assumes "distinct (map t_id ts)" "t \<in> set ts" "t_id t \<notin> taken" "\<And>u. u \<in> set ts \<Longrightarrow> by_date holder row u \<Longrightarrow> u = t"
    "set os \<subseteq> set WINDOW" "\<exists>offset \<in> set os. dated holder row offset t"
  shows "pick_by_date holder ts taken row os = Some (t_id t)"
  using assms(5,6)
proof (induction os)
  case (Cons o' os)
  then have o': "o' \<in> set WINDOW" by simp
  note b = bucket_sole [OF assms(1-4) o']
  show ?case
  proof (cases "dated holder row o' t")
    case True
    then show ?thesis using select_unique_sole b by simp
  next
    case False
    then have "select_unique_compatible (bucket_candidates holder ts taken row o') = None" using select_unique_empty b by simp
    then show ?thesis using Cons False by simp
  qed
qed simp

interpretation by_reference: claim_pass ts "may_be holder" refers_exactly
  "\<lambda>taken row. take_sole_unconsumed (compatible_reference_ids ts row) taken" for ts holder
proof (unfold_locales, goal_cases)
  case (2 taken row i)
  then show ?case using take_sole_unconsumed_Some [OF 2(2)] by (auto simp: compatible_reference_ids_eq)
next
  case (3 t row taken)
  have "filter (refers_exactly row) ts = [t]" by (rule sole_filter [where P = "refers_exactly row", OF distinct_mapD [OF 3(1)] 3(2,3,5)])
  then show ?case using 3(1,4) by (simp add: take_sole_unconsumed_def compatible_reference_ids_eq)
qed (simp add: may_be_def)

interpretation by_window: claim_pass ts "may_be holder" "by_date holder"
  "\<lambda>taken row. pick_by_date holder ts taken row WINDOW" for ts holder
proof (unfold_locales, goal_cases)
  case (2 taken row i)
  then show ?case using pick_by_date_sound [OF 2] by simp
next
  case (3 t row taken)
  have "\<exists>offset \<in> set WINDOW. dated holder row offset t" using 3(3) by (simp add: by_date_def)
  with 3(1,2,4) show ?case using 3(5) by (intro pick_by_date_sole) auto
qed (simp add: may_be_def)

text \<open>The first pass needs no guard: it meets every row once.\<close>

lemma reference_pass_guarded:
  assumes "distinct (map pr_idx rows)"
  shows "reference_pass ts rows = foldl (guarded (\<lambda>taken row. take_sole_unconsumed (compatible_reference_ids ts row) taken))
    \<lparr>cl_consumed = {}, cl_claimed = []\<rparr> rows"
proof -
  have "foldl (reference_step ts) s rs = foldl (guarded (\<lambda>taken row. take_sole_unconsumed (compatible_reference_ids ts row) taken)) s rs"
    if "distinct (map pr_idx rs)" "claimed_rows s \<inter> pr_idx ` set rs = {}" for s rs
    using that
  proof (induction rs arbitrary: s)
    case (Cons row rs)
    have step: "guarded (\<lambda>taken row. take_sole_unconsumed (compatible_reference_ids ts row) taken) s row = reference_step ts s row"
      using Cons.prems by (simp add: guarded_def reference_step_def)
    have "claimed_rows (reference_step ts s row) \<inter> pr_idx ` set rs = {}"
      using Cons.prems by (auto simp: reference_step_def record_claim_rows)
    then show ?case using Cons step by simp
  qed simp
  then show ?thesis using assms by (simp add: reference_pass_def claimed_rows_def)
qed

lemma date_pass_guarded:
  "date_pass holder ts rows s = foldl (guarded (\<lambda>taken row. pick_by_date holder ts taken row WINDOW)) s rows"
proof -
  have "date_step holder ts = guarded (\<lambda>taken row. pick_by_date holder ts taken row WINDOW)"
    by (rule ext)+ (simp add: date_step_def guarded_def claimed_rows_def)
  then show ?thesis by (simp add: date_pass_def)
qed

definition all_claims :: "string set \<Rightarrow> transaction list \<Rightarrow> parsed_row list \<Rightarrow> claims" where
  "all_claims holder ts rows = date_pass holder ts rows (reference_pass ts rows)"

lemma all_claims_ok:
  assumes "distinct (map t_id ts)" "distinct (map pr_idx rows)"
  shows "claims_ok (may_be holder) ts rows (reference_pass ts rows)" "claims_ok (may_be holder) ts rows (all_claims holder ts rows)"
proof -
  show first: "claims_ok (may_be holder) ts rows (reference_pass ts rows)"
    unfolding reference_pass_guarded [OF assms(2)]
    by (rule by_reference.pass_ok [OF assms(1)]) (simp_all add: claims_ok_def)
  show "claims_ok (may_be holder) ts rows (all_claims holder ts rows)"
    unfolding all_claims_def date_pass_guarded by (rule by_window.pass_ok [OF assms(1) first]) simp
qed

text \<open>A row with one possible counterpart that no other row may be claims it.\<close>

lemma undisputed_claimed:
  assumes ts: "distinct (map t_id ts)" "distinct (map pr_idx rows)" and row: "row \<in> set rows" "t \<in> set ts" "may_be holder row t"
    and sole: "\<And>u. u \<in> set ts \<Longrightarrow> may_be holder row u \<Longrightarrow> u = t"
    and free: "\<And>other. other \<in> set rows \<Longrightarrow> may_be holder other t \<Longrightarrow> other = row"
  shows "(pr_idx row, t_id t) \<in> set (cl_claimed (all_claims holder ts rows))"
proof -
  note ok = all_claims_ok [OF ts, of holder]
  have "pr_idx row \<in> claimed_rows (all_claims holder ts rows)"
  proof (cases "refers_exactly row t")
    case True
    have "pr_idx row \<in> claimed_rows (reference_pass ts rows)"
      unfolding reference_pass_guarded [OF ts(2)]
    proof (rule by_reference.pass_claims [where holder = holder, OF ts(1) _ subset_refl row(1,2) True])
      show "claims_ok (may_be holder) ts rows \<lparr>cl_consumed = {}, cl_claimed = []\<rparr>" by (simp add: claims_ok_def)
      show "u = t" if "u \<in> set ts" "refers_exactly row u" for u using sole that unfolding may_be_def by blast
      show "other = row" if "other \<in> set rows" "may_be holder other t" for other using free that by blast
    qed
    then show ?thesis
      using guarded_fold_mono unfolding all_claims_def date_pass_guarded claimed_rows_def by blast
  next
    case False
    then have "by_date holder row t" using row(3) by (simp add: may_be_def)
    show ?thesis unfolding all_claims_def date_pass_guarded
    proof (rule by_window.pass_claims [where holder = holder, OF ts(1) ok(1) subset_refl row(1,2) \<open>by_date holder row t\<close>])
      show "u = t" if "u \<in> set ts" "by_date holder row u" for u using sole that unfolding may_be_def by blast
      show "other = row" if "other \<in> set rows" "may_be holder other t" for other using free that by blast
    qed
  qed
  then obtain c where c: "(pr_idx row, c) \<in> set (cl_claimed (all_claims holder ts rows))" by (auto simp: claimed_rows_def)
  then obtain other u where o: "other \<in> set rows" "u \<in> set ts" "pr_idx row = pr_idx other" "c = t_id u" "may_be holder other u"
    using ok(2) by (fastforce simp: claims_ok_def)
  then have "other = row" using ts(2) row(1) by (auto simp: distinct_map inj_on_def)
  then show ?thesis using c o sole by metis
qed

section \<open>The entries\<close>

definition bank_entry_of :: "bank_row list \<Rightarrow> 'a bank_entry_scheme \<Rightarrow> bool" where
  "bank_entry_of rs e \<longleftrightarrow> be_stmt_idx e < length rs \<and> (let r = rs ! be_stmt_idx e in be_date e = br_date r \<and>
     be_amount e = br_amount r \<and> be_direction e = br_transaction_type r \<and> be_narration e = br_narration r \<and>
     be_counterparty e = br_counterparty r \<and> be_reference_number e = br_reference_number r \<and>
     be_channel e = br_channel r \<and> be_balance e = br_balance r)"

definition row_of_idx :: "date_parser \<Rightarrow> bank_row list \<Rightarrow> nat \<Rightarrow> parsed_row option" where
  "row_of_idx pd rs i = (if i < length rs then parsed_row_of pd (i, rs ! i) else None)"

text \<open>A claim that stands.\<close>

definition kept_claim :: "string set \<Rightarrow> transaction list \<Rightarrow> parsed_row list \<Rightarrow> parsed_row \<Rightarrow> transaction \<Rightarrow> bool" where
  "kept_claim holder ts rows row t \<longleftrightarrow> t \<in> set ts \<and> (pr_idx row, t_id t) \<in> set (cl_claimed (all_claims holder ts rows)) \<and>
     \<not> contested_claim holder ts rows (pr_idx row, t_id t)"

lemma parsed_row_of_fields:
  assumes "parsed_row_of pd (i, r) = Some row"
  shows "pr_idx row = i" "pr_txn row = r" "parse_bank_amount (br_amount r) = Some (pr_amount row)"
    "parse_bank_date pd (br_date r) = Some (pr_date row)" "pr_direction row = br_transaction_type r"
  using assms by (auto simp: parsed_row_of_def pr_direction_def split: option.splits)

lemma set_parsed_rows: "row \<in> set (parsed_rows pd rs) \<longleftrightarrow> row_of_idx pd rs (pr_idx row) = Some row"
proof -
  have "row \<in> set (parsed_rows pd rs) \<longleftrightarrow> (\<exists>i < length rs. parsed_row_of pd (i, rs ! i) = Some row)"
  proof -
    have "y \<in> set (List.map_filter f xs) \<longleftrightarrow> (\<exists>x \<in> set xs. f x = Some y)" for f :: "nat \<times> bank_row \<Rightarrow> parsed_row option" and xs y
      by (induction xs) (auto simp: map_filter_def)
    then show ?thesis unfolding parsed_rows_def by (simp add: Bex_def in_set_enumerate_eq split_paired_Ex)
  qed
  also have "\<dots> \<longleftrightarrow> row_of_idx pd rs (pr_idx row) = Some row"
  proof
    assume "\<exists>i < length rs. parsed_row_of pd (i, rs ! i) = Some row"
    then obtain i where i: "i < length rs" "parsed_row_of pd (i, rs ! i) = Some row" by blast
    then show "row_of_idx pd rs (pr_idx row) = Some row" using parsed_row_of_fields(1) [OF i(2)] by (simp add: row_of_idx_def)
  next
    assume "row_of_idx pd rs (pr_idx row) = Some row"
    then show "\<exists>i < length rs. parsed_row_of pd (i, rs ! i) = Some row" by (auto simp: row_of_idx_def split: if_splits)
  qed
  finally show ?thesis .
qed

lemma row_of_idx_mem: "row_of_idx pd rs i = Some row \<Longrightarrow> row \<in> set (parsed_rows pd rs) \<and> pr_idx row = i \<and> i < length rs \<and> pr_txn row = rs ! i"
  using parsed_row_of_fields by (fastforce simp: set_parsed_rows row_of_idx_def split: if_splits)

lemma parsed_idx: "map pr_idx (parsed_rows pd rs) = map fst (filter (\<lambda>ir. parsed_row_of pd ir \<noteq> None) (enumerate 0 rs))"
  using parsed_row_of_fields(1) by (auto simp: parsed_rows_def map_filter_def)

lemma parsed_idx_distinct [simp]: "distinct (map pr_idx (parsed_rows pd rs))"
  unfolding parsed_idx by (rule distinct_map_filter) simp

lemma parsed_idx_sorted: "sorted (map pr_idx (parsed_rows pd rs))"
  unfolding parsed_idx by (rule sorted_filter) simp

lemma parsed_row_unique: "row \<in> set (parsed_rows pd rs) \<Longrightarrow> other \<in> set (parsed_rows pd rs) \<Longrightarrow> pr_idx row = pr_idx other \<Longrightarrow> row = other"
  by (simp add: set_parsed_rows)

lemma contested_idx:
  assumes "distinct (map fst (cl_claimed s))" "(i, c) \<in> set (cl_claimed s)"
  shows "i \<in> set (contested_indices holder ts rows s) \<longleftrightarrow> contested_claim holder ts rows (i, c)"
proof
  assume "i \<in> set (contested_indices holder ts rows s)"
  then obtain c' where "(i, c') \<in> set (cl_claimed s)" "contested_claim holder ts rows (i, c')"
    by (auto simp: contested_indices_def)
  moreover from this have "c' = c" using assms by (metis eq_key_imp_eq_value)
  ultimately show "contested_claim holder ts rows (i, c)" by simp
qed (use assms(2) in \<open>force simp: contested_indices_def\<close>)

lemma matched_row_iff:
  assumes "distinct (map t_id ts)" "distinct (map pr_idx rows)"
  shows "(case dict_get (filter (\<lambda>c. fst c \<notin> set (contested_indices holder ts rows (all_claims holder ts rows)))
       (cl_claimed (all_claims holder ts rows))) (pr_idx row) of None \<Rightarrow> None | Some i \<Rightarrow> db_by_id ts i) = Some t \<longleftrightarrow>
    kept_claim holder ts rows row t" (is "(case dict_get ?kept ?i of None \<Rightarrow> None | Some i \<Rightarrow> db_by_id ts i) = Some t \<longleftrightarrow> _")
proof -
  let ?s = "all_claims holder ts rows"
  have d: "distinct (map fst (cl_claimed ?s))" using all_claims_ok(2) [OF assms] by (simp add: claims_ok_def)
  then have "distinct (map fst ?kept)" by (rule distinct_map_filter)
  then have "dict_get ?kept ?i = Some c \<longleftrightarrow> (?i, c) \<in> set ?kept" for c using dict_get_mem mem_dict_get by metis
  moreover have "(?i, c) \<in> set ?kept \<longleftrightarrow> (?i, c) \<in> set (cl_claimed ?s) \<and> \<not> contested_claim holder ts rows (?i, c)" for c
    using contested_idx [OF d] by auto
  ultimately have get: "dict_get ?kept ?i = Some c \<longleftrightarrow> (?i, c) \<in> set (cl_claimed ?s) \<and> \<not> contested_claim holder ts rows (?i, c)" for c
    by simp
  show ?thesis
  proof (cases "dict_get ?kept ?i")
    case None
    then show ?thesis using get [of "t_id t"] by (auto simp: kept_claim_def)
  next
    case (Some c)
    then show ?thesis using get [of c] get [of "t_id t"] by (auto simp: kept_claim_def db_by_id_iff [OF assms(1)])
  qed
qed

text \<open>The result in terms of the claims that stand.\<close>

definition standing :: "string set \<Rightarrow> transaction list \<Rightarrow> parsed_row list \<Rightarrow> parsed_row \<Rightarrow> transaction option" where
  "standing holder ts rows row =
     (case dict_get (filter (\<lambda>c. fst c \<notin> set (contested_indices holder ts rows (all_claims holder ts rows)))
       (cl_claimed (all_claims holder ts rows))) (pr_idx row) of None \<Rightarrow> None | Some i \<Rightarrow> db_by_id ts i)"

lemma standing_iff:
  "distinct (map t_id ts) \<Longrightarrow> distinct (map pr_idx rows) \<Longrightarrow> standing holder ts rows row = Some t \<longleftrightarrow> kept_claim holder ts rows row t"
  unfolding standing_def by (rule matched_row_iff)

lemma reconcile_bank_rows_alt:
  "reconcile_bank_rows pd holder ts rs = (let rows = parsed_rows pd rs in
     (map (\<lambda>row. row_match holder ts (claimed_rows (reference_pass ts rows)) row (the (standing holder ts rows row)))
        (filter (\<lambda>row. standing holder ts rows row \<noteq> None) rows),
      unparsed_misses pd rs @ map (row_miss holder ts (contested_indices holder ts rows (all_claims holder ts rows)))
        (filter (\<lambda>row. standing holder ts rows row = None) rows)))"
proof -
  have "List.map_filter (\<lambda>row. map_option (f row) (g row)) xs = map (\<lambda>row. f row (the (g row))) (filter (\<lambda>row. g row \<noteq> None) xs)"
    for f :: "parsed_row \<Rightarrow> transaction \<Rightarrow> bank_match" and g xs
    by (induction xs) (auto simp: map_filter_def)
  then show ?thesis
    by (simp add: reconcile_bank_rows_def Let_def all_claims_def standing_def claimed_rows_def)
qed

lemma reconcile_bank_parts:
  assumes "reconcile_bank_statement pd p ts = Some r"
  shows "reconcile_bank_rows pd (holder_name_tokens (bp_account_holder_name p)) ts (bp_transactions p) = (bk_matched r, bk_missing r)"
  using assms by (auto simp: reconcile_bank_statement_def split: option.splits prod.splits)

lemma made_bank_fields [simp]:
  "be_stmt_idx (bank_match_of i x t ev) = i" "bm_db_txn_id (bank_match_of i x t ev) = t_id t"
  "be_stmt_idx (bank_miss_of i x b ev) = i" "bx_ambiguous (bank_miss_of i x b ev) = b"
  "bx_imported (bank_miss_of i x b ev) = False"
  "be_evidence (bank_match_of i x t ev) = ev"
  by (simp_all add: bank_match_of_def bank_miss_of_def)

lemma bank_entry_of_made:
  "i < length rs \<Longrightarrow> rs ! i = x \<Longrightarrow> bank_entry_of rs (bank_match_of i x t ev)"
  "i < length rs \<Longrightarrow> rs ! i = x \<Longrightarrow> bank_entry_of rs (bank_miss_of i x b ev)"
  by (simp_all add: bank_entry_of_def bank_match_of_def bank_miss_of_def Let_def)

lemma row_entry_fields [simp]:
  "be_stmt_idx (row_match holder ts b row t) = pr_idx row" "bm_db_txn_id (row_match holder ts b row t) = t_id t"
  "be_stmt_idx (row_miss holder ts c row) = pr_idx row"
  "bx_imported (row_miss holder ts c row) = False"
  "bx_ambiguous (row_miss holder ts c row) \<longleftrightarrow> evidence_set holder ts row \<noteq> {}"
  by (simp_all add: row_match_def row_miss_def Let_def contended_miss_def)

lemma set_matched:
  assumes "reconcile_bank_statement pd p ts = Some r"
  shows "set (bk_matched r) = (let holder = holder_name_tokens (bp_account_holder_name p); rows = parsed_rows pd (bp_transactions p) in
    {row_match holder ts (claimed_rows (reference_pass ts rows)) row t | row t. row \<in> set rows \<and> standing holder ts rows row = Some t})"
  unfolding Let_def
  using arg_cong [OF reconcile_bank_parts [OF assms, unfolded reconcile_bank_rows_alt Let_def], of "\<lambda>x. set (fst x)"]
  unfolding fst_conv set_map set_filter by force

lemma set_missing:
  assumes "reconcile_bank_statement pd p ts = Some r"
  shows "set (bk_missing r) = (let holder = holder_name_tokens (bp_account_holder_name p); rows = parsed_rows pd (bp_transactions p) in
    set (unparsed_misses pd (bp_transactions p)) \<union> {row_miss holder ts (contested_indices holder ts rows (all_claims holder ts rows)) row |
       row. row \<in> set rows \<and> standing holder ts rows row = None})"
  unfolding Let_def
  using arg_cong [OF reconcile_bank_parts [OF assms, unfolded reconcile_bank_rows_alt Let_def], of "\<lambda>x. set (snd x)"]
  unfolding snd_conv set_append set_map set_filter by force

text \<open>A matched entry and the claim behind it.\<close>

lemma bank_matched_entry:
  assumes "distinct (map t_id ts)" "reconcile_bank_statement pd p ts = Some r" "e \<in> set (bk_matched r)"
  obtains row t where "row_of_idx pd (bp_transactions p) (be_stmt_idx e) = Some row" "t \<in> set ts" "bm_db_txn_id e = t_id t"
    "bank_entry_of (bp_transactions p) e" "bm_db_counterparty e = t_counterparty t"
    "kept_claim (holder_name_tokens (bp_account_holder_name p)) ts (parsed_rows pd (bp_transactions p)) row t"
    "may_be (holder_name_tokens (bp_account_holder_name p)) row t"
proof -
  let ?holder = "holder_name_tokens (bp_account_holder_name p)"
  let ?rows = "parsed_rows pd (bp_transactions p)"
  obtain row t where row: "row \<in> set ?rows" "standing ?holder ts ?rows row = Some t"
    "e = row_match ?holder ts (claimed_rows (reference_pass ts ?rows)) row t"
    using assms(3) unfolding set_matched [OF assms(2)] Let_def by blast
  then have k: "kept_claim ?holder ts ?rows row t" using standing_iff [OF assms(1) parsed_idx_distinct] by blast
  then have "\<exists>other \<in> set ?rows. \<exists>u \<in> set ts. (pr_idx row, t_id t) = (pr_idx other, t_id u) \<and> may_be ?holder other u"
    using all_claims_ok(2) [OF assms(1) parsed_idx_distinct] unfolding claims_ok_def kept_claim_def by blast
  then obtain other u where o: "other \<in> set ?rows" "u \<in> set ts" "pr_idx row = pr_idx other" "t_id t = t_id u" "may_be ?holder other u" by auto
  have "u = t" using o(2,4) k assms(1) by (auto simp: kept_claim_def distinct_map inj_on_def)
  moreover have "other = row" using parsed_row_unique [OF o(1) row(1)] o(3) by simp
  moreover have m: "row_of_idx pd (bp_transactions p) (be_stmt_idx e) = Some row" using row(1,3) by (simp add: set_parsed_rows)
  moreover have "bank_entry_of (bp_transactions p) e"
    using row_of_idx_mem [OF m] row(3) by (simp add: row_match_def bank_entry_of_made)
  moreover have "bm_db_counterparty e = t_counterparty t" "bm_db_txn_id e = t_id t"
    using row(3) by (simp_all add: row_match_def bank_match_of_def)
  moreover have "t \<in> set ts" using k by (simp add: kept_claim_def)
  ultimately show thesis using that [of row t] k o(5) by blast
qed

lemma bank_missing_entry:
  assumes "distinct (map t_id ts)" "reconcile_bank_statement pd p ts = Some r" "e \<in> set (bk_missing r)"
  shows "bank_entry_of (bp_transactions p) e \<and> \<not> bx_imported e \<and>
    (bx_ambiguous e \<longleftrightarrow> (case row_of_idx pd (bp_transactions p) (be_stmt_idx e) of None \<Rightarrow> False
       | Some row \<Rightarrow> \<exists>t \<in> set ts. refers row t \<or> by_date (holder_name_tokens (bp_account_holder_name p)) row t))"
proof -
  let ?holder = "holder_name_tokens (bp_account_holder_name p)"
  let ?rows = "parsed_rows pd (bp_transactions p)"
  consider (bad) "e \<in> set (unparsed_misses pd (bp_transactions p))"
    | (row) row where "row \<in> set ?rows" "e = row_miss ?holder ts (contested_indices ?holder ts ?rows (all_claims ?holder ts ?rows)) row"
    using assms(3) unfolding set_missing [OF assms(2)] Let_def by blast
  then show ?thesis
  proof cases
    case bad
    then show ?thesis
      by (auto simp: unparsed_misses_def in_set_enumerate_eq bank_entry_of_made row_of_idx_def)
  next
    case row
    then have m: "row_of_idx pd (bp_transactions p) (be_stmt_idx e) = Some row" by (simp add: set_parsed_rows)
    have "bank_entry_of (bp_transactions p) e"
      using row_of_idx_mem [OF m] row(2) by (simp add: row_miss_def Let_def bank_entry_of_made)
    then show ?thesis using m row(2) by (auto simp: evidence_set_eq [OF assms(1)])
  qed
qed

section \<open>What a reconciliation promises\<close>

text \<open>C32. Every row of an account statement is accounted for exactly once, with its own content: as a match,
  in statement order, or as a missing row.\<close>

theorem bank_accounts_rows:
  assumes "distinct (map t_id ts)" "reconcile_bank_statement pd p ts = Some r"
  shows "mset (map be_stmt_idx (bk_matched r)) + mset (map be_stmt_idx (bk_missing r)) = mset [0..<length (bp_transactions p)] \<and>
    sorted (map be_stmt_idx (bk_matched r)) \<and> (\<forall>e \<in> set (bk_matched r). bank_entry_of (bp_transactions p) e) \<and>
    (\<forall>e \<in> set (bk_missing r). bank_entry_of (bp_transactions p) e)"
proof -
  let ?rs = "bp_transactions p" and ?holder = "holder_name_tokens (bp_account_holder_name p)"
  let ?rows = "parsed_rows pd ?rs"
  let ?has = "\<lambda>row. standing ?holder ts ?rows row \<noteq> None"
  note parts = reconcile_bank_parts [OF assms(2), unfolded reconcile_bank_rows_alt Let_def, symmetric]
  have m: "map be_stmt_idx (bk_matched r) = map pr_idx (filter ?has ?rows)" using parts by (simp add: comp_def)
  have x: "map be_stmt_idx (bk_missing r) = map fst (filter (\<lambda>ir. parsed_row_of pd ir = None) (enumerate 0 ?rs)) @
      map pr_idx (filter (\<lambda>row. \<not> ?has row) ?rows)"
    using parts by (simp add: comp_def unparsed_misses_def case_prod_beta)
  have split: "mset (map f (filter P xs)) + mset (map f (filter (\<lambda>y. \<not> P y) xs)) = mset (map f xs)" for f :: "'a \<Rightarrow> nat" and P xs
    by (induction xs) auto
  have "mset (map pr_idx (filter P rows)) + mset (map pr_idx (filter (\<lambda>y. \<not> P y) rows)) = mset (map pr_idx rows)" for P rows
    by (induction rows) auto
  then have "mset (map pr_idx (filter ?has ?rows)) + mset (map pr_idx (filter (\<lambda>row. \<not> ?has row) ?rows)) = mset (map pr_idx ?rows)" .
  moreover have "mset (map fst (filter (\<lambda>ir. parsed_row_of pd ir \<noteq> None) (enumerate 0 ?rs))) +
      mset (map fst (filter (\<lambda>ir. parsed_row_of pd ir = None) (enumerate 0 ?rs))) = mset (map fst (enumerate 0 ?rs))"
    using split [of fst "\<lambda>ir. parsed_row_of pd ir \<noteq> None" "enumerate 0 ?rs"] by simp
  ultimately have "mset (map be_stmt_idx (bk_matched r)) + mset (map be_stmt_idx (bk_missing r)) = mset [0..<length ?rs]"
    by (simp add: m x parsed_idx ac_simps)
  moreover have "sorted (map be_stmt_idx (bk_matched r))" unfolding m by (rule sorted_filter [OF parsed_idx_sorted])
  ultimately show ?thesis
    using bank_matched_entry [OF assms] bank_missing_entry [OF assms] by metis
qed

text \<open>What a match rests on, spelled out over the entry: equal amount and direction, and either the
  same reference, or a date within a day, balances that do not contradict, and, when the two
  references differ, the same date and evidence in the narrations.\<close>

definition narrations_agree :: "string set \<Rightarrow> 'a bank_entry_scheme \<Rightarrow> transaction \<Rightarrow> bool" where
  "narrations_agree holder e t \<longleftrightarrow> ref_appears_in (t_reference_number t) (be_narration e) \<or>
     ref_appears_in (be_reference_number e) (candidate_narration t) \<or>
     be_channel e = Some ''upi'' \<and> t_channel t = Some ''upi'' \<and>
     significant_tokens (candidate_narration t) (set OVERLAP_STOPWORDS \<union> holder) \<inter>
     significant_tokens (be_narration e) (set OVERLAP_STOPWORDS \<union> holder) \<noteq> {}"

definition well_matched :: "date_parser \<Rightarrow> string set \<Rightarrow> 'a bank_entry_scheme \<Rightarrow> transaction \<Rightarrow> bool" where
  "well_matched pd holder e t \<longleftrightarrow> parse_bank_amount (be_amount e) = Some (t_amount t) \<and> t_direction t = be_direction e \<and>
     (truthy (be_reference_number e) \<and> t_reference_number t = be_reference_number e \<or>
      (\<exists>d x. parse_bank_date pd (be_date e) = Some d \<and> t_transaction_date t = Some x \<and> \<bar>x - d\<bar> \<le> 1 \<and>
         known_balance_compatible (t_balance t) (be_balance e) \<and>
         (truthy (be_reference_number e) \<and> truthy (t_reference_number t) \<longrightarrow> x = d \<and> narrations_agree holder e t)))"

lemma dated_sound:
  assumes "dated holder row offset t" "offset \<in> set WINDOW" "\<not> same_reference (pr_txn row) t"
  shows "\<exists>x. t_transaction_date t = Some x \<and> \<bar>x - pr_date row\<bar> \<le> 1 \<and> known_balance_compatible (t_balance t) (br_balance (pr_txn row)) \<and>
    (truthy (br_reference_number (pr_txn row)) \<and> truthy (t_reference_number t) \<longrightarrow> offset = 0 \<and> x = pr_date row)"
  using assms
  by (auto simp: dated_def same_event_def is_statement_candidate_compatible_def WINDOW_def split: if_splits)

lemma dated_narrations:
  assumes "dated holder row offset t" "\<not> same_reference (pr_txn row) t"
    "truthy (br_reference_number (pr_txn row))" "truthy (t_reference_number t)" "bank_entry_of rs e" "rs ! be_stmt_idx e = pr_txn row"
  shows "narrations_agree holder e t"
  using assms
  by (auto simp: dated_def is_statement_candidate_compatible_def bank_entry_of_def narrations_agree_def Let_def split: if_splits)

lemma may_be_well_matched:
  assumes "may_be holder row t" "row_of_idx pd rs (be_stmt_idx e) = Some row" "bank_entry_of rs e"
  shows "well_matched pd holder e t"
proof -
  have row: "rs ! be_stmt_idx e = pr_txn row" using row_of_idx_mem [OF assms(2)] by simp
  have e: "be_amount e = br_amount (pr_txn row)" "be_date e = br_date (pr_txn row)" "be_direction e = pr_direction row"
    "be_reference_number e = br_reference_number (pr_txn row)" "be_balance e = br_balance (pr_txn row)"
    using assms(3) row by (simp_all add: bank_entry_of_def Let_def pr_direction_def)
  have p: "parse_bank_amount (be_amount e) = Some (pr_amount row)" "parse_bank_date pd (be_date e) = Some (pr_date row)"
    using assms(2) parsed_row_of_fields row e(1,2) by (fastforce simp: row_of_idx_def split: if_splits)+
  have key: "t_amount t = pr_amount row" "t_direction t = pr_direction row"
    using assms(1) by (auto simp: may_be_def refers_exactly_def refers_def by_date_def dated_def same_event_def)
  show ?thesis
  proof (cases "same_reference (pr_txn row) t")
    case True
    then show ?thesis using key p e by (simp add: well_matched_def same_reference_def)
  next
    case False
    then obtain offset where o: "offset \<in> set WINDOW" "dated holder row offset t"
      using assms(1) by (auto simp: may_be_def refers_exactly_def refers_def by_date_def)
    show ?thesis
      using dated_sound [OF o(2,1) False] dated_narrations [OF o(2) False _ _ assms(3) row] key p e
      unfolding well_matched_def by fastforce
  qed
qed

text \<open>C30. No stored row is matched twice, and every match is with a stored row of the same amount and
  direction that carries the same reference, or that is dated within a day with no contradicting
  balance and, if the references differ, on the same day with agreeing narrations.\<close>

theorem bank_matches_sound:
  assumes "distinct (map t_id ts)" "reconcile_bank_statement pd p ts = Some r"
  shows "distinct (map bm_db_txn_id (bk_matched r)) \<and> (\<forall>e \<in> set (bk_matched r). \<exists>t \<in> set ts. bm_db_txn_id e = t_id t \<and>
    bm_db_counterparty e = t_counterparty t \<and> well_matched pd (holder_name_tokens (bp_account_holder_name p)) e t)"
proof (intro conjI ballI)
  let ?holder = "holder_name_tokens (bp_account_holder_name p)" and ?rows = "parsed_rows pd (bp_transactions p)"
  let ?has = "\<lambda>row. standing ?holder ts ?rows row \<noteq> None"
  note parts = reconcile_bank_parts [OF assms(2), unfolded reconcile_bank_rows_alt Let_def, symmetric]
  have ids: "map bm_db_txn_id (bk_matched r) = map (\<lambda>row. t_id (the (standing ?holder ts ?rows row))) (filter ?has ?rows)"
    using parts by (simp add: comp_def)
  have same: "x = y" if x: "x \<in> set (filter ?has ?rows)" and y: "y \<in> set (filter ?has ?rows)"
    and eq: "t_id (the (standing ?holder ts ?rows x)) = t_id (the (standing ?holder ts ?rows y))" for x y
  proof -
    obtain t u where t: "standing ?holder ts ?rows x = Some t" "standing ?holder ts ?rows y = Some u" using x y by auto
    then have "kept_claim ?holder ts ?rows x t" "kept_claim ?holder ts ?rows y u"
      using standing_iff [OF assms(1) parsed_idx_distinct] by blast+
    then have "(pr_idx x, t_id t) \<in> set (cl_claimed (all_claims ?holder ts ?rows))"
      "(pr_idx y, t_id t) \<in> set (cl_claimed (all_claims ?holder ts ?rows))"
      using eq t by (simp_all add: kept_claim_def)
    moreover have "distinct (map snd (cl_claimed (all_claims ?holder ts ?rows)))"
      using all_claims_ok(2) [OF assms(1) parsed_idx_distinct] by (simp add: claims_ok_def)
    ultimately have "(pr_idx x, t_id t) = (pr_idx y, t_id t)"
      unfolding distinct_map by (metis inj_onD snd_conv)
    then have "pr_idx x = pr_idx y" by simp
    moreover have "x \<in> set ?rows" "y \<in> set ?rows" using x y by simp_all
    ultimately show "x = y" by (rule parsed_row_unique [rotated 2])
  qed
  have "distinct (filter ?has ?rows)" using distinct_mapD [OF parsed_idx_distinct] by (rule distinct_filter)
  then show "distinct (map bm_db_txn_id (bk_matched r))" unfolding ids distinct_map inj_on_def using same by blast
next
  fix e assume "e \<in> set (bk_matched r)"
  from bank_matched_entry [OF assms this] obtain row t where
    "row_of_idx pd (bp_transactions p) (be_stmt_idx e) = Some row" "t \<in> set ts" "bm_db_txn_id e = t_id t"
    "bank_entry_of (bp_transactions p) e" "bm_db_counterparty e = t_counterparty t"
    "may_be (holder_name_tokens (bp_account_holder_name p)) row t" .
  then show "\<exists>t \<in> set ts. bm_db_txn_id e = t_id t \<and> bm_db_counterparty e = t_counterparty t \<and>
      well_matched pd (holder_name_tokens (bp_account_holder_name p)) e t"
    using may_be_well_matched by blast
qed

text \<open>C31. A missing row is held back exactly when a stored row could be it: one with its reference and
  direction, whatever the amount, or one within a day that agrees with it. So a row that may be imported
  has no stored counterpart, and its reference is not yet taken in its direction.\<close>

theorem bank_held_back_iff:
  assumes "distinct (map t_id ts)" "reconcile_bank_statement pd p ts = Some r" "e \<in> set (bk_missing r)"
  shows "\<not> bx_imported e \<and> (bx_ambiguous e \<longleftrightarrow> (\<exists>row. row_of_idx pd (bp_transactions p) (be_stmt_idx e) = Some row \<and>
      (\<exists>t \<in> set ts. refers row t \<or> by_date (holder_name_tokens (bp_account_holder_name p)) row t))) \<and>
    (\<not> bx_ambiguous e \<and> parse_bank_amount (be_amount e) \<noteq> None \<and> parse_bank_date pd (be_date e) \<noteq> None \<and>
       truthy (be_reference_number e) \<and> be_direction e \<noteq> [] \<longrightarrow>
       (\<forall>t \<in> set ts. \<not> (t_reference_number t = be_reference_number e \<and> t_direction t = be_direction e)))"
proof -
  note m = bank_missing_entry [OF assms]
  let ?row = "row_of_idx pd (bp_transactions p) (be_stmt_idx e)"
  let ?r = "bp_transactions p ! be_stmt_idx e"
  have f: "be_stmt_idx e < length (bp_transactions p)" "be_amount e = br_amount ?r" "be_date e = br_date ?r"
    "be_reference_number e = br_reference_number ?r" "be_direction e = br_transaction_type ?r"
    using m by (simp_all add: bank_entry_of_def Let_def)
  have free: "\<not> (t_reference_number t = be_reference_number e \<and> t_direction t = be_direction e)"
    if a: "\<not> bx_ambiguous e" "parse_bank_amount (be_amount e) \<noteq> None" "parse_bank_date pd (be_date e) \<noteq> None"
      "truthy (be_reference_number e)" "be_direction e \<noteq> []" "t \<in> set ts" for t
  proof -
    obtain row where row: "?row = Some row"
      using a(2,3) f(1-3) by (auto simp: row_of_idx_def parsed_row_of_def)
    then have "\<not> refers row t" using m a(1,6) by auto
    then show ?thesis using row_of_idx_mem [OF row] a(4,5) f(4,5)
      by (auto simp: refers_def same_reference_def pr_direction_def)
  qed
  have "bx_ambiguous e \<longleftrightarrow> (\<exists>row. ?row = Some row \<and>
      (\<exists>t \<in> set ts. refers row t \<or> by_date (holder_name_tokens (bp_account_holder_name p)) row t))"
    using m by (cases ?row) auto
  then show ?thesis using m free by blast
qed

text \<open>A match that is kept is beyond dispute as far as \<open>_refresh_identity\<close> can tell: any other row of the
  statement that could be the same stored row has the same counterparty, or narration in its place,
  and the same channel. Equal identities do not make the rows interchangeable: the enrichment
  writes the counterparty column from the parser's value only, and the narration besides.\<close>

theorem bank_kept_undisputed:
  assumes "distinct (map t_id ts)" "reconcile_bank_statement pd p ts = Some r" "e \<in> set (bk_matched r)" "t \<in> set ts"
    "bm_db_txn_id e = t_id t" "j \<noteq> be_stmt_idx e" "row_of_idx pd (bp_transactions p) j = Some other"
    "may_be (holder_name_tokens (bp_account_holder_name p)) other t"
  shows "bank_refresh_identity (bp_transactions p ! j) = bank_refresh_identity (bp_transactions p ! be_stmt_idx e)"
proof -
  let ?holder = "holder_name_tokens (bp_account_holder_name p)" and ?rows = "parsed_rows pd (bp_transactions p)"
  let ?claim = "(be_stmt_idx e, t_id t)"
  obtain row u where row: "row_of_idx pd (bp_transactions p) (be_stmt_idx e) = Some row" "u \<in> set ts" "bm_db_txn_id e = t_id u"
    "kept_claim ?holder ts ?rows row u" by (rule bank_matched_entry [OF assms(1-3)])
  note mem = row_of_idx_mem [OF row(1)] and mem' = row_of_idx_mem [OF assms(7)]
  have "\<not> contested_claim ?holder ts ?rows ?claim" using row mem assms(5) by (simp add: kept_claim_def)
  moreover have rival: "other \<in> set (bank_rivals ?holder ts ?rows ?claim)"
    using mem' assms(4,6,8) contention_set_iff [OF assms(1,4)] by (simp add: bank_rivals_def)
  moreover from rival have "bank_rivals ?holder ts ?rows ?claim \<noteq> []" by (metis empty_iff list.set(1))
  ultimately have "\<not> 1 < card (set (map (bank_refresh_identity \<circ> pr_txn)
      (filter (\<lambda>row. pr_idx row = be_stmt_idx e) ?rows @ bank_rivals ?holder ts ?rows ?claim)))"
    unfolding contested_claim_def Let_def fst_conv by meson
  moreover have "{bank_refresh_identity (pr_txn row), bank_refresh_identity (pr_txn other)} \<subseteq> set (map (bank_refresh_identity \<circ> pr_txn)
      (filter (\<lambda>row. pr_idx row = be_stmt_idx e) ?rows @ bank_rivals ?holder ts ?rows ?claim))"
  proof -
    have "row \<in> set (filter (\<lambda>row. pr_idx row = be_stmt_idx e) ?rows @ bank_rivals ?holder ts ?rows ?claim)"
      "other \<in> set (filter (\<lambda>row. pr_idx row = be_stmt_idx e) ?rows @ bank_rivals ?holder ts ?rows ?claim)"
      using mem rival by simp_all
    then show ?thesis unfolding set_map comp_def by blast
  qed
  then have "card {bank_refresh_identity (pr_txn row), bank_refresh_identity (pr_txn other)} \<le> card (set (map (bank_refresh_identity \<circ> pr_txn)
      (filter (\<lambda>row. pr_idx row = be_stmt_idx e) ?rows @ bank_rivals ?holder ts ?rows ?claim)))"
    by (rule card_mono [OF finite_set])
  ultimately have "card {bank_refresh_identity (pr_txn row), bank_refresh_identity (pr_txn other)} \<le> 1" by linarith
  then have "bank_refresh_identity (pr_txn row) = bank_refresh_identity (pr_txn other)" by (auto simp: card_insert_if split: if_splits)
  then show ?thesis using mem mem' by simp
qed

text \<open>C33. Nothing undisputed is missed. If exactly one stored row could be a row of the statement, and no
  other row of the statement could be that stored row, then the two are matched.\<close>

theorem bank_undisputed_matched:
  assumes "distinct (map t_id ts)" "reconcile_bank_statement pd p ts = Some r"
    "row_of_idx pd (bp_transactions p) i = Some row" "{t \<in> set ts. may_be (holder_name_tokens (bp_account_holder_name p)) row t} = {t}"
    "\<And>j other. j \<noteq> i \<Longrightarrow> row_of_idx pd (bp_transactions p) j = Some other \<Longrightarrow>
       \<not> may_be (holder_name_tokens (bp_account_holder_name p)) other t"
  shows "\<exists>e \<in> set (bk_matched r). be_stmt_idx e = i \<and> bm_db_txn_id e = t_id t"
proof -
  let ?holder = "holder_name_tokens (bp_account_holder_name p)" and ?rows = "parsed_rows pd (bp_transactions p)"
  note mem = row_of_idx_mem [OF assms(3)]
  have t: "t \<in> set ts" "may_be ?holder row t" using assms(4) by auto
  have sole: "u = t" if "u \<in> set ts" "may_be ?holder row u" for u using assms(4) that by auto
  have free: "other = row" if o: "other \<in> set ?rows" "may_be ?holder other t" for other
  proof -
    have "row_of_idx pd (bp_transactions p) (pr_idx other) = Some other" using o(1) by (simp add: set_parsed_rows)
    then have "pr_idx other = i" using assms(5) o(2) by blast
    then show ?thesis using parsed_row_unique o(1) mem by blast
  qed
  have row: "row \<in> set ?rows" using mem by simp
  note claim = undisputed_claimed [OF assms(1) parsed_idx_distinct row t sole free]
  have "bank_rivals ?holder ts ?rows (pr_idx row, t_id t) = []"
    using free contention_set_iff [OF assms(1) t(1)] by (auto simp: bank_rivals_def filter_empty_conv)
  then have "kept_claim ?holder ts ?rows row t" using claim t(1) by (simp add: kept_claim_def contested_claim_def)
  then have "standing ?holder ts ?rows row = Some t" using standing_iff [OF assms(1) parsed_idx_distinct] by blast
  then have "row_match ?holder ts (claimed_rows (reference_pass ts ?rows)) row t \<in> set (bk_matched r)"
    using row unfolding set_matched [OF assms(2)] Let_def by blast
  then show ?thesis using mem by force
qed

section \<open>Witnesses\<close>

text \<open>A reference match a day off, two interchangeable rows for one stored row, a reference with
  another amount, a new row and one that cannot be read.\<close>

definition bank_demo_row :: "string \<Rightarrow> string \<Rightarrow> string option \<Rightarrow> bank_row" where
  "bank_demo_row day amount ref = \<lparr>br_transaction_type = ''debit'', br_date = day, br_amount = amount,
     br_narration = Some ''N'', br_counterparty = None, br_reference_number = ref, br_channel = None, br_balance = None\<rparr>"

definition bank_demo_parsed :: bank_parsed where
  "bank_demo_parsed = \<lparr>bp_bank = ''axis'', bp_account_number = Some ''12345678'', bp_account_holder_name = None,
     bp_transactions = [bank_demo_row ''2'' ''6'' (Some ''R1''), bank_demo_row ''1'' ''4'' None, bank_demo_row ''1'' ''5'' (Some ''R1''),
       bank_demo_row ''1'' ''3'' (Some ''R3''), bank_demo_row ''1'' ''4'' None, bank_demo_row ''1'' ''x'' None],
     bp_opening_balance = None, bp_closing_balance = None, bp_debit_total = None, bp_credit_total = None\<rparr>"

definition bank_demo_db :: "transaction list" where
  "bank_demo_db = [(recon_demo_txn 11 ''C'')\<lparr>t_reference_number := Some ''R1''\<rparr>, (recon_demo_txn 12 ''D'')\<lparr>t_amount := 4\<rparr>]"

definition bank_demo_result :: bank_recon where
  "bank_demo_result = (let (m, x) = reconcile_bank_rows recon_demo_pd {} bank_demo_db (bp_transactions bank_demo_parsed) in
     \<lparr>bk_matched = m, bk_missing = x, bk_balance_verification = None\<rparr>)"

lemma bank_demo_holder: "holder_name_tokens (bp_account_holder_name bank_demo_parsed) = {}"
  by (simp add: bank_demo_parsed_def holder_name_tokens_def)

lemma bank_demo_run:
  "map (\<lambda>e. (be_stmt_idx e, bm_db_txn_id e)) (bk_matched bank_demo_result) = [(0, 11), (1, 12)] \<and>
   map (\<lambda>e. (be_stmt_idx e, bx_ambiguous e)) (bk_missing bank_demo_result) = [(5, False), (2, True), (3, False), (4, True)]"
  by code_simp

lemma bank_demo_facts:
  "distinct (map t_id bank_demo_db)"
  "reconcile_bank_statement recon_demo_pd bank_demo_parsed bank_demo_db = Some bank_demo_result"
  "length (bp_transactions bank_demo_parsed) = 6"
proof -
  have "verify_balance bank_demo_parsed = Some None" by (simp add: verify_balance_def bank_demo_parsed_def)
  then show "reconcile_bank_statement recon_demo_pd bank_demo_parsed bank_demo_db = Some bank_demo_result"
    by (simp add: reconcile_bank_statement_def bank_demo_holder bank_demo_result_def case_prod_beta)
qed (simp_all add: bank_demo_db_def recon_demo_txn_def bank_demo_parsed_def)

lemma bank_demo_row_of:
  "row_of_idx recon_demo_pd (bp_transactions bank_demo_parsed) 0 =
     Some \<lparr>pr_idx = 0, pr_txn = bank_demo_row ''2'' ''6'' (Some ''R1''), pr_amount = 6, pr_date = 9\<rparr>"
  "row_of_idx recon_demo_pd (bp_transactions bank_demo_parsed) 4 =
     Some \<lparr>pr_idx = 4, pr_txn = bank_demo_row ''1'' ''4'' None, pr_amount = 4, pr_date = 8\<rparr>"
  by code_simp+

theorem bank_accounts_rows_witness:
  "mset (map be_stmt_idx (bk_matched bank_demo_result)) + mset (map be_stmt_idx (bk_missing bank_demo_result)) = mset [0..<6]"
  using bank_accounts_rows [OF bank_demo_facts(1,2)] bank_demo_facts(3) by metis

theorem bank_matches_sound_witness:
  "distinct (map bm_db_txn_id (bk_matched bank_demo_result)) \<and>
   map (\<lambda>e. (be_stmt_idx e, bm_db_txn_id e)) (bk_matched bank_demo_result) = [(0, 11), (1, 12)]"
  using bank_matches_sound [OF bank_demo_facts(1,2)] bank_demo_run by blast

theorem bank_held_back_iff_witness:
  "\<exists>e \<in> set (bk_missing bank_demo_result). be_stmt_idx e = 3 \<and> \<not> bx_ambiguous e \<and>
     (\<forall>row. row_of_idx recon_demo_pd (bp_transactions bank_demo_parsed) 3 = Some row \<longrightarrow> (\<forall>t \<in> set bank_demo_db. \<not> refers row t))"
proof -
  have "(3, False) \<in> (\<lambda>e. (be_stmt_idx e, bx_ambiguous e)) ` set (bk_missing bank_demo_result)"
    using arg_cong [OF conjunct2 [OF bank_demo_run], of set] by simp
  then obtain e where e: "e \<in> set (bk_missing bank_demo_result)" "be_stmt_idx e = 3" "\<not> bx_ambiguous e" by auto
  then show ?thesis using bank_held_back_iff [OF bank_demo_facts(1,2) e(1)] by metis
qed

theorem bank_kept_undisputed_witness:
  "bank_refresh_identity (bp_transactions bank_demo_parsed ! 4) = bank_refresh_identity (bp_transactions bank_demo_parsed ! 1)"
proof -
  have "(1, 12) \<in> (\<lambda>e. (be_stmt_idx e, bm_db_txn_id e)) ` set (bk_matched bank_demo_result)"
    using arg_cong [OF conjunct1 [OF bank_demo_run], of set] by simp
  then obtain e where e: "e \<in> set (bk_matched bank_demo_result)" "be_stmt_idx e = 1" "bm_db_txn_id e = 12" by auto
  let ?t = "(recon_demo_txn 12 ''D'')\<lparr>t_amount := 4\<rparr>"
  let ?row = "\<lparr>pr_idx = 4, pr_txn = bank_demo_row ''1'' ''4'' None, pr_amount = 4, pr_date = 8\<rparr>"
  have t: "?t \<in> set bank_demo_db" "bm_db_txn_id e = t_id ?t" using e(3) by (simp_all add: bank_demo_db_def recon_demo_txn_def)
  have "dated {} ?row 0 ?t" by code_simp
  then have "may_be (holder_name_tokens (bp_account_holder_name bank_demo_parsed)) ?row ?t"
    unfolding bank_demo_holder may_be_def by_date_def WINDOW_def by simp
  then show ?thesis
    using bank_kept_undisputed [OF bank_demo_facts(1,2) e(1) t _ bank_demo_row_of(2)] e(2) by simp
qed

theorem bank_undisputed_matched_witness:
  "\<exists>e \<in> set (bk_matched bank_demo_result). be_stmt_idx e = 0 \<and> bm_db_txn_id e = 11"
proof -
  let ?row = "\<lparr>pr_idx = 0, pr_txn = bank_demo_row ''2'' ''6'' (Some ''R1''), pr_amount = 6, pr_date = 9\<rparr>"
  let ?t = "(recon_demo_txn 11 ''C'')\<lparr>t_reference_number := Some ''R1''\<rparr>"
  let ?rs = "bp_transactions bank_demo_parsed"
  have "filter (may_be {} ?row) bank_demo_db = [?t]" by code_simp
  then have "set (filter (may_be {} ?row) bank_demo_db) = {?t}" by simp
  then have sole: "{t \<in> set bank_demo_db. may_be {} ?row t} = {?t}" by simp
  have others: "list_all (\<lambda>j. case row_of_idx recon_demo_pd ?rs j of None \<Rightarrow> True | Some other \<Rightarrow> \<not> may_be {} other ?t) [1..<6]"
    by code_simp
  have free: "\<not> may_be {} other ?t" if "j \<noteq> 0" "row_of_idx recon_demo_pd ?rs j = Some other" for j other
  proof -
    have "j \<in> set [1..<6]" using that row_of_idx_mem [OF that(2)] bank_demo_facts(3) by simp
    then show ?thesis using others that(2) unfolding list_all_iff by (auto dest!: bspec)
  qed
  show ?thesis
    using bank_undisputed_matched [OF bank_demo_facts(1,2) bank_demo_row_of(1), unfolded bank_demo_holder, OF sole free]
    by (simp add: recon_demo_txn_def)
qed

end
