(* ===== verification/Group_By.thy ===== *)
theory Group_By
  imports Prelude
begin

text \<open>
  Grouping a list by a key: the dictionary of lists that \<open>defaultdict(list)\<close> loops build, and the
  rows of a \<open>GROUP BY\<close> query. The lemmas say what a group holds and that sums over the groups are
  sums over the rows.
\<close>

definition group_by :: "('a \<Rightarrow> 'k) \<Rightarrow> ('a \<Rightarrow> 'v) \<Rightarrow> 'a list \<Rightarrow> ('k \<times> 'v list) list" where
  "group_by k f xs = foldl (\<lambda>g x. dict_append g (k x) (f x)) [] xs"

lemma group_by_snoc: "group_by k f (xs @ [x]) = dict_append (group_by k f xs) (k x) (f x)"
  by (simp add: group_by_def)

lemma group_by_Nil [simp]: "group_by k f [] = []"
  by (simp add: group_by_def)

lemma dict_list_group [simp]: "dict_list (group_by k f xs) key = map f (filter (\<lambda>x. k x = key) xs)"
  by (induction xs rule: rev_induct) (auto simp: group_by_snoc)

lemma group_keys [simp]: "fst ` set (group_by k f xs) = k ` set xs"
proof (induction xs rule: rev_induct)
  case (snoc x xs)
  have "set (map fst (dict_append (group_by k f xs) (k x) (f x))) = insert (k x) (set (map fst (group_by k f xs)))"
    by (simp only: dict_append_def set_keys_dict_put)
  then show ?case using snoc.IH by (simp add: group_by_snoc)
qed simp

lemma group_keys_distinct [simp]: "distinct (map fst (group_by k f xs))"
  by (induction xs rule: rev_induct) (simp_all add: group_by_snoc dict_append_def)

lemma group_member:
  assumes "(key, rows) \<in> set (group_by k f xs)"
  shows "rows = map f (filter (\<lambda>x. k x = key) xs)" "rows \<noteq> []"
proof -
  have "dict_get (group_by k f xs) key = Some rows" using mem_dict_get [OF group_keys_distinct assms] .
  then show r: "rows = map f (filter (\<lambda>x. k x = key) xs)" using dict_list_group [of k f xs key] by (simp add: dict_list_def)
  have "key \<in> k ` set xs" using assms group_keys [of k f xs] by (metis fst_conv image_eqI)
  then show "rows \<noteq> []" unfolding r by (auto simp: filter_empty_conv)
qed

lemma group_eq: "group_by k f xs = map (\<lambda>key. (key, map f (filter (\<lambda>x. k x = key) xs))) (map fst (group_by k f xs))"
  unfolding map_map by (rule sym, rule map_idI) (auto dest: group_member(1))

lemma sum_single:
  fixes w :: "'b :: comm_monoid_add"
  shows "distinct ks \<Longrightarrow> sum_list (map (\<lambda>key. if key = y then w else 0) ks) = (if y \<in> set ks then w else 0)"
proof (induction ks)
  case (Cons a ks)
  have "y \<notin> set ks \<Longrightarrow> map (\<lambda>key. if key = y then w else 0) ks = map (\<lambda>_. 0) ks" by (auto intro!: map_cong)
  then show ?case using Cons by auto
qed simp

lemma sum_by_key:
  fixes w :: "'a \<Rightarrow> 'b :: comm_monoid_add"
  assumes "distinct ks"
  shows "sum_list (map (\<lambda>key. sum_list (map w (filter (\<lambda>x. k x = key) xs))) ks) =
    sum_list (map w (filter (\<lambda>x. k x \<in> set ks) xs))"
proof (induction xs)
  case (Cons x xs)
  have "sum_list (map (\<lambda>key. sum_list (map w (filter (\<lambda>x. k x = key) (x # xs)))) ks) =
    sum_list (map (\<lambda>key. (if key = k x then w x else 0) + sum_list (map w (filter (\<lambda>x. k x = key) xs))) ks)"
    by (intro arg_cong [of _ _ sum_list] map_cong refl) auto
  also have "\<dots> = (if k x \<in> set ks then w x else 0) + sum_list (map w (filter (\<lambda>x. k x \<in> set ks) xs))"
    using Cons.IH by (simp add: sum_list_addf sum_single [OF assms])
  finally show ?case by simp
qed simp

text \<open>Summing the selected groups is summing their rows.\<close>

lemma sum_groups:
  fixes w :: "'v \<Rightarrow> 'b :: comm_monoid_add"
  shows "sum_list (map (\<lambda>(key, rows). sum_list (map w rows)) (filter (P \<circ> fst) (group_by k f xs))) =
    sum_list (map (w \<circ> f) (filter (P \<circ> k) xs))"
proof -
  let ?G = "group_by k f xs"
  let ?ks = "filter P (map fst ?G)"
  have "filter (P \<circ> fst) ?G = map (\<lambda>key. (key, map f (filter (\<lambda>x. k x = key) xs))) ?ks"
    by (subst group_eq) (simp add: filter_map comp_def)
  then have "sum_list (map (\<lambda>(key, rows). sum_list (map w rows)) (filter (P \<circ> fst) ?G)) =
      sum_list (map (\<lambda>key. sum_list (map (w \<circ> f) (filter (\<lambda>x. k x = key) xs))) ?ks)"
    by (simp add: comp_def)
  also have "\<dots> = sum_list (map (w \<circ> f) (filter (\<lambda>x. k x \<in> set ?ks) xs))"
    by (intro sum_by_key) simp
  also have "filter (\<lambda>x. k x \<in> set ?ks) xs = filter (P \<circ> k) xs"
    by (intro filter_cong refl) auto
  finally show ?thesis .
qed

lemma sum_list_mset_eq:
  fixes f :: "'a \<Rightarrow> 'b :: comm_monoid_add"
  shows "mset xs = mset ys \<Longrightarrow> sum_list (map f xs) = sum_list (map f ys)"
  by (metis mset_map sum_mset_sum_list)

lemma sum_filter:
  fixes f :: "'a \<Rightarrow> 'b :: comm_monoid_add"
  shows "sum_list (map (\<lambda>x. if P x then f x else 0) xs) = sum_list (map f (filter P xs))"
  by (induction xs) auto

end
