(* ===== verification/Net_Worth.thy ===== *)
theory Net_Worth
  imports Dates Models Group_By "HOL-Library.List_Lexorder" "HOL-Library.Char_ord" "HOL-Library.Product_Lexorder"
begin

text \<open>
  The net worth (\<open>services/networth.py\<close>) over the balance snapshots (\<open>services/snapshots.py\<close>):
  the upserts that write the snapshots, the newest snapshot of each source, the summary of today
  and the month-end trend. The trend is computed in one pass; its refinement states that every
  point is the summary recomputed from scratch at the end of that month.
\<close>

section \<open>Snapshots\<close>

record snapshot =
  sn_id :: nat
  sn_account_id :: "nat option"
  sn_cas_upload_id :: "nat option"
  sn_manual_item_id :: "nat option"
  sn_portfolio_key :: "string option"
  sn_kind :: string
  sn_category :: string
  sn_as_of_date :: date
  sn_value :: rat
  sn_source :: string
  sn_currency :: string

record manual_item =
  mn_id :: nat
  mn_name :: string
  mn_active :: "bool option"

record cas_upload =
  cu_id :: nat
  cu_investor_name :: "string option"
  cu_portfolio_ok :: bool

record holding =
  h_snapshot_id :: nat
  h_asset_class :: string
  h_label :: string
  h_value :: rat

record nw_db =
  nw_accounts :: "account list"
  nw_items :: "manual_item list"
  nw_cas :: "cas_upload list"
  nw_snapshots :: "snapshot list"
  nw_holdings :: "holding list"

section \<open>Writing snapshots\<close>

definition next_snapshot_id :: "nw_db \<Rightarrow> nat" where
  "next_snapshot_id s = Suc (fold max (map sn_id (nw_snapshots s)) 0)"

text \<open>SQLite's \<open>INSERT ... ON CONFLICT DO UPDATE\<close>: the row that conflicts is updated in place.\<close>

definition upsert :: "(snapshot \<Rightarrow> bool) \<Rightarrow> (snapshot \<Rightarrow> snapshot) \<Rightarrow> (nat \<Rightarrow> snapshot) \<Rightarrow> nw_db \<Rightarrow> nw_db" where
  "upsert conflict update row s = (if list_ex conflict (nw_snapshots s)
     then s\<lparr>nw_snapshots := map (\<lambda>r. if conflict r then update r else r) (nw_snapshots s)\<rparr>
     else s\<lparr>nw_snapshots := nw_snapshots s @ [row (next_snapshot_id s)]\<rparr>)"

definition upsert_account_snapshot ::
  "nat \<Rightarrow> string \<Rightarrow> string \<Rightarrow> date \<Rightarrow> rat \<Rightarrow> string \<Rightarrow> string \<Rightarrow> nw_db \<Rightarrow> nw_db" where
  "upsert_account_snapshot account_id kind category as_of value source currency =
     upsert (\<lambda>r. sn_account_id r = Some account_id \<and> sn_category r = category \<and> sn_as_of_date r = as_of)
       (\<lambda>r. r\<lparr>sn_kind := kind, sn_value := value, sn_source := source, sn_currency := currency\<rparr>)
       (\<lambda>i. \<lparr>sn_id = i, sn_account_id = Some account_id, sn_cas_upload_id = None, sn_manual_item_id = None,
          sn_portfolio_key = None, sn_kind = kind, sn_category = category, sn_as_of_date = as_of, sn_value = value,
          sn_source = source, sn_currency = currency\<rparr>)"

definition upsert_manual_snapshot ::
  "nat \<Rightarrow> string \<Rightarrow> string \<Rightarrow> date \<Rightarrow> rat \<Rightarrow> string \<Rightarrow> string \<Rightarrow> nw_db \<Rightarrow> nw_db" where
  "upsert_manual_snapshot item_id kind category as_of value source currency =
     upsert (\<lambda>r. sn_manual_item_id r = Some item_id \<and> sn_as_of_date r = as_of)
       (\<lambda>r. r\<lparr>sn_kind := kind, sn_category := category, sn_value := value, sn_source := source, sn_currency := currency\<rparr>)
       (\<lambda>i. \<lparr>sn_id = i, sn_account_id = None, sn_cas_upload_id = None, sn_manual_item_id = Some item_id,
          sn_portfolio_key = None, sn_kind = kind, sn_category = category, sn_as_of_date = as_of, sn_value = value,
          sn_source = source, sn_currency = currency\<rparr>)"

section \<open>The newest snapshot of each source\<close>

datatype source_key = Acct nat string | Inv string string | Man "nat option"

definition source_key :: "snapshot \<Rightarrow> source_key" where
  "source_key x = (case sn_account_id x of Some a \<Rightarrow> Acct a (sn_category x)
     | None \<Rightarrow> (case sn_portfolio_key x of Some p \<Rightarrow> Inv p (sn_category x) | None \<Rightarrow> Man (sn_manual_item_id x)))"

type_synonym best = "(source_key \<times> snapshot) list"

definition take_newer :: "date \<Rightarrow> best \<Rightarrow> snapshot \<Rightarrow> best" where
  "take_newer as_of best x = (if as_of < sn_as_of_date x then best
     else case dict_get best (source_key x) of
       None \<Rightarrow> dict_put best (source_key x) x
     | Some c \<Rightarrow> if (sn_as_of_date c, sn_id c) < (sn_as_of_date x, sn_id x) then dict_put best (source_key x) x else best)"

definition latest_per_source :: "snapshot list \<Rightarrow> date \<Rightarrow> snapshot list" where
  "latest_per_source snapshots as_of = map snd (foldl (take_newer as_of) [] snapshots)"

text \<open>The query of both reports: snapshots of deactivated accounts and items are left out; a foreign
  key without a row joins to NULL columns.\<close>

definition live :: "nw_db \<Rightarrow> snapshot \<Rightarrow> bool" where
  "live s x \<longleftrightarrow>
     (case sn_account_id x of None \<Rightarrow> True
      | Some i \<Rightarrow> (case List.find (\<lambda>a. a_id a = i) (nw_accounts s) of None \<Rightarrow> True | Some a \<Rightarrow> a_active a \<noteq> Some False)) \<and>
     (case sn_manual_item_id x of None \<Rightarrow> True
      | Some i \<Rightarrow> (case List.find (\<lambda>m. mn_id m = i) (nw_items s) of None \<Rightarrow> True | Some m \<Rightarrow> mn_active m \<noteq> Some False))"

definition live_snapshots :: "nw_db \<Rightarrow> snapshot list" where
  "live_snapshots s = sort_key (\<lambda>x. (sn_as_of_date x, sn_id x)) (filter (live s) (nw_snapshots s))"

section \<open>The summary\<close>

definition nw_stale_days :: "string \<Rightarrow> int" where
  "nw_stale_days category = (case dict_get
     [(''bank_balance'', 45), (''cc_outstanding'', 35), (''investment'', 90), (''manual_asset'', 180),
      (''manual_liability'', 180)] category of None \<Rightarrow> 9999 | Some n \<Rightarrow> n)"

definition find_cas :: "nw_db \<Rightarrow> snapshot \<Rightarrow> cas_upload option" where
  "find_cas s x = Option.bind (sn_cas_upload_id x) (\<lambda>i. List.find (\<lambda>c. cu_id c = i) (nw_cas s))"

definition or_str :: "string option \<Rightarrow> string \<Rightarrow> string" where
  "or_str x y = (if truthy x then or_empty x else y)"

definition label_of :: "nw_db \<Rightarrow> snapshot \<Rightarrow> string" where
  "label_of s x =
     (case Option.bind (sn_account_id x) (\<lambda>i. List.find (\<lambda>a. a_id a = i) (nw_accounts s)) of
        Some a \<Rightarrow> a_label a
      | None \<Rightarrow> (case Option.bind (sn_manual_item_id x) (\<lambda>i. List.find (\<lambda>m. mn_id m = i) (nw_items s)) of
          Some m \<Rightarrow> mn_name m
        | None \<Rightarrow> (case find_cas s x of
            Some c \<Rightarrow> or_str (cu_investor_name c) (or_str (sn_portfolio_key x) ''CAS'')
          | None \<Rightarrow> or_str (sn_portfolio_key x) ''Snapshot'')))"

record source_balance =
  sb_label :: string
  sb_category :: string
  sb_kind :: string
  sb_value :: rat
  sb_as_of_date :: date
  sb_stale :: bool
  sb_unreconciled :: bool

record category_group =
  g_category :: string
  g_kind :: string
  g_total :: rat
  g_rows :: "source_balance list"

record networth_summary =
  ns_net_worth :: rat
  ns_total_assets :: rat
  ns_total_liabilities :: rat
  ns_groups :: "category_group list"
  ns_breakdown :: "((string \<times> string) \<times> rat) list"
  ns_has_stale :: bool

definition source_row :: "nw_db \<Rightarrow> date \<Rightarrow> snapshot \<Rightarrow> source_balance" where
  "source_row s as_of x = \<lparr>sb_label = label_of s x, sb_category = sn_category x, sb_kind = sn_kind x, sb_value = sn_value x,
     sb_as_of_date = sn_as_of_date x, sb_stale = (nw_stale_days (sn_category x) < as_of - sn_as_of_date x),
     sb_unreconciled = (case find_cas s x of None \<Rightarrow> False | Some c \<Rightarrow> \<not> cu_portfolio_ok c)\<rparr>"

text \<open>The loop over the current snapshots: assets, liabilities, groups, ids of the investments.\<close>

definition summary_step ::
  "nw_db \<Rightarrow> date \<Rightarrow> rat \<times> rat \<times> ((string \<times> string) \<times> source_balance list) list \<times> nat list \<Rightarrow> snapshot \<Rightarrow>
   rat \<times> rat \<times> ((string \<times> string) \<times> source_balance list) list \<times> nat list" where
  "summary_step s as_of st x = (case st of (assets, liabilities, grouped, ids) \<Rightarrow>
     if sn_currency x \<noteq> ''INR'' then st
     else (if sn_kind x = ''asset'' then assets + sn_value x else assets,
           if sn_kind x \<noteq> ''asset'' \<and> sn_kind x = ''liability'' then liabilities + sn_value x else liabilities,
           dict_append grouped (sn_category x, sn_kind x) (source_row s as_of x),
           if sn_category x = ''investment'' then ids @ [sn_id x] else ids))"

definition make_group :: "(string \<times> string) \<times> source_balance list \<Rightarrow> category_group" where
  "make_group kr = (case kr of ((category, kind), rows) \<Rightarrow>
     \<lparr>g_category = category, g_kind = kind, g_total = sum_list (map sb_value rows),
      g_rows = sort_key (\<lambda>r. lower (sb_label r)) rows\<rparr>)"

definition breakdown :: "holding list \<Rightarrow> ((string \<times> string) \<times> rat) list" where
  "breakdown hs = sort_key fst (foldl (\<lambda>d h. let k = (h_asset_class h, h_label h) in
     dict_put d k ((case dict_get d k of None \<Rightarrow> 0 | Some v \<Rightarrow> v) + h_value h)) [] hs)"

definition current_networth :: "nw_db \<Rightarrow> date \<Rightarrow> networth_summary" where
  "current_networth s as_of =
     (case foldl (summary_step s as_of) (0, 0, [], []) (latest_per_source (live_snapshots s) as_of) of
        (assets, liabilities, grouped, ids) \<Rightarrow>
          let groups = map make_group (sort_key fst grouped)
          in \<lparr>ns_net_worth = assets - liabilities, ns_total_assets = assets, ns_total_liabilities = liabilities,
              ns_groups = groups, ns_breakdown = (if ids = [] then [] else breakdown (filter (\<lambda>h. h_snapshot_id h \<in> set ids) (nw_holdings s))),
              ns_has_stale = list_ex (\<lambda>g. list_ex sb_stale (g_rows g)) groups\<rparr>)"

section \<open>The monthly trend\<close>

fun advance :: "date \<Rightarrow> best \<Rightarrow> snapshot list \<Rightarrow> best \<times> snapshot list" where
  "advance cutoff best [] = (best, [])"
| "advance cutoff best (x # xs) = (if sn_as_of_date x \<le> cutoff
     then advance cutoff (dict_put best (source_key x) x) xs else (best, x # xs))"

definition trend_value :: "snapshot list \<Rightarrow> rat" where
  "trend_value xs = (case foldl (\<lambda>(assets, liabilities) x.
       if sn_currency x \<noteq> ''INR'' then (assets, liabilities)
       else if sn_kind x = ''asset'' then (assets + sn_value x, liabilities)
       else if sn_kind x = ''liability'' then (assets, liabilities + sn_value x)
       else (assets, liabilities)) (0, 0) xs of (assets, liabilities) \<Rightarrow> assets - liabilities)"

text \<open>The \<open>while True\<close> loop over the months; not returning would be \<open>None\<close>.\<close>

partial_function (option) trend_loop ::
  "(date \<Rightarrow> int \<Rightarrow> int \<Rightarrow> date) \<Rightarrow> date \<Rightarrow> int \<Rightarrow> int \<Rightarrow> best \<Rightarrow> snapshot list \<Rightarrow> (string \<times> rat) list option" where
  "trend_loop rd today year month best xs =
     (let last_day = month_end rd (ord_of year month 1); cutoff = min last_day today;
          (best, xs) = advance cutoff best xs; point = (month_key cutoff, trend_value (map snd best))
      in if today \<le> last_day then Some [point]
         else Option.bind (if month = 12 then trend_loop rd today (year + 1) 1 best xs
                           else trend_loop rd today year (month + 1) best xs)
                (\<lambda>ps. Some (point # ps)))"

definition monthly_trend :: "(date \<Rightarrow> int \<Rightarrow> int \<Rightarrow> date) \<Rightarrow> nw_db \<Rightarrow> date \<Rightarrow> (string \<times> rat) list option" where
  "monthly_trend rd s today = (case live_snapshots s of
       [] \<Rightarrow> Some []
     | x # xs \<Rightarrow> if today < sn_as_of_date x then Some []
         else trend_loop rd today (year_of (sn_as_of_date x)) (month_of (sn_as_of_date x)) [] (x # xs))"

section \<open>The snapshot table is well formed\<close>

text \<open>\<open>ck_balance_snapshot_exactly_one_source\<close>, the partial unique indexes and the primary key.\<close>

definition one_source :: "snapshot \<Rightarrow> bool" where
  "one_source x \<longleftrightarrow> of_bool (sn_account_id x \<noteq> None) + of_bool (sn_cas_upload_id x \<noteq> None) +
     of_bool (sn_manual_item_id x \<noteq> None) = (1 :: nat)"

definition account_slot :: "snapshot \<Rightarrow> (nat \<times> string \<times> date) option" where
  "account_slot x = map_option (\<lambda>i. (i, sn_category x, sn_as_of_date x)) (sn_account_id x)"

definition investment_slot :: "snapshot \<Rightarrow> (string \<times> string \<times> date) option" where
  "investment_slot x = map_option (\<lambda>p. (p, sn_category x, sn_as_of_date x)) (sn_portfolio_key x)"

definition manual_slot :: "snapshot \<Rightarrow> (nat \<times> date) option" where
  "manual_slot x = map_option (\<lambda>i. (i, sn_as_of_date x)) (sn_manual_item_id x)"

definition slots_distinct :: "('a \<Rightarrow> 'b option) \<Rightarrow> 'a list \<Rightarrow> bool" where
  "slots_distinct slot xs \<longleftrightarrow> distinct (filter (\<lambda>k. k \<noteq> None) (map slot xs))"

definition snapshots_ok :: "nw_db \<Rightarrow> bool" where
  "snapshots_ok s \<longleftrightarrow> distinct (map sn_id (nw_snapshots s)) \<and> list_all one_source (nw_snapshots s) \<and>
     list_all (\<lambda>x. sn_portfolio_key x \<noteq> None \<longrightarrow> sn_cas_upload_id x \<noteq> None) (nw_snapshots s) \<and>
     slots_distinct account_slot (nw_snapshots s) \<and> slots_distinct investment_slot (nw_snapshots s) \<and>
     slots_distinct manual_slot (nw_snapshots s)"

lemma slots_map [simp]:
  "(\<And>x. x \<in> set xs \<Longrightarrow> slot (f x) = slot x) \<Longrightarrow> slots_distinct slot (map f xs) = slots_distinct slot xs"
  unfolding slots_distinct_def map_map comp_def by (rule arg_cong [of _ _ distinct]) (simp cong: map_cong)

lemma slots_snoc_None [simp]: "slot x = None \<Longrightarrow> slots_distinct slot (xs @ [x]) = slots_distinct slot xs"
  by (simp add: slots_distinct_def)

lemma slots_snoc:
  "slots_distinct slot xs \<Longrightarrow> (\<And>y. y \<in> set xs \<Longrightarrow> slot y \<noteq> slot x) \<Longrightarrow> slots_distinct slot (xs @ [x])"
  by (auto simp: slots_distinct_def)

lemma next_snapshot_id_fresh: "x \<in> set (nw_snapshots s) \<Longrightarrow> sn_id x < next_snapshot_id s"
  by (simp add: next_snapshot_id_def less_Suc_eq_le fold_max_ge)

definition same_slots :: "snapshot \<Rightarrow> snapshot \<Rightarrow> bool" where
  "same_slots x y \<longleftrightarrow> sn_id y = sn_id x \<and> sn_account_id y = sn_account_id x \<and> sn_cas_upload_id y = sn_cas_upload_id x \<and>
     sn_manual_item_id y = sn_manual_item_id x \<and> sn_portfolio_key y = sn_portfolio_key x \<and>
     account_slot y = account_slot x \<and> investment_slot y = investment_slot x \<and> manual_slot y = manual_slot x"

lemma snapshot_upsert_ok:
  assumes ok: "snapshots_ok s"
    and upd: "\<And>x. x \<in> set (nw_snapshots s) \<Longrightarrow> conflict x \<Longrightarrow> same_slots x (update x)"
    and row: "\<And>i. sn_id (row i) = i \<and> one_source (row i) \<and> sn_portfolio_key (row i) = None"
    and free: "\<And>i y. \<not> conflict y \<Longrightarrow> (account_slot (row i) = None \<or> account_slot y \<noteq> account_slot (row i)) \<and>
      (manual_slot (row i) = None \<or> manual_slot y \<noteq> manual_slot (row i))"
  shows "snapshots_ok (upsert conflict update row s)"
proof (cases "list_ex conflict (nw_snapshots s)")
  case True
  let ?f = "\<lambda>x. if conflict x then update x else x"
  have f: "same_slots x (?f x)" if "x \<in> set (nw_snapshots s)" for x
    using upd [OF that] by (simp add: same_slots_def)
  have "map sn_id (map ?f (nw_snapshots s)) = map sn_id (nw_snapshots s)" using f by (simp add: same_slots_def)
  moreover have "one_source (?f x) = one_source x" "(sn_portfolio_key (?f x) \<noteq> None \<longrightarrow> sn_cas_upload_id (?f x) \<noteq> None) =
      (sn_portfolio_key x \<noteq> None \<longrightarrow> sn_cas_upload_id x \<noteq> None)" if "x \<in> set (nw_snapshots s)" for x
    using f [OF that] by (simp_all add: same_slots_def one_source_def)
  then have "list_all one_source (map ?f (nw_snapshots s)) = list_all one_source (nw_snapshots s)"
    "list_all (\<lambda>x. sn_portfolio_key x \<noteq> None \<longrightarrow> sn_cas_upload_id x \<noteq> None) (map ?f (nw_snapshots s)) =
     list_all (\<lambda>x. sn_portfolio_key x \<noteq> None \<longrightarrow> sn_cas_upload_id x \<noteq> None) (nw_snapshots s)"
    unfolding list_all_iff set_map by blast+
  moreover have "slots_distinct account_slot (map ?f (nw_snapshots s)) = slots_distinct account_slot (nw_snapshots s)"
    "slots_distinct investment_slot (map ?f (nw_snapshots s)) = slots_distinct investment_slot (nw_snapshots s)"
    "slots_distinct manual_slot (map ?f (nw_snapshots s)) = slots_distinct manual_slot (nw_snapshots s)"
    by (rule slots_map, use f in \<open>simp add: same_slots_def\<close>)+
  moreover have "nw_snapshots (upsert conflict update row s) = map ?f (nw_snapshots s)" using True by (simp add: upsert_def)
  ultimately show ?thesis using ok unfolding snapshots_ok_def by metis
next
  case False
  let ?x = "row (next_snapshot_id s)"
  have "distinct (map sn_id (nw_snapshots s @ [?x]))"
    using ok next_snapshot_id_fresh row by (fastforce simp: snapshots_ok_def)
  moreover have "slots_distinct investment_slot (nw_snapshots s @ [?x]) = slots_distinct investment_slot (nw_snapshots s)"
    by (rule slots_snoc_None) (simp add: investment_slot_def row)
  moreover have "\<not> conflict y" if "y \<in> set (nw_snapshots s)" for y using False that by (auto simp: list_ex_iff)
  then have "slots_distinct account_slot (nw_snapshots s @ [?x])" "slots_distinct manual_slot (nw_snapshots s @ [?x])"
    using free ok slots_snoc slots_snoc_None unfolding snapshots_ok_def by metis+
  ultimately show ?thesis using ok row False by (simp add: snapshots_ok_def upsert_def)
qed

text \<open>The upserts keep the snapshot table well typed: each row has exactly one source, a portfolio key
  goes with an investment statement, the unique index of each kind of source holds, and keys stay
  unique, whether the upsert updates a row in place or inserts one.\<close>

theorem upserts_keep_snapshots_ok:
  assumes "snapshots_ok s"
  shows "snapshots_ok (upsert_account_snapshot i kind category d v source currency s) \<and>
    snapshots_ok (upsert_manual_snapshot j kind category d v source currency s)"
proof
  show "snapshots_ok (upsert_account_snapshot i kind category d v source currency s)"
    unfolding upsert_account_snapshot_def
    by (rule snapshot_upsert_ok [OF assms])
      (auto simp: same_slots_def account_slot_def investment_slot_def manual_slot_def one_source_def)
  have manual: "sn_account_id x = None" "sn_portfolio_key x = None"
    if "x \<in> set (nw_snapshots s)" "sn_manual_item_id x = Some j" for x
  proof -
    have "one_source x" "sn_portfolio_key x \<noteq> None \<Longrightarrow> sn_cas_upload_id x \<noteq> None"
      using assms that(1) by (auto simp: snapshots_ok_def list_all_iff)
    then show "sn_account_id x = None" "sn_portfolio_key x = None"
      using that(2) by (cases "sn_portfolio_key x"; auto simp: one_source_def of_bool_def split: if_splits)+
  qed
  show "snapshots_ok (upsert_manual_snapshot j kind category d v source currency s)"
    unfolding upsert_manual_snapshot_def
    by (rule snapshot_upsert_ok [OF assms])
      (auto simp: same_slots_def account_slot_def investment_slot_def manual_slot_def one_source_def manual)
qed

section \<open>One pass over sorted snapshots\<close>

abbreviation stamp_of :: "snapshot \<Rightarrow> date \<times> nat" where
  "stamp_of x \<equiv> (sn_as_of_date x, sn_id x)"

definition put_best :: "best \<Rightarrow> snapshot \<Rightarrow> best" where
  "put_best best x = dict_put best (source_key x) x"

lemma live_snapshots_sorted:
  assumes "distinct (map sn_id (nw_snapshots s))"
  shows "sorted_wrt (\<lambda>x y. stamp_of x < stamp_of y) (live_snapshots s)"
proof -
  have "sorted (map stamp_of (live_snapshots s))" by (simp add: live_snapshots_def)
  moreover have "distinct (map stamp_of (live_snapshots s))"
    using assms by (auto simp: live_snapshots_def distinct_map inj_on_def)
  ultimately have "sorted_wrt (<) (map stamp_of (live_snapshots s))" by (simp add: strict_sorted_iff)
  then show ?thesis by (simp add: sorted_wrt_map)
qed

lemma advance_split:
  "advance c best xs = (foldl put_best best (takeWhile (\<lambda>x. sn_as_of_date x \<le> c) xs),
     dropWhile (\<lambda>x. sn_as_of_date x \<le> c) xs)"
  by (induction c best xs rule: advance.induct) (simp_all add: put_best_def)

lemma split_at_date:
  assumes "sorted_wrt (\<lambda>x y. stamp_of x < stamp_of y) xs"
  shows "takeWhile (\<lambda>x. sn_as_of_date x \<le> c) xs = filter (\<lambda>x. sn_as_of_date x \<le> c) xs"
    "dropWhile (\<lambda>x. sn_as_of_date x \<le> c) xs = filter (\<lambda>x. c < sn_as_of_date x) xs"
proof -
  have "takeWhile (\<lambda>x. sn_as_of_date x \<le> c) xs = filter (\<lambda>x. sn_as_of_date x \<le> c) xs \<and>
    dropWhile (\<lambda>x. sn_as_of_date x \<le> c) xs = filter (\<lambda>x. c < sn_as_of_date x) xs"
    using assms
  proof (induction xs)
    case (Cons x xs)
    show ?case
    proof (cases "sn_as_of_date x \<le> c")
      case True
      then show ?thesis using Cons by simp
    next
      case False
      have "\<forall>y \<in> set xs. c < sn_as_of_date y" using Cons.prems False by fastforce
      then have "filter (\<lambda>x. sn_as_of_date x \<le> c) xs = []" "filter (\<lambda>x. c < sn_as_of_date x) xs = xs"
        by (simp_all add: filter_empty_conv not_le)
      then show ?thesis using False by simp
    qed
  qed simp
  then show "takeWhile (\<lambda>x. sn_as_of_date x \<le> c) xs = filter (\<lambda>x. sn_as_of_date x \<le> c) xs"
    "dropWhile (\<lambda>x. sn_as_of_date x \<le> c) xs = filter (\<lambda>x. c < sn_as_of_date x) xs" by simp_all
qed

lemma best_mem: "dict_get (foldl put_best [] xs) k = Some x \<Longrightarrow> x \<in> set xs"
proof (induction xs rule: rev_induct)
  case (snoc y xs)
  then show ?case by (auto simp: put_best_def split: if_splits)
qed simp

text \<open>On sorted snapshots the comparison with the current best is always won: the newest of each
  source is the last written.\<close>

lemma latest_eq_best:
  assumes "sorted_wrt (\<lambda>x y. stamp_of x < stamp_of y) xs"
  shows "foldl (take_newer c) [] xs = foldl put_best [] (filter (\<lambda>x. sn_as_of_date x \<le> c) xs)"
  using assms
proof (induction xs rule: rev_induct)
  case (snoc x xs)
  have sorted: "sorted_wrt (\<lambda>x y. stamp_of x < stamp_of y) xs" and last: "\<forall>y \<in> set xs. stamp_of y < stamp_of x"
    using snoc.prems by (simp_all add: sorted_wrt_append)
  let ?b = "foldl put_best [] (filter (\<lambda>x. sn_as_of_date x \<le> c) xs)"
  have "stamp_of y < stamp_of x" if "dict_get ?b (source_key x) = Some y" for y
    using best_mem [OF that] last by simp
  then have "take_newer c ?b x = (if sn_as_of_date x \<le> c then put_best ?b x else ?b)"
    by (auto simp: take_newer_def put_best_def split: option.split)
  then show ?case using snoc.IH [OF sorted] by simp
qed simp

section \<open>The value of a set of snapshots\<close>

definition signed_value :: "snapshot \<Rightarrow> rat" where
  "signed_value x = (if sn_currency x \<noteq> ''INR'' then 0 else if sn_kind x = ''asset'' then sn_value x
     else if sn_kind x = ''liability'' then - sn_value x else 0)"

lemma trend_value_sum: "trend_value xs = sum_list (map signed_value xs)"
proof -
  let ?f = "\<lambda>(assets, liabilities) x.
       if sn_currency x \<noteq> ''INR'' then (assets, liabilities)
       else if sn_kind x = ''asset'' then (assets + sn_value x, liabilities)
       else if sn_kind x = ''liability'' then (assets, liabilities + sn_value x) else (assets, liabilities)"
  have "(case foldl ?f (a, l) xs of (a, l) \<Rightarrow> a - l) = a - l + sum_list (map signed_value xs)" for a l
  proof (induction xs arbitrary: a l)
    case (Cons x xs)
    obtain a' l' where step: "?f (a, l) x = (a', l')" by (cases "?f (a, l) x")
    then have "a' - l' = a - l + signed_value x" by (auto simp: signed_value_def split: if_splits)
    then show ?case using Cons.IH [of a' l'] step by simp
  qed simp
  from this [of 0 0] show ?thesis by (simp add: trend_value_def)
qed

definition assets_of :: "snapshot \<Rightarrow> rat" where
  "assets_of x = (if sn_currency x = ''INR'' \<and> sn_kind x = ''asset'' then sn_value x else 0)"

definition debts_of :: "snapshot \<Rightarrow> rat" where
  "debts_of x = (if sn_currency x = ''INR'' \<and> sn_kind x = ''liability'' then sn_value x else 0)"

lemma signed_split: "signed_value x = assets_of x - debts_of x"
  by (simp add: signed_value_def assets_of_def debts_of_def)

lemma signed_fun: "signed_value = (\<lambda>x. assets_of x - debts_of x)"
  by (rule ext) (rule signed_split)

lemma summary_fold:
  "foldl (summary_step s c) (a, l, g, i) xs = (a + sum_list (map assets_of xs), l + sum_list (map debts_of xs),
     foldl (\<lambda>g x. if sn_currency x = ''INR'' then dict_append g (sn_category x, sn_kind x) (source_row s c x) else g) g xs,
     i @ map sn_id (filter (\<lambda>x. sn_currency x = ''INR'' \<and> sn_category x = ''investment'') xs))"
proof (induction xs arbitrary: a l g i)
  case (Cons x xs)
  obtain a' l' g' i' where step: "summary_step s c (a, l, g, i) x = (a', l', g', i')" by (metis prod_cases4)
  then have "a' = a + assets_of x" "l' = l + debts_of x"
    "g' = (if sn_currency x = ''INR'' then dict_append g (sn_category x, sn_kind x) (source_row s c x) else g)"
    "i' = (if sn_currency x = ''INR'' \<and> sn_category x = ''investment'' then i @ [sn_id x] else i)"
    by (auto simp: summary_step_def assets_of_def debts_of_def split: if_splits)
  then show ?case using Cons.IH [of a' l' g' i'] step by simp
qed simp

lemma net_worth_sum: "ns_net_worth (current_networth s c) = sum_list (map signed_value (latest_per_source (live_snapshots s) c))"
  by (simp add: current_networth_def summary_fold Let_def sum_list_subtractf signed_fun)

section \<open>The trend is the history of the summary\<close>

lemma month_end_first:
  assumes "relativedelta_doc rd" "1 \<le> m" "m \<le> 12"
  shows "month_end rd (ord_of y m 1) = month_first (y * 12 + (m - 1) + 1) - 1"
proof -
  have "valid_fields y m 1" using days_in_month_bounds [OF assms(2,3), of y] assms(2,3) by (simp add: valid_fields_def)
  then show ?thesis by (simp add: month_end_eq [OF assms(1)] month_index_ord_of)
qed

text \<open>The snapshots that the loop has taken and those it has left at the start of month \<open>i\<close>.\<close>

lemma advance_month:
  assumes sorted: "sorted_wrt (\<lambda>x y. stamp_of x < stamp_of y) L" and c: "f - 1 \<le> c"
  shows "advance c (foldl put_best [] (filter (\<lambda>x. sn_as_of_date x < f) L)) (filter (\<lambda>x. f \<le> sn_as_of_date x) L) =
    (foldl put_best [] (filter (\<lambda>x. sn_as_of_date x \<le> c) L), filter (\<lambda>x. c < sn_as_of_date x) L)"
proof -
  let ?A = "filter (\<lambda>x. sn_as_of_date x < f) L" and ?B = "filter (\<lambda>x. f \<le> sn_as_of_date x) L"
  have B: "sorted_wrt (\<lambda>x y. stamp_of x < stamp_of y) ?B" using sorted by (rule sorted_wrt_filter)
  have lt: "(\<lambda>x. sn_as_of_date x \<le> f - 1) = (\<lambda>x. sn_as_of_date x < f)" "(\<lambda>x. f - 1 < sn_as_of_date x) = (\<lambda>x. f \<le> sn_as_of_date x)"
    by (auto simp: fun_eq_iff)
  have "L = filter (\<lambda>x. sn_as_of_date x \<le> f - 1) L @ filter (\<lambda>x. f - 1 < sn_as_of_date x) L"
    unfolding split_at_date [OF sorted, symmetric] by (rule takeWhile_dropWhile_id [symmetric])
  then have L: "L = ?A @ ?B" unfolding lt .
  have A: "filter (\<lambda>x. sn_as_of_date x \<le> c) ?A = ?A" by (rule filter_True) (use c in auto)
  have "filter (\<lambda>x. c < sn_as_of_date x) ?A = []" by (rule filter_False) (use c in auto)
  with A have "filter (\<lambda>x. sn_as_of_date x \<le> c) L = ?A @ filter (\<lambda>x. sn_as_of_date x \<le> c) ?B"
    "filter (\<lambda>x. c < sn_as_of_date x) L = filter (\<lambda>x. c < sn_as_of_date x) ?B"
    using arg_cong [OF L, of "filter (\<lambda>x. sn_as_of_date x \<le> c)"] arg_cong [OF L, of "filter (\<lambda>x. c < sn_as_of_date x)"]
    by (simp_all only: filter_append append_Nil)
  then show ?thesis by (simp add: advance_split split_at_date [OF B])
qed

definition month_point :: "nw_db \<Rightarrow> date \<Rightarrow> int \<Rightarrow> string \<times> rat" where
  "month_point s today i = (let c = min (month_first (i + 1) - 1) today in (month_key c, ns_net_worth (current_networth s c)))"

lemma trend_loop_eq:
  assumes rd: "relativedelta_doc rd" and sorted: "sorted_wrt (\<lambda>x y. stamp_of x < stamp_of y) (live_snapshots s)"
    and m: "1 \<le> m" "m \<le> 12" "i = y * 12 + (m - 1)" "i \<le> month_index today"
  shows "trend_loop rd today y m (foldl put_best [] (filter (\<lambda>x. sn_as_of_date x < month_first i) (live_snapshots s)))
      (filter (\<lambda>x. month_first i \<le> sn_as_of_date x) (live_snapshots s)) =
    Some (map (month_point s today) [i .. month_index today])"
  using m
proof (induction "nat (month_index today - i)" arbitrary: i y m rule: less_induct)
  case (less i y m)
  let ?L = "live_snapshots s" and ?last = "month_first (i + 1) - 1"
  let ?c = "min ?last today"
  have last: "month_end rd (ord_of y m 1) = ?last" using month_end_first [OF rd less.prems(1,2), of y] less.prems(3) by simp
  have "month_first i \<le> today" using less.prems(4) month_first_le_iff by simp
  then have "month_first i - 1 \<le> ?c" using month_first_mono [of i "i + 1"] by simp
  note adv = advance_month [OF sorted this]
  have val: "trend_value (map snd (foldl put_best [] (filter (\<lambda>x. sn_as_of_date x \<le> ?c) ?L))) = ns_net_worth (current_networth s ?c)"
    using latest_eq_best [OF sorted, of ?c] by (simp add: net_worth_sum trend_value_sum latest_per_source_def)
  note unfold = trend_loop.simps [of rd today y m "foldl put_best [] (filter (\<lambda>x. sn_as_of_date x < month_first i) ?L)"
      "filter (\<lambda>x. month_first i \<le> sn_as_of_date x) ?L", unfolded last Let_def adv prod.case val]
  show ?case
  proof (cases "today \<le> ?last")
    case True
    then have "month_index today = i" using less.prems(4) month_first_le_iff [of "i + 1" today] by simp
    then show ?thesis using unfold True by (simp add: month_point_def)
  next
    case False
    then have c: "?c = ?last" and next_: "i + 1 \<le> month_index today" using month_first_le_iff [of "i + 1" today] by simp_all
    let ?y = "if m = 12 then y + 1 else y" and ?m = "if m = 12 then 1 else m + 1"
    have eqs: "(\<lambda>x. sn_as_of_date x \<le> ?c) = (\<lambda>x. sn_as_of_date x < month_first (i + 1))"
      "(\<lambda>x. ?c < sn_as_of_date x) = (\<lambda>x. month_first (i + 1) \<le> sn_as_of_date x)" unfolding c by (auto simp: fun_eq_iff)
    have IH: "trend_loop rd today ?y ?m (foldl put_best [] (filter (\<lambda>x. sn_as_of_date x \<le> ?c) ?L)) (filter (\<lambda>x. ?c < sn_as_of_date x) ?L) =
        Some (map (month_point s today) [i + 1 .. month_index today])"
      unfolding eqs by (rule less.hyps) (use less.prems next_ in auto)
    have "[i .. month_index today] = i # [i + 1 .. month_index today]" using less.prems(4) by (simp add: upto_rec1)
    then show ?thesis using unfold False IH by (auto simp: month_point_def Let_def split: if_splits)
  qed
qed

lemma stamps_from_head:
  assumes "sorted_wrt (\<lambda>x y. stamp_of x < stamp_of y) (x # xs)" "y \<in> set (x # xs)"
  shows "sn_as_of_date x \<le> sn_as_of_date y"
  using assms by (auto simp: less_le)

text \<open>C38. The one-pass trend is the history of the summary. The loop ends, and the series it returns
  has one point for every calendar month from the oldest live snapshot up to today, in order; each
  point is the net worth that the summary, recomputed from scratch, gives for the last day of that
  month, and for today in the current month. Without a snapshot up to today the series is empty.\<close>

theorem monthly_trend_refines_summary:
  assumes "relativedelta_doc rd" "distinct (map sn_id (nw_snapshots s))"
  shows "monthly_trend rd s today = Some (case live_snapshots s of [] \<Rightarrow> []
    | x # xs \<Rightarrow> if today < sn_as_of_date x then []
        else map (\<lambda>i. let c = min (month_first (i + 1) - 1) today in (month_key c, ns_net_worth (current_networth s c)))
          [month_index (sn_as_of_date x) .. month_index today])"
proof (cases "live_snapshots s")
  case (Cons x xs)
  note sorted = live_snapshots_sorted [OF assms(2)]
  let ?i = "month_index (sn_as_of_date x)" and ?L = "live_snapshots s"
  show ?thesis
  proof (cases "today < sn_as_of_date x")
    case True
    then show ?thesis by (simp add: monthly_trend_def Cons)
  next
    case False
    have "month_first ?i \<le> sn_as_of_date y" if "y \<in> set ?L" for y
      using stamps_from_head [of x xs y] sorted that month_first_le(1) [of "sn_as_of_date x"] unfolding Cons by linarith
    then have all: "filter (\<lambda>y. sn_as_of_date y < month_first ?i) ?L = []" "filter (\<lambda>y. month_first ?i \<le> sn_as_of_date y) ?L = ?L"
      by (auto simp: filter_empty_conv filter_id_conv not_less)
    have le: "?i \<le> month_index today" using False by (simp add: month_index_mono)
    have eq: "?i = year_of (sn_as_of_date x) * 12 + (month_of (sn_as_of_date x) - 1)" by (simp add: month_index_def)
    have "trend_loop rd today (year_of (sn_as_of_date x)) (month_of (sn_as_of_date x)) [] ?L =
        Some (map (month_point s today) [?i .. month_index today])"
      using trend_loop_eq [OF assms(1) sorted month_of_bounds(1) [of "sn_as_of_date x"] month_of_bounds(2) eq le]
      unfolding all foldl_Nil .
    then show ?thesis using False unfolding monthly_trend_def Cons by (simp add: month_point_def)
  qed
qed (simp add: monthly_trend_def)

section \<open>The summary adds up\<close>

definition current_rows :: "nw_db \<Rightarrow> date \<Rightarrow> snapshot list" where
  "current_rows s c = filter (\<lambda>x. sn_currency x = ''INR'') (latest_per_source (live_snapshots s) c)"

abbreviation group_key :: "snapshot \<Rightarrow> string \<times> string" where
  "group_key x \<equiv> (sn_category x, sn_kind x)"

lemma groups_eq:
  "ns_groups (current_networth s c) = map make_group (sort_key fst (group_by group_key (source_row s c) (current_rows s c)))"
proof -
  have "foldl (\<lambda>g x. if sn_currency x = ''INR'' then dict_append g (group_key x) (source_row s c x) else g) [] ys =
      group_by group_key (source_row s c) (filter (\<lambda>x. sn_currency x = ''INR'') ys)" for ys
    by (induction ys rule: rev_induct) (simp_all add: group_by_def)
  then show ?thesis by (simp add: current_networth_def summary_fold Let_def current_rows_def)
qed

lemma make_group_fields [simp]:
  "g_category (make_group kr) = fst (fst kr)" "g_kind (make_group kr) = snd (fst kr)"
  "g_total (make_group kr) = sum_list (map sb_value (snd kr))" "mset (g_rows (make_group kr)) = mset (snd kr)"
  by (simp_all add: make_group_def split: prod.split)

lemma source_row_value [simp]: "sb_value (source_row s c x) = sn_value x"
  by (simp add: source_row_def)

lemma kind_total:
  "sum_list (map g_total (filter (\<lambda>g. g_kind g = kind) (ns_groups (current_networth s c)))) =
   sum_list (map sn_value (filter (\<lambda>x. sn_kind x = kind) (current_rows s c)))"
proof -
  let ?G = "group_by group_key (source_row s c) (current_rows s c)" and ?P = "\<lambda>k :: string \<times> string. snd k = kind"
  have "filter (\<lambda>g. g_kind g = kind) (map make_group xs) = map make_group (filter (?P \<circ> fst) xs)" for xs
    by (simp add: filter_map comp_def)
  then have "sum_list (map g_total (filter (\<lambda>g. g_kind g = kind) (ns_groups (current_networth s c)))) =
      sum_list (map (\<lambda>kr. sum_list (map sb_value (snd kr))) (filter (?P \<circ> fst) (sort_key fst ?G)))"
    by (simp add: groups_eq comp_def)
  also have "\<dots> = sum_list (map (\<lambda>kr. sum_list (map sb_value (snd kr))) (filter (?P \<circ> fst) ?G))"
    by (rule sum_list_mset_eq) (simp add: mset_filter)
  also have "\<dots> = sum_list (map (sb_value \<circ> source_row s c) (filter (?P \<circ> group_key) (current_rows s c)))"
    using sum_groups [of sb_value ?P group_key "source_row s c" "current_rows s c"] by (simp add: case_prod_beta')
  finally show ?thesis by (simp add: comp_def)
qed

lemma headline_totals:
  "ns_total_assets (current_networth s c) = sum_list (map sn_value (filter (\<lambda>x. sn_kind x = ''asset'') (current_rows s c)))"
  "ns_total_liabilities (current_networth s c) = sum_list (map sn_value (filter (\<lambda>x. sn_kind x = ''liability'') (current_rows s c)))"
  by (simp_all add: current_networth_def summary_fold Let_def assets_of_def [abs_def] debts_of_def [abs_def] sum_filter current_rows_def conj_commute)

text \<open>The summary adds up. Net worth is assets minus liabilities; every current INR snapshot is a
  row of exactly one group, the one of its category and kind; the group totals are the sums of their
  rows, and the totals of the asset groups and of the liability groups are the two headline figures.\<close>

theorem networth_groups_add_up:
  "let n = current_networth s c; key = (\<lambda>g. (g_category g, g_kind g)) in
    ns_net_worth n = ns_total_assets n - ns_total_liabilities n \<and>
    sorted (map key (ns_groups n)) \<and> distinct (map key (ns_groups n)) \<and>
    key ` set (ns_groups n) = group_key ` set (current_rows s c) \<and>
    (\<forall>g \<in> set (ns_groups n). g_total g = sum_list (map sb_value (g_rows g)) \<and>
       mset (g_rows g) = mset (map (source_row s c) (filter (\<lambda>x. group_key x = key g) (current_rows s c)))) \<and>
    ns_total_assets n = sum_list (map g_total (filter (\<lambda>g. g_kind g = ''asset'') (ns_groups n))) \<and>
    ns_total_liabilities n = sum_list (map g_total (filter (\<lambda>g. g_kind g = ''liability'') (ns_groups n)))"
proof -
  let ?n = "current_networth s c" and ?G = "group_by group_key (source_row s c) (current_rows s c)"
  let ?key = "\<lambda>g. (g_category g, g_kind g)"
  have keys: "map ?key (ns_groups ?n) = map fst (sort_key fst ?G)" by (simp add: groups_eq)
  have "distinct (map fst (sort_key fst ?G))" "fst ` set (sort_key fst ?G) = group_key ` set (current_rows s c)"
    using mset_eq_imp_distinct_iff [of "map fst (sort_key fst ?G)" "map fst ?G"] by simp_all
  moreover have "sorted (map fst (sort_key fst ?G))" by simp
  ultimately have "distinct (map ?key (ns_groups ?n))" "?key ` set (ns_groups ?n) = group_key ` set (current_rows s c)"
    "sorted (map ?key (ns_groups ?n))"
    unfolding keys [symmetric] using arg_cong [OF keys, of set] by (simp_all only: set_map)
  moreover have "g_total g = sum_list (map sb_value (g_rows g)) \<and>
      mset (g_rows g) = mset (map (source_row s c) (filter (\<lambda>x. group_key x = ?key g) (current_rows s c)))"
    if "g \<in> set (ns_groups ?n)" for g
  proof -
    have "g \<in> make_group ` set ?G" using that by (simp add: groups_eq)
    then obtain kr' where "g = make_group kr'" "kr' \<in> set ?G" by blast
    then obtain key rows where kr: "g = make_group (key, rows)" "(key, rows) \<in> set ?G" by (cases kr') blast
    have "sum_list (map sb_value (g_rows g)) = sum_list (map sb_value rows)" by (rule sum_list_mset_eq) (simp add: kr(1))
    then show ?thesis using group_member(1) [OF kr(2)] by (simp add: kr(1))
  qed
  moreover have "ns_net_worth ?n = ns_total_assets ?n - ns_total_liabilities ?n"
    by (simp add: current_networth_def summary_fold Let_def)
  ultimately show ?thesis unfolding Let_def by (simp only: kind_total headline_totals) blast
qed

section \<open>Witnesses\<close>

definition nw_demo_snap :: "nat \<Rightarrow> nat \<Rightarrow> string \<Rightarrow> date \<Rightarrow> rat \<Rightarrow> snapshot" where
  "nw_demo_snap i a kind d v = \<lparr>sn_id = i, sn_account_id = Some a, sn_cas_upload_id = None, sn_manual_item_id = None,
     sn_portfolio_key = None, sn_kind = kind, sn_category = ''x'', sn_as_of_date = d, sn_value = v, sn_source = ''s'',
     sn_currency = ''INR''\<rparr>"

definition nw_demo :: nw_db where
  "nw_demo = \<lparr>nw_accounts = [], nw_items = [], nw_cas = [], nw_snapshots = [nw_demo_snap 1 5 ''asset'' 40 7,
     nw_demo_snap 2 6 ''liability'' 3 2], nw_holdings = []\<rparr>"

lemma nw_demo_ok: "snapshots_ok nw_demo"
  by code_simp

theorem upserts_keep_snapshots_ok_witness:
  "snapshots_ok (upsert_account_snapshot 5 ''asset'' ''x'' 40 9 ''s'' ''INR'' nw_demo) \<and>
   map sn_value (nw_snapshots (upsert_account_snapshot 5 ''asset'' ''x'' 40 9 ''s'' ''INR'' nw_demo)) = [9, 2]"
proof
  show "snapshots_ok (upsert_account_snapshot 5 ''asset'' ''x'' 40 9 ''s'' ''INR'' nw_demo)"
    using upserts_keep_snapshots_ok [OF nw_demo_ok] by blast
  show "map sn_value (nw_snapshots (upsert_account_snapshot 5 ''asset'' ''x'' 40 9 ''s'' ''INR'' nw_demo)) = [9, 2]" by code_simp
qed

lemma nw_demo_months: "month_index 3 = 12" "month_index 41 = 13" "month_first 13 = 32" "month_first 14 = 60"
  by code_simp+

lemma nw_demo_live: "live_snapshots nw_demo = [nw_demo_snap 2 6 ''liability'' 3 2, nw_demo_snap 1 5 ''asset'' 40 7]"
  by code_simp

lemma nw_demo_worth: "ns_net_worth (current_networth nw_demo 31) = -2" "ns_net_worth (current_networth nw_demo 41) = 5"
  by code_simp+

theorem monthly_trend_refines_summary_witness:
  "monthly_trend relativedelta_ref nw_demo 41 = Some [(month_key 31, -2), (month_key 41, 5)]"
proof -
  have "distinct (map sn_id (nw_snapshots nw_demo))" by code_simp
  from monthly_trend_refines_summary [OF relativedelta_ref_doc this, of 41] show ?thesis
    by (simp add: nw_demo_live nw_demo_months nw_demo_worth upto_rec1 nw_demo_snap_def)
qed


theorem networth_groups_add_up_witness:
  "ns_total_assets (current_networth nw_demo 41) =
     sum_list (map g_total (filter (\<lambda>g. g_kind g = ''asset'') (ns_groups (current_networth nw_demo 41)))) \<and>
   map g_total (ns_groups (current_networth nw_demo 41)) = [7, 2]"
proof
  show "ns_total_assets (current_networth nw_demo 41) =
     sum_list (map g_total (filter (\<lambda>g. g_kind g = ''asset'') (ns_groups (current_networth nw_demo 41))))"
    using networth_groups_add_up [of nw_demo 41] unfolding Let_def by blast
  show "map g_total (ns_groups (current_networth nw_demo 41)) = [7, 2]" by code_simp
qed

end
