(* ===== verification/Cashflow.thy ===== *)
theory Cashflow
  imports Cat_Text Dates Group_By "HOL-Library.List_Lexorder" "HOL-Library.Char_ord" "HOL-Library.Product_Lexorder"
begin

text \<open>
  The cashflow report (\<open>services/cashflow\<close>): the account scopes of \<open>scope.py\<close>, the bucket of a
  category slug and its label of \<open>buckets.py\<close>, and the summary and the trend of \<open>report.py\<close>.
  A \<open>GROUP BY\<close> query is the grouping of the filtered rows by the key, groups in the order of
  their first row. The lemmas relate the figures to sums over the rows: the headline identity, the
  agreement of the trend with the summary, the partition into scopes.
\<close>

section \<open>\<open>scope.py\<close>\<close>

datatype scope = Bank_Scope | Card_Scope | Unaccounted_Scope

definition BANK_ACCOUNT_TYPES :: "string list" where
  "BANK_ACCOUNT_TYPES = [''bank_account'', ''debit_card'']"

definition CARD_ACCOUNT_TYPES :: "string list" where
  "CARD_ACCOUNT_TYPES = [CREDIT_CARD_ACCOUNT_TYPE]"

definition KNOWN_ACCOUNT_TYPES :: "string list" where
  "KNOWN_ACCOUNT_TYPES = BANK_ACCOUNT_TYPES @ CARD_ACCOUNT_TYPES"

definition linked_to :: "db \<Rightarrow> string list \<Rightarrow> transaction \<Rightarrow> bool" where
  "linked_to s types t \<longleftrightarrow> list_ex (\<lambda>a. t_account_id t = Some (a_id a) \<and> a_type a \<in> set types) (accounts s)"

definition in_scope :: "db \<Rightarrow> scope \<Rightarrow> transaction \<Rightarrow> bool" where
  "in_scope s sc t = (case sc of Bank_Scope \<Rightarrow> linked_to s BANK_ACCOUNT_TYPES t
     | Card_Scope \<Rightarrow> linked_to s CARD_ACCOUNT_TYPES t | Unaccounted_Scope \<Rightarrow> \<not> linked_to s KNOWN_ACCOUNT_TYPES t)"

section \<open>\<open>buckets.py\<close>\<close>

definition TRANSFERS_IN_SLUG :: string where "TRANSFERS_IN_SLUG = REPAYMENT_SLUG"
definition SELF_TRANSFER_SLUG :: string where "SELF_TRANSFER_SLUG = ''self_transfer''"
definition FAMILY_SLUG :: string where "FAMILY_SLUG = ''family''"

definition CONTRA_EXPENSE_SLUGS :: "string list" where
  "CONTRA_EXPENSE_SLUGS = [''refund'', ''cashback_rewards'', ''reimbursement'']"

definition INTERNAL_SLUGS :: "string list" where
  "INTERNAL_SLUGS = [SELF_TRANSFER_SLUG, CREDIT_CARD_PAYMENT_SLUG]"

definition BANK_INTERNAL_SLUGS :: "string list" where
  "BANK_INTERNAL_SLUGS = [SELF_TRANSFER_SLUG]"

definition INCOME_BUCKET :: "string list" where
  "INCOME_BUCKET = filter (\<lambda>s. s \<notin> set CONTRA_EXPENSE_SLUGS \<and> s \<noteq> ''investment_redemption'' \<and> s \<noteq> TRANSFERS_IN_SLUG) INCOME_SLUGS"

definition EXPENSE_BUCKET :: "string list" where
  "EXPENSE_BUCKET = EXPENSE_SLUGS @ CONTRA_EXPENSE_SLUGS @ [''cash_withdrawal'', ''misc'']"

definition INVESTMENT_BUCKET :: "string list" where
  "INVESTMENT_BUCKET = [''investment'', ''investment_redemption'']"

text \<open>The dictionary display: a later entry of a key replaces an earlier one.\<close>

definition BUCKET_BY_SLUG :: "string \<Rightarrow> string option" where
  "BUCKET_BY_SLUG slug =
     (if slug = FAMILY_SLUG then Some ''family''
      else if slug = TRANSFERS_IN_SLUG then Some ''transfers_in''
      else if slug \<in> set INTERNAL_SLUGS then Some ''internal''
      else if slug \<in> set INVESTMENT_BUCKET then Some ''investment''
      else if slug \<in> set EXPENSE_BUCKET then Some ''expense''
      else if slug \<in> set INCOME_BUCKET then Some ''income'' else None)"

definition bucket_for_slug :: "string option \<Rightarrow> scope option \<Rightarrow> string" where
  "bucket_for_slug slug sc =
     (if \<not> truthy slug \<or> slug = Some UNKNOWN_SLUG then ''uncategorized''
      else if sc = Some Bank_Scope \<and> slug = Some CREDIT_CARD_PAYMENT_SLUG then ''expense''
      else case BUCKET_BY_SLUG (or_empty slug) of None \<Rightarrow> ''uncategorized'' | Some b \<Rightarrow> b)"

definition internal_slugs_for_scope :: "scope option \<Rightarrow> string list" where
  "internal_slugs_for_scope sc = (if sc = Some Bank_Scope then BANK_INTERNAL_SLUGS else INTERNAL_SLUGS)"

definition LABEL_OVERRIDES :: "(string \<times> string) list" where
  "LABEL_OVERRIDES = [(CREDIT_CARD_PAYMENT_SLUG, ''Card bills''), (''emi_loan'', ''EMI / Loan''),
     (''cash_withdrawal'', ''Cash Withdrawal''), (''cashback_rewards'', ''Cashback Rewards''),
     (''fees_charges'', ''Fees & Charges''), (''charity_gift'', ''Charity & Gifts'')]"

text \<open>\<open>str.title\<close>: a cased character is in title case after an uncased one, in lower case otherwise.\<close>

definition is_cased :: "char \<Rightarrow> bool" where
  "is_cased c \<longleftrightarrow> is_alnum c \<and> (let n = code c in \<not> (48 \<le> n \<and> n \<le> 57) \<and> n \<notin> {178, 179, 185, 188, 189, 190})"

fun title_from :: "bool \<Rightarrow> string \<Rightarrow> string" where
  "title_from after_cased [] = []"
| "title_from after_cased (c # cs) = (if after_cased then [lower_ch c] else if code c = 223 then ''Ss'' else upper_ch c) @
     title_from (is_cased c) cs"

definition label_for_slug :: "string option \<Rightarrow> string" where
  "label_for_slug slug = (case slug of None \<Rightarrow> ''(uncategorized)''
     | Some s \<Rightarrow> (case dict_get LABEL_OVERRIDES s of
         Some l \<Rightarrow> l
       | None \<Rightarrow> if BUCKET_BY_SLUG s = None \<and> s \<noteq> UNKNOWN_SLUG then ''unmapped: '' @ s
           else title_from False (map (\<lambda>c. if c = CHR ''_'' then CHR '' '' else c) s)))"

section \<open>The predicates of \<open>report.py\<close>\<close>

definition REPORT_SCOPE :: scope where "REPORT_SCOPE = Bank_Scope"

definition inr_or_null :: "transaction \<Rightarrow> bool" where
  "inr_or_null t \<longleftrightarrow> t_currency t = None \<or> t_currency t = Some ''INR''"

definition non_inr :: "transaction \<Rightarrow> bool" where
  "non_inr t \<longleftrightarrow> t_currency t \<noteq> None \<and> t_currency t \<noteq> Some ''INR''"

definition included :: "transaction \<Rightarrow> bool" where
  "included t \<longleftrightarrow> t_exclude_from_cashflow t \<noteq> Some True"

definition excluded :: "transaction \<Rightarrow> bool" where
  "excluded t \<longleftrightarrow> t_exclude_from_cashflow t = Some True"

definition in_range :: "date \<Rightarrow> date \<Rightarrow> transaction \<Rightarrow> bool" where
  "in_range lo hi t \<longleftrightarrow> (case t_transaction_date t of None \<Rightarrow> False | Some d \<Rightarrow> lo \<le> d \<and> d \<le> hi)"

definition signed_flow :: "transaction \<Rightarrow> rat" where
  "signed_flow t = (if t_direction t = ''credit'' then t_amount t else - t_amount t)"

definition flow :: "transaction list \<Rightarrow> rat" where
  "flow ts = sum_list (map signed_flow ts)"

definition gross :: "transaction list \<Rightarrow> rat" where
  "gross ts = sum_list (map t_amount ts)"

definition BLANK_CHARS :: "nat list" where
  "BLANK_CHARS = [32, 9, 10, 13, 11, 12]"

definition blank :: "string option \<Rightarrow> bool" where
  "blank x \<longleftrightarrow> list_all (\<lambda>c. code c \<in> set BLANK_CHARS) (or_empty x)"

definition normalized :: "string option \<Rightarrow> string option" where
  "normalized x = (if blank x then None else x)"

definition uncategorized_row :: "transaction \<Rightarrow> bool" where
  "uncategorized_row t \<longleftrightarrow> blank (t_category t) \<or> t_category t = Some UNKNOWN_SLUG \<or>
     (case t_category t of None \<Rightarrow> False | Some s \<Rightarrow> BUCKET_BY_SLUG s = None)"

text \<open>The rows of the headline figures.\<close>

definition report_row :: "db \<Rightarrow> date \<Rightarrow> date \<Rightarrow> transaction \<Rightarrow> bool" where
  "report_row s lo hi t \<longleftrightarrow> in_range lo hi t \<and> inr_or_null t \<and> in_scope s REPORT_SCOPE t \<and> included t"

section \<open>The summary\<close>

record category_line =
  cl_slug :: "string option"
  cl_label :: string
  cl_total :: rat
  cl_count :: nat
  cl_kind :: "string option"

record counterparty_line =
  pl_counterparty :: "string option"
  pl_label :: string
  pl_total :: rat
  pl_count :: nat

record bucket_summary =
  bs_total :: rat
  bs_count :: nat
  bs_lines :: "category_line list"

record investment_summary =
  is_contributions :: rat
  is_redemptions :: rat
  is_net :: rat
  is_count :: nat
  is_lines :: "category_line list"

record transfers_summary =
  ts_total :: rat
  ts_count :: nat
  ts_lines :: "counterparty_line list"

record footnotes =
  fn_internal :: "nat \<times> rat \<times> rat"
  fn_non_inr :: nat
  fn_undated :: "nat \<times> rat"
  fn_unaccounted :: "nat \<times> rat"
  fn_family :: "nat \<times> rat"
  fn_excluded :: "nat \<times> rat \<times> rat"

record cashflow_report =
  cf_income :: bucket_summary
  cf_expense :: bucket_summary
  cf_expense_detail :: bucket_summary
  cf_investment :: investment_summary
  cf_transfers_in :: transfers_summary
  cf_uncategorized :: bucket_summary
  cf_net_cash_retained :: rat
  cf_footnotes :: footnotes

type_synonym lines = "(string option \<times> category_line) list"

definition merge_line :: "lines \<Rightarrow> string option \<Rightarrow> rat \<Rightarrow> nat \<Rightarrow> lines" where
  "merge_line ls slug amt n = dict_put ls slug (case dict_get ls slug of
     None \<Rightarrow> \<lparr>cl_slug = slug, cl_label = label_for_slug slug, cl_total = amt, cl_count = n, cl_kind = None\<rparr>
   | Some l \<Rightarrow> l\<lparr>cl_total := cl_total l + amt, cl_count := cl_count l + n\<rparr>)"

definition by_magnitude :: "category_line list \<Rightarrow> category_line list" where
  "by_magnitude = sort_key (\<lambda>l. (- \<bar>cl_total l\<bar>, cl_label l))"

definition bucket_of_lines :: "category_line list \<Rightarrow> bucket_summary" where
  "bucket_of_lines ls = \<lparr>bs_total = sum_list (map cl_total ls), bs_count = sum_list (map cl_count ls), bs_lines = ls\<rparr>"

type_synonym grouped = "((string option \<times> string) \<times> transaction list) list"

definition headline_step :: "lines \<times> lines \<times> category_line list \<Rightarrow> (string option \<times> string) \<times> transaction list \<Rightarrow>
    lines \<times> lines \<times> category_line list" where
  "headline_step st g = (case (st, g) of ((income, expense, investment), ((slug, direction), rows)) \<Rightarrow>
     let signed = flow rows; bucket = bucket_for_slug slug (Some REPORT_SCOPE) in
     if bucket = ''income'' then (merge_line income slug signed (length rows), expense, investment)
     else if bucket = ''expense'' then (income, merge_line expense slug (- signed) (length rows), investment)
     else if bucket = ''investment'' then (income, expense, investment @
       [\<lparr>cl_slug = slug, cl_label = label_for_slug slug, cl_total = - signed, cl_count = length rows,
         cl_kind = Some (if direction = ''debit'' then ''contribution'' else ''redemption'')\<rparr>])
     else (income, expense, investment))"

definition transfers_in :: "db \<Rightarrow> date \<Rightarrow> date \<Rightarrow> transfers_summary" where
  "transfers_in s lo hi =
     (let ls = sort_key (\<lambda>l. (- \<bar>pl_total l\<bar>, pl_label l)) (map (\<lambda>(cp, rows).
            \<lparr>pl_counterparty = cp, pl_label = (if truthy cp then or_empty cp else ''(no counterparty)''),
             pl_total = flow rows, pl_count = length rows\<rparr>)
          (group_by (\<lambda>t. normalized (t_counterparty t)) id
            (filter (\<lambda>t. report_row s lo hi t \<and> t_category t = Some TRANSFERS_IN_SLUG) (transactions s))))
      in \<lparr>ts_total = sum_list (map pl_total ls), ts_count = sum_list (map pl_count ls), ts_lines = ls\<rparr>)"

definition uncategorized :: "db \<Rightarrow> date \<Rightarrow> date \<Rightarrow> bucket_summary" where
  "uncategorized s lo hi = bucket_of_lines (by_magnitude (map (\<lambda>(slug, rows).
       \<lparr>cl_slug = slug, cl_label = label_for_slug slug, cl_total = flow rows, cl_count = length rows, cl_kind = None\<rparr>)
     (group_by (\<lambda>t. normalized (t_category t)) id
       (filter (\<lambda>t. in_range lo hi t \<and> in_scope s Bank_Scope t \<and> included t \<and> uncategorized_row t) (transactions s)))))"

definition expense_detail :: "db \<Rightarrow> date \<Rightarrow> date \<Rightarrow> bucket_summary" where
  "expense_detail s lo hi = bucket_of_lines (by_magnitude (map snd (foldl (\<lambda>ls (slug, rows).
       if bucket_for_slug slug None = ''expense'' then merge_line ls slug (- flow rows) (length rows) else ls) []
     (group_by t_category id (filter (\<lambda>t. in_range lo hi t \<and> inr_or_null t \<and> included t) (transactions s))))))"

definition footnotes_of :: "db \<Rightarrow> date \<Rightarrow> date \<Rightarrow> footnotes" where
  "footnotes_of s lo hi =
     (let internal = filter (\<lambda>t. in_range lo hi t \<and> in_scope s Bank_Scope t \<and> included t \<and>
            (case t_category t of None \<Rightarrow> False | Some c \<Rightarrow> c \<in> set (internal_slugs_for_scope (Some REPORT_SCOPE)))) (transactions s);
          undated = filter (\<lambda>t. t_transaction_date t = None) (transactions s);
          unaccounted = filter (\<lambda>t. in_range lo hi t \<and> included t \<and> in_scope s Unaccounted_Scope t) (transactions s);
          family = filter (\<lambda>t. in_range lo hi t \<and> included t \<and> t_category t = Some FAMILY_SLUG) (transactions s);
          out = filter (\<lambda>t. in_range lo hi t \<and> excluded t) (transactions s)
      in \<lparr>fn_internal = (length internal, gross internal, flow internal),
          fn_non_inr = length (filter (\<lambda>t. in_range lo hi t \<and> in_scope s Bank_Scope t \<and> included t \<and> non_inr t) (transactions s)),
          fn_undated = (length undated, flow undated), fn_unaccounted = (length unaccounted, flow unaccounted),
          fn_family = (length family, flow family), fn_excluded = (length out, gross out, flow out)\<rparr>)"

definition cashflow_summary :: "db \<Rightarrow> date \<Rightarrow> date \<Rightarrow> cashflow_report" where
  "cashflow_summary s lo hi =
     (let grouped = group_by (\<lambda>t. (t_category t, t_direction t)) id (filter (report_row s lo hi) (transactions s));
          (income, expense, investment) = foldl headline_step ([], [], []) grouped;
          income_lines = by_magnitude (map snd income);
          expense_lines = by_magnitude (map snd expense);
          investment_lines = by_magnitude investment;
          contributions = sum_list (map cl_total (filter (\<lambda>l. cl_kind l = Some ''contribution'') investment_lines));
          redemptions = - sum_list (map cl_total (filter (\<lambda>l. cl_kind l = Some ''redemption'') investment_lines));
          investment_summary = \<lparr>is_contributions = contributions, is_redemptions = redemptions,
            is_net = contributions - redemptions, is_count = sum_list (map cl_count investment_lines), is_lines = investment_lines\<rparr>;
          tin = transfers_in s lo hi;
          income_summary = bucket_of_lines income_lines;
          expense_summary = bucket_of_lines expense_lines
      in \<lparr>cf_income = income_summary, cf_expense = expense_summary, cf_expense_detail = expense_detail s lo hi,
          cf_investment = investment_summary, cf_transfers_in = tin, cf_uncategorized = uncategorized s lo hi,
          cf_net_cash_retained = bs_total income_summary + ts_total tin - bs_total expense_summary - is_net investment_summary,
          cf_footnotes = footnotes_of s lo hi\<rparr>)"

section \<open>The trend\<close>

definition MAX_TREND_MONTHS :: int where "MAX_TREND_MONTHS = 60"

record trend_point =
  tp_month :: string
  tp_income :: rat
  tp_expense :: rat
  tp_net_invested :: rat
  tp_salary_count :: nat

definition clamp_months :: "int \<Rightarrow> int" where
  "clamp_months months = max 1 (min months MAX_TREND_MONTHS)"

text \<open>Both ends are dates here; the code formats them.\<close>

definition trend_ranges :: "(date \<Rightarrow> int \<Rightarrow> int \<Rightarrow> date) \<Rightarrow> int \<Rightarrow> date \<Rightarrow> (string \<times> date \<times> date) list" where
  "trend_ranges rd months today = foldl (\<lambda>d start. dict_put d (month_key start) (start, min (month_end rd start) today)) []
     (trailing_month_starts rd today (clamp_months months))"

text \<open>\<open>strftime('%Y-%m', transaction_date)\<close>, NULL for an undated row.\<close>

definition row_month :: "transaction \<Rightarrow> string option" where
  "row_month t = map_option month_key (t_transaction_date t)"

type_synonym points = "(string \<times> trend_point) list"

text \<open>\<open>points[month]\<close> raises \<open>KeyError\<close>, here \<open>None\<close>, for a month that was not seeded.\<close>

definition at_month :: "points \<Rightarrow> string option \<Rightarrow> (trend_point \<Rightarrow> trend_point) \<Rightarrow> points option" where
  "at_month ps month f = (case month of None \<Rightarrow> None
     | Some m \<Rightarrow> (case dict_get ps m of None \<Rightarrow> None | Some p \<Rightarrow> Some (dict_put ps m (f p))))"

definition add_group :: "string option \<Rightarrow> rat \<Rightarrow> trend_point \<Rightarrow> trend_point" where
  "add_group slug signed p = (let bucket = bucket_for_slug slug (Some REPORT_SCOPE) in
     if bucket = ''income'' then p\<lparr>tp_income := tp_income p + signed\<rparr>
     else if bucket = ''expense'' then p\<lparr>tp_expense := tp_expense p + - signed\<rparr>
     else if bucket = ''investment'' then p\<lparr>tp_net_invested := tp_net_invested p + - signed\<rparr>
     else p)"

fun add_flows :: "((string option \<times> string option \<times> string) \<times> transaction list) list \<Rightarrow> points \<Rightarrow> points option" where
  "add_flows [] ps = Some ps"
| "add_flows (((month, slug, direction), rows) # gs) ps =
     Option.bind (at_month ps month (add_group slug (flow rows))) (add_flows gs)"

fun add_salaries :: "(string option \<times> transaction list) list \<Rightarrow> points \<Rightarrow> points option" where
  "add_salaries [] ps = Some ps"
| "add_salaries ((month, rows) # gs) ps =
     Option.bind (at_month ps month (\<lambda>p. p\<lparr>tp_salary_count := length rows\<rparr>)) (add_salaries gs)"

definition zero_point :: "string \<Rightarrow> trend_point" where
  "zero_point key = \<lparr>tp_month = key, tp_income = 0, tp_expense = 0, tp_net_invested = 0, tp_salary_count = 0\<rparr>"

definition cashflow_trend :: "(date \<Rightarrow> int \<Rightarrow> int \<Rightarrow> date) \<Rightarrow> db \<Rightarrow> int \<Rightarrow> date \<Rightarrow> trend_point list option" where
  "cashflow_trend rd s months today =
     (let window = trailing_month_starts rd today (clamp_months months);
          groups = group_by (\<lambda>t. (row_month t, t_category t, t_direction t)) id
            (filter (report_row s (hd window) today) (transactions s));
          salaries = group_by row_month id (filter (\<lambda>t. in_range (hd window) today t \<and> in_scope s Bank_Scope t \<and> included t \<and>
            t_category t = Some ''salary'') (transactions s));
          keys = map month_key window;
          points = foldl (\<lambda>d k. dict_put d k (zero_point k)) [] keys
      in Option.bind (add_flows groups points) (\<lambda>ps. Option.bind (add_salaries salaries ps)
           (\<lambda>ps. those (map (dict_get ps) keys))))"

section \<open>Buckets\<close>

lemma transfers_mapped: "BUCKET_BY_SLUG s = Some ''transfers_in'' \<longleftrightarrow> s = TRANSFERS_IN_SLUG"
proof -
  have "TRANSFERS_IN_SLUG \<noteq> FAMILY_SLUG" by code_simp
  then show ?thesis by (simp add: BUCKET_BY_SLUG_def)
qed

lemma mapped_buckets:
  "BUCKET_BY_SLUG slug \<in> {None, Some ''family'', Some ''transfers_in'', Some ''internal'', Some ''investment'', Some ''expense'', Some ''income''}"
  by (simp add: BUCKET_BY_SLUG_def)

lemma bucket_transfers: "bucket_for_slug slug sc = ''transfers_in'' \<longleftrightarrow> slug = Some TRANSFERS_IN_SLUG"
proof (cases slug)
  case (Some c)
  have "TRANSFERS_IN_SLUG \<noteq> []" "TRANSFERS_IN_SLUG \<noteq> UNKNOWN_SLUG" "TRANSFERS_IN_SLUG \<noteq> CREDIT_CARD_PAYMENT_SLUG" by code_simp+
  then show ?thesis using Some transfers_mapped [of c] by (cases "BUCKET_BY_SLUG c") (auto simp: bucket_for_slug_def truthy_def)
qed (simp add: bucket_for_slug_def)

lemma blank_unmapped:
  assumes "blank (Some s)"
  shows "BUCKET_BY_SLUG s = None" "s \<noteq> CREDIT_CARD_PAYMENT_SLUG"
proof -
  have known: "list_all (\<lambda>s. \<not> blank (Some s)) (FAMILY_SLUG # TRANSFERS_IN_SLUG # INTERNAL_SLUGS @ INVESTMENT_BUCKET @ EXPENSE_BUCKET @ INCOME_BUCKET)"
    by code_simp
  then show "BUCKET_BY_SLUG s = None" using assms by (auto simp: BUCKET_BY_SLUG_def list_all_iff)
  show "s \<noteq> CREDIT_CARD_PAYMENT_SLUG" using known assms by (auto simp: INTERNAL_SLUGS_def)
qed

text \<open>The SQL test and the Python bucket agree. A row satisfies the uncategorized predicate of the
  queries exactly when the bucket map puts its category on the uncategorized line, in every scope.\<close>

theorem uncategorized_agrees: "uncategorized_row t \<longleftrightarrow> bucket_for_slug (t_category t) sc = ''uncategorized''"
proof (cases "t_category t")
  case None
  then show ?thesis by (simp add: uncategorized_row_def bucket_for_slug_def blank_def)
next
  case (Some c)
  have range: "BUCKET_BY_SLUG c \<noteq> Some ''uncategorized''" by (simp add: BUCKET_BY_SLUG_def)
  have card: "BUCKET_BY_SLUG CREDIT_CARD_PAYMENT_SLUG \<noteq> None" "CREDIT_CARD_PAYMENT_SLUG \<noteq> UNKNOWN_SLUG" by code_simp+
  have empty: "blank (Some [])" by (simp add: blank_def)
  show ?thesis using Some range card empty blank_unmapped [of c]
    by (cases "c = []") (auto simp: uncategorized_row_def bucket_for_slug_def truthy_def split: option.split)
qed

section \<open>Sums over the groups\<close>

lemma sum_dict_put:
  fixes f :: "'v \<Rightarrow> rat"
  shows "sum_list (map (f \<circ> snd) (dict_put d k v)) =
    sum_list (map (f \<circ> snd) d) + f v - (case dict_get d k of None \<Rightarrow> 0 | Some w \<Rightarrow> f w)"
  by (induction d k v rule: dict_put.induct) auto

lemma merge_line_total: "sum_list (map (cl_total \<circ> snd) (merge_line ls slug amt n)) = sum_list (map (cl_total \<circ> snd) ls) + amt"
  unfolding merge_line_def sum_dict_put by (simp split: option.split)

text \<open>The flow of the groups of one bucket.\<close>

definition bucket_flow :: "string \<Rightarrow> (string option \<times> string) \<times> transaction list \<Rightarrow> rat" where
  "bucket_flow b g = (if bucket_for_slug (fst (fst g)) (Some REPORT_SCOPE) = b then flow (snd g) else 0)"

definition kinds_ok :: "category_line list \<Rightarrow> bool" where
  "kinds_ok ls \<longleftrightarrow> list_all (\<lambda>l. cl_kind l = Some ''contribution'' \<or> cl_kind l = Some ''redemption'') ls"

definition headline_ok :: "lines \<times> lines \<times> category_line list \<Rightarrow> rat \<Rightarrow> rat \<Rightarrow> rat \<Rightarrow> bool" where
  "headline_ok st x y z \<longleftrightarrow> (case st of (income, expense, investment) \<Rightarrow>
     sum_list (map (cl_total \<circ> snd) income) = x \<and> sum_list (map (cl_total \<circ> snd) expense) = - y \<and>
     sum_list (map cl_total investment) = - z \<and> kinds_ok investment)"

lemma headline_step_ok:
  assumes "headline_ok st x y z"
  shows "headline_ok (headline_step st g) (x + bucket_flow ''income'' g) (y + bucket_flow ''expense'' g) (z + bucket_flow ''investment'' g)"
proof -
  obtain i e v where st: "st = (i, e, v)" by (metis prod_cases3)
  obtain slug direction rows where g: "g = ((slug, direction), rows)" by (metis prod.collapse)
  let ?b = "bucket_for_slug slug (Some REPORT_SCOPE)"
  consider "?b = ''income''" | "?b = ''expense''" | "?b = ''investment''" | "?b \<notin> {''income'', ''expense'', ''investment''}" by blast
  then show ?thesis
  proof cases
    case 1
    then show ?thesis using assms by (simp add: st g headline_ok_def headline_step_def Let_def bucket_flow_def merge_line_total)
  next
    case 2
    then show ?thesis using assms by (simp add: st g headline_ok_def headline_step_def Let_def bucket_flow_def merge_line_total)
  next
    case 3
    then show ?thesis using assms by (simp add: st g headline_ok_def headline_step_def Let_def bucket_flow_def kinds_ok_def)
  next
    case 4
    then show ?thesis using assms by (simp add: st g headline_ok_def headline_step_def Let_def bucket_flow_def)
  qed
qed

lemma headline_fold:
  "headline_ok st x y z \<Longrightarrow> headline_ok (foldl headline_step st gs) (x + sum_list (map (bucket_flow ''income'') gs))
     (y + sum_list (map (bucket_flow ''expense'') gs)) (z + sum_list (map (bucket_flow ''investment'') gs))"
proof (induction gs arbitrary: st x y z)
  case (Cons g gs)
  show ?case using Cons.IH [OF headline_step_ok [OF Cons.prems, of g]] by (simp add: add.assoc)
qed simp

lemma grouped_flow:
  "sum_list (map (bucket_flow b) (group_by (\<lambda>t. (t_category t, t_direction t)) id rows)) =
   flow (filter (\<lambda>t. bucket_for_slug (t_category t) (Some REPORT_SCOPE) = b) rows)"
proof -
  let ?P = "\<lambda>k :: string option \<times> string. bucket_for_slug (fst k) (Some REPORT_SCOPE) = b"
  let ?k = "\<lambda>t. (t_category t, t_direction t)"
  have "map (bucket_flow b) gs = map (\<lambda>g. if (?P \<circ> fst) g then flow (snd g) else 0) gs" for gs
    by (simp add: bucket_flow_def)
  then have "sum_list (map (bucket_flow b) (group_by ?k id rows)) =
      sum_list (map (\<lambda>g. flow (snd g)) (filter (?P \<circ> fst) (group_by ?k id rows)))" by (simp only: sum_filter)
  also have "\<dots> = flow (filter (?P \<circ> ?k) rows)"
    using sum_groups [of signed_flow ?P ?k id rows] by (simp add: flow_def case_prod_beta')
  finally show ?thesis by (simp add: comp_def)
qed

section \<open>The headline figures\<close>

definition bucket_rows :: "db \<Rightarrow> date \<Rightarrow> date \<Rightarrow> string \<Rightarrow> transaction list" where
  "bucket_rows s lo hi b = filter (\<lambda>t. report_row s lo hi t \<and> bucket_for_slug (t_category t) (Some REPORT_SCOPE) = b) (transactions s)"

lemma bucket_rows_filter:
  "filter (\<lambda>t. bucket_for_slug (t_category t) (Some REPORT_SCOPE) = b) (filter (report_row s lo hi) (transactions s)) = bucket_rows s lo hi b"
  by (simp add: bucket_rows_def conj_commute)

lemma kinds_split:
  "kinds_ok ls \<Longrightarrow> sum_list (map cl_total (filter (\<lambda>l. cl_kind l = Some ''contribution'') ls)) +
     sum_list (map cl_total (filter (\<lambda>l. cl_kind l = Some ''redemption'') ls)) = sum_list (map cl_total ls)"
  by (induction ls) (auto simp: kinds_ok_def)

lemma mset_by_magnitude [simp]: "mset (by_magnitude ls) = mset ls"
  by (simp add: by_magnitude_def)

lemma kinds_by_magnitude [simp]: "kinds_ok (by_magnitude ls) = kinds_ok ls"
  by (simp add: kinds_ok_def list_all_iff by_magnitude_def)

lemma transfers_total: "ts_total (transfers_in s lo hi) = flow (bucket_rows s lo hi ''transfers_in'')"
proof -
  let ?rows = "filter (\<lambda>t. report_row s lo hi t \<and> t_category t = Some TRANSFERS_IN_SLUG) (transactions s)"
  let ?G = "group_by (\<lambda>t. normalized (t_counterparty t)) id ?rows"
  let ?line = "\<lambda>(cp, rows). \<lparr>pl_counterparty = cp, pl_label = (if truthy cp then or_empty cp else ''(no counterparty)''),
             pl_total = flow rows, pl_count = length rows\<rparr>"
  have "ts_total (transfers_in s lo hi) = sum_list (map pl_total (map ?line ?G))"
    unfolding transfers_in_def Let_def transfers_summary.simps by (rule sum_list_mset_eq) simp
  also have "\<dots> = sum_list (map (\<lambda>(key, rows). sum_list (map signed_flow rows)) (filter ((\<lambda>_. True) \<circ> fst) ?G))"
    by (simp add: comp_def case_prod_beta' flow_def)
  also have "\<dots> = flow ?rows" unfolding sum_groups by (simp add: flow_def comp_def)
  finally show ?thesis by (simp add: bucket_rows_def bucket_transfers)
qed

lemma summary_totals:
  "bs_total (cf_income (cashflow_summary s lo hi)) = flow (bucket_rows s lo hi ''income'')"
  "bs_total (cf_expense (cashflow_summary s lo hi)) = - flow (bucket_rows s lo hi ''expense'')"
  "is_net (cf_investment (cashflow_summary s lo hi)) = - flow (bucket_rows s lo hi ''investment'')"
  "cf_net_cash_retained (cashflow_summary s lo hi) = flow (bucket_rows s lo hi ''income'') + flow (bucket_rows s lo hi ''expense'') +
     flow (bucket_rows s lo hi ''investment'') + flow (bucket_rows s lo hi ''transfers_in'')"
proof -
  let ?G = "group_by (\<lambda>t. (t_category t, t_direction t)) id (filter (report_row s lo hi) (transactions s))"
  obtain i e v where fold: "foldl headline_step ([], [], []) ?G = (i, e, v)"
    by (rule prod_cases3 [of "foldl headline_step ([], [], []) ?G"])
  have "headline_ok ([], [], []) 0 0 0" by (simp add: headline_ok_def kinds_ok_def)
  then have ok: "sum_list (map (cl_total \<circ> snd) i) = flow (bucket_rows s lo hi ''income'')"
    "sum_list (map (cl_total \<circ> snd) e) = - flow (bucket_rows s lo hi ''expense'')"
    "sum_list (map cl_total v) = - flow (bucket_rows s lo hi ''investment'')" "kinds_ok v"
    using headline_fold [of "([], [], [])" 0 0 0 ?G] unfolding fold grouped_flow bucket_rows_filter by (simp_all add: headline_ok_def)
  have sums: "sum_list (map cl_total (by_magnitude ls)) = sum_list (map cl_total ls)" for ls
    by (rule sum_list_mset_eq) simp
  note unfold = cashflow_summary_def Let_def fold prod.case cashflow_report.simps bucket_of_lines_def bucket_summary.simps investment_summary.simps
  show inc: "bs_total (cf_income (cashflow_summary s lo hi)) = flow (bucket_rows s lo hi ''income'')"
    unfolding unfold sums using ok(1) by (simp add: comp_def)
  show exp: "bs_total (cf_expense (cashflow_summary s lo hi)) = - flow (bucket_rows s lo hi ''expense'')"
    unfolding unfold sums using ok(2) by (simp add: comp_def)
  show inv: "is_net (cf_investment (cashflow_summary s lo hi)) = - flow (bucket_rows s lo hi ''investment'')"
    unfolding unfold using kinds_split [of "by_magnitude v"] ok(3,4) sums [of v] by simp
  show "cf_net_cash_retained (cashflow_summary s lo hi) = flow (bucket_rows s lo hi ''income'') + flow (bucket_rows s lo hi ''expense'') +
     flow (bucket_rows s lo hi ''investment'') + flow (bucket_rows s lo hi ''transfers_in'')"
    using inc exp inv transfers_total [of s lo hi] unfolding unfold by simp
qed

lemma flow_filter: "flow (filter P ts) = sum_list (map (\<lambda>t. if P t then signed_flow t else 0) ts)"
  by (simp add: flow_def sum_filter)

text \<open>C40. The headline accounts for every rupee that moved through the bank. Over any range, the net cash
  retained plus the flow of the rows on the internal, family and uncategorized lines is the flow of
  all included INR rows of the bank scope: no row is counted twice and none vanishes.\<close>

theorem cashflow_reconciles:
  "cf_net_cash_retained (cashflow_summary s lo hi) +
     flow (filter (\<lambda>t. report_row s lo hi t \<and>
       bucket_for_slug (t_category t) (Some Bank_Scope) \<in> {''internal'', ''family'', ''uncategorized''}) (transactions s)) =
   flow (filter (report_row s lo hi) (transactions s))"
proof -
  have cases: "bucket_for_slug c (Some Bank_Scope) \<in> {''income'', ''expense'', ''investment'', ''transfers_in'', ''internal'', ''family'', ''uncategorized''}" for c
  proof (cases c)
    case (Some slug)
    then show ?thesis using mapped_buckets [of slug] by (auto simp: bucket_for_slug_def)
  qed (simp add: bucket_for_slug_def)
  let ?in = "\<lambda>b t. if report_row s lo hi t \<and> bucket_for_slug (t_category t) (Some Bank_Scope) = b then signed_flow t else 0"
  have split: "?in ''income'' t + ?in ''expense'' t + ?in ''investment'' t + ?in ''transfers_in'' t +
      (if report_row s lo hi t \<and> bucket_for_slug (t_category t) (Some Bank_Scope) \<in> {''internal'', ''family'', ''uncategorized''} then signed_flow t else 0) =
      (if report_row s lo hi t then signed_flow t else 0)" for t
    using cases [of "t_category t"] by auto
  show ?thesis
    unfolding summary_totals bucket_rows_def flow_filter REPORT_SCOPE_def sum_list_addf [symmetric] split ..
qed

section \<open>The three scopes partition the rows\<close>

lemma unique_of_three:
  fixes F :: "scope \<Rightarrow> bool"
  assumes "F Unaccounted_Scope \<longleftrightarrow> \<not> F Bank_Scope \<and> \<not> F Card_Scope" "\<not> (F Bank_Scope \<and> F Card_Scope)"
  shows "\<exists>!sc. F sc"
proof -
  have ex: "\<exists>sc. F sc" using assms by blast
  have "a = b" if "F a" "F b" for a b using that assms by (cases a; cases b) simp_all
  then show ?thesis using ex by blast
qed

lemma scopes_partition:
  assumes "keys_ok s"
  shows "\<exists>!sc. in_scope s sc t"
proof -
  have one: "a = b" if "a \<in> set (accounts s)" "b \<in> set (accounts s)" "t_account_id t = Some (a_id a)" "t_account_id t = Some (a_id b)" for a b
    using keys_ok_account_eq [OF assms that(1,2)] that(3,4) by simp
  have apart: "set BANK_ACCOUNT_TYPES \<inter> set CARD_ACCOUNT_TYPES = {}"
    by (simp add: BANK_ACCOUNT_TYPES_def CARD_ACCOUNT_TYPES_def CREDIT_CARD_ACCOUNT_TYPE_def)
  have "\<not> (linked_to s BANK_ACCOUNT_TYPES t \<and> linked_to s CARD_ACCOUNT_TYPES t)"
  proof
    assume both: "linked_to s BANK_ACCOUNT_TYPES t \<and> linked_to s CARD_ACCOUNT_TYPES t"
    obtain a where a: "a \<in> set (accounts s)" "t_account_id t = Some (a_id a)" "a_type a \<in> set BANK_ACCOUNT_TYPES"
      using both by (auto simp: linked_to_def list_ex_iff)
    obtain b where b: "b \<in> set (accounts s)" "t_account_id t = Some (a_id b)" "a_type b \<in> set CARD_ACCOUNT_TYPES"
      using both by (auto simp: linked_to_def list_ex_iff)
    from one [OF a(1) b(1) a(2) b(2)] a(3) b(3) apart show False by blast
  qed
  moreover have "linked_to s KNOWN_ACCOUNT_TYPES t \<longleftrightarrow> linked_to s BANK_ACCOUNT_TYPES t \<or> linked_to s CARD_ACCOUNT_TYPES t"
    by (auto simp: linked_to_def list_ex_iff KNOWN_ACCOUNT_TYPES_def)
  ultimately have rest: "in_scope s Unaccounted_Scope t \<longleftrightarrow> \<not> in_scope s Bank_Scope t \<and> \<not> in_scope s Card_Scope t"
    and one: "\<not> (in_scope s Bank_Scope t \<and> in_scope s Card_Scope t)" by (simp_all add: in_scope_def)
  show ?thesis by (rule unique_of_three [OF rest one])
qed

section \<open>The trend agrees with the summary\<close>

lemma keys_dict_put: "dict_get d k \<noteq> None \<Longrightarrow> map fst (dict_put d k v) = map fst d"
  by (induction d k v rule: dict_put.induct) (auto split: if_splits)

text \<open>What the group of a month adds to a figure of its point.\<close>

definition month_flow :: "string \<Rightarrow> string \<Rightarrow> (string option \<times> string option \<times> string) \<times> transaction list \<Rightarrow> rat" where
  "month_flow m b g = (if fst (fst g) = Some m \<and> bucket_for_slug (fst (snd (fst g))) (Some REPORT_SCOPE) = b then flow (snd g) else 0)"

definition figures :: "trend_point \<Rightarrow> string \<times> rat \<times> rat \<times> rat" where
  "figures p = (tp_month p, tp_income p, tp_expense p, tp_net_invested p)"

lemma add_group_figures:
  "figures (add_group slug x p) = (tp_month p,
     tp_income p + (if bucket_for_slug slug (Some REPORT_SCOPE) = ''income'' then x else 0),
     tp_expense p - (if bucket_for_slug slug (Some REPORT_SCOPE) = ''expense'' then x else 0),
     tp_net_invested p - (if bucket_for_slug slug (Some REPORT_SCOPE) = ''investment'' then x else 0))"
  by (simp add: figures_def add_group_def Let_def)

lemma add_flows_spec:
  assumes "\<forall>g \<in> set gs. \<exists>m. fst (fst g) = Some m \<and> dict_get ps m \<noteq> None"
  shows "\<exists>ps'. add_flows gs ps = Some ps' \<and> map fst ps' = map fst ps \<and> (\<forall>m p. dict_get ps m = Some p \<longrightarrow>
    (\<exists>q. dict_get ps' m = Some q \<and> figures q = (tp_month p, tp_income p + sum_list (map (month_flow m ''income'') gs),
       tp_expense p - sum_list (map (month_flow m ''expense'') gs),
       tp_net_invested p - sum_list (map (month_flow m ''investment'') gs))))"
  using assms
proof (induction gs arbitrary: ps)
  case (Cons g gs)
  obtain month slug direction rows where g: "g = ((month, slug, direction), rows)" by (metis prod.collapse)
  obtain m0 p0 where m0: "month = Some m0" "dict_get ps m0 = Some p0" using Cons.prems g by auto
  let ?ps = "dict_put ps m0 (add_group slug (flow rows) p0)"
  have "dict_get ?ps m \<noteq> None" if "dict_get ps m \<noteq> None" for m using that by simp
  then have "\<forall>g \<in> set gs. \<exists>m. fst (fst g) = Some m \<and> dict_get ?ps m \<noteq> None" using Cons.prems by fastforce
  from Cons.IH [OF this] obtain ps' where ps': "add_flows gs ?ps = Some ps'" "map fst ps' = map fst ?ps"
    "\<And>m p. dict_get ?ps m = Some p \<Longrightarrow> \<exists>q. dict_get ps' m = Some q \<and>
       figures q = (tp_month p, tp_income p + sum_list (map (month_flow m ''income'') gs),
         tp_expense p - sum_list (map (month_flow m ''expense'') gs), tp_net_invested p - sum_list (map (month_flow m ''investment'') gs))"
    by blast
  have mf: "month_flow m0 b g = (if bucket_for_slug slug (Some REPORT_SCOPE) = b then flow rows else 0)" for b
    by (simp add: month_flow_def g m0(1))
  have "add_flows (g # gs) ps = Some ps'" using ps'(1) m0 by (simp add: g at_month_def)
  moreover have "map fst ps' = map fst ps" using ps'(2) m0(2) by (simp add: keys_dict_put)
  moreover have "\<exists>q. dict_get ps' m = Some q \<and> figures q = (tp_month p, tp_income p + sum_list (map (month_flow m ''income'') (g # gs)),
       tp_expense p - sum_list (map (month_flow m ''expense'') (g # gs)),
       tp_net_invested p - sum_list (map (month_flow m ''investment'') (g # gs)))" if p: "dict_get ps m = Some p" for m p
  proof (cases "m = m0")
    case True
    then show ?thesis using ps'(3) [of m "add_group slug (flow rows) p0"] p m0 add_group_figures [of slug "flow rows" p0]
      by (simp add: mf figures_def add.assoc diff_diff_eq split del: if_split)
  next
    case False
    then show ?thesis using ps'(3) [of m p] p m0 by (simp add: month_flow_def g)
  qed
  ultimately show ?case by blast
qed (simp add: figures_def)

lemma add_salaries_spec:
  assumes "\<forall>g \<in> set gs. \<exists>m. fst g = Some m \<and> dict_get ps m \<noteq> None"
  shows "\<exists>ps'. add_salaries gs ps = Some ps' \<and> map fst ps' = map fst ps \<and>
    (\<forall>m p. dict_get ps m = Some p \<longrightarrow> (\<exists>q. dict_get ps' m = Some q \<and> figures q = figures p))"
  using assms
proof (induction gs arbitrary: ps)
  case (Cons g gs)
  obtain month rows where g: "g = (month, rows)" by (cases g)
  obtain m0 p0 where m0: "month = Some m0" "dict_get ps m0 = Some p0" using Cons.prems g by auto
  let ?p = "p0\<lparr>tp_salary_count := length rows\<rparr>"
  let ?ps = "dict_put ps m0 ?p"
  have "dict_get ?ps m \<noteq> None" if "dict_get ps m \<noteq> None" for m using that by simp
  then have "\<forall>g \<in> set gs. \<exists>m. fst g = Some m \<and> dict_get ?ps m \<noteq> None" using Cons.prems by fastforce
  from Cons.IH [OF this] obtain ps' where ps': "add_salaries gs ?ps = Some ps'" "map fst ps' = map fst ?ps"
    "\<And>m p. dict_get ?ps m = Some p \<Longrightarrow> \<exists>q. dict_get ps' m = Some q \<and> figures q = figures p" by blast
  have "add_salaries (g # gs) ps = Some ps'" using ps'(1) m0 by (simp add: g at_month_def)
  moreover have "map fst ps' = map fst ps" using ps'(2) m0(2) by (simp add: keys_dict_put)
  moreover have "\<exists>q. dict_get ps' m = Some q \<and> figures q = figures p" if p: "dict_get ps m = Some p" for m p
  proof (cases "m = m0")
    case True
    have "figures ?p = figures p0" by (simp add: figures_def)
    then show ?thesis using ps'(3) [of m ?p] p m0 True by simp
  next
    case False
    then show ?thesis using ps'(3) [of m p] p by simp
  qed
  ultimately show ?case by blast
qed simp

lemma seed_get: "dict_get (foldl (\<lambda>d k. dict_put d k (f k)) d ks) k = (if k \<in> set ks then Some (f k) else dict_get d k)"
  by (induction ks arbitrary: d) auto

lemma dict_put_new: "dict_get d k = None \<Longrightarrow> dict_put d k v = d @ [(k, v)]"
  by (induction d k v rule: dict_put.induct) (auto split: if_splits)

lemma seed_distinct:
  "distinct (map f xs) \<Longrightarrow> \<forall>x \<in> set xs. dict_get d (f x) = None \<Longrightarrow>
   foldl (\<lambda>d x. dict_put d (f x) (v x)) d xs = d @ map (\<lambda>x. (f x, v x)) xs"
proof (induction xs arbitrary: d)
  case (Cons x xs)
  have "\<forall>y \<in> set xs. dict_get (dict_put d (f x) (v x)) (f y) = None" using Cons.prems by simp (metis image_eqI)
  then show ?case using Cons.IH [of "dict_put d (f x) (v x)"] Cons.prems by (simp add: dict_put_new)
qed simp

lemma month_grouped_flow:
  "sum_list (map (month_flow m b) (group_by (\<lambda>t. (row_month t, t_category t, t_direction t)) id rows)) =
   flow (filter (\<lambda>t. row_month t = Some m \<and> bucket_for_slug (t_category t) (Some REPORT_SCOPE) = b) rows)"
proof -
  let ?P = "\<lambda>k :: string option \<times> string option \<times> string. fst k = Some m \<and> bucket_for_slug (fst (snd k)) (Some REPORT_SCOPE) = b"
  let ?k = "\<lambda>t. (row_month t, t_category t, t_direction t)"
  have "map (month_flow m b) gs = map (\<lambda>g. if (?P \<circ> fst) g then flow (snd g) else 0) gs" for gs
    by (simp add: month_flow_def)
  then have "sum_list (map (month_flow m b) (group_by ?k id rows)) =
      sum_list (map (\<lambda>g. flow (snd g)) (filter (?P \<circ> fst) (group_by ?k id rows)))" by (simp only: sum_filter)
  also have "\<dots> = flow (filter (?P \<circ> ?k) rows)"
    using sum_groups [of signed_flow ?P ?k id rows] by (simp add: flow_def case_prod_beta')
  finally show ?thesis by (simp add: comp_def)
qed

lemma those_map: "(\<And>x. x \<in> set xs \<Longrightarrow> f x = Some (g x)) \<Longrightarrow> those (map f xs) = Some (map g xs)"
  by (induction xs) auto

section \<open>The window of the trend\<close>

abbreviation trend_window :: "(date \<Rightarrow> int \<Rightarrow> int \<Rightarrow> date) \<Rightarrow> int \<Rightarrow> date \<Rightarrow> date list" where
  "trend_window rd months today \<equiv> trailing_month_starts rd today (clamp_months months)"

lemma window_member:
  assumes "relativedelta_doc rd"
  shows "x \<in> set (trend_window rd months today) \<longleftrightarrow>
    (\<exists>i. x = month_first i \<and> month_index today - clamp_months months < i \<and> i \<le> month_index today)"
proof -
  have "x \<in> set (trend_window rd months today) \<longleftrightarrow> (\<exists>b \<in> {0 .. clamp_months months - 1}. x = month_first (month_index today - b))"
    unfolding trailing_month_starts_eq [OF assms] by auto
  also have "\<dots> \<longleftrightarrow> (\<exists>i. x = month_first i \<and> month_index today - clamp_months months < i \<and> i \<le> month_index today)"
  proof
    assume "\<exists>i. x = month_first i \<and> month_index today - clamp_months months < i \<and> i \<le> month_index today"
    then obtain i where i: "x = month_first i" "month_index today - clamp_months months < i" "i \<le> month_index today" by blast
    then show "\<exists>b \<in> {0 .. clamp_months months - 1}. x = month_first (month_index today - b)"
      by (intro bexI [of _ "month_index today - i"]) auto
  qed force
  finally show ?thesis .
qed

lemma window_hd:
  assumes "relativedelta_doc rd"
  shows "hd (trend_window rd months today) = month_first (month_index today - clamp_months months + 1)"
proof -
  have n: "1 \<le> clamp_months months" by (simp add: clamp_months_def)
  have "[0 .. clamp_months months - 1] \<noteq> []" using n by simp
  moreover have "last [0 .. clamp_months months - 1] = clamp_months months - 1" using n by (subst upto_rec2) simp_all
  moreover have "month_index today - (clamp_months months - 1) = month_index today - clamp_months months + 1" by simp
  ultimately show ?thesis unfolding trailing_month_starts_eq [OF assms] by (simp only: hd_map hd_rev rev_is_Nil_conv not_False_eq_True)
qed

definition years_fit :: "(date \<Rightarrow> int \<Rightarrow> int \<Rightarrow> date) \<Rightarrow> int \<Rightarrow> date \<Rightarrow> bool" where
  "years_fit rd months today \<longleftrightarrow> 0 \<le> year_of (hd (trend_window rd months today)) \<and> year_of today \<le> 9999"

lemma window_keys:
  assumes rd: "relativedelta_doc rd" and fit: "years_fit rd months today"
    and "month_index today - clamp_months months < month_index d" "month_index d \<le> month_index today"
    and "month_index today - clamp_months months < month_index e" "month_index e \<le> month_index today"
  shows "month_key d = month_key e \<longleftrightarrow> month_index d = month_index e"
proof -
  let ?lo = "month_first (month_index today - clamp_months months + 1)"
  have y: "0 \<le> year_of x \<and> year_of x \<le> 9999"
    if "month_index today - clamp_months months < month_index x" "month_index x \<le> month_index today" for x
  proof -
    have "month_index ?lo \<le> month_index x" using that(1) by simp
    then have "month_index ?lo div 12 \<le> month_index x div 12" by (rule zdiv_mono1) simp
    moreover have "month_index x div 12 \<le> month_index today div 12" using that(2) by (rule zdiv_mono1) simp
    ultimately show ?thesis using fit unfolding years_fit_def window_hd [OF rd] month_index_div_mod by simp
  qed
  show ?thesis using y [OF assms(3,4)] y [OF assms(5,6)] by (simp add: month_key_eq_iff)
qed

lemma window_keys_distinct:
  assumes rd: "relativedelta_doc rd" and fit: "years_fit rd months today"
  shows "distinct (map month_key (trend_window rd months today))"
proof -
  have "distinct (trend_window rd months today)"
    using trailing_month_starts_sorted [OF rd, of today "clamp_months months"] by (simp add: strict_sorted_iff)
  moreover have "inj_on month_key (set (trend_window rd months today))"
  proof (rule inj_onI)
    fix x y assume xy: "x \<in> set (trend_window rd months today)" "y \<in> set (trend_window rd months today)" "month_key x = month_key y"
    obtain i where i: "x = month_first i" "month_index today - clamp_months months < i" "i \<le> month_index today"
      using xy(1) window_member [OF rd] by blast
    obtain j where j: "y = month_first j" "month_index today - clamp_months months < j" "j \<le> month_index today"
      using xy(2) window_member [OF rd] by blast
    show "x = y" using window_keys [OF rd fit, of x y] xy(3) i j by simp
  qed
  ultimately show ?thesis by (simp add: distinct_map)
qed

text \<open>A row of the window falls in the range of a month exactly when it has the month's key.\<close>

lemma month_rows:
  assumes rd: "relativedelta_doc rd" and fit: "years_fit rd months today" and x: "x \<in> set (trend_window rd months today)"
  shows "in_range (hd (trend_window rd months today)) today t \<and> row_month t = Some (month_key x) \<longleftrightarrow>
    in_range x (min (month_end rd x) today) t"
proof (cases "t_transaction_date t")
  case (Some d)
  obtain i where i: "x = month_first i" "month_index today - clamp_months months < i" "i \<le> month_index today"
    using x window_member [OF rd] by blast
  have lo: "hd (trend_window rd months today) \<le> d \<longleftrightarrow> month_index today - clamp_months months < month_index d"
    unfolding window_hd [OF rd] month_first_le_iff by auto
  have own: "x \<le> d \<and> d \<le> month_end rd x \<longleftrightarrow> month_index d = i" by (auto simp: month_end_eq [OF rd] i(1) month_index_iff)
  have key: "month_key d = month_key x \<longleftrightarrow> month_index d = i"
    if "month_index today - clamp_months months < month_index d" "month_index d \<le> month_index today"
    using window_keys [OF rd fit that, of x] i by simp
  have hi: "month_index d \<le> month_index today" if "d \<le> today" using that by (rule month_index_mono)
  show ?thesis using lo own key hi i(2) Some by (auto simp: in_range_def row_month_def)
qed (simp add: in_range_def row_month_def)

lemma month_in_window:
  assumes rd: "relativedelta_doc rd" and r: "in_range (hd (trend_window rd months today)) today t"
  shows "\<exists>m. row_month t = Some m \<and> m \<in> set (map month_key (trend_window rd months today))"
proof -
  obtain d where d: "t_transaction_date t = Some d" "hd (trend_window rd months today) \<le> d" "d \<le> today"
    using r by (auto simp: in_range_def split: option.splits)
  have "month_index today - clamp_months months < month_index d" using d(2) unfolding window_hd [OF rd] month_first_le_iff by simp
  then have "month_first (month_index d) \<in> set (trend_window rd months today)"
    unfolding window_member [OF rd] using month_index_mono [OF d(3)] by blast
  moreover have "month_key (month_first (month_index d)) = month_key d"
    using month_index_div_mod [of d] by (simp add: month_key_def month_first_fields)
  ultimately have "month_key d \<in> set (map month_key (trend_window rd months today))" by (metis image_eqI set_map)
  then show ?thesis using d(1) by (simp add: row_month_def)
qed

lemma trend_ranges_eq:
  assumes rd: "relativedelta_doc rd" and fit: "years_fit rd months today"
  shows "trend_ranges rd months today = map (\<lambda>x. (month_key x, x, min (month_end rd x) today)) (trend_window rd months today)"
  unfolding trend_ranges_def
  using seed_distinct [of month_key _ "[]", OF window_keys_distinct [OF rd fit]] by simp

definition seeded :: "(date \<Rightarrow> int \<Rightarrow> int \<Rightarrow> date) \<Rightarrow> int \<Rightarrow> date \<Rightarrow> points" where
  "seeded rd months today = foldl (\<lambda>d k. dict_put d k (zero_point k)) [] (map month_key (trend_window rd months today))"

lemma seeded_get:
  "x \<in> set (trend_window rd months today) \<Longrightarrow> dict_get (seeded rd months today) (month_key x) = Some (zero_point (month_key x))"
  by (simp add: seeded_def seed_get)

lemma seeded_month:
  assumes "relativedelta_doc rd" "in_range (hd (trend_window rd months today)) today t"
  shows "\<exists>m. row_month t = Some m \<and> dict_get (seeded rd months today) m \<noteq> None"
  using month_in_window [OF assms] by (auto simp: seeded_def seed_get)

lemma group_origin:
  assumes "g \<in> set (group_by k f xs)"
  obtains x where "x \<in> set xs" "fst g = k x"
proof -
  have "fst g \<in> k ` set xs" using imageI [OF assms, of fst] unfolding group_keys .
  then show ?thesis using that by (auto elim: imageE)
qed

text \<open>No month of a row is missing, so the loops raise no \<open>KeyError\<close>, and the figures of a seeded
  month are the flows of its rows.\<close>

lemma trend_points:
  fixes months :: int and today :: date and s :: db
  assumes rd: "relativedelta_doc rd"
  defines "w \<equiv> trend_window rd months today"
  defines "R \<equiv> filter (report_row s (hd w) today) (transactions s)"
  shows "\<exists>ps. cashflow_trend rd s months today = those (map (dict_get ps) (map month_key w)) \<and>
    (\<forall>x \<in> set w. \<exists>q. dict_get ps (month_key x) = Some q \<and> figures q = (month_key x,
       flow (filter (\<lambda>t. row_month t = Some (month_key x) \<and> bucket_for_slug (t_category t) (Some REPORT_SCOPE) = ''income'') R),
       - flow (filter (\<lambda>t. row_month t = Some (month_key x) \<and> bucket_for_slug (t_category t) (Some REPORT_SCOPE) = ''expense'') R),
       - flow (filter (\<lambda>t. row_month t = Some (month_key x) \<and> bucket_for_slug (t_category t) (Some REPORT_SCOPE) = ''investment'') R)))"
proof -
  let ?seed = "seeded rd months today"
  let ?k = "\<lambda>t. (row_month t, t_category t, t_direction t)"
  let ?S = "filter (\<lambda>t. in_range (hd w) today t \<and> in_scope s Bank_Scope t \<and> included t \<and> t_category t = Some ''salary'') (transactions s)"
  have "\<exists>m. fst (fst g) = Some m \<and> dict_get ?seed m \<noteq> None" if g: "g \<in> set (group_by ?k id R)" for g
  proof -
    obtain t where t: "t \<in> set R" "fst g = ?k t" by (rule group_origin [OF g])
    then show ?thesis using seeded_month [OF rd, where months = months and today = today and t = t] by (simp add: R_def w_def report_row_def)
  qed
  then obtain ps1 where ps1: "add_flows (group_by ?k id R) ?seed = Some ps1" "map fst ps1 = map fst ?seed"
    "\<And>m p. dict_get ?seed m = Some p \<Longrightarrow> \<exists>q. dict_get ps1 m = Some q \<and> figures q = (tp_month p,
       tp_income p + sum_list (map (month_flow m ''income'') (group_by ?k id R)),
       tp_expense p - sum_list (map (month_flow m ''expense'') (group_by ?k id R)),
       tp_net_invested p - sum_list (map (month_flow m ''investment'') (group_by ?k id R)))"
    using add_flows_spec [of "group_by ?k id R" ?seed] by blast
  have "\<exists>m. fst g = Some m \<and> dict_get ps1 m \<noteq> None" if g: "g \<in> set (group_by row_month id ?S)" for g
  proof -
    obtain t where t: "t \<in> set ?S" "fst g = row_month t" by (rule group_origin [OF g])
    then obtain m p where m: "row_month t = Some m" "dict_get ?seed m = Some p"
      using seeded_month [OF rd, where months = months and today = today and t = t] by (auto simp: w_def)
    then show ?thesis using ps1(3) [OF m(2)] t(2) by auto
  qed
  then obtain ps2 where ps2: "add_salaries (group_by row_month id ?S) ps1 = Some ps2"
    "\<And>m p. dict_get ps1 m = Some p \<Longrightarrow> \<exists>q. dict_get ps2 m = Some q \<and> figures q = figures p"
    using add_salaries_spec [of "group_by row_month id ?S" ps1] by blast
  have "cashflow_trend rd s months today = those (map (dict_get ps2) (map month_key w))"
    using ps1(1) ps2(1) by (simp add: cashflow_trend_def Let_def w_def R_def seeded_def)
  moreover have "\<exists>q. dict_get ps2 (month_key x) = Some q \<and> figures q = (month_key x,
       sum_list (map (month_flow (month_key x) ''income'') (group_by ?k id R)),
       - sum_list (map (month_flow (month_key x) ''expense'') (group_by ?k id R)),
       - sum_list (map (month_flow (month_key x) ''investment'') (group_by ?k id R)))" if "x \<in> set w" for x
    using ps1(3) [OF seeded_get [OF that [unfolded w_def]]] ps2(2) by (fastforce simp: zero_point_def)
  ultimately show ?thesis unfolding month_grouped_flow by blast
qed

text \<open>C39. The trend agrees with the summary. For a window whose years fit four digits, the trend
  raises no \<open>KeyError\<close>, has one point for each month of \<open>trend_ranges\<close>, in that order, and the
  income, expense and net investment of a point are those of the summary over the month's range.\<close>

theorem trend_agrees_with_summary:
  assumes rd: "relativedelta_doc rd" and fit: "years_fit rd months today"
  shows "\<exists>ps. cashflow_trend rd s months today = Some ps \<and>
    list_all2 (\<lambda>p (key, lo, hi). tp_month p = key \<and> tp_income p = bs_total (cf_income (cashflow_summary s lo hi)) \<and>
      tp_expense p = bs_total (cf_expense (cashflow_summary s lo hi)) \<and>
      tp_net_invested p = is_net (cf_investment (cashflow_summary s lo hi))) ps (trend_ranges rd months today)"
proof -
  let ?w = "trend_window rd months today"
  let ?R = "filter (report_row s (hd ?w) today) (transactions s)"
  have rows: "filter (\<lambda>t. row_month t = Some (month_key x) \<and> bucket_for_slug (t_category t) (Some REPORT_SCOPE) = b) ?R =
      bucket_rows s x (min (month_end rd x) today) b" if "x \<in> set ?w" for x b
    using month_rows [OF rd fit that] by (auto simp: bucket_rows_def report_row_def intro!: filter_cong)
  obtain ps where ps: "cashflow_trend rd s months today = those (map (dict_get ps) (map month_key ?w))"
    "\<And>x. x \<in> set ?w \<Longrightarrow> \<exists>q. dict_get ps (month_key x) = Some q \<and> figures q = (month_key x,
       flow (bucket_rows s x (min (month_end rd x) today) ''income''), - flow (bucket_rows s x (min (month_end rd x) today) ''expense''),
       - flow (bucket_rows s x (min (month_end rd x) today) ''investment''))"
    using trend_points [OF rd, where s = s and months = months and today = today] rows by fastforce
  let ?q = "\<lambda>x. the (dict_get ps (month_key x))"
  have q: "dict_get ps (month_key x) = Some (?q x)" if "x \<in> set ?w" for x using ps(2) [OF that] by auto
  have "cashflow_trend rd s months today = Some (map ?q ?w)"
    unfolding ps(1) map_map comp_def by (rule those_map [OF q])
  moreover have "figures (?q x) = (month_key x, bs_total (cf_income (cashflow_summary s x (min (month_end rd x) today))),
      bs_total (cf_expense (cashflow_summary s x (min (month_end rd x) today))),
      is_net (cf_investment (cashflow_summary s x (min (month_end rd x) today))))" if "x \<in> set ?w" for x
    using ps(2) [OF that] unfolding summary_totals by auto
  ultimately show ?thesis unfolding trend_ranges_eq [OF rd fit]
    by (auto simp: list_all2_map1 list_all2_map2 list_all2_same figures_def)
qed

section \<open>An example\<close>

definition flow_demo_account :: account where
  "flow_demo_account = \<lparr>a_id = 5, a_bank = ''hdfc'', a_label = ''Savings'', a_type = ''bank_account'', a_account_number = None, a_active = Some True\<rparr>"

definition flow_demo_row :: "nat \<Rightarrow> string \<Rightarrow> rat \<Rightarrow> string \<Rightarrow> date \<Rightarrow> transaction" where
  "flow_demo_row i dir amt slug d = blank_txn\<lparr>t_id := i, t_account_id := Some 5, t_direction := dir, t_amount := amt,
     t_category := Some slug, t_transaction_date := Some d\<rparr>"

definition flow_demo :: db where
  "flow_demo = empty_db\<lparr>accounts := [flow_demo_account],
     transactions := [flow_demo_row 1 ''credit'' 100 ''salary'' 3, flow_demo_row 2 ''debit'' 30 ''dining'' 40]\<rparr>"

lemma flow_demo_fit: "years_fit relativedelta_ref 2 41"
proof -
  have "month_index 41 = 13" "clamp_months 2 = 2" "month_first 12 = 1" "year_of 1 = 1" "year_of 41 = 1" by code_simp+
  then show ?thesis unfolding years_fit_def window_hd [OF relativedelta_ref_doc] by simp
qed

lemma flow_demo_ranges: "trend_ranges relativedelta_ref 2 41 = [(''0001-01'', 1, 31), (''0001-02'', 32, 41)]"
proof -
  note rd = relativedelta_ref_doc
  have w: "trend_window relativedelta_ref 2 41 = [1, 32]"
  proof -
    have "clamp_months 2 = 2" "month_index 41 = 13" "month_first 12 = 1" "month_first 13 = 32" by code_simp+
    then show ?thesis by (simp add: trailing_month_starts_eq [OF rd] upto_rec1)
  qed
  have "month_index 1 = 12" "month_index 32 = 13" "month_first 13 = 32" "month_first 14 = 60"
    "month_key 1 = ''0001-01''" "month_key 32 = ''0001-02''" by code_simp+
  then show ?thesis unfolding trend_ranges_eq [OF rd flow_demo_fit] w by (simp add: month_end_eq [OF rd])
qed

lemma flow_demo_totals:
  "bs_total (cf_income (cashflow_summary flow_demo 1 31)) = 100" "bs_total (cf_expense (cashflow_summary flow_demo 1 31)) = 0"
  "bs_total (cf_income (cashflow_summary flow_demo 32 41)) = 0" "bs_total (cf_expense (cashflow_summary flow_demo 32 41)) = 30"
  by code_simp+

theorem trend_agrees_with_summary_witness:
  "\<exists>ps. cashflow_trend relativedelta_ref flow_demo 2 41 = Some ps \<and>
    map (\<lambda>p. (tp_month p, tp_income p, tp_expense p)) ps = [(''0001-01'', 100, 0), (''0001-02'', 0, 30)]"
proof -
  obtain ps where "cashflow_trend relativedelta_ref flow_demo 2 41 = Some ps"
    "list_all2 (\<lambda>p (key, lo, hi). tp_month p = key \<and> tp_income p = bs_total (cf_income (cashflow_summary flow_demo lo hi)) \<and>
      tp_expense p = bs_total (cf_expense (cashflow_summary flow_demo lo hi)) \<and>
      tp_net_invested p = is_net (cf_investment (cashflow_summary flow_demo lo hi))) ps [(''0001-01'', 1, 31), (''0001-02'', 32, 41)]"
    using trend_agrees_with_summary [OF relativedelta_ref_doc flow_demo_fit, of flow_demo] unfolding flow_demo_ranges by blast
  then show ?thesis by (auto simp: flow_demo_totals list_all2_Cons2)
qed

end
