(* ===== verification/Sync_State.thy ===== *)
theory Sync_State
  imports Dates
begin

text \<open>
  \<open>services/paisa/sync_state.py\<close> with the dirty triggers of \<open>db/init_db.py\<close>: the row that says how far
  an extension has caught up with the core data, and the lease that lets one coordinator at a time
  work on it. Every operation of the module is one or two SQL statements on the table
  \<open>extension_sync_state\<close>, a map from the extension to its row here. Datetimes are microseconds
  in UTC; the text form in which SQLite stores them has the same order. \<open>created_at\<close> and
  \<open>updated_at\<close>, which nothing reads, are left out. \<open>LeaseStaleError\<close> is \<open>None\<close>; a caller that
  gets it rolls back.
\<close>

section \<open>Constants and the row\<close>

definition BACKOFF_MINUTES :: "int list" where
  "BACKOFF_MINUTES = [1, 2, 5, 10, 15]"

definition second_us :: int where "second_us = 1000000"

definition DEFAULT_QUIET_DEBOUNCE :: int where "DEFAULT_QUIET_DEBOUNCE = 5 * second_us"
definition DEFAULT_MAX_DIRTY_LATENCY :: int where "DEFAULT_MAX_DIRTY_LATENCY = 30 * second_us"
definition DEFAULT_FORCE_RELOAD_INTERVAL :: int where "DEFAULT_FORCE_RELOAD_INTERVAL = 6 * 60 * minute_us"
definition DEFAULT_LEASE_TTL_SECONDS :: int where "DEFAULT_LEASE_TTL_SECONDS = 90"

definition DIAGNOSIS_HEALTHY :: string where "DIAGNOSIS_HEALTHY = ''healthy''"
definition DIAGNOSIS_ACCEPTED :: string where "DIAGNOSIS_ACCEPTED = ''accepted''"
definition DIAGNOSIS_FATAL :: string where "DIAGNOSIS_FATAL = ''fatal''"
definition DIAGNOSIS_UNKNOWN :: string where "DIAGNOSIS_UNKNOWN = ''unknown''"

definition DIAGNOSIS_STATES :: "string list" where
  "DIAGNOSIS_STATES = [DIAGNOSIS_HEALTHY, DIAGNOSIS_ACCEPTED, DIAGNOSIS_FATAL, DIAGNOSIS_UNKNOWN]"

record sync_state =
  ss_extension_id :: string
  ss_desired :: int
  ss_applied :: int
  ss_first_dirty :: "datetime option"
  ss_last_dirty :: "datetime option"
  ss_published_hash :: "string option"
  ss_remote_hash :: "string option"
  ss_healthy_hash :: "string option"
  ss_last_attempt :: "datetime option"
  ss_next_attempt :: "datetime option"
  ss_failures :: int
  ss_diagnosis :: "string option"
  ss_force :: bool
  ss_owner :: "string option"
  ss_token :: "string option"
  ss_expires :: "datetime option"

type_synonym sync_table = "string \<rightharpoonup> sync_state"

text \<open>The CHECK constraints of the table.\<close>

definition checks_ok :: "sync_state \<Rightarrow> bool" where
  "checks_ok r \<longleftrightarrow> 0 \<le> ss_desired r \<and> 0 \<le> ss_applied r \<and> 0 \<le> ss_failures r \<and> ss_applied r \<le> ss_desired r"

text \<open>\<open>UPDATE \<dots> SET f WHERE extension_id = eid AND P RETURNING \<dots>\<close>.\<close>

definition update_where :: "string \<Rightarrow> (sync_state \<Rightarrow> bool) \<Rightarrow> (sync_state \<Rightarrow> sync_state) \<Rightarrow> sync_table \<Rightarrow>
    sync_state option \<times> sync_table" where
  "update_where eid P f T = (case T eid of None \<Rightarrow> (None, T)
     | Some r \<Rightarrow> if P r then (Some (f r), T(eid \<mapsto> f r)) else (None, T))"

definition holds :: "string \<Rightarrow> sync_state \<Rightarrow> bool" where
  "holds token r \<longleftrightarrow> ss_token r = Some token"

section \<open>Backoff, reading, seeding\<close>

definition backoff_delta :: "int \<Rightarrow> int list \<Rightarrow> int" where
  "backoff_delta failure_count backoff_minutes =
     (if length backoff_minutes = 0 then 0
      else let idx = max 0 (failure_count - 1);
               idx = min idx (int (length backoff_minutes) - 1)
           in backoff_minutes ! nat idx * minute_us)"

definition read_sync_state :: "sync_table \<Rightarrow> string \<Rightarrow> sync_state option" where
  "read_sync_state T eid = T eid"

definition seed_row :: "string \<Rightarrow> bool \<Rightarrow> datetime \<Rightarrow> sync_state" where
  "seed_row eid flag now = \<lparr>ss_extension_id = eid, ss_desired = 1, ss_applied = 0, ss_first_dirty = Some now,
     ss_last_dirty = Some now, ss_published_hash = None, ss_remote_hash = None, ss_healthy_hash = None,
     ss_last_attempt = None, ss_next_attempt = None, ss_failures = 0, ss_diagnosis = None, ss_force = flag,
     ss_owner = None, ss_token = None, ss_expires = None\<rparr>"

definition ensure_sync_state :: "sync_table \<Rightarrow> string \<Rightarrow> datetime \<Rightarrow> sync_state \<times> sync_table" where
  "ensure_sync_state T eid now = (case T eid of
     None \<Rightarrow> (seed_row eid True now, T(eid \<mapsto> seed_row eid True now))
   | Some r \<Rightarrow> (r, T))"

definition fetch_guarded :: "sync_table \<Rightarrow> string \<Rightarrow> string \<Rightarrow> sync_state option" where
  "fetch_guarded T eid token = (case T eid of None \<Rightarrow> None | Some r \<Rightarrow> if holds token r then Some r else None)"

section \<open>Eligibility\<close>

record eligibility =
  el_due :: bool
  el_reason :: string
  el_at :: "datetime option"

definition reconcile_eligibility :: "sync_state \<Rightarrow> datetime \<Rightarrow> int \<Rightarrow> int \<Rightarrow> int \<Rightarrow> eligibility" where
  "reconcile_eligibility r now quiet_debounce max_dirty_latency force_reload_interval =
     (let gated = (case ss_next_attempt r of None \<Rightarrow> False | Some t \<Rightarrow> now < t);
          periodic = (case ss_last_attempt r of None \<Rightarrow> False | Some t \<Rightarrow> force_reload_interval \<le> now - t);
          late = (case ss_first_dirty r of None \<Rightarrow> False | Some t \<Rightarrow> max_dirty_latency \<le> now - t);
          noisy = (case ss_last_dirty r of None \<Rightarrow> False | Some t \<Rightarrow> now - t < quiet_debounce)
      in if gated then \<lparr>el_due = False, el_reason = ''backoff'', el_at = ss_next_attempt r\<rparr>
         else if ss_force r then \<lparr>el_due = True, el_reason = ''force_reload'', el_at = Some now\<rparr>
         else if periodic then \<lparr>el_due = True, el_reason = ''periodic_reload'', el_at = Some now\<rparr>
         else if ss_desired r \<le> ss_applied r then \<lparr>el_due = False, el_reason = ''caught_up'', el_at = None\<rparr>
         else if late then \<lparr>el_due = True, el_reason = ''max_latency'', el_at = Some now\<rparr>
         else if noisy then \<lparr>el_due = False, el_reason = ''debounce'', el_at = map_option (\<lambda>t. t + quiet_debounce) (ss_last_dirty r)\<rparr>
         else \<lparr>el_due = True, el_reason = ''dirty'', el_at = Some now\<rparr>)"

abbreviation eligible :: "sync_state \<Rightarrow> datetime \<Rightarrow> eligibility" where
  "eligible r now \<equiv> reconcile_eligibility r now DEFAULT_QUIET_DEBOUNCE DEFAULT_MAX_DIRTY_LATENCY DEFAULT_FORCE_RELOAD_INTERVAL"

definition should_skip_remote_post :: "string option \<Rightarrow> sync_state \<Rightarrow> bool" where
  "should_skip_remote_post published_hash r =
     (if published_hash = None \<or> ss_remote_hash r = None then False else ss_remote_hash r = published_hash)"

section \<open>The lease\<close>

record lease_claim =
  lc_claimed :: bool
  lc_owner :: string
  lc_token :: string
  lc_expires :: "datetime option"
  lc_reason :: string
  lc_snapshot :: "sync_state option"

text \<open>\<open>fresh\<close> is what \<open>secrets.token_urlsafe\<close> would mint.\<close>

definition claim_lease :: "sync_table \<Rightarrow> string \<Rightarrow> string option \<Rightarrow> string \<Rightarrow> string \<Rightarrow> int \<Rightarrow> datetime \<Rightarrow>
    lease_claim \<times> sync_table" where
  "claim_lease T owner token fresh eid ttl_seconds now =
     (let lease_token = (if truthy token then or_empty token else fresh);
          expires_at = now + ttl_seconds * second_us;
          (row, T') = update_where eid (\<lambda>r. case ss_expires r of None \<Rightarrow> True | Some t \<Rightarrow> t < now)
            (\<lambda>r. r\<lparr>ss_owner := Some owner, ss_token := Some lease_token, ss_expires := Some expires_at\<rparr>) T
      in case row of
        Some r \<Rightarrow> (\<lparr>lc_claimed = True, lc_owner = owner, lc_token = lease_token, lc_expires = Some expires_at,
          lc_reason = ''claimed'', lc_snapshot = Some r\<rparr>, T')
      | None \<Rightarrow> (case read_sync_state T' eid of
          None \<Rightarrow> (\<lparr>lc_claimed = False, lc_owner = owner, lc_token = lease_token, lc_expires = None,
            lc_reason = ''no_row'', lc_snapshot = None\<rparr>, T')
        | Some existing \<Rightarrow> (\<lparr>lc_claimed = False, lc_owner = owner, lc_token = lease_token,
            lc_expires = ss_expires existing, lc_reason = ''held'', lc_snapshot = Some existing\<rparr>, T')))"

definition heartbeat_lease :: "sync_table \<Rightarrow> string \<Rightarrow> int \<Rightarrow> string \<Rightarrow> datetime \<Rightarrow> datetime option \<times> sync_table" where
  "heartbeat_lease T token ttl_seconds eid now =
     (let expires_at = now + ttl_seconds * second_us;
          (row, T') = update_where eid (holds token) (\<lambda>r. r\<lparr>ss_expires := Some expires_at\<rparr>) T
      in (map_option (\<lambda>_. expires_at) row, T'))"

definition release_lease :: "sync_table \<Rightarrow> string \<Rightarrow> string \<Rightarrow> bool \<times> sync_table" where
  "release_lease T token eid =
     (let (row, T') = update_where eid (holds token) (\<lambda>r. r\<lparr>ss_owner := None, ss_token := None, ss_expires := None\<rparr>) T
      in (row \<noteq> None, T'))"

definition capture_target :: "sync_table \<Rightarrow> string \<Rightarrow> datetime \<Rightarrow> (int \<times> sync_state) \<times> sync_table" where
  "capture_target T eid now = (case read_sync_state T eid of
     Some r \<Rightarrow> ((ss_desired r, r), T)
   | None \<Rightarrow> (let (r, T') = ensure_sync_state T eid now in ((ss_desired r, r), T')))"

section \<open>Completions\<close>

definition record_published_hash :: "sync_table \<Rightarrow> string \<Rightarrow> string \<Rightarrow> string \<Rightarrow> sync_state option \<times> sync_table" where
  "record_published_hash T body_hash token eid =
     update_where eid (holds token) (\<lambda>r. r\<lparr>ss_published_hash := Some body_hash\<rparr>) T"

text \<open>The right-hand sides of an UPDATE read the old row.\<close>

definition caught_up_row :: "int \<Rightarrow> string option option \<Rightarrow> datetime \<Rightarrow> sync_state \<Rightarrow> sync_state" where
  "caught_up_row target remote now r =
     (let r' = (case remote of None \<Rightarrow> r
         | Some h \<Rightarrow> r\<lparr>ss_remote_hash := h, ss_last_attempt := Some now, ss_failures := 0, ss_next_attempt := None\<rparr>);
          up = ss_desired r \<le> target
      in r'\<lparr>ss_applied := (if target < ss_desired r then target else ss_desired r),
            ss_force := (if up then False else ss_force r),
            ss_first_dirty := (if up then None else ss_first_dirty r),
            ss_last_dirty := (if up then None else ss_last_dirty r)\<rparr>)"

record applied_update =
  au_target :: int
  au_applied :: int
  au_desired :: int
  au_caught_up :: bool
  au_cleared_dirty :: bool
  au_remote_hash :: "string option"
  au_snapshot :: sync_state

text \<open>\<open>remote\<close> is \<open>Some hash\<close> where the code has \<open>set_remote_hash=True\<close>.\<close>

definition apply_caught_up :: "sync_table \<Rightarrow> int \<Rightarrow> string \<Rightarrow> string \<Rightarrow> datetime \<Rightarrow> string option option \<Rightarrow>
    applied_update option \<times> sync_table" where
  "apply_caught_up T target token eid now remote =
     (let (row, T') = update_where eid (holds token) (caught_up_row target remote now) T
      in (map_option (\<lambda>r. let up = ss_desired r \<le> ss_applied r in
            \<lparr>au_target = target, au_applied = ss_applied r, au_desired = ss_desired r, au_caught_up = up,
             au_cleared_dirty = up, au_remote_hash = ss_remote_hash r, au_snapshot = r\<rparr>) row, T'))"

definition record_hash_noop :: "sync_table \<Rightarrow> int \<Rightarrow> string \<Rightarrow> string \<Rightarrow> datetime \<Rightarrow> applied_update option \<times> sync_table" where
  "record_hash_noop T target token eid now = apply_caught_up T target token eid now None"

definition record_guard_caught_up :: "sync_table \<Rightarrow> int \<Rightarrow> string \<Rightarrow> string \<Rightarrow> datetime \<Rightarrow> applied_update option \<times> sync_table" where
  "record_guard_caught_up T target token eid now = apply_caught_up T target token eid now None"

definition record_accepted_post :: "sync_table \<Rightarrow> int \<Rightarrow> string \<Rightarrow> string \<Rightarrow> string \<Rightarrow> datetime \<Rightarrow>
    applied_update option \<times> sync_table" where
  "record_accepted_post T target remote_hash token eid now = apply_caught_up T target token eid now (Some (Some remote_hash))"

text \<open>An unknown diagnosis state raises \<open>ValueError\<close> before anything is read, \<open>Inl\<close> here; a stale
  token is \<open>Inr None\<close>.\<close>

definition record_diagnosis :: "sync_table \<Rightarrow> string \<Rightarrow> string \<Rightarrow> string option \<Rightarrow> string \<Rightarrow> datetime \<Rightarrow> int list \<Rightarrow>
    string + sync_state option \<times> sync_table" where
  "record_diagnosis T state token healthy_hash eid now backoff_minutes =
     (if state \<notin> set DIAGNOSIS_STATES then Inl state
      else Inr (if state = DIAGNOSIS_FATAL then
          (case fetch_guarded T eid token of
             None \<Rightarrow> (None, T)
           | Some pre \<Rightarrow> let new_failure = ss_failures pre + 1;
                            next_at = now + backoff_delta new_failure backoff_minutes
               in update_where eid (holds token)
                    (\<lambda>r. r\<lparr>ss_diagnosis := Some state, ss_failures := new_failure, ss_next_attempt := Some next_at\<rparr>) T)
        else if state = DIAGNOSIS_HEALTHY \<or> state = DIAGNOSIS_ACCEPTED then
          update_where eid (holds token) (\<lambda>r. r\<lparr>ss_diagnosis := Some state,
            ss_healthy_hash := (case healthy_hash of None \<Rightarrow> ss_healthy_hash r | Some h \<Rightarrow> Some h),
            ss_failures := 0, ss_next_attempt := None\<rparr>) T
        else update_where eid (holds token) (\<lambda>r. r\<lparr>ss_diagnosis := Some state\<rparr>) T))"

definition record_pre_post_failure :: "sync_table \<Rightarrow> string \<Rightarrow> string \<Rightarrow> datetime \<Rightarrow> int list \<Rightarrow> sync_state option \<times> sync_table" where
  "record_pre_post_failure T token eid now backoff_minutes =
     (case fetch_guarded T eid token of
        None \<Rightarrow> (None, T)
      | Some pre \<Rightarrow> let new_failure = ss_failures pre + 1;
                       next_at = now + backoff_delta new_failure backoff_minutes
          in update_where eid (holds token)
               (\<lambda>r. r\<lparr>ss_failures := new_failure, ss_next_attempt := Some next_at, ss_last_attempt := Some now\<rparr>) T)"

section \<open>Operator actions and triggers\<close>

definition set_force_reload :: "sync_table \<Rightarrow> bool \<Rightarrow> string \<Rightarrow> datetime \<Rightarrow> sync_state \<times> sync_table" where
  "set_force_reload T enabled eid now =
     (case update_where eid (\<lambda>_. True) (\<lambda>r. r\<lparr>ss_force := enabled\<rparr>) T of
        (Some r, T') \<Rightarrow> (r, T')
      | (None, T') \<Rightarrow> (seed_row eid enabled now, T'(eid \<mapsto> seed_row eid enabled now)))"

definition reset_sync_state :: "sync_table \<Rightarrow> string \<Rightarrow> datetime \<Rightarrow> sync_state \<times> sync_table" where
  "reset_sync_state T eid now =
     (case update_where eid (\<lambda>_. True) (\<lambda>r. (seed_row eid True now)\<lparr>ss_extension_id := ss_extension_id r\<rparr>) T of
        (Some r, T') \<Rightarrow> (r, T')
      | (None, T') \<Rightarrow> ensure_sync_state T' eid now)"

text \<open>The body of the triggers; a change of a \<open>paisa.\<close> setting also resets the retry fields.\<close>

definition bumped :: "bool \<Rightarrow> datetime \<Rightarrow> sync_state \<Rightarrow> sync_state" where
  "bumped reset_backoff now r =
     (let r = r\<lparr>ss_desired := ss_desired r + 1,
            ss_first_dirty := (case ss_first_dirty r of None \<Rightarrow> Some now | Some t \<Rightarrow> Some t),
            ss_last_dirty := Some now\<rparr>
      in if reset_backoff then r\<lparr>ss_failures := 0, ss_next_attempt := None, ss_last_attempt := None\<rparr> else r)"

definition bump :: "bool \<Rightarrow> datetime \<Rightarrow> sync_table \<Rightarrow> sync_table" where
  "bump reset_backoff now T = snd (update_where ''paisa'' (\<lambda>_. True) (bumped reset_backoff now) T)"

end
