(* ===== verification/Sync_Protocol.thy ===== *)
theory Sync_Protocol
  imports Sync_State
begin

text \<open>
  What the sync row guarantees when coordinators, core writes and operators interleave. An \<open>event\<close>
  is one committed call of a function of \<open>sync_state.py\<close>, or one core write, which fires a trigger;
  a history is a list of events with their times, in the order of their commits. The
  properties: the CHECK constraints never fail, a completion is fenced by its token, it accounts for
  every core write that came in between, and a core write becomes due.
\<close>

section \<open>Events\<close>

definition EXTENSION_PAISA :: string where "EXTENSION_PAISA = ''paisa''"

datatype sync_event = Core_write bool | Ensure | Claim string string int | Heartbeat string int | Release string
  | Published string string | Noop string int | Guarded string int | Accepted string int string
  | Diagnosed string string "string option" | Failed string | Force bool | Reset

text \<open>Whether the call took effect, and the table after it.\<close>

fun perform :: "datetime \<Rightarrow> sync_event \<Rightarrow> sync_table \<Rightarrow> bool \<times> sync_table" where
  "perform now (Core_write b) T = (True, bump b now T)"
| "perform now Ensure T = (True, snd (ensure_sync_state T EXTENSION_PAISA now))"
| "perform now (Claim owner token ttl) T = (case claim_lease T owner None token EXTENSION_PAISA ttl now of (c, T') \<Rightarrow> (lc_claimed c, T'))"
| "perform now (Heartbeat token ttl) T = (case heartbeat_lease T token ttl EXTENSION_PAISA now of (x, T') \<Rightarrow> (x \<noteq> None, T'))"
| "perform now (Release token) T = release_lease T token EXTENSION_PAISA"
| "perform now (Published token h) T = (case record_published_hash T h token EXTENSION_PAISA of (x, T') \<Rightarrow> (x \<noteq> None, T'))"
| "perform now (Noop token target) T = (case record_hash_noop T target token EXTENSION_PAISA now of (x, T') \<Rightarrow> (x \<noteq> None, T'))"
| "perform now (Guarded token target) T = (case record_guard_caught_up T target token EXTENSION_PAISA now of (x, T') \<Rightarrow> (x \<noteq> None, T'))"
| "perform now (Accepted token target h) T = (case record_accepted_post T target h token EXTENSION_PAISA now of (x, T') \<Rightarrow> (x \<noteq> None, T'))"
| "perform now (Diagnosed token st h) T = (case record_diagnosis T st token h EXTENSION_PAISA now BACKOFF_MINUTES of
     Inl _ \<Rightarrow> (False, T) | Inr (x, T') \<Rightarrow> (x \<noteq> None, T'))"
| "perform now (Failed token) T = (case record_pre_post_failure T token EXTENSION_PAISA now BACKOFF_MINUTES of (x, T') \<Rightarrow> (x \<noteq> None, T'))"
| "perform now (Force b) T = (True, snd (set_force_reload T b EXTENSION_PAISA now))"
| "perform now Reset T = (True, snd (reset_sync_state T EXTENSION_PAISA now))"

definition history :: "(datetime \<times> sync_event) list \<Rightarrow> sync_table \<Rightarrow> sync_table" where
  "history evs T = foldl (\<lambda>T (now, e). snd (perform now e T)) T evs"

lemma history_simps [simp]:
  "history [] T = T" "history ((now, e) # evs) T = history evs (snd (perform now e T))"
  "history (evs @ fs) T = history fs (history evs T)"
  by (simp_all add: history_def)

text \<open>The token that an event presents.\<close>

fun token_of :: "sync_event \<Rightarrow> string option" where
  "token_of (Heartbeat k _) = Some k"
| "token_of (Release k) = Some k"
| "token_of (Published k _) = Some k"
| "token_of (Noop k _) = Some k"
| "token_of (Guarded k _) = Some k"
| "token_of (Accepted k _ _) = Some k"
| "token_of (Diagnosed k _ _) = Some k"
| "token_of (Failed k) = Some k"
| "token_of _ = None"

fun claims :: "sync_event \<Rightarrow> string option" where
  "claims (Claim _ k _) = Some k"
| "claims _ = None"

section \<open>One event on one row\<close>

text \<open>An event on an existing row is a rewriting of the row, or nothing.\<close>

fun effect :: "datetime \<Rightarrow> sync_event \<Rightarrow> sync_state \<Rightarrow> sync_state option" where
  "effect now (Core_write b) r = Some (bumped b now r)"
| "effect now Ensure r = Some r"
| "effect now (Claim owner token ttl) r = (if case ss_expires r of None \<Rightarrow> True | Some t \<Rightarrow> t < now
     then Some (r\<lparr>ss_owner := Some owner, ss_token := Some token, ss_expires := Some (now + ttl * second_us)\<rparr>) else None)"
| "effect now (Heartbeat token ttl) r = (if holds token r then Some (r\<lparr>ss_expires := Some (now + ttl * second_us)\<rparr>) else None)"
| "effect now (Release token) r = (if holds token r then Some (r\<lparr>ss_owner := None, ss_token := None, ss_expires := None\<rparr>) else None)"
| "effect now (Published token h) r = (if holds token r then Some (r\<lparr>ss_published_hash := Some h\<rparr>) else None)"
| "effect now (Noop token target) r = (if holds token r then Some (caught_up_row target None now r) else None)"
| "effect now (Guarded token target) r = (if holds token r then Some (caught_up_row target None now r) else None)"
| "effect now (Accepted token target h) r = (if holds token r then Some (caught_up_row target (Some (Some h)) now r) else None)"
| "effect now (Diagnosed token st h) r = (if st \<in> set DIAGNOSIS_STATES \<and> holds token r then
     Some (if st = DIAGNOSIS_FATAL then r\<lparr>ss_diagnosis := Some st, ss_failures := ss_failures r + 1,
         ss_next_attempt := Some (now + backoff_delta (ss_failures r + 1) BACKOFF_MINUTES)\<rparr>
       else if st = DIAGNOSIS_HEALTHY \<or> st = DIAGNOSIS_ACCEPTED then r\<lparr>ss_diagnosis := Some st,
         ss_healthy_hash := (case h of None \<Rightarrow> ss_healthy_hash r | Some h \<Rightarrow> Some h), ss_failures := 0, ss_next_attempt := None\<rparr>
       else r\<lparr>ss_diagnosis := Some st\<rparr>) else None)"
| "effect now (Failed token) r = (if holds token r then Some (r\<lparr>ss_failures := ss_failures r + 1,
     ss_next_attempt := Some (now + backoff_delta (ss_failures r + 1) BACKOFF_MINUTES), ss_last_attempt := Some now\<rparr>) else None)"
| "effect now (Force b) r = Some (r\<lparr>ss_force := b\<rparr>)"
| "effect now Reset r = Some ((seed_row EXTENSION_PAISA True now)\<lparr>ss_extension_id := ss_extension_id r\<rparr>)"

definition well_formed_event :: "sync_event \<Rightarrow> bool" where
  "well_formed_event e \<longleftrightarrow>
     (case e of Noop _ n \<Rightarrow> 0 \<le> n | Guarded _ n \<Rightarrow> 0 \<le> n | Accepted _ n _ \<Rightarrow> 0 \<le> n | _ \<Rightarrow> True)"

lemma perform_row:
  assumes "T EXTENSION_PAISA = Some r"
  shows "perform now e T = (case effect now e r of None \<Rightarrow> (False, T) | Some r' \<Rightarrow> (True, T(EXTENSION_PAISA \<mapsto> r')))"
proof -
  note defs = update_where_def claim_lease_def heartbeat_lease_def release_lease_def record_published_hash_def
    record_hash_noop_def record_guard_caught_up_def record_accepted_post_def apply_caught_up_def record_diagnosis_def
    record_pre_post_failure_def fetch_guarded_def set_force_reload_def reset_sync_state_def ensure_sync_state_def
    read_sync_state_def bump_def truthy_def Let_def
  have id: "T(EXTENSION_PAISA \<mapsto> r) = T" using assms by (simp add: map_upd_triv)
  show ?thesis
  proof (cases e)
    case (Core_write b)
    then show ?thesis using assms by (simp add: bump_def update_where_def EXTENSION_PAISA_def)
  qed (use assms in \<open>simp add: defs id split: option.split\<close>)+
qed

lemma perform_no_row:
  assumes "T EXTENSION_PAISA = None"
  shows "snd (perform now e T) = (if e = Ensure \<or> e = Reset then T(EXTENSION_PAISA \<mapsto> seed_row EXTENSION_PAISA True now)
    else case e of Force b \<Rightarrow> T(EXTENSION_PAISA \<mapsto> seed_row EXTENSION_PAISA b now) | _ \<Rightarrow> T)"
proof -
  note defs = update_where_def claim_lease_def heartbeat_lease_def release_lease_def record_published_hash_def
    record_hash_noop_def record_guard_caught_up_def record_accepted_post_def apply_caught_up_def record_diagnosis_def
    record_pre_post_failure_def fetch_guarded_def set_force_reload_def reset_sync_state_def ensure_sync_state_def
    read_sync_state_def bump_def Let_def
  show ?thesis
  proof (cases e)
    case (Core_write b)
    then show ?thesis using assms by (simp add: bump_def update_where_def EXTENSION_PAISA_def)
  qed (use assms in \<open>simp add: defs\<close>)+
qed

section \<open>The CHECK constraints\<close>

definition row_ok :: "sync_table \<Rightarrow> bool" where
  "row_ok T \<longleftrightarrow> (case T EXTENSION_PAISA of None \<Rightarrow> True | Some r \<Rightarrow> checks_ok r)"

lemma effect_checks:
  assumes "checks_ok r" "well_formed_event e" "effect now e r = Some r'"
  shows "checks_ok r'"
  using assms
  by (cases e) (auto simp: checks_ok_def well_formed_event_def caught_up_row_def bumped_def seed_row_def Let_def split: if_splits)

lemma seed_checks: "checks_ok (seed_row eid b now)"
  by (simp add: checks_ok_def seed_row_def)

text \<open>C25. The database never refuses an update. Starting from a valid row, or from none, no history of
  calls with non-negative target revisions breaks a CHECK constraint: the revisions and the failure count stay
  non-negative and \<open>applied_revision\<close> never passes \<open>desired_revision\<close>.\<close>

theorem checks_never_fail:
  assumes "row_ok T" "\<forall>e \<in> snd ` set evs. well_formed_event e"
  shows "row_ok (history evs T)"
  using assms
proof (induction evs arbitrary: T)
  case (Cons x evs)
  obtain now e where x: "x = (now, e)" by (cases x)
  have "row_ok (snd (perform now e T))"
  proof (cases "T EXTENSION_PAISA")
    case None
    then show ?thesis using perform_no_row [where T = T and now = now and e = e, OF None] by (cases e) (simp_all add: row_ok_def seed_checks)
  next
    case (Some r)
    then show ?thesis using perform_row [where T = T and now = now and e = e, OF Some] effect_checks [of r e now] Cons.prems x
      by (auto simp: row_ok_def split: option.splits)
  qed
  then show ?case using Cons.IH Cons.prems(2) by (simp add: x)
qed simp

section \<open>Fencing\<close>

definition holder :: "sync_table \<Rightarrow> string \<Rightarrow> bool" where
  "holder T k \<longleftrightarrow> (case T EXTENSION_PAISA of None \<Rightarrow> False | Some r \<Rightarrow> holds k r)"

lemma effect_holds:
  assumes "effect now e r = Some r'" "holds k r'" "claims e \<noteq> Some k"
  shows "holds k r" "token_of e \<in> {None, Some k}" "claims e = None" "e \<noteq> Reset" "e \<noteq> Release k"
  using assms
  by (cases e; auto simp: holds_def caught_up_row_def bumped_def seed_row_def Let_def split: if_splits option.splits)+

lemma holder_step:
  assumes "holder (snd (perform now e T)) k" "claims e \<noteq> Some k"
  shows "holder T k" "fst (perform now e T) \<Longrightarrow> token_of e \<in> {None, Some k} \<and> claims e = None \<and> e \<noteq> Reset \<and> e \<noteq> Release k"
proof -
  have some: "T EXTENSION_PAISA \<noteq> None"
  proof
    assume none: "T EXTENSION_PAISA = None"
    show False using assms(1) perform_no_row [where T = T and now = now and e = e, OF none]
      by (cases e) (simp_all add: none holder_def holds_def seed_row_def)
  qed
  then obtain r where r: "T EXTENSION_PAISA = Some r" by auto
  show "holder T k"
  proof (cases "effect now e r")
    case None
    then show ?thesis using assms perform_row [where T = T and now = now and e = e, OF r] by simp
  next
    case (Some r')
    then have "holds k r'" using assms perform_row [where T = T and now = now and e = e, OF r] by (simp add: holder_def)
    from effect_holds(1) [OF Some this assms(2)] show ?thesis by (simp add: holder_def r)
  qed
  show "token_of e \<in> {None, Some k} \<and> claims e = None \<and> e \<noteq> Reset \<and> e \<noteq> Release k" if ok: "fst (perform now e T)"
  proof (cases "effect now e r")
    case None
    then show ?thesis using ok perform_row [where T = T and now = now and e = e, OF r] by simp
  next
    case (Some r')
    then have "holds k r'" using assms perform_row [where T = T and now = now and e = e, OF r] by (simp add: holder_def)
    from effect_holds [OF Some this assms(2)] show ?thesis by simp
  qed
qed

lemma guarded_needs_token:
  assumes "fst (perform now c T)" "token_of c = Some k"
  shows "holder T k"
proof (cases "T EXTENSION_PAISA")
  case None
  then show ?thesis using assms by (cases c) (simp_all add: update_where_def heartbeat_lease_def release_lease_def record_published_hash_def
    record_hash_noop_def record_guard_caught_up_def record_accepted_post_def apply_caught_up_def record_diagnosis_def
    record_pre_post_failure_def fetch_guarded_def split: if_splits)
next
  case (Some r)
  then show ?thesis using assms perform_row [where T = T and now = now and e = c, OF Some]
    by (cases c) (auto simp: holder_def split: if_splits option.splits)
qed

lemma held_throughout:
  assumes "\<forall>e \<in> snd ` set evs. claims e \<noteq> Some k" "holder (history evs T) k" "i \<le> length evs"
  shows "holder (history (take i evs) T) k"
  using assms
proof (induction evs arbitrary: T i)
  case (Cons x evs)
  obtain now e where x: "x = (now, e)" by (cases x)
  have later: "holder (history (take j evs) (snd (perform now e T))) k" if "j \<le> length evs" for j
    using Cons.IH [of "snd (perform now e T)" j] Cons.prems(1,2) that by (simp add: x)
  show ?case
  proof (cases i)
    case 0
    show ?thesis using holder_step(1) [of now e T k] later [of 0] Cons.prems(1) 0 by (simp add: x)
  next
    case (Suc j)
    then show ?thesis using later [of j] Cons.prems(3) by (simp add: x)
  qed
qed simp

text \<open>C19. A completion is fenced. If a call that presents the token \<open>k\<close> takes effect after a history in which
  nobody claims with \<open>k\<close> again, then \<open>k\<close> held the lease at every moment of that history: no other
  coordinator's claim or completion took effect in it, and neither did a reset or a release. In
  particular a run whose lease was lost never writes anything.\<close>

theorem completion_is_fenced:
  assumes "\<forall>e \<in> snd ` set evs. claims e \<noteq> Some k" "token_of c = Some k" "fst (perform now c (history evs T))"
  shows "(\<forall>i \<le> length evs. holder (history (take i evs) T) k) \<and>
    (\<forall>i < length evs. fst (perform (fst (evs ! i)) (snd (evs ! i)) (history (take i evs) T)) \<longrightarrow>
       token_of (snd (evs ! i)) \<in> {None, Some k} \<and> claims (snd (evs ! i)) = None \<and>
       snd (evs ! i) \<noteq> Reset \<and> snd (evs ! i) \<noteq> Release k)"
proof (intro conjI allI impI)
  have h: "holder (history (take i evs) T) k" if "i \<le> length evs" for i
    using held_throughout [OF assms(1) guarded_needs_token [OF assms(3,2)] that] .
  then show "holder (history (take i evs) T) k" if "i \<le> length evs" for i using that .
  fix i assume i: "i < length evs" "fst (perform (fst (evs ! i)) (snd (evs ! i)) (history (take i evs) T))"
  have "history (take (Suc i) evs) T = snd (perform (fst (evs ! i)) (snd (evs ! i)) (history (take i evs) T))"
    using i(1) by (simp add: take_Suc_conv_app_nth history_def case_prod_beta')
  then have "holder (snd (perform (fst (evs ! i)) (snd (evs ! i)) (history (take i evs) T))) k" using h [of "Suc i"] i(1) by simp
  moreover have "claims (snd (evs ! i)) \<noteq> Some k" using assms(1) i(1) by auto
  ultimately have "token_of (snd (evs ! i)) \<in> {None, Some k} \<and> claims (snd (evs ! i)) = None \<and>
       snd (evs ! i) \<noteq> Reset \<and> snd (evs ! i) \<noteq> Release k" using holder_step(2) i(2) by blast
  then show "token_of (snd (evs ! i)) \<in> {None, Some k}" "claims (snd (evs ! i)) = None"
    "snd (evs ! i) \<noteq> Reset" "snd (evs ! i) \<noteq> Release k" by auto
qed

section \<open>Core writes and completions\<close>

fun is_core_write :: "sync_event \<Rightarrow> bool" where
  "is_core_write (Core_write _) = True"
| "is_core_write _ = False"

text \<open>The calls that move \<open>applied_revision\<close> or rewind the row.\<close>

fun completes :: "sync_event \<Rightarrow> bool" where
  "completes (Noop _ _) = True"
| "completes (Guarded _ _) = True"
| "completes (Accepted _ _ _) = True"
| "completes Reset = True"
| "completes _ = False"

definition core_writes :: "(datetime \<times> sync_event) list \<Rightarrow> int" where
  "core_writes evs = int (length (filter (is_core_write \<circ> snd) evs))"

lemma core_writes_Cons: "core_writes ((now, e) # evs) = (if is_core_write e then 1 else 0) + core_writes evs"
  by (simp add: core_writes_def)

lemma effect_revision:
  assumes "effect now e r = Some r'" "\<not> completes e"
  shows "ss_desired r' = ss_desired r + (if is_core_write e then 1 else 0)" "ss_applied r' = ss_applied r"
    "is_core_write e \<Longrightarrow> ss_first_dirty r' \<noteq> None" "ss_first_dirty r = Some f \<Longrightarrow> ss_first_dirty r' = Some f"
    "is_core_write e \<Longrightarrow> ss_first_dirty r = None \<Longrightarrow> ss_first_dirty r' = Some now"
  using assms by (cases e; auto simp: bumped_def Let_def split: if_splits option.splits)+

lemma uncompleted_history:
  assumes "T EXTENSION_PAISA = Some r" "\<forall>e \<in> snd ` set evs. \<not> completes e"
  shows "\<exists>r'. history evs T EXTENSION_PAISA = Some r' \<and> ss_desired r' = ss_desired r + core_writes evs \<and> ss_applied r' = ss_applied r \<and>
    (0 < core_writes evs \<longrightarrow> ss_first_dirty r' \<noteq> None) \<and> (\<forall>f. ss_first_dirty r = Some f \<longrightarrow> ss_first_dirty r' = Some f)"
  using assms
proof (induction evs arbitrary: T r)
  case (Cons x evs)
  obtain now e where x: "x = (now, e)" by (cases x)
  obtain r1 where r1: "snd (perform now e T) EXTENSION_PAISA = Some r1"
    "ss_desired r1 = ss_desired r + (if is_core_write e then 1 else 0)" "ss_applied r1 = ss_applied r"
    "is_core_write e \<longrightarrow> ss_first_dirty r1 \<noteq> None" "\<forall>f. ss_first_dirty r = Some f \<longrightarrow> ss_first_dirty r1 = Some f"
  proof (cases "effect now e r")
    case None
    then have "\<not> is_core_write e" by (cases e) auto
    then show thesis using that [of r] perform_row [where T = T and now = now and e = e, OF Cons.prems(1)] None Cons.prems(1) by simp
  next
    case (Some r1)
    have "\<not> completes e" using Cons.prems(2) x by auto
    from effect_revision [OF Some this] that [of r1] show thesis
      using perform_row [where T = T and now = now and e = e, OF Cons.prems(1)] Some by auto
  qed
  have rest: "\<forall>e \<in> snd ` set evs. \<not> completes e" using Cons.prems(2) by auto
  have "0 \<le> core_writes evs" by (simp add: core_writes_def)
  then show ?case using Cons.IH [where T = "snd (perform now e T)" and r = r1, OF r1(1) rest] r1(2-5) by (auto simp: x core_writes_Cons split: if_splits)
qed (simp add: core_writes_def)

lemma effective_stays:
  assumes "holder (history evs T) k" "\<forall>e \<in> snd ` set evs. claims e \<noteq> Some k \<and> (token_of e = Some k \<longrightarrow> \<not> completes e)"
  shows "\<exists>fs. history evs T = history fs T \<and> (\<forall>e \<in> snd ` set fs. \<not> completes e) \<and> core_writes fs = core_writes evs"
  using assms
proof (induction evs arbitrary: T)
  case (Cons x evs)
  obtain now e where x: "x = (now, e)" by (cases x)
  obtain fs where fs: "history evs (snd (perform now e T)) = history fs (snd (perform now e T))"
    "\<forall>e \<in> snd ` set fs. \<not> completes e" "core_writes fs = core_writes evs"
    using Cons.IH [of "snd (perform now e T)"] Cons.prems by (auto simp: x)
  show ?case
  proof (cases "completes e")
    case False
    then show ?thesis using fs by (intro exI [of _ "(now, e) # fs"]) (auto simp: x core_writes_Cons)
  next
    case True
    have now_held: "holder (snd (perform now e T)) k"
      using held_throughout [of evs k "snd (perform now e T)" 0] Cons.prems by (auto simp: x)
    have ck: "claims e \<noteq> Some k" "token_of e \<noteq> Some k" using Cons.prems(2) True by (auto simp: x)
    have "\<not> fst (perform now e T)"
    proof
      assume ok: "fst (perform now e T)"
      from holder_step(2) [OF now_held ck(1) ok] ck(2) True show False by (cases e) auto
    qed
    moreover obtain r where r: "T EXTENSION_PAISA = Some r"
      using holder_step(1) [OF now_held ck(1)] by (auto simp: holder_def split: option.splits)
    ultimately have "snd (perform now e T) = T"
      using perform_row [where T = T and now = now and e = e, OF r] by (simp split: option.splits)
    moreover have "\<not> is_core_write e" using True by (cases e) auto
    ultimately show ?thesis using fs by (intro exI [of _ fs]) (simp add: x core_writes_Cons)
  qed
qed (rule exI [of _ "[]"], simp add: core_writes_def)

text \<open>C20. An accepted delivery accounts for exactly the core writes it has seen. A run that captured the target
  revision \<open>R\<close> while its token held the lease, and whose delivery is recorded after any interleaving with
  core writes, operators and other coordinators, leaves \<open>applied = R\<close> and \<open>desired\<close> ahead of it by the
  number of core writes since the capture; the row is clean if and only if there was none, so no write
  is swallowed and none is delivered twice.\<close>

theorem delivery_counts_core_writes:
  assumes "T EXTENSION_PAISA = Some r" "\<forall>e \<in> snd ` set evs. claims e \<noteq> Some k \<and> (token_of e = Some k \<longrightarrow> \<not> completes e)"
    and "fst (perform now (Accepted k (ss_desired r) h) (history evs T))"
  shows "\<exists>r'. snd (perform now (Accepted k (ss_desired r) h) (history evs T)) EXTENSION_PAISA = Some r' \<and>
    ss_applied r' = ss_desired r \<and> ss_desired r' = ss_desired r + core_writes evs \<and> ss_remote_hash r' = Some h \<and>
    (ss_first_dirty r' = None \<longleftrightarrow> core_writes evs = 0)"
proof -
  have held: "holder (history evs T) k" by (rule guarded_needs_token [OF assms(3)]) simp
  obtain fs where fs: "history evs T = history fs T" "\<forall>e \<in> snd ` set fs. \<not> completes e" "core_writes fs = core_writes evs"
    using effective_stays [OF held assms(2)] by blast
  obtain r1 where r1: "history evs T EXTENSION_PAISA = Some r1" "ss_desired r1 = ss_desired r + core_writes evs"
    "0 < core_writes evs \<longrightarrow> ss_first_dirty r1 \<noteq> None"
    using uncompleted_history [where T = T and r = r and evs = fs, OF assms(1) fs(2)] fs(1,3) by auto
  have "holds k r1" using held r1(1) by (simp add: holder_def)
  moreover have "0 \<le> core_writes evs" by (simp add: core_writes_def)
  ultimately show ?thesis
    using perform_row [where T = "history evs T" and now = now and e = "Accepted k (ss_desired r) h", OF r1(1)] r1(2,3)
    by (auto simp: caught_up_row_def)
qed

section \<open>Becoming due\<close>

lemma core_write_due:
  assumes "ss_applied r < ss_desired r" "ss_first_dirty r = Some f" "f + DEFAULT_MAX_DIRTY_LATENCY \<le> now"
    "\<forall>t. ss_next_attempt r = Some t \<longrightarrow> t \<le> now"
  shows "el_due (eligible r now)"
  using assms by (auto simp: reconcile_eligibility_def Let_def split: option.splits)

text \<open>C24. A core write becomes due. Half a minute after a core write, whatever calls and further core writes
  have come in since, short of a completion, the row is due, unless a failure has put off the next
  attempt to a later time.\<close>

theorem core_write_becomes_due:
  assumes "T EXTENSION_PAISA = Some r" "checks_ok r" "\<forall>f. ss_first_dirty r = Some f \<longrightarrow> f \<le> t0"
    and "\<forall>e \<in> snd ` set evs. \<not> completes e" "t0 + DEFAULT_MAX_DIRTY_LATENCY \<le> now"
    and "history ((t0, Core_write b) # evs) T EXTENSION_PAISA = Some r'" "\<forall>t. ss_next_attempt r' = Some t \<longrightarrow> t \<le> now"
  shows "el_due (eligible r' now)"
proof -
  define r1 where "r1 = bumped b t0 r"
  have r1: "snd (perform t0 (Core_write b) T) EXTENSION_PAISA = Some r1"
    using perform_row [where T = T and now = t0 and e = "Core_write b", OF assms(1)] by (simp add: r1_def)
  have rev: "ss_desired r1 = ss_desired r + 1" "ss_applied r1 = ss_applied r"
    by (simp_all add: r1_def bumped_def Let_def)
  obtain f where f: "ss_first_dirty r1 = Some f" "f \<le> t0"
    using assms(3) by (cases "ss_first_dirty r") (simp_all add: r1_def bumped_def Let_def)
  obtain r2 where r2: "history evs (snd (perform t0 (Core_write b) T)) EXTENSION_PAISA = Some r2"
    "ss_desired r2 = ss_desired r1 + core_writes evs" "ss_applied r2 = ss_applied r1" "ss_first_dirty r2 = Some f"
    using uncompleted_history [where T = "snd (perform t0 (Core_write b) T)" and r = r1 and evs = evs, OF r1 assms(4)] f(1) by blast
  have same: "r2 = r'" using r2(1) assms(6) by simp
  have "ss_applied r' < ss_desired r'" using r2(2,3) rev assms(2) by (simp add: same checks_ok_def core_writes_def)
  then show ?thesis using core_write_due [of r' f now] r2(4) f(2) assms(5,7) by (simp add: same)
qed

lemma backoff_cases:
  obtains i :: nat where "i \<le> 4" "int i = min (max 0 (n - 1)) 4" "backoff_delta n BACKOFF_MINUTES = BACKOFF_MINUTES ! i * minute_us"
proof -
  let ?i = "nat (min (max 0 (n - 1)) 4)"
  have "backoff_delta n BACKOFF_MINUTES = BACKOFF_MINUTES ! ?i * minute_us"
    by (simp add: backoff_delta_def BACKOFF_MINUTES_def Let_def)
  then show thesis using that [of ?i] by simp
qed

lemma schedule_mono: "i \<le> j \<Longrightarrow> j \<le> 4 \<Longrightarrow> 1 \<le> BACKOFF_MINUTES ! i \<and> BACKOFF_MINUTES ! i \<le> BACKOFF_MINUTES ! j \<and> BACKOFF_MINUTES ! j \<le> 15"
  by (cases i rule: nat.exhaust; cases j rule: nat.exhaust)
    (auto simp: BACKOFF_MINUTES_def nth_Cons' le_Suc_eq numeral_eq_Suc)

text \<open>The retry delay stays within the schedule. After any number of failures it is between one and
  fifteen minutes, and further failures never shorten it.\<close>

theorem backoff_bounds:
  "backoff_delta n BACKOFF_MINUTES \<in> {minute_us .. 15 * minute_us} \<and>
   backoff_delta n BACKOFF_MINUTES \<le> backoff_delta (n + int d) BACKOFF_MINUTES"
proof -
  obtain i where i: "i \<le> 4" "int i = min (max 0 (n - 1)) 4" "backoff_delta n BACKOFF_MINUTES = BACKOFF_MINUTES ! i * minute_us"
    by (rule backoff_cases)
  obtain j where j: "j \<le> 4" "int j = min (max 0 (n + int d - 1)) 4"
    "backoff_delta (n + int d) BACKOFF_MINUTES = BACKOFF_MINUTES ! j * minute_us" by (rule backoff_cases)
  have "i \<le> j" using i(2) j(2) by simp
  from schedule_mono [OF this j(1)] show ?thesis by (simp add: i(3) j(3) minute_us_def)
qed

section \<open>Examples\<close>

definition sync_demo :: sync_table where
  "sync_demo = Map.empty(EXTENSION_PAISA \<mapsto> (seed_row EXTENSION_PAISA False 0)\<lparr>ss_token := Some ''k'', ss_expires := Some 90000000\<rparr>)"

text \<open>A core write and a late claim, a stale release, a heartbeat of the holder.\<close>

definition sync_demo_events :: "(datetime \<times> sync_event) list" where
  "sync_demo_events = [(1, Core_write False), (2, Claim ''b'' ''m'' 90), (3, Release ''m''), (4, Heartbeat ''k'' 90)]"

theorem checks_never_fail_witness: "row_ok (history sync_demo_events sync_demo)"
  by (rule checks_never_fail) (simp_all add: sync_demo_events_def sync_demo_def row_ok_def seed_row_def checks_ok_def well_formed_event_def)

lemma sync_demo_completes: "fst (perform 5 (Accepted ''k'' 1 ''h'') (history sync_demo_events sync_demo))"
  by code_simp

theorem completion_is_fenced_witness:
  "holder (history (take 3 sync_demo_events) sync_demo) ''k''"
proof -
  have "\<forall>e \<in> snd ` set sync_demo_events. claims e \<noteq> Some ''k''" "3 \<le> length sync_demo_events"
    by (simp_all add: sync_demo_events_def)
  then show ?thesis using completion_is_fenced [OF _ _ sync_demo_completes, of "''k''"] by auto
qed

theorem delivery_counts_core_writes_witness:
  "\<exists>r'. snd (perform 5 (Accepted ''k'' 1 ''h'') (history sync_demo_events sync_demo)) EXTENSION_PAISA = Some r' \<and>
     ss_applied r' = 1 \<and> ss_desired r' = 2 \<and> ss_first_dirty r' \<noteq> None"
proof -
  obtain r where r: "sync_demo EXTENSION_PAISA = Some r" "ss_desired r = 1" by (simp add: sync_demo_def seed_row_def)
  have c: "core_writes sync_demo_events = 1" by code_simp
  have a: "\<forall>e \<in> snd ` set sync_demo_events. claims e \<noteq> Some ''k'' \<and> (token_of e = Some ''k'' \<longrightarrow> \<not> completes e)"
    by (simp add: sync_demo_events_def)
  have ok: "fst (perform 5 (Accepted ''k'' (ss_desired r) ''h'') (history sync_demo_events sync_demo))"
    unfolding r(2) by (rule sync_demo_completes)
  from delivery_counts_core_writes [where T = sync_demo and r = r, OF r(1) a ok]
  show ?thesis unfolding r(2) c by (elim exE conjE) (rule exI, auto)
qed

theorem core_write_becomes_due_witness:
  "\<exists>r'. history [(10, Core_write False), (11, Claim ''b'' ''m'' 90), (12, Force False)] sync_demo EXTENSION_PAISA = Some r' \<and>
     el_due (eligible r' 30000010)"
proof -
  obtain r where r: "sync_demo EXTENSION_PAISA = Some r" by (simp add: sync_demo_def)
  let ?evs = "[(11, Claim ''b'' ''m'' 90), (12, Force False)]"
  have "case history ((10, Core_write False) # ?evs) sync_demo EXTENSION_PAISA of None \<Rightarrow> False | Some r' \<Rightarrow> ss_next_attempt r' = None"
    by code_simp
  then obtain r' where r': "history ((10, Core_write False) # ?evs) sync_demo EXTENSION_PAISA = Some r'" "ss_next_attempt r' = None"
    by (auto split: option.splits)
  have "el_due (eligible r' 30000010)"
    by (rule core_write_becomes_due [where T = sync_demo and r = r and evs = ?evs and ?t0.0 = 10 and b = False, OF r _ _ _ _ r'(1)])
      (use r r'(2) in \<open>auto simp: sync_demo_def seed_row_def checks_ok_def DEFAULT_MAX_DIRTY_LATENCY_def second_us_def\<close>)
  then show ?thesis using r'(1) by auto
qed

text \<open>The debounce announces a later time than the one at which the row becomes due: dirty since 0
  and again at 28 seconds, the row is announced for 33 seconds but due at 30.\<close>

lemma debounce_announces_late:
  "let r = (seed_row EXTENSION_PAISA False 0)\<lparr>ss_last_dirty := Some 28000000\<rparr> in
   eligible r 28000000 = \<lparr>el_due = False, el_reason = ''debounce'', el_at = Some 33000000\<rparr> \<and> el_due (eligible r 30000000)"
  by code_simp

text \<open>A guard outcome consumes the revision its tick has read before it claimed the lease. If another
  run delivered a later revision in between and a core write followed, \<open>applied_revision\<close> goes back.\<close>

lemma guard_rewinds_applied:
  "map_option ss_applied (history [(1, Release ''k''), (2, Core_write False), (3, Claim ''b'' ''m'' 90), (4, Accepted ''m'' 2 ''h''),
      (5, Release ''m'')] sync_demo EXTENSION_PAISA) = Some 2 \<and>
   map_option ss_applied (history [(1, Release ''k''), (2, Core_write False), (3, Claim ''b'' ''m'' 90), (4, Accepted ''m'' 2 ''h''),
      (5, Release ''m''), (6, Claim ''a'' ''n'' 90), (7, Guarded ''n'' 1)] sync_demo EXTENSION_PAISA) = Some 1"
  by code_simp

end
