(* ===== verification/Sync_Coordinator.thy ===== *)
theory Sync_Coordinator
  imports Sync_Protocol
begin

text \<open>
  \<open>services/paisa/coordinator.py\<close>: the tick that decides whether to reconcile, one attempt with its
  stages, the wait for the lease of a manual operation. An attempt is a coroutine that commits
  several short transactions; \<open>gap\<close> is what other tasks commit before each of them (core writes,
  operators, other coordinators, its own heartbeat), \<open>fault\<close> an exception or the timeout that ends
  it there. The preflight, the generated file and the remote call belong to other modules and are
  the arguments \<open>pre\<close>, \<open>gen\<close> and \<open>remote\<close>. The audit row is the result the attempt returns; its free-form
  details, which nothing reads but the fingerprint \<open>notify_fp\<close>, are left out.
\<close>

section \<open>Results and classification\<close>

definition STATUS_SUCCESS :: string where "STATUS_SUCCESS = ''success''"
definition STATUS_FAILURE :: string where "STATUS_FAILURE = ''failure''"
definition STATUS_SKIPPED :: string where "STATUS_SKIPPED = ''skipped''"

definition MAX_ERROR_LEN :: nat where "MAX_ERROR_LEN = 2000"

definition sanitize_error :: "string option \<Rightarrow> string option" where
  "sanitize_error text = map_option (\<lambda>s. let collapsed = join_sp (split_ws s) in
     if MAX_ERROR_LEN < length collapsed then take (MAX_ERROR_LEN - 3) collapsed @ ''...'' else collapsed) text"

definition FAILURE_OUTCOMES :: "string list" where
  "FAILURE_OUTCOMES = [''unreachable'', ''readonly'', ''unsupported_backend'', ''publish_failed'', ''sync_rejected'',
     ''diagnosis_failed'', ''generate_failed'', ''error'']"

definition GUARD_OUTCOMES :: "string list" where
  "GUARD_OUTCOMES = [''disabled'', ''connect_only'', ''not_configured'']"

record attempt_result =
  ar_status :: string
  ar_outcome :: string
  ar_output_hash :: "string option"
  ar_emitted :: "int option"
  ar_error :: "string option"
  ar_notify :: bool

record preflight_report =
  pf_ok :: bool
  pf_outcome :: "string option"
  pf_reason :: "string option"

text \<open>The hash of the published body and the count of emitted rows, when there is a report and a
  publication.\<close>

record generate_result =
  gr_ok :: bool
  gr_content :: "(string \<times> int) option"
  gr_reason :: "string option"

record remote_report =
  rr_ok :: bool
  rr_outcome :: string
  rr_post_accepted :: bool
  rr_diagnosis_ok :: "bool option"
  rr_reason :: "string option"
  rr_diagnosis_accepted :: "int option"

definition failure_fingerprint :: "(string \<Rightarrow> string) \<Rightarrow> string \<Rightarrow> string option \<Rightarrow> string" where
  "failure_fingerprint sha256_hex outcome error =
     take 16 (sha256_hex (strip outcome @ CHR 0x0A # join_sp (split_ws (or_empty error))))"

definition guard_outcome_token :: "string option \<Rightarrow> string option" where
  "guard_outcome_token reason = (let text = lower (or_empty reason) in
     if text = [] then None
     else if sublist ''disabled'' text then Some ''disabled''
     else if sublist ''connect_only'' text then Some ''connect_only''
     else if sublist ''not_configured'' text \<or> sublist ''generated_path'' text \<or> sublist ''cutover'' text \<or>
       sublist ''selected account'' text then Some ''not_configured''
     else None)"

definition remote_floor_satisfied :: "sync_state \<Rightarrow> datetime \<Rightarrow> int \<Rightarrow> bool" where
  "remote_floor_satisfied r now min_interval_minutes = (case ss_last_attempt r of None \<Rightarrow> True
     | Some t \<Rightarrow> max 1 min_interval_minutes * minute_us \<le> now - t)"

definition classify_diagnosis :: "remote_report \<Rightarrow> string \<Rightarrow> string \<times> string option" where
  "classify_diagnosis remote body_hash = (case rr_diagnosis_ok remote of
     Some True \<Rightarrow> (if 0 < (case rr_diagnosis_accepted remote of None \<Rightarrow> 0 | Some n \<Rightarrow> n) then DIAGNOSIS_ACCEPTED else DIAGNOSIS_HEALTHY,
       Some body_hash)
   | Some False \<Rightarrow> (DIAGNOSIS_FATAL, None)
   | None \<Rightarrow> (DIAGNOSIS_UNKNOWN, None))"

section \<open>The tick\<close>

text \<open>The table after the tick has read it, and, when an attempt is due, the snapshot and whether the remote
  call is forced.\<close>

definition tick :: "sync_table \<Rightarrow> bool \<Rightarrow> bool \<Rightarrow> datetime \<Rightarrow> int \<Rightarrow> (sync_state \<times> bool) option \<times> sync_table" where
  "tick T can_project auto_sync_enabled now min_minutes =
     (let (snapshot, T) = (case read_sync_state T EXTENSION_PAISA of
            None \<Rightarrow> ensure_sync_state T EXTENSION_PAISA now | Some r \<Rightarrow> (r, T))
      in if \<not> can_project \<or> \<not> auto_sync_enabled then (None, T)
      else let el = eligible snapshot now
      in if \<not> el_due el then (None, T)
      else if el_reason el \<in> {''dirty'', ''max_latency''} \<and> \<not> ss_force snapshot \<and> \<not> remote_floor_satisfied snapshot now min_minutes
      then (None, T)
      else (Some (snapshot, ss_force snapshot \<or> el_reason el = ''periodic_reload''), T))"

section \<open>One attempt\<close>

datatype fault = Timeout | Exception string
datatype stage_end = Stale | Timed_out | Raised string | Returned attempt_result

record env =
  gap :: "nat \<Rightarrow> (datetime \<times> sync_event) list"
  fault :: "nat \<Rightarrow> fault option"

text \<open>The wait before the next transaction.\<close>

definition pause :: "env \<Rightarrow> nat \<Rightarrow> (sync_table \<Rightarrow> stage_end \<times> sync_table) \<Rightarrow> sync_table \<Rightarrow> stage_end \<times> sync_table" where
  "pause en k cont T = (let T = history (gap en k) T in
     case fault en k of None \<Rightarrow> cont T | Some Timeout \<Rightarrow> (Timed_out, T) | Some (Exception x) \<Rightarrow> (Raised x, T))"

text \<open>A recording that raises \<open>LeaseStaleError\<close> ends the stages.\<close>

definition guarded :: "'a option \<times> sync_table \<Rightarrow> (sync_table \<Rightarrow> stage_end \<times> sync_table) \<Rightarrow> stage_end \<times> sync_table" where
  "guarded x cont = (case x of (None, T) \<Rightarrow> (Stale, T) | (Some _, T) \<Rightarrow> cont T)"

definition guard_result :: "string \<Rightarrow> attempt_result" where
  "guard_result guard = \<lparr>ar_status = STATUS_SKIPPED, ar_outcome = guard, ar_output_hash = None, ar_emitted = None, ar_error = None, ar_notify = False\<rparr>"

definition record_preflight_outcome :: "sync_table \<Rightarrow> string \<Rightarrow> preflight_report \<Rightarrow> datetime \<Rightarrow> int \<Rightarrow> stage_end \<times> sync_table" where
  "record_preflight_outcome T token pre now guard_target_revision =
     (let outcome = (if truthy (pf_outcome pre) then or_empty (pf_outcome pre) else ''error'')
      in if outcome \<in> set GUARD_OUTCOMES then
           guarded (record_guard_caught_up T guard_target_revision token EXTENSION_PAISA now) (Pair (Returned (guard_result outcome)))
         else guarded (record_pre_post_failure T token EXTENSION_PAISA now BACKOFF_MINUTES)
           (Pair (Returned \<lparr>ar_status = STATUS_FAILURE, ar_outcome = outcome, ar_output_hash = None, ar_emitted = None,
             ar_error = sanitize_error (pf_reason pre), ar_notify = outcome \<in> set FAILURE_OUTCOMES\<rparr>)))"

definition record_generate_outcome :: "sync_table \<Rightarrow> string \<Rightarrow> generate_result \<Rightarrow> datetime \<Rightarrow> int \<Rightarrow> stage_end \<times> sync_table" where
  "record_generate_outcome T token gen now guard_target_revision =
     (case guard_outcome_token (gr_reason gen) of
        Some guard \<Rightarrow> guarded (record_guard_caught_up T guard_target_revision token EXTENSION_PAISA now) (Pair (Returned (guard_result guard)))
      | None \<Rightarrow> guarded (record_pre_post_failure T token EXTENSION_PAISA now BACKOFF_MINUTES)
           (Pair (Returned \<lparr>ar_status = STATUS_FAILURE, ar_outcome = ''generate_failed'', ar_output_hash = None, ar_emitted = None,
             ar_error = sanitize_error (gr_reason gen), ar_notify = True\<rparr>)))"

definition record_remote_outcome :: "env \<Rightarrow> sync_table \<Rightarrow> string \<Rightarrow> remote_report \<Rightarrow> string \<Rightarrow> int \<Rightarrow> int \<Rightarrow> datetime \<Rightarrow>
    stage_end \<times> sync_table" where
  "record_remote_outcome en T token remote body_hash emitted target_revision now =
     (if rr_post_accepted remote then
        guarded (record_accepted_post T target_revision body_hash token EXTENSION_PAISA now) (pause en 6 (\<lambda>T.
          let (diag_state, healthy_hash) = classify_diagnosis remote body_hash;
              ok = rr_ok remote \<and> diag_state \<in> {DIAGNOSIS_HEALTHY, DIAGNOSIS_ACCEPTED};
              res = \<lparr>ar_status = (if ok then STATUS_SUCCESS else STATUS_FAILURE), ar_outcome = rr_outcome remote,
                ar_output_hash = Some body_hash, ar_emitted = Some emitted, ar_error = (if ok then None else sanitize_error (rr_reason remote)),
                ar_notify = (\<not> ok \<and> rr_outcome remote \<in> set FAILURE_OUTCOMES)\<rparr>
          in case record_diagnosis T diag_state token healthy_hash EXTENSION_PAISA now BACKOFF_MINUTES of
               Inl _ \<Rightarrow> (Raised ''ValueError'', T) | Inr x \<Rightarrow> guarded x (Pair (Returned res))))
      else guarded (record_pre_post_failure T token EXTENSION_PAISA now BACKOFF_MINUTES)
        (Pair (Returned \<lparr>ar_status = STATUS_FAILURE, ar_outcome = rr_outcome remote, ar_output_hash = Some body_hash,
          ar_emitted = Some emitted, ar_error = sanitize_error (rr_reason remote), ar_notify = rr_outcome remote \<in> set FAILURE_OUTCOMES\<rparr>)))"

text \<open>Stages 5 and 6: skip the remote call when the remote already has the bytes, else record its answer.\<close>

definition deliver :: "env \<Rightarrow> string \<Rightarrow> bool \<Rightarrow> int \<Rightarrow> datetime \<Rightarrow> string \<Rightarrow> int \<Rightarrow> remote_report \<Rightarrow> sync_table \<Rightarrow> stage_end \<times> sync_table" where
  "deliver en token force_remote target now body_hash emitted remote T =
     (case read_sync_state T EXTENSION_PAISA of
        None \<Rightarrow> (Returned \<lparr>ar_status = STATUS_SKIPPED, ar_outcome = ''no_state'', ar_output_hash = Some body_hash,
          ar_emitted = Some emitted, ar_error = None, ar_notify = False\<rparr>, T)
      | Some snap \<Rightarrow> if \<not> force_remote \<and> should_skip_remote_post (Some body_hash) snap then
          pause en 5 (\<lambda>T. guarded (record_hash_noop T target token EXTENSION_PAISA now)
            (Pair (Returned \<lparr>ar_status = STATUS_SUCCESS, ar_outcome = ''skipped_unchanged'', ar_output_hash = Some body_hash,
              ar_emitted = Some emitted, ar_error = None, ar_notify = False\<rparr>))) T
        else pause en 5 (\<lambda>T. record_remote_outcome en T token remote body_hash emitted target now) T)"

definition run_attempt_stages :: "env \<Rightarrow> string \<Rightarrow> bool \<Rightarrow> int \<Rightarrow> datetime \<Rightarrow> preflight_report \<Rightarrow> generate_result \<Rightarrow> remote_report \<Rightarrow>
    sync_table \<Rightarrow> stage_end \<times> sync_table" where
  "run_attempt_stages en token force_remote guard_target_revision now pre gen remote =
     pause en 0 (\<lambda>T. if \<not> pf_ok pre then record_preflight_outcome T token pre now guard_target_revision
     else pause en 1 (\<lambda>T. let ((target, _), T) = capture_target T EXTENSION_PAISA now in
       pause en 2 (\<lambda>T. case (if gr_ok gen then gr_content gen else None) of
         None \<Rightarrow> record_generate_outcome T token gen now guard_target_revision
       | Some (body_hash, emitted) \<Rightarrow> pause en 3 (\<lambda>T.
           guarded (record_published_hash T body_hash token EXTENSION_PAISA)
             (pause en 4 (deliver en token force_remote target now body_hash emitted remote))) T) T) T)"

definition failed_result :: "string option \<Rightarrow> attempt_result" where
  "failed_result error = \<lparr>ar_status = STATUS_FAILURE, ar_outcome = ''error'', ar_output_hash = None, ar_emitted = None, ar_error = error, ar_notify = True\<rparr>"

definition result_of :: "stage_end \<Rightarrow> attempt_result" where
  "result_of x = (case x of
     Returned res \<Rightarrow> res
   | Timed_out \<Rightarrow> failed_result (sanitize_error (Some ''attempt timed out''))
   | Stale \<Rightarrow> \<lparr>ar_status = STATUS_SKIPPED, ar_outcome = ''stale_lease'', ar_output_hash = None, ar_emitted = None, ar_error = None, ar_notify = False\<rparr>
   | Raised e \<Rightarrow> failed_result (sanitize_error (Some e)))"

text \<open>\<open>None\<close> when another coordinator holds the lease: nothing is recorded. The second part of the
  answer says whether the user is notified.\<close>

definition attempt :: "env \<Rightarrow> (string \<Rightarrow> string) \<Rightarrow> string \<Rightarrow> string \<Rightarrow> int \<Rightarrow> string option \<Rightarrow> bool \<Rightarrow> sync_state \<Rightarrow> datetime \<Rightarrow>
    preflight_report \<Rightarrow> generate_result \<Rightarrow> remote_report \<Rightarrow> sync_table \<Rightarrow> (attempt_result \<times> bool) option \<times> sync_table" where
  "attempt en sha256_hex owner fresh lease_ttl previous_fp force_remote snapshot now pre gen remote T =
     (case claim_lease T owner None fresh EXTENSION_PAISA lease_ttl now of (claim, T) \<Rightarrow>
        if \<not> lc_claimed claim then (None, T)
        else let token = lc_token claim;
                 (stage, T) = run_attempt_stages en token force_remote (ss_desired snapshot) now pre gen remote T;
                 result = result_of stage;
                 (_, T) = release_lease (history (gap en 7) T) token EXTENSION_PAISA;
                 fp = failure_fingerprint sha256_hex (ar_outcome result) (ar_error result)
             in (Some (result, ar_notify result \<and> Some fp \<noteq> previous_fp), T))"

text \<open>The polls of a manual operation, each after what others commit while it sleeps; the last one is
  the one that finds the deadline passed.\<close>

datatype manual_claim = Claimed string | Busy

fun poll_manual :: "string \<Rightarrow> int \<Rightarrow> (datetime \<times> string \<times> (datetime \<times> sync_event) list) list \<Rightarrow> sync_table \<Rightarrow> manual_claim \<times> sync_table" where
  "poll_manual owner ttl [] T = (Busy, T)"
| "poll_manual owner ttl ((now, fresh, before) # polls) T =
     (case claim_lease (history before T) owner None fresh EXTENSION_PAISA ttl now of (claim, T) \<Rightarrow>
        if lc_claimed claim then (Claimed (lc_token claim), T) else poll_manual owner ttl polls T)"

definition claim_manual_lease :: "string \<Rightarrow> int \<Rightarrow> datetime \<Rightarrow> (datetime \<times> string \<times> (datetime \<times> sync_event) list) list \<Rightarrow> sync_table \<Rightarrow>
    manual_claim \<times> sync_table" where
  "claim_manual_lease owner ttl start polls T = poll_manual owner ttl polls (snd (ensure_sync_state T EXTENSION_PAISA start))"

section \<open>Runs that have lost the lease\<close>

lemma row_stays:
  "T EXTENSION_PAISA \<noteq> None \<Longrightarrow> history evs T EXTENSION_PAISA \<noteq> None"
proof (induction evs arbitrary: T)
  case (Cons x evs)
  obtain now e where x: "x = (now, e)" by (cases x)
  obtain r where r: "T EXTENSION_PAISA = Some r" using Cons.prems by auto
  have "snd (perform now e T) EXTENSION_PAISA \<noteq> None"
    using perform_row [where T = T and now = now and e = e, OF r] r by (simp split: option.split)
  then show ?case using Cons.IH by (simp add: x)
qed simp

text \<open>Nobody else has the token of the run; its own heartbeat extends the lease.\<close>

definition foreign :: "env \<Rightarrow> string \<Rightarrow> bool" where
  "foreign en k \<longleftrightarrow> (\<forall>i. \<forall>e \<in> snd ` set (gap en i). claims e \<noteq> Some k \<and> (token_of e = Some k \<longrightarrow> (\<exists>ttl. e = Heartbeat k ttl)))"

lemma foreign_gap: "foreign en k \<Longrightarrow> \<forall>e \<in> snd ` set (gap en i). claims e \<noteq> Some k \<and> (token_of e = Some k \<longrightarrow> \<not> completes e)"
  by (fastforce simp: foreign_def)

lemma not_held_stays:
  assumes "foreign en k" "\<not> holder T k"
  shows "\<not> holder (history (gap en i) T) k"
  using held_throughout [of "gap en i" k T 0] foreign_gap [OF assms(1), of i] assms(2) by auto

lemma not_held_update: "\<not> holder T k \<Longrightarrow> update_where EXTENSION_PAISA (holds k) f T = (None, T)"
  by (auto simp: update_where_def holder_def split: option.splits)

lemma not_held_fetch: "\<not> holder T k \<Longrightarrow> fetch_guarded T EXTENSION_PAISA k = None"
  by (auto simp: fetch_guarded_def holder_def split: option.splits)

lemmas not_held = not_held_update not_held_fetch

lemma not_held_records:
  assumes "\<not> holder T k"
  shows "record_published_hash T h k EXTENSION_PAISA = (None, T)" "apply_caught_up T n k EXTENSION_PAISA now rem = (None, T)"
    "record_pre_post_failure T k EXTENSION_PAISA now mins = (None, T)"
    "record_preflight_outcome T k pre now g = (Stale, T)" "record_generate_outcome T k gen now g = (Stale, T)"
    "record_remote_outcome en T k remote body n g now = (Stale, T)"
proof -
  show a: "record_published_hash T h k EXTENSION_PAISA = (None, T)"
    "apply_caught_up T n k EXTENSION_PAISA now rem = (None, T)"
    "record_pre_post_failure T k EXTENSION_PAISA now mins = (None, T)" for h n rem mins
    using assms by (simp_all add: record_published_hash_def apply_caught_up_def record_pre_post_failure_def not_held)
  show "record_preflight_outcome T k pre now g = (Stale, T)" "record_generate_outcome T k gen now g = (Stale, T)"
    "record_remote_outcome en T k remote body n g now = (Stale, T)"
    by (simp_all add: record_preflight_outcome_def record_generate_outcome_def record_remote_outcome_def Let_def
        record_guard_caught_up_def record_accepted_post_def a guarded_def split: option.split)
qed

lemma capture_row: "T EXTENSION_PAISA = Some r \<Longrightarrow> capture_target T EXTENSION_PAISA now = ((ss_desired r, r), T)"
  by (simp add: capture_target_def read_sync_state_def)

definition inert :: "env \<Rightarrow> nat \<Rightarrow> sync_table \<Rightarrow> stage_end \<times> sync_table \<Rightarrow> bool" where
  "inert en i T x \<longleftrightarrow> (\<forall>res. fst x \<noteq> Returned res) \<and> (\<exists>j \<le> 7. snd x = history (concat (map (gap en) [i..<j])) T)"

lemma inert_pause:
  assumes "fault en i = None \<longrightarrow> inert en (Suc i) (history (gap en i) T) (cont (history (gap en i) T))" "i < 7"
  shows "inert en i T (pause en i cont T)"
proof (cases "fault en i")
  case None
  then obtain j where j: "j \<le> 7" "snd (cont (history (gap en i) T)) = history (concat (map (gap en) [Suc i..<j])) (history (gap en i) T)"
    and nr: "\<forall>res. fst (cont (history (gap en i) T)) \<noteq> Returned res" using assms(1) by (auto simp: inert_def)
  show ?thesis
  proof (cases "i < j")
    case True
    then show ?thesis using None j nr unfolding inert_def
      by (intro conjI exI [of _ j]) (simp_all add: pause_def Let_def upt_conv_Cons)
  next
    case False
    then show ?thesis using None j nr assms(2) unfolding inert_def
      by (intro conjI exI [of _ "Suc i"]) (simp_all add: pause_def Let_def)
  qed
next
  case (Some f)
  then show ?thesis using assms(2) unfolding inert_def
    by (intro conjI exI [of _ "Suc i"]; cases f; simp add: pause_def Let_def)
qed

lemma inert_stale: "i \<le> 7 \<Longrightarrow> inert en i T (Stale, T)"
  unfolding inert_def by (intro conjI exI [of _ i]) simp_all

text \<open>The rest of the stages after each of the waits.\<close>

lemma inert_pause_Suc:
  "(fault en i = None \<Longrightarrow> inert en (Suc i) (history (gap en i) T) (cont (history (gap en i) T))) \<Longrightarrow> i < 7 \<Longrightarrow> Suc h = i \<Longrightarrow>
   inert en (Suc h) T (pause en i cont T)"
  using inert_pause [of en i T cont] by simp

lemma lost_diagnosis:
  assumes "\<not> holder T k"
  shows "record_diagnosis T st k h EXTENSION_PAISA now mins = Inr (None, T) \<or>
    (\<exists>e. record_diagnosis T st k h EXTENSION_PAISA now mins = Inl e)"
  using assms by (auto simp: record_diagnosis_def not_held Let_def)

lemma lost_after_6:
  "\<not> holder T k \<Longrightarrow> inert en (Suc 6) T (case record_diagnosis T st k h EXTENSION_PAISA now mins of
     Inl _ \<Rightarrow> (Raised x, T) | Inr y \<Rightarrow> guarded y c)"
  using lost_diagnosis [where T = T and k = k and st = st and h = h and now = now and mins = mins]
  by (auto simp: guarded_def inert_def intro!: exI [of _ 7])

lemma lost_after_5:
  assumes "\<not> holder T k"
  shows "inert en (Suc 5) T (guarded (record_hash_noop T target k EXTENSION_PAISA now) c)"
    "inert en (Suc 5) T (record_remote_outcome en T k remote body n target now)"
  using not_held_records [OF assms] by (simp_all add: record_hash_noop_def guarded_def inert_stale)

lemma lost_after_4:
  assumes "foreign en k" "\<not> holder T k" "T EXTENSION_PAISA \<noteq> None"
  shows "inert en (Suc 4) T (deliver en k force_remote target now body n remote T)"
proof -
  obtain snap where snap: "T EXTENSION_PAISA = Some snap" using assms(3) by auto
  note l = lost_after_5 [OF not_held_stays [OF assms(1,2)]]
  show ?thesis
    unfolding deliver_def read_sync_state_def snap option.case
    by (cases "\<not> force_remote \<and> should_skip_remote_post (Some body) snap"; simp only: if_True if_False simp_thms)
      (rule inert_pause_Suc, rule l, simp, simp)+
qed

lemma lost_after_3:
  "\<not> holder T k \<Longrightarrow> inert en (Suc 3) T (guarded (record_published_hash T h k EXTENSION_PAISA) c)"
  using not_held_records(1) [of T k h] by (simp add: guarded_def inert_stale)

definition publish :: "env \<Rightarrow> string \<Rightarrow> bool \<Rightarrow> int \<Rightarrow> datetime \<Rightarrow> generate_result \<Rightarrow> remote_report \<Rightarrow> int \<Rightarrow> sync_table \<Rightarrow> stage_end \<times> sync_table" where
  "publish en k force_remote g now gen remote R T = (case (if gr_ok gen then gr_content gen else None) of
       None \<Rightarrow> record_generate_outcome T k gen now g
     | Some (h, n) \<Rightarrow> pause en 3 (\<lambda>T. guarded (record_published_hash T h k EXTENSION_PAISA)
         (pause en 4 (deliver en k force_remote R now h n remote))) T)"

lemma publish_cases:
  "publish en k force_remote g now gen remote R = (\<lambda>T. record_generate_outcome T k gen now g) \<or>
   (\<exists>h n. \<forall>en. publish en k force_remote g now gen remote R = pause en 3 (\<lambda>T. guarded (record_published_hash T h k EXTENSION_PAISA)
         (pause en 4 (deliver en k force_remote R now h n remote))))"
  by (cases "if gr_ok gen then gr_content gen else None") (auto simp: publish_def fun_eq_iff)

lemma lost_after_2:
  assumes "foreign en k" "\<not> holder T k"
  shows "inert en (Suc 2) T (publish en k force_remote g now gen remote R T)"
  using publish_cases [of en k force_remote g now gen remote R]
proof (elim disjE exE)
  assume "publish en k force_remote g now gen remote R = (\<lambda>T. record_generate_outcome T k gen now g)"
  then show ?thesis using not_held_records(5) [OF assms(2)] by (simp add: inert_stale)
next
  fix h n assume p: "\<forall>en. publish en k force_remote g now gen remote R = pause en 3 (\<lambda>T. guarded (record_published_hash T h k EXTENSION_PAISA)
         (pause en 4 (deliver en k force_remote R now h n remote)))"
  show ?thesis unfolding p [rule_format]
    by (rule inert_pause_Suc, rule lost_after_3 [OF not_held_stays [OF assms]], simp, simp)
qed

definition after_capture :: "env \<Rightarrow> string \<Rightarrow> bool \<Rightarrow> int \<Rightarrow> datetime \<Rightarrow> generate_result \<Rightarrow> remote_report \<Rightarrow> sync_table \<Rightarrow> stage_end \<times> sync_table" where
  "after_capture en k force_remote g now gen remote T =
     (case capture_target T EXTENSION_PAISA now of ((R, _), T) \<Rightarrow> pause en 2 (publish en k force_remote g now gen remote R) T)"

definition after_preflight :: "env \<Rightarrow> string \<Rightarrow> bool \<Rightarrow> int \<Rightarrow> datetime \<Rightarrow> preflight_report \<Rightarrow> generate_result \<Rightarrow> remote_report \<Rightarrow> sync_table \<Rightarrow> stage_end \<times> sync_table" where
  "after_preflight en k force_remote g now pre gen remote T =
     (if \<not> pf_ok pre then record_preflight_outcome T k pre now g else pause en 1 (after_capture en k force_remote g now gen remote) T)"

lemma run_attempt_stages_after:
  "run_attempt_stages en k force_remote g now pre gen remote = pause en 0 (after_preflight en k force_remote g now pre gen remote)"
  unfolding run_attempt_stages_def after_preflight_def [abs_def] after_capture_def [abs_def] publish_def [abs_def] Let_def case_prod_beta
  by (rule refl)

lemma lost_after_1:
  assumes "foreign en k" "\<not> holder T k" "T EXTENSION_PAISA \<noteq> None"
  shows "inert en (Suc 1) T (after_capture en k force_remote g now gen remote T)"
proof -
  obtain r where r: "T EXTENSION_PAISA = Some r" using assms(3) by auto
  show ?thesis
    unfolding after_capture_def capture_row [where T = T, OF r] prod.case
    by (rule inert_pause_Suc, rule lost_after_2 [OF assms(1) not_held_stays [OF assms(1,2)]], simp, simp)
qed

lemma lost_after_0:
  assumes "foreign en k" "\<not> holder T k" "T EXTENSION_PAISA \<noteq> None"
  shows "inert en (Suc 0) T (after_preflight en k force_remote g now pre gen remote T)"
proof (cases "pf_ok pre")
  case True
  have row: "history (gap en 1) T EXTENSION_PAISA \<noteq> None" by (intro row_stays assms(3))
  have "inert en (Suc 0) T (pause en 1 (after_capture en k force_remote g now gen remote) T)"
    by (rule inert_pause_Suc, rule lost_after_1 [OF assms(1) not_held_stays [OF assms(1,2)] row], simp, simp)
  then show ?thesis using True by (simp add: after_preflight_def)
next
  case False
  then show ?thesis using not_held_records(4) [OF assms(2)] by (simp add: after_preflight_def inert_stale)
qed

text \<open>The same run cut off at the end of wait \<open>j\<close>: it leaves the table as the run then sees it.\<close>

definition cut :: "env \<Rightarrow> nat \<Rightarrow> env" where
  "cut en j = en\<lparr>fault := (fault en)(j := Some Timeout)\<rparr>"

lemma cut_facts [simp]:
  "gap (cut en j) = gap en" "fault (cut en j) j = Some Timeout" "i \<noteq> j \<Longrightarrow> fault (cut en j) i = fault en i"
  by (simp_all add: cut_def)

text \<open>If the cut run \<open>x'\<close> stops without the lease, then the whole run \<open>x\<close> does nothing more.\<close>

definition abandons :: "env \<Rightarrow> nat \<Rightarrow> string \<Rightarrow> stage_end \<times> sync_table \<Rightarrow> stage_end \<times> sync_table \<Rightarrow> bool" where
  "abandons en j k x x' \<longleftrightarrow> (\<forall>S. x' = (Timed_out, S) \<longrightarrow> \<not> holder S k \<longrightarrow> S EXTENSION_PAISA \<noteq> None \<longrightarrow>
     (\<forall>res. fst x \<noteq> Returned res) \<and> (\<exists>b \<le> 7. snd x = history (concat (map (gap en) [Suc j..<b])) S))"

lemma abandons_pause:
  assumes "i = j \<Longrightarrow> \<not> holder (history (gap en i) T) k \<Longrightarrow> history (gap en i) T EXTENSION_PAISA \<noteq> None \<Longrightarrow>
      inert en (Suc i) (history (gap en i) T) (cont (history (gap en i) T))"
    and "i \<noteq> j \<Longrightarrow> abandons en j k (cont (history (gap en i) T)) (cont' (history (gap en i) T))"
  shows "abandons en j k (pause en i cont T) (pause (cut en j) i cont' T)"
proof (cases "i = j")
  case True
  show ?thesis
    using assms(1) True
    by (cases "fault en i"; cases "the (fault en i)")
      (auto simp: abandons_def inert_def pause_def Let_def intro: exI [of _ 0])
next
  case False
  then show ?thesis
    using assms(2) by (cases "fault en i"; cases "the (fault en i)") (auto simp: abandons_def pause_def Let_def intro: exI [of _ 0])
qed

lemma abandons_guarded:
  "(\<And>T. abandons en j k (cont T) (cont' T)) \<Longrightarrow> abandons en j k (guarded x cont) (guarded x cont')"
  by (cases x) (auto simp: guarded_def abandons_def split: option.split)

lemma abandons_ended [simp]:
  "abandons en j k x (Returned res, T)" "abandons en j k x (Stale, T)" "abandons en j k x (Raised e, T)"
  by (simp_all add: abandons_def)

lemma abandons_pair: "abandons en j k (guarded x (Pair (Returned res))) (guarded x (Pair (Returned res)))"
  by (rule abandons_guarded) simp

lemma abandons_records:
  "abandons en j k x (record_preflight_outcome T k pre now g)"
  "abandons en j k x (record_generate_outcome T k gen now g)"
  by (auto simp: record_preflight_outcome_def record_generate_outcome_def guarded_def abandons_def Let_def split: option.split prod.split)

lemma abandons_remote:
  "abandons en j k (record_remote_outcome en T k remote body n R now) (record_remote_outcome (cut en j) T k remote body n R now)"
proof (cases "rr_post_accepted remote")
  case True
  show ?thesis
    unfolding record_remote_outcome_def if_P [OF True] Let_def prod.case_eq_if
    by (intro abandons_guarded abandons_pause)
      (use lost_after_6 in \<open>simp, auto simp: guarded_def abandons_def split: sum.split option.split prod.split\<close>)
next
  case False
  then show ?thesis by (simp add: record_remote_outcome_def abandons_pair)
qed

lemma abandons_deliver:
  "abandons en j k (deliver en k force_remote R now h n remote T) (deliver (cut en j) k force_remote R now h n remote T)"
proof (cases "T EXTENSION_PAISA")
  case None
  then show ?thesis by (simp add: deliver_def read_sync_state_def)
next
  case (Some snap)
  let ?ok = "\<lparr>ar_status = STATUS_SUCCESS, ar_outcome = ''skipped_unchanged'', ar_output_hash = Some h,
    ar_emitted = Some n, ar_error = None, ar_notify = False\<rparr>"
  let ?noop = "\<lambda>T. guarded (record_hash_noop T R k EXTENSION_PAISA now) (Pair (Returned ?ok))"
  have noop: "abandons en j k (pause en 5 ?noop T) (pause (cut en j) 5 ?noop T)"
    by (rule abandons_pause, rule lost_after_5(1), assumption, rule abandons_pair)
  have post: "abandons en j k (pause en 5 (\<lambda>T. record_remote_outcome en T k remote h n R now) T)
      (pause (cut en j) 5 (\<lambda>T. record_remote_outcome (cut en j) T k remote h n R now) T)"
    by (rule abandons_pause, rule lost_after_5(2), assumption, rule abandons_remote)
  show ?thesis
    using noop post by (cases "\<not> force_remote \<and> should_skip_remote_post (Some h) snap")
      (simp_all only: deliver_def read_sync_state_def Some option.case if_True if_False simp_thms)
qed

lemma abandons_publish:
  assumes "foreign en k"
  shows "abandons en j k (publish en k force_remote g now gen remote R T) (publish (cut en j) k force_remote g now gen remote R T)"
proof (cases "if gr_ok gen then gr_content gen else None")
  case None
  then show ?thesis by (simp only: publish_def option.case abandons_records)
next
  case (Some x)
  obtain h n where x: "x = (h, n)" by force
  have 4: "abandons en j k (pause en 4 (deliver en k force_remote R now h n remote) T4)
      (pause (cut en j) 4 (deliver (cut en j) k force_remote R now h n remote) T4)" for T4
    by (rule abandons_pause, rule lost_after_4 [OF assms], assumption+, rule abandons_deliver)
  show ?thesis
    unfolding publish_def Some x option.case prod.case
    by (rule abandons_pause, rule lost_after_3, assumption, rule abandons_guarded, rule 4)
qed

lemma abandons_after_capture:
  assumes "foreign en k"
  shows "abandons en j k (after_capture en k force_remote g now gen remote T) (after_capture (cut en j) k force_remote g now gen remote T)"
  unfolding after_capture_def case_prod_beta
  by (rule abandons_pause, rule lost_after_2 [OF assms], assumption, rule abandons_publish [OF assms])

lemma abandons_after_preflight:
  assumes "foreign en k"
  shows "abandons en j k (after_preflight en k force_remote g now pre gen remote T) (after_preflight (cut en j) k force_remote g now pre gen remote T)"
proof (cases "pf_ok pre")
  case True
  have "abandons en j k (pause en 1 (after_capture en k force_remote g now gen remote) T)
      (pause (cut en j) 1 (after_capture (cut en j) k force_remote g now gen remote) T)"
    by (rule abandons_pause, rule lost_after_1 [OF assms], assumption+, rule abandons_after_capture [OF assms])
  then show ?thesis using True by (simp add: after_preflight_def)
next
  case False
  then show ?thesis by (simp add: after_preflight_def abandons_records)
qed

text \<open>C22. A run that loses its lease is inert from then on. Whatever the preflight, the generated file and the
  remote answer are, and whichever of the run's seven waits it is in, if the wait ends with the lease
  held by another token (it expired, was claimed by a peer, was reset) and with the row in place, the
  run returns no result and writes nothing more: the table it leaves is the one the other tasks make
  of the table at the end of that wait.\<close>

theorem stale_run_is_inert:
  assumes "foreign en k"
    and "run_attempt_stages (cut en j) k force_remote target now pre gen remote T = (Timed_out, S)"
    and "\<not> holder S k" "S EXTENSION_PAISA \<noteq> None"
  shows "(\<forall>res. fst (run_attempt_stages en k force_remote target now pre gen remote T) \<noteq> Returned res) \<and>
    (\<exists>b \<le> 7. snd (run_attempt_stages en k force_remote target now pre gen remote T) = history (concat (map (gap en) [Suc j..<b])) S)"
proof -
  have "abandons en j k (run_attempt_stages en k force_remote target now pre gen remote T)
      (run_attempt_stages (cut en j) k force_remote target now pre gen remote T)"
    unfolding run_attempt_stages_after
    by (rule abandons_pause, rule lost_after_0 [OF assms(1)], assumption+, rule abandons_after_preflight [OF assms(1)])
  then show ?thesis using assms(2-4) by (simp add: abandons_def)
qed

section \<open>Runs that hold the lease\<close>

lemma effect_hash:
  assumes "effect now e r = Some r'" "\<not> completes e"
  shows "ss_remote_hash r' = ss_remote_hash r"
  using assms by (cases e) (auto simp: bumped_def Let_def split: if_splits option.splits)

lemma uncompleted_hash:
  "T EXTENSION_PAISA = Some r \<Longrightarrow> \<forall>e \<in> snd ` set evs. \<not> completes e \<Longrightarrow>
   \<exists>r'. history evs T EXTENSION_PAISA = Some r' \<and> ss_remote_hash r' = ss_remote_hash r"
proof (induction evs arbitrary: T r)
  case (Cons x evs)
  obtain now e where x: "x = (now, e)" by (cases x)
  have "\<exists>r1. snd (perform now e T) EXTENSION_PAISA = Some r1 \<and> ss_remote_hash r1 = ss_remote_hash r"
    using perform_row [where T = T and now = now and e = e, OF Cons.prems(1)] effect_hash [of now e r] Cons.prems
    by (auto simp: x split: option.split)
  then obtain r1 where r1: "snd (perform now e T) EXTENSION_PAISA = Some r1" "ss_remote_hash r1 = ss_remote_hash r" by blast
  have "\<forall>e \<in> snd ` set evs. \<not> completes e" using Cons.prems(2) by auto
  from Cons.IH [where T = "snd (perform now e T)" and r = r1, OF r1(1) this] r1(2) show ?case by (simp add: x)
qed simp

text \<open>What a run that still holds the lease sees after others have committed.\<close>

lemma held_gap:
  assumes "T EXTENSION_PAISA = Some r" "holder (history evs T) k"
    "\<forall>e \<in> snd ` set evs. claims e \<noteq> Some k \<and> (token_of e = Some k \<longrightarrow> \<not> completes e)"
  shows "\<exists>r'. history evs T EXTENSION_PAISA = Some r' \<and> holds k r' \<and> ss_desired r' = ss_desired r + core_writes evs \<and>
    ss_applied r' = ss_applied r \<and> ss_remote_hash r' = ss_remote_hash r \<and> (0 < core_writes evs \<longrightarrow> ss_first_dirty r' \<noteq> None)"
proof -
  obtain fs where fs: "history evs T = history fs T" "\<forall>e \<in> snd ` set fs. \<not> completes e" "core_writes fs = core_writes evs"
    using effective_stays [OF assms(2,3)] by blast
  obtain r1 where "history fs T EXTENSION_PAISA = Some r1" "ss_desired r1 = ss_desired r + core_writes fs"
    "ss_applied r1 = ss_applied r" "0 < core_writes fs \<longrightarrow> ss_first_dirty r1 \<noteq> None"
    using uncompleted_history [where T = T and r = r and evs = fs, OF assms(1) fs(2)] by auto
  moreover have "\<exists>r2. history fs T EXTENSION_PAISA = Some r2 \<and> ss_remote_hash r2 = ss_remote_hash r"
    by (rule uncompleted_hash [where T = T and r = r and evs = fs, OF assms(1) fs(2)])
  ultimately show ?thesis using assms(2) fs by (auto simp: holder_def)
qed

lemma core_writes_append: "core_writes (xs @ ys) = core_writes xs + core_writes ys"
  by (simp add: core_writes_def)

lemma core_writes_nonneg: "0 \<le> core_writes xs"
  by (simp add: core_writes_def)

lemma pause_returned:
  assumes "pause en i cont T = (Returned res, T')"
  shows "cont (history (gap en i) T) = (Returned res, T')"
  using assms by (auto simp: pause_def Let_def split: option.splits fault.splits)

lemma guarded_returned:
  assumes "guarded x cont = (Returned res, T')"
  shows "\<exists>v T. x = (Some v, T) \<and> cont T = (Returned res, T')"
  using assms by (auto simp: guarded_def split: prod.splits option.splits)

lemma update_returned:
  assumes "update_where EXTENSION_PAISA (holds k) f T = (Some r', T')"
  shows "holder T k" "\<exists>r. T EXTENSION_PAISA = Some r \<and> r' = f r \<and> T' = T(EXTENSION_PAISA \<mapsto> f r)"
  using assms by (auto simp: update_where_def holder_def split: option.splits if_splits)

text \<open>The table \<open>T2\<close> after the generation, the row of the capture, and the recording of the
  published hash.\<close>

lemma stages_returned:
  assumes "run_attempt_stages en k force_remote target now pre gen remote T = (Returned res, T')"
    and "pf_ok pre" "gr_ok gen" "gr_content gen = Some (body, n)" "T EXTENSION_PAISA \<noteq> None"
  defines "T1 \<equiv> history (gap en 1) (history (gap en 0) T)"
  defines "T3 \<equiv> history (gap en 3) (history (gap en 2) T1)"
  shows "\<exists>r1 r3 snap. T1 EXTENSION_PAISA = Some r1 \<and> holder T3 k \<and> T3 EXTENSION_PAISA = Some r3 \<and>
    history (gap en 4) (T3(EXTENSION_PAISA \<mapsto> r3\<lparr>ss_published_hash := Some body\<rparr>)) EXTENSION_PAISA = Some snap \<and>
    (let T5 = history (gap en 5) (history (gap en 4) (T3(EXTENSION_PAISA \<mapsto> r3\<lparr>ss_published_hash := Some body\<rparr>))) in
     if \<not> force_remote \<and> should_skip_remote_post (Some body) snap
     then (\<exists>v. record_hash_noop T5 (ss_desired r1) k EXTENSION_PAISA now = (Some v, T')) \<and> ar_status res = STATUS_SUCCESS
     else record_remote_outcome en T5 k remote body n (ss_desired r1) now = (Returned res, T'))"
proof -
  have "T1 EXTENSION_PAISA \<noteq> None" unfolding T1_def by (intro row_stays assms(5))
  then obtain r1 where r1: "T1 EXTENSION_PAISA = Some r1" by auto
  let ?deliver = "deliver en k force_remote (ss_desired r1) now body n remote"
  have 1: "pause en 2 (pause en 3 (\<lambda>T. guarded (record_published_hash T body k EXTENSION_PAISA) (pause en 4 ?deliver))) T1 = (Returned res, T')"
    using pause_returned [OF assms(1) [unfolded run_attempt_stages_def]] assms(2-4) r1
    by (auto simp: T1_def capture_row dest!: pause_returned)
  obtain v T3' where 2: "record_published_hash T3 body k EXTENSION_PAISA = (Some v, T3')" and
    3: "pause en 4 ?deliver T3' = (Returned res, T')"
    using guarded_returned [OF pause_returned [OF pause_returned [OF 1]]] unfolding T3_def by blast
  obtain r3 where r3: "holder T3 k" "T3 EXTENSION_PAISA = Some r3" "T3' = T3(EXTENSION_PAISA \<mapsto> r3\<lparr>ss_published_hash := Some body\<rparr>)"
    using update_returned [OF 2 [unfolded record_published_hash_def]] by blast
  have "history (gap en 4) T3' EXTENSION_PAISA \<noteq> None" by (intro row_stays) (simp add: r3(3))
  then obtain snap where snap: "history (gap en 4) T3' EXTENSION_PAISA = Some snap" by auto
  have 4: "if \<not> force_remote \<and> should_skip_remote_post (Some body) snap
     then (\<exists>v. record_hash_noop (history (gap en 5) (history (gap en 4) T3')) (ss_desired r1) k EXTENSION_PAISA now = (Some v, T')) \<and>
       ar_status res = STATUS_SUCCESS
     else record_remote_outcome en (history (gap en 5) (history (gap en 4) T3')) k remote body n (ss_desired r1) now = (Returned res, T')"
    using pause_returned [OF 3] snap
    by (auto simp: deliver_def read_sync_state_def dest!: pause_returned guarded_returned split: if_splits)
  show ?thesis using r1 r3(1,2) snap 4 unfolding r3(3) Let_def by blast
qed

lemma held_pause:
  assumes "foreign en k" "T EXTENSION_PAISA = Some r" "holder (history (gap en i) T) k"
  shows "holder T k" "\<exists>r'. history (gap en i) T EXTENSION_PAISA = Some r' \<and> holds k r' \<and>
    ss_desired r' = ss_desired r + core_writes (gap en i) \<and> ss_applied r' = ss_applied r \<and> ss_remote_hash r' = ss_remote_hash r"
proof -
  show "holder T k" using not_held_stays [OF assms(1)] assms(3) by blast
  show "\<exists>r'. history (gap en i) T EXTENSION_PAISA = Some r' \<and> holds k r' \<and>
    ss_desired r' = ss_desired r + core_writes (gap en i) \<and> ss_applied r' = ss_applied r \<and> ss_remote_hash r' = ss_remote_hash r"
    using held_gap [where T = T and r = r and evs = "gap en i" and k = k, OF assms(2,3) foreign_gap [OF assms(1)]] by blast
qed

text \<open>The row after an accepted delivery and its diagnosis.\<close>

lemma accepted_returned:
  assumes "foreign en k" "record_remote_outcome en T k remote body n R now = (Returned res, T')" "rr_post_accepted remote"
    and "T EXTENSION_PAISA = Some r" "R \<le> ss_desired r"
  shows "holder T k \<and> (\<exists>r'. T' EXTENSION_PAISA = Some r' \<and> ss_applied r' = R \<and> ss_desired r \<le> ss_desired r' \<and> ss_remote_hash r' = Some body)"
proof -
  obtain v T1 st hh va where acc: "record_accepted_post T R body k EXTENSION_PAISA now = (Some v, T1)" and
    diag: "record_diagnosis (history (gap en 6) T1) st k hh EXTENSION_PAISA now BACKOFF_MINUTES = Inr (Some va, T')"
    using assms(2,3) unfolding record_remote_outcome_def
    by (auto simp: Let_def dest!: guarded_returned pause_returned split: prod.splits sum.splits)
  have held: "holder T k" and T1: "T1 EXTENSION_PAISA = Some (caught_up_row R (Some (Some body)) now r)"
    using acc assms(4) by (auto simp: record_accepted_post_def apply_caught_up_def update_where_def holder_def split: if_splits)
  have p: "perform now (Diagnosed k st hh) (history (gap en 6) T1) = (True, T')" using diag by simp
  have h6: "holder (history (gap en 6) T1) k" by (rule guarded_needs_token [of now "Diagnosed k st hh"]) (simp_all add: diag)
  obtain r6 where r6: "history (gap en 6) T1 EXTENSION_PAISA = Some r6" "ss_desired r6 = ss_desired r + core_writes (gap en 6)"
    "ss_applied r6 = R" "ss_remote_hash r6 = Some body"
    using held_pause(2) [where T = T1, OF assms(1) T1 h6] assms(5) by (auto simp: caught_up_row_def Let_def)
  obtain r7 where r7: "effect now (Diagnosed k st hh) r6 = Some r7" "T' EXTENSION_PAISA = Some r7"
    using p perform_row [where T = "history (gap en 6) T1" and now = now and e = "Diagnosed k st hh", OF r6(1)]
    by (auto split: option.splits)
  have "ss_applied r7 = ss_applied r6" "ss_desired r7 = ss_desired r6" "ss_remote_hash r7 = ss_remote_hash r6"
    using effect_revision(1,2) [OF r7(1)] effect_hash [OF r7(1)] by simp_all
  then show ?thesis using held r7(2) r6(2-4) core_writes_nonneg [of "gap en 6"] by auto
qed

lemma noop_recorded:
  assumes "record_hash_noop T R k EXTENSION_PAISA now = (Some v, T')" "T EXTENSION_PAISA = Some r" "R \<le> ss_desired r"
  shows "holder T k \<and> (\<exists>r'. T' EXTENSION_PAISA = Some r' \<and> ss_applied r' = R \<and> ss_desired r \<le> ss_desired r' \<and> ss_remote_hash r' = ss_remote_hash r)"
  using assms by (auto simp: record_hash_noop_def apply_caught_up_def update_where_def holder_def caught_up_row_def Let_def split: if_splits)

text \<open>The revision of the row from the capture to the recording, over four waits and the checkpoint.\<close>

lemma revision_to_delivery:
  fixes h :: "string option"
  assumes foreign: "foreign en k" and r1: "T1 EXTENSION_PAISA = Some r1"
  defines "T3 \<equiv> history (gap en 3) (history (gap en 2) T1)"
  assumes held3: "holder T3 k" and r3: "T3 EXTENSION_PAISA = Some r3"
  defines "T4 \<equiv> history (gap en 4) (T3(EXTENSION_PAISA \<mapsto> r3\<lparr>ss_published_hash := h\<rparr>))"
  assumes snap: "T4 EXTENSION_PAISA = Some snap" and held5: "holder (history (gap en 5) T4) k"
  shows "\<exists>r5. history (gap en 5) T4 EXTENSION_PAISA = Some r5 \<and> ss_remote_hash r5 = ss_remote_hash snap \<and>
    ss_desired r5 = ss_desired r1 + core_writes (gap en 2) + core_writes (gap en 3) + core_writes (gap en 4) + core_writes (gap en 5)"
proof -
  define T2 where "T2 = history (gap en 2) T1"
  define T3' where "T3' = T3(EXTENSION_PAISA \<mapsto> r3\<lparr>ss_published_hash := h\<rparr>)"
  have row3: "T3' EXTENSION_PAISA = Some (r3\<lparr>ss_published_hash := h\<rparr>)" by (simp add: T3'_def)
  have held4: "holder T4 k" by (rule held_pause(1) [where T = T4 and i = 5, OF foreign snap held5])
  obtain r2 where r2: "T2 EXTENSION_PAISA = Some r2" using row_stays [of T1 "gap en 2"] r1 by (auto simp: T2_def)
  have h3: "holder (history (gap en 3) T2) k" using held3 by (simp add: T3_def T2_def)
  have h2: "holder T2 k" by (rule held_pause(1) [where T = T2 and i = 3, OF foreign r2 h3])
  have "ss_desired r2 = ss_desired r1 + core_writes (gap en 2)"
    using held_pause(2) [where T = T1 and i = 2, OF foreign r1] h2 r2 by (auto simp: T2_def)
  moreover have "ss_desired r3 = ss_desired r2 + core_writes (gap en 3)"
    using held_pause(2) [where T = T2 and i = 3, OF foreign r2 h3] r3 by (auto simp: T3_def T2_def)
  moreover have "ss_desired snap = ss_desired r3 + core_writes (gap en 4)"
    using held_pause(2) [where T = T3' and i = 4, OF foreign row3] held4 snap by (auto simp: T4_def T3'_def)
  ultimately show ?thesis using held_pause(2) [where T = T4 and i = 5, OF foreign snap held5] by auto
qed

text \<open>A core write is a write to the settings, or to the data of the projection.\<close>

fun data_write :: "sync_event \<Rightarrow> bool" where
  "data_write (Core_write of_settings) = (\<not> of_settings)"
| "data_write _ = False"

fun setting_write :: "sync_event \<Rightarrow> bool" where
  "setting_write (Core_write of_settings) = of_settings"
| "setting_write _ = False"

definition data_writes :: "(datetime \<times> sync_event) list \<Rightarrow> int" where
  "data_writes evs = int (length (filter (data_write \<circ> snd) evs))"

definition setting_writes :: "(datetime \<times> sync_event) list \<Rightarrow> int" where
  "setting_writes evs = int (length (filter (setting_write \<circ> snd) evs))"

lemma core_writes_split: "core_writes evs = data_writes evs + setting_writes evs"
proof (induction evs)
  case (Cons x evs)
  obtain now e where x: "x = (now, e)" by (cases x)
  show ?case using Cons by (cases e) (auto simp: x core_writes_def data_writes_def setting_writes_def)
qed (simp add: core_writes_def data_writes_def setting_writes_def)

lemma no_core_writes:
  assumes "core_writes evs = 0"
  shows "data_writes (xs @ evs) = data_writes xs" "setting_writes (xs @ evs) = setting_writes xs"
proof -
  have "0 \<le> data_writes evs" "0 \<le> setting_writes evs" by (simp_all add: data_writes_def setting_writes_def)
  then have "data_writes evs = 0" "setting_writes evs = 0" using assms core_writes_split [of evs] by simp_all
  then show "data_writes (xs @ evs) = data_writes xs" "setting_writes (xs @ evs) = setting_writes xs"
    by (simp_all add: data_writes_def setting_writes_def)
qed

text \<open>C21. What a delivered row says about the file. The generated body is a function \<open>render\<close> of the
  settings, which the tick reads before it claims the lease, and of the data whose writes fire the
  triggers, which the generation reads; the numbers of writes since the tick stand for them (the manual
  items, which the projection reads too, have no trigger and are taken as unchanged meanwhile;
  \<open>early\<close> is
  what is committed between the tick's reading and the start of the run). When an attempt returns
  whose preflight passed, whose file was published, and whose remote call is accepted or found
  unnecessary, the row holds the hash of the published body. If no revision is outstanding then,
  that body renders the data as they are when the delivery is recorded, under the settings of the
  tick; these are the settings of that moment too, unless they were written between the tick's
  reading and the capture of the revision.\<close>

theorem delivered_row_is_current:
  assumes run: "run_attempt_stages en k force_remote target now pre gen remote T = (Returned res, T')"
    and foreign: "foreign en k" and row: "T EXTENSION_PAISA \<noteq> None" and ok: "pf_ok pre" "gr_ok gen" "rr_post_accepted remote"
    and content: "gr_content gen = Some (render 0 (data_writes (early @ concat (map (gap en) [0..<3]))), n)"
  shows "\<exists>r'. T' EXTENSION_PAISA = Some r' \<and>
    ss_remote_hash r' = Some (render 0 (data_writes (early @ concat (map (gap en) [0..<3])))) \<and>
    (ss_desired r' \<le> ss_applied r' \<longrightarrow>
       ss_remote_hash r' = Some (render 0 (data_writes (early @ concat (map (gap en) [0..<6])))) \<and>
       (setting_writes (early @ concat (map (gap en) [0..<2])) = 0 \<longrightarrow>
          ss_remote_hash r' = Some (render (setting_writes (early @ concat (map (gap en) [0..<6])))
            (data_writes (early @ concat (map (gap en) [0..<6]))))))"
proof -
  define body where "body = render 0 (data_writes (early @ concat (map (gap en) [0..<3])))"
  define T1 where "T1 = history (gap en 1) (history (gap en 0) T)"
  obtain r1 r3 snap T5 where s: "T1 EXTENSION_PAISA = Some r1" "holder (history (gap en 3) (history (gap en 2) T1)) k"
    "history (gap en 3) (history (gap en 2) T1) EXTENSION_PAISA = Some r3"
    "history (gap en 4) ((history (gap en 3) (history (gap en 2) T1))(EXTENSION_PAISA \<mapsto> r3\<lparr>ss_published_hash := Some body\<rparr>)) EXTENSION_PAISA = Some snap"
    and T5: "T5 = history (gap en 5) (history (gap en 4) ((history (gap en 3) (history (gap en 2) T1))(EXTENSION_PAISA \<mapsto> r3\<lparr>ss_published_hash := Some body\<rparr>)))"
    and s5: "if \<not> force_remote \<and> should_skip_remote_post (Some body) snap
     then (\<exists>v. record_hash_noop T5 (ss_desired r1) k EXTENSION_PAISA now = (Some v, T')) \<and> ar_status res = STATUS_SUCCESS
     else record_remote_outcome en T5 k remote body n (ss_desired r1) now = (Returned res, T')"
    using stages_returned [OF run ok(1,2) content row] unfolding T1_def body_def Let_def by blast
  have "holder T5 k"
  proof (rule ccontr)
    assume "\<not> holder T5 k"
    from not_held_records(2,6) [OF this] s5 show False by (auto simp: record_hash_noop_def split: if_splits)
  qed
  then obtain r5 where r5: "T5 EXTENSION_PAISA = Some r5" "ss_remote_hash r5 = ss_remote_hash snap"
    "ss_desired r5 = ss_desired r1 + core_writes (gap en 2) + core_writes (gap en 3) + core_writes (gap en 4) + core_writes (gap en 5)"
    using revision_to_delivery [where ?T1.0 = T1, OF foreign s] unfolding T5 by blast
  note nonneg = core_writes_nonneg [of "gap en 2"] core_writes_nonneg [of "gap en 3"] core_writes_nonneg [of "gap en 4"] core_writes_nonneg [of "gap en 5"]
  have le: "ss_desired r1 \<le> ss_desired r5" using r5(3) nonneg by simp
  have "\<exists>r'. T' EXTENSION_PAISA = Some r' \<and> ss_applied r' = ss_desired r1 \<and> ss_desired r5 \<le> ss_desired r' \<and> ss_remote_hash r' = Some body"
  proof (cases "\<not> force_remote \<and> should_skip_remote_post (Some body) snap")
    case True
    then obtain v where v: "record_hash_noop T5 (ss_desired r1) k EXTENSION_PAISA now = (Some v, T')" using s5 by auto
    have "ss_remote_hash snap = Some body" using True by (simp add: should_skip_remote_post_def split: if_splits)
    then show ?thesis using noop_recorded [where T = T5 and r = r5, OF v r5(1) le] r5(2) by auto
  next
    case False
    then have "record_remote_outcome en T5 k remote body n (ss_desired r1) now = (Returned res, T')" using s5 by auto
    from accepted_returned [where T = T5, OF foreign this ok(3) r5(1) le] show ?thesis by blast
  qed
  then obtain r' where r': "T' EXTENSION_PAISA = Some r'" "ss_applied r' = ss_desired r1" "ss_desired r5 \<le> ss_desired r'" "ss_remote_hash r' = Some body"
    by blast
  let ?g = "\<lambda>i. early @ concat (map (gap en) [0..<i])"
  have quiet: "data_writes (?g 6) = data_writes (?g 3) \<and> setting_writes (?g 6) = setting_writes (?g 2)"
    if "ss_desired r' \<le> ss_applied r'"
  proof -
    have zero: "core_writes (gap en 2) = 0" "core_writes (gap en 3) = 0" "core_writes (gap en 4) = 0" "core_writes (gap en 5) = 0"
      using that r'(2,3) r5(3) nonneg by simp_all
    have step: "?g 3 = ?g 2 @ gap en 2" "?g 4 = ?g 3 @ gap en 3" "?g 5 = ?g 4 @ gap en 4" "?g 6 = ?g 5 @ gap en 5"
      by (simp_all add: numeral_eq_Suc)
    note z = no_core_writes [OF zero(1), of "?g 2", folded step(1)] no_core_writes [OF zero(2), of "?g 3", folded step(2)]
      no_core_writes [OF zero(3), of "?g 4", folded step(3)] no_core_writes [OF zero(4), of "?g 5", folded step(4)]
    show ?thesis using z by simp
  qed
  show ?thesis
  proof (rule exI [of _ r'], intro conjI impI)
    show "T' EXTENSION_PAISA = Some r'" "ss_remote_hash r' = Some (render 0 (data_writes (?g 3)))"
      using r'(1,4) by (simp_all add: body_def)
    assume clean: "ss_desired r' \<le> ss_applied r'"
    then show "ss_remote_hash r' = Some (render 0 (data_writes (?g 6)))" using quiet r'(4) by (simp add: body_def)
    assume "setting_writes (?g 2) = 0"
    then show "ss_remote_hash r' = Some (render (setting_writes (?g 6)) (data_writes (?g 6)))"
      using quiet [OF clean] r'(4) by (simp add: body_def)
  qed
qed

section \<open>Runs that fail\<close>

definition put_off :: "sync_state \<Rightarrow> datetime \<Rightarrow> sync_state \<Rightarrow> bool" where
  "put_off r now r' \<longleftrightarrow> ss_applied r' = ss_applied r \<and> ss_desired r \<le> ss_desired r' \<and>
     (\<exists>d \<in> {minute_us .. 15 * minute_us}. ss_next_attempt r' = Some (now + d))"

definition not_ahead :: "sync_state \<Rightarrow> sync_state \<Rightarrow> bool" where
  "not_ahead r r' \<longleftrightarrow> ss_applied r' = ss_applied r \<and> ss_desired r \<le> ss_desired r'"

lemma not_ahead_trans: "not_ahead a b \<Longrightarrow> not_ahead b c \<Longrightarrow> not_ahead a c"
  by (simp add: not_ahead_def)

lemma failure_recorded:
  assumes "record_pre_post_failure T k EXTENSION_PAISA now BACKOFF_MINUTES = (Some v, T')" "T EXTENSION_PAISA = Some r1" "not_ahead r r1"
  shows "\<exists>r'. T' EXTENSION_PAISA = Some r' \<and> put_off r now r'"
  using assms backoff_bounds [of "ss_failures r1 + 1" 0]
  by (auto simp: record_pre_post_failure_def fetch_guarded_def update_where_def put_off_def not_ahead_def Let_def split: if_splits)

lemma failure_held: "record_pre_post_failure T k EXTENSION_PAISA now BACKOFF_MINUTES = (Some v, T') \<Longrightarrow> holder T k"
  using not_held_records(3) [of T k now BACKOFF_MINUTES] by (metis option.distinct(1) prod.inject)

lemma held_pause_not_ahead:
  assumes "foreign en k" "T EXTENSION_PAISA = Some r" "holder (history (gap en i) T) k"
  shows "holder T k \<and> (\<exists>r'. history (gap en i) T EXTENSION_PAISA = Some r' \<and> not_ahead r r')"
  using held_pause [where T = T, OF assms] core_writes_nonneg [of "gap en i"] by (auto simp: not_ahead_def)

lemma status_distinct: "STATUS_FAILURE \<noteq> STATUS_SKIPPED" "STATUS_FAILURE \<noteq> STATUS_SUCCESS"
  by (simp_all add: STATUS_FAILURE_def STATUS_SKIPPED_def STATUS_SUCCESS_def)

lemma failing_record:
  assumes "ar_status res = STATUS_FAILURE"
  shows "record_preflight_outcome T k pre now g = (Returned res, T') \<Longrightarrow>
      \<exists>v. record_pre_post_failure T k EXTENSION_PAISA now BACKOFF_MINUTES = (Some v, T')"
    "record_generate_outcome T k gen now g = (Returned res, T') \<Longrightarrow>
      \<exists>v. record_pre_post_failure T k EXTENSION_PAISA now BACKOFF_MINUTES = (Some v, T')"
    "record_remote_outcome en T k remote body n R now = (Returned res, T') \<Longrightarrow> \<not> rr_post_accepted remote \<Longrightarrow>
      \<exists>v. record_pre_post_failure T k EXTENSION_PAISA now BACKOFF_MINUTES = (Some v, T')"
  using assms status_distinct
  by (auto simp: record_preflight_outcome_def record_generate_outcome_def record_remote_outcome_def guard_result_def Let_def
      dest!: guarded_returned split: if_splits option.splits)

lemma held_two:
  assumes foreign: "foreign en k" and r: "T EXTENSION_PAISA = Some r" and held: "holder (history (gap en j) (history (gap en i) T)) k"
  shows "\<exists>r'. history (gap en j) (history (gap en i) T) EXTENSION_PAISA = Some r' \<and> not_ahead r r' \<and> holder T k"
proof -
  obtain r1 where r1: "history (gap en i) T EXTENSION_PAISA = Some r1" using row_stays [of T "gap en i"] r by auto
  from held_pause_not_ahead [where T = "history (gap en i) T", OF foreign r1 held] obtain r2
    where r2: "holder (history (gap en i) T) k" "history (gap en j) (history (gap en i) T) EXTENSION_PAISA = Some r2" "not_ahead r1 r2" by blast
  from held_pause_not_ahead [where T = T, OF foreign r r2(1)] r1 have "holder T k \<and> not_ahead r r1" by auto
  then show ?thesis using r2(2,3) not_ahead_trans by blast
qed

lemma late_failure:
  assumes run: "run_attempt_stages en k force_remote target now pre gen remote T = (Returned res, T')"
    and foreign: "foreign en k" and r: "T EXTENSION_PAISA = Some r"
    and failed: "ar_status res = STATUS_FAILURE" "\<not> rr_post_accepted remote"
    and True: "pf_ok pre \<and> gr_ok gen \<and> gr_content gen \<noteq> None"
  shows "\<exists>r'. T' EXTENSION_PAISA = Some r' \<and> put_off r now r'"
proof -
  note fail = failing_record [OF failed(1)]
  have row: "T EXTENSION_PAISA \<noteq> None" using r by simp
  obtain body n where c: "pf_ok pre" "gr_ok gen" "gr_content gen = Some (body, n)" using True by auto
  define T1 where "T1 = history (gap en 1) (history (gap en 0) T)"
  define T3 where "T3 = history (gap en 3) (history (gap en 2) T1)"
  obtain r1 r3 where s: "T1 EXTENSION_PAISA = Some r1" "holder T3 k" "T3 EXTENSION_PAISA = Some r3" and
    rec: "record_remote_outcome en (history (gap en 5) (history (gap en 4) (T3(EXTENSION_PAISA \<mapsto> r3\<lparr>ss_published_hash := Some body\<rparr>))))
      k remote body n (ss_desired r1) now = (Returned res, T')"
    using stages_returned [OF run c row] failed(1) status_distinct unfolding T1_def T3_def Let_def by (metis (no_types, lifting))
  let ?T3 = "T3(EXTENSION_PAISA \<mapsto> r3\<lparr>ss_published_hash := Some body\<rparr>)"
  obtain v where v: "record_pre_post_failure (history (gap en 5) (history (gap en 4) ?T3)) k EXTENSION_PAISA now BACKOFF_MINUTES = (Some v, T')"
    using fail(3) [OF rec failed(2)] by blast
  have row3: "?T3 EXTENSION_PAISA = Some (r3\<lparr>ss_published_hash := Some body\<rparr>)" by simp
  obtain r5 where r5: "history (gap en 5) (history (gap en 4) ?T3) EXTENSION_PAISA = Some r5" "not_ahead r3 r5"
    using held_two [where T = ?T3, OF foreign row3 failure_held [OF v]] by (auto simp: not_ahead_def)
  have h: "holder T1 k" "not_ahead r1 r3" using held_two [where T = T1 and i = 2 and j = 3, OF foreign s(1)] s(2,3) by (auto simp: T3_def)
  have "not_ahead r r1" using held_two [where T = T and i = 0 and j = 1, OF foreign r] h(1) s(1) by (auto simp: T1_def)
  then show ?thesis using failure_recorded [OF v r5(1)] r5(2) h(2) not_ahead_trans by blast
qed

lemma early_failure:
  assumes run: "run_attempt_stages en k force_remote target now pre gen remote T = (Returned res, T')"
    and foreign: "foreign en k" and r: "T EXTENSION_PAISA = Some r"
    and failed: "ar_status res = STATUS_FAILURE" "\<not> rr_post_accepted remote"
    and False: "\<not> (pf_ok pre \<and> gr_ok gen \<and> gr_content gen \<noteq> None)"
  shows "\<exists>r'. T' EXTENSION_PAISA = Some r' \<and> put_off r now r'"
proof -
  note fail = failing_record [OF failed(1)]
  show ?thesis
  proof (cases "pf_ok pre")
    case pre: False
    then have rec: "record_preflight_outcome (history (gap en 0) T) k pre now target = (Returned res, T')"
      using pause_returned [OF run [unfolded run_attempt_stages_def]] by simp
    obtain v where v: "record_pre_post_failure (history (gap en 0) T) k EXTENSION_PAISA now BACKOFF_MINUTES = (Some v, T')"
      using fail(1) [OF rec] by blast
    show ?thesis using held_pause_not_ahead [where T = T, OF foreign r failure_held [OF v]] failure_recorded [OF v] by blast
  next
    case pre: True
    define T1 where "T1 = history (gap en 1) (history (gap en 0) T)"
    obtain r1 where r1: "T1 EXTENSION_PAISA = Some r1" using row_stays [of T "gap en 0 @ gap en 1"] r by (auto simp: T1_def)
    have "(if gr_ok gen then gr_content gen else None) = None" using False pre by (cases "gr_content gen") auto
    then have rec: "record_generate_outcome (history (gap en 2) T1) k gen now target = (Returned res, T')"
      using pause_returned [OF run [unfolded run_attempt_stages_def]] pre r1
      by (auto simp: T1_def capture_row dest!: pause_returned)
    obtain v where v: "record_pre_post_failure (history (gap en 2) T1) k EXTENSION_PAISA now BACKOFF_MINUTES = (Some v, T')"
      using fail(2) [OF rec] by blast
    obtain r2 where r2: "history (gap en 2) T1 EXTENSION_PAISA = Some r2" "not_ahead r1 r2" "holder T1 k"
      using held_pause_not_ahead [where T = T1, OF foreign r1 failure_held [OF v]] by blast
    have "not_ahead r r1" using held_two [where T = T and i = 0 and j = 1, OF foreign r] r2(3) r1 by (auto simp: T1_def)
    then show ?thesis using failure_recorded [OF v r2(1)] r2(2) not_ahead_trans by blast
  qed
qed

text \<open>While the run holds the lease, nothing but its own records moves the applied revision or arms a
  backoff: a core write of the settings clears it.\<close>

definition kept :: "sync_state \<Rightarrow> sync_state \<Rightarrow> bool" where
  "kept r r' \<longleftrightarrow> not_ahead r r' \<and> (ss_next_attempt r' = ss_next_attempt r \<or> ss_next_attempt r' = None)"

lemma kept_trans: "kept a b \<Longrightarrow> kept b c \<Longrightarrow> kept a c"
  by (auto simp: kept_def not_ahead_def)

lemma held_effect_kept:
  assumes "effect now e r = Some r'" "token_of e = None \<or> (\<exists>k ttl. e = Heartbeat k ttl)" "claims e = None" "e \<noteq> Reset"
  shows "kept r r'"
  using assms by (cases e) (auto simp: kept_def not_ahead_def bumped_def Let_def split: if_splits)

lemma held_history_kept:
  assumes "\<forall>e \<in> snd ` set evs. claims e \<noteq> Some k \<and> (token_of e = Some k \<longrightarrow> (\<exists>ttl. e = Heartbeat k ttl))"
  shows "T EXTENSION_PAISA = Some r \<Longrightarrow> holder (history evs T) k \<Longrightarrow>
    \<exists>r'. history evs T EXTENSION_PAISA = Some r' \<and> kept r r'"
  using assms
proof (induction evs arbitrary: T r)
  case (Cons x evs)
  obtain now e where x: "x = (now, e)" by (cases x)
  have c: "claims e \<noteq> Some k" "token_of e = Some k \<Longrightarrow> \<exists>ttl. e = Heartbeat k ttl" using Cons.prems(3) by (auto simp: x)
  have "holder (history (take 0 evs) (snd (perform now e T))) k"
    using held_throughout [of evs k "snd (perform now e T)" 0] Cons.prems(2,3) by (auto simp: x)
  then have h: "holder (snd (perform now e T)) k" by simp
  note p = perform_row [where T = T and now = now and e = e, OF Cons.prems(1)]
  obtain r1 where r1: "snd (perform now e T) EXTENSION_PAISA = Some r1" "kept r r1"
  proof (cases "effect now e r")
    case None
    then show thesis using that [of r] p Cons.prems(1) by (simp add: kept_def not_ahead_def)
  next
    case (Some r1)
    then have "token_of e \<in> {None, Some k} \<and> claims e = None \<and> e \<noteq> Reset \<and> e \<noteq> Release k" using holder_step(2) [OF h c(1)] p by simp
    then have "kept r r1" using held_effect_kept [OF Some] c(2) by auto
    then show thesis using that [of r1] p Some by simp
  qed
  have "\<exists>r'. history evs (snd (perform now e T)) EXTENSION_PAISA = Some r' \<and> kept r1 r'"
    by (rule Cons.IH [where T = "snd (perform now e T)", OF r1(1)]) (use Cons.prems(2,3) in \<open>auto simp: x\<close>)
  then show ?case using r1(2) kept_trans by (auto simp: x)
qed (simp add: kept_def not_ahead_def)

definition kept_if :: "sync_state \<Rightarrow> string \<Rightarrow> sync_table \<Rightarrow> bool" where
  "kept_if r k T \<longleftrightarrow> (holder T k \<longrightarrow> (\<exists>r'. T EXTENSION_PAISA = Some r' \<and> kept r r'))"

text \<open>An end of a run by the timeout or an exception.\<close>

definition cut_short :: "stage_end \<Rightarrow> bool" where
  "cut_short x \<longleftrightarrow> x = Timed_out \<or> (\<exists>e. x = Raised e)"

definition unrecorded :: "sync_state \<Rightarrow> string \<Rightarrow> stage_end \<times> sync_table \<Rightarrow> bool" where
  "unrecorded r k x \<longleftrightarrow> (cut_short (fst x) \<longrightarrow> kept_if r k (snd x))"

lemma kept_if_gap:
  assumes "foreign en k" "kept_if r k T"
  shows "kept_if r k (history (gap en i) T)"
  unfolding kept_if_def
proof
  assume h: "holder (history (gap en i) T) k"
  then have "holder T k" using not_held_stays [OF assms(1)] by blast
  then obtain r1 where r1: "T EXTENSION_PAISA = Some r1" "kept r r1" using assms(2) by (auto simp: kept_if_def)
  have "\<forall>e \<in> snd ` set (gap en i). claims e \<noteq> Some k \<and> (token_of e = Some k \<longrightarrow> (\<exists>ttl. e = Heartbeat k ttl))"
    using assms(1) by (simp add: foreign_def)
  from held_history_kept [OF this, of T, OF r1(1) h] show "\<exists>r'. history (gap en i) T EXTENSION_PAISA = Some r' \<and> kept r r'"
    using kept_trans [OF r1(2)] by blast
qed

lemma unrecorded_pause:
  assumes "foreign en k" "kept_if r k T" "\<And>T. kept_if r k T \<Longrightarrow> unrecorded r k (cont T)"
  shows "unrecorded r k (pause en i cont T)"
  using kept_if_gap [OF assms(1,2), of i] assms(3)
  by (cases "fault en i"; cases "the (fault en i)") (auto simp: pause_def Let_def unrecorded_def)

lemma unrecorded_guarded:
  "(\<And>v T. x = (Some v, T) \<Longrightarrow> unrecorded r k (cont T)) \<Longrightarrow> unrecorded r k (guarded x cont)"
  by (cases x) (auto simp: guarded_def unrecorded_def cut_short_def split: option.split)

lemma unrecorded_ended [simp]: "unrecorded r k (Returned res, T)" "unrecorded r k (Stale, T)"
  by (simp_all add: unrecorded_def cut_short_def)

lemma unrecorded_records:
  "unrecorded r k (record_preflight_outcome T k pre now g)" "unrecorded r k (record_generate_outcome T k gen now g)"
  "\<not> rr_post_accepted remote \<Longrightarrow> unrecorded r k (record_remote_outcome en T k remote body n R now)"
  by (auto simp: record_preflight_outcome_def record_generate_outcome_def record_remote_outcome_def Let_def
      intro!: unrecorded_guarded split: option.split)

lemma unrecorded_deliver:
  assumes "foreign en k" "kept_if r k T" "\<not> rr_post_accepted remote"
  shows "unrecorded r k (deliver en k force_remote R now h n remote T)"
  using assms(3) unfolding deliver_def
  by (auto intro!: unrecorded_pause [OF assms(1,2)] unrecorded_guarded unrecorded_records(3) split: option.split)

lemma kept_if_published: "kept_if r k T \<Longrightarrow> record_published_hash T h k EXTENSION_PAISA = (Some v, T') \<Longrightarrow> kept_if r k T'"
  by (auto simp: kept_if_def record_published_hash_def update_where_def holder_def holds_def kept_def not_ahead_def split: if_splits option.splits)

lemma unrecorded_run:
  assumes foreign: "foreign en k" and T: "kept_if r k T" and remote: "\<not> rr_post_accepted remote"
  shows "unrecorded r k (run_attempt_stages en k force_remote g now pre gen remote T)"
proof -
  have 4: "unrecorded r k (pause en 4 (deliver en k force_remote R now h n remote) T)" if "kept_if r k T" for R h n T
    using unrecorded_pause [OF foreign that] unrecorded_deliver [OF foreign _ remote] by blast
  have 3: "unrecorded r k (guarded (record_published_hash T h k EXTENSION_PAISA) (pause en 4 (deliver en k force_remote R now h n remote)))"
    if "kept_if r k T" for R h n T
    by (rule unrecorded_guarded) (rule 4, rule kept_if_published [OF that])
  have 2: "unrecorded r k (publish en k force_remote g now gen remote R T)" if "kept_if r k T" for R T
    using publish_cases [of en k force_remote g now gen remote R]
  proof (elim disjE exE)
    fix h n assume "\<forall>en. publish en k force_remote g now gen remote R = pause en 3 (\<lambda>T. guarded (record_published_hash T h k EXTENSION_PAISA)
         (pause en 4 (deliver en k force_remote R now h n remote)))"
    then show ?thesis using unrecorded_pause [OF foreign that] 3 by auto
  qed (simp add: unrecorded_records)
  have 1: "unrecorded r k (after_capture en k force_remote g now gen remote T)" if "kept_if r k T" for T
  proof -
    obtain R q T1 where c: "capture_target T EXTENSION_PAISA now = ((R, q), T1)" by (metis prod.exhaust)
    then have "kept_if r k T1"
      using that by (auto simp: capture_target_def read_sync_state_def ensure_sync_state_def kept_if_def holder_def holds_def
          seed_row_def Let_def split: option.splits)
    then show ?thesis unfolding after_capture_def c prod.case using unrecorded_pause [OF foreign] 2 by blast
  qed
  have 0: "unrecorded r k (after_preflight en k force_remote g now pre gen remote T)" if "kept_if r k T" for T
    using unrecorded_pause [OF foreign that] 1 unrecorded_records(1) by (simp add: after_preflight_def)
  show ?thesis unfolding run_attempt_stages_after by (rule unrecorded_pause [OF foreign T 0])
qed

text \<open>C23. A failed attempt gives nothing up. When the run of an attempt whose remote call is not accepted
  fails, the applied revision is the one from before it, so what was outstanding still is. If it
  returns a failure (of the preflight, the generation or the remote
  call), the next attempt is put off by one to fifteen minutes; if the timeout or an exception ends
  it, at any wait, while it still holds the lease, no backoff is armed: the next attempt is as it
  was, or cleared by a write of the settings.\<close>

theorem failed_attempt_stays_due:
  assumes run: "run_attempt_stages en k force_remote target now pre gen remote T = (x, T')"
    and foreign: "foreign en k" and r: "T EXTENSION_PAISA = Some r" and refused: "\<not> rr_post_accepted remote"
  shows "(\<forall>res. x = Returned res \<and> ar_status res = STATUS_FAILURE \<longrightarrow> (\<exists>r'. T' EXTENSION_PAISA = Some r' \<and> put_off r now r')) \<and>
    (cut_short x \<and> holder T' k \<longrightarrow> (\<exists>r'. T' EXTENSION_PAISA = Some r' \<and> kept r r'))"
proof (intro conjI allI impI; (elim conjE)?)
  fix res assume res: "x = Returned res" "ar_status res = STATUS_FAILURE"
  note run' = run [unfolded res(1)]
  show "\<exists>r'. T' EXTENSION_PAISA = Some r' \<and> put_off r now r'"
    by (cases "pf_ok pre \<and> gr_ok gen \<and> gr_content gen \<noteq> None")
      (rule late_failure [OF run' foreign r res(2) refused], assumption, rule early_failure [OF run' foreign r res(2) refused], assumption)
next
  assume x: "cut_short x" "holder T' k"
  have "kept_if r k T" using r by (simp add: kept_if_def kept_def not_ahead_def)
  from unrecorded_run [OF foreign this refused, of force_remote target now pre gen] run x
  show "\<exists>r'. T' EXTENSION_PAISA = Some r' \<and> kept r r'" by (simp add: unrecorded_def kept_if_def)
qed

section \<open>Examples\<close>

text \<open>A core write comes in after the file has been published.\<close>

definition attempt_demo_env :: env where
  "attempt_demo_env = \<lparr>gap = (\<lambda>i. if i = 4 then [(7, Core_write False), (8, Heartbeat ''k'' 90)] else []), fault = (\<lambda>_. None)\<rparr>"

definition attempt_demo_pre :: preflight_report where
  "attempt_demo_pre = \<lparr>pf_ok = True, pf_outcome = None, pf_reason = None\<rparr>"

definition attempt_demo_gen :: generate_result where
  "attempt_demo_gen = \<lparr>gr_ok = True, gr_content = Some (''h'', 3), gr_reason = None\<rparr>"

definition attempt_demo_remote :: "bool \<Rightarrow> remote_report" where
  "attempt_demo_remote ok = \<lparr>rr_ok = ok, rr_outcome = (if ok then ''ok'' else ''unreachable''), rr_post_accepted = ok,
     rr_diagnosis_ok = (if ok then Some True else None), rr_reason = None, rr_diagnosis_accepted = None\<rparr>"

definition attempt_demo_run :: "string \<Rightarrow> bool \<Rightarrow> stage_end \<times> sync_table" where
  "attempt_demo_run k ok = run_attempt_stages attempt_demo_env k False 1 5 attempt_demo_pre attempt_demo_gen (attempt_demo_remote ok) sync_demo"

lemma attempt_demo_foreign: "foreign attempt_demo_env ''k''"
  by (simp add: foreign_def attempt_demo_env_def)

lemma attempt_demo_row: "sync_demo EXTENSION_PAISA \<noteq> None"
  by (simp add: sync_demo_def)

text \<open>The lease lasts 90 s. While the remote is asked (the sixth wait), a peer finds it expired and claims it.\<close>

definition takeover_demo_env :: env where
  "takeover_demo_env = \<lparr>gap = (\<lambda>i. if i = 5 then [(200000000, Claim ''o'' ''z'' 90)] else []), fault = (\<lambda>_. None)\<rparr>"

definition takeover_demo_run :: "env \<Rightarrow> stage_end \<times> sync_table" where
  "takeover_demo_run en = run_attempt_stages en ''k'' False 1 5 attempt_demo_pre attempt_demo_gen (attempt_demo_remote True) sync_demo"

theorem stale_run_is_inert_witness:
  "let S = snd (takeover_demo_run (cut takeover_demo_env 5)) in holder S ''z'' \<and>
   (\<forall>res. fst (takeover_demo_run takeover_demo_env) \<noteq> Returned res) \<and>
   (\<exists>b \<le> 7. snd (takeover_demo_run takeover_demo_env) = history (concat (map (gap takeover_demo_env) [Suc 5..<b])) S)"
proof -
  let ?r = "takeover_demo_run (cut takeover_demo_env 5)"
  have f: "foreign takeover_demo_env ''k''" by (simp add: foreign_def takeover_demo_env_def)
  have "fst ?r = Timed_out" by code_simp
  then have run: "run_attempt_stages (cut takeover_demo_env 5) ''k'' False 1 5 attempt_demo_pre attempt_demo_gen (attempt_demo_remote True) sync_demo =
      (Timed_out, snd ?r)" by (simp add: takeover_demo_run_def prod_eq_iff)
  have h: "holder (snd ?r) ''z''" "\<not> holder (snd ?r) ''k''" "snd ?r EXTENSION_PAISA \<noteq> None" by code_simp+
  show ?thesis using stale_run_is_inert [OF f run h(2,3)] h(1) unfolding takeover_demo_run_def [symmetric] Let_def by blast
qed

lemma attempt_demo_ends:
  "fst (attempt_demo_run ''k'' True) = Returned \<lparr>ar_status = ''success'', ar_outcome = ''ok'', ar_output_hash = Some ''h'',
     ar_emitted = Some 3, ar_error = None, ar_notify = False\<rparr>"
  "fst (attempt_demo_run ''k'' False) = Returned \<lparr>ar_status = ''failure'', ar_outcome = ''unreachable'', ar_output_hash = Some ''h'',
     ar_emitted = Some 3, ar_error = None, ar_notify = True\<rparr>"
  by code_simp+

theorem delivered_row_is_current_witness:
  "\<exists>r'. snd (attempt_demo_run ''k'' True) EXTENSION_PAISA = Some r' \<and> ss_remote_hash r' = Some ''h''"
proof -
  obtain res where run: "run_attempt_stages attempt_demo_env ''k'' False 1 5 attempt_demo_pre attempt_demo_gen (attempt_demo_remote True) sync_demo =
      (Returned res, snd (attempt_demo_run ''k'' True))"
    using attempt_demo_ends(1) unfolding attempt_demo_run_def by (metis prod.collapse)
  show ?thesis using delivered_row_is_current [where T = sync_demo and render = "\<lambda>_ _. ''h''" and n = 3 and early = "[]", OF run attempt_demo_foreign attempt_demo_row]
    by (auto simp: attempt_demo_pre_def attempt_demo_gen_def attempt_demo_remote_def)
qed

text \<open>The settings can be stale in a row that looks delivered: they change after the tick has read them and
  before the revision is captured, the file is generated with the old ones, and the row ends with
  no revision outstanding.\<close>

definition stale_settings_env :: env where
  "stale_settings_env = \<lparr>gap = (\<lambda>i. if i = 0 then [(2, Core_write True)] else []), fault = (\<lambda>_. None)\<rparr>"

lemma stale_settings_delivered:
  "case run_attempt_stages stale_settings_env ''k'' False 1 5 attempt_demo_pre attempt_demo_gen (attempt_demo_remote True) sync_demo of
     (x, T') \<Rightarrow> (case (x, T' EXTENSION_PAISA) of
       (Returned res, Some r') \<Rightarrow> ar_status res = ''success'' \<and> ss_desired r' \<le> ss_applied r' \<and>
         setting_writes (gap stale_settings_env 0) = 1
     | _ \<Rightarrow> False)"
  by code_simp

text \<open>A remote call that fails, and one that the timeout ends: the row is put off only by the first.\<close>

theorem failed_attempt_stays_due_witness:
  "let r = (seed_row EXTENSION_PAISA False 0)\<lparr>ss_token := Some ''k'', ss_expires := Some 90000000\<rparr> in
   (\<exists>r'. snd (attempt_demo_run ''k'' False) EXTENSION_PAISA = Some r' \<and> put_off r 5 r') \<and>
   (\<exists>r'. snd (run_attempt_stages (cut attempt_demo_env 5) ''k'' False 1 5 attempt_demo_pre attempt_demo_gen
        (attempt_demo_remote False) sync_demo) EXTENSION_PAISA = Some r' \<and> kept r r' \<and> ss_next_attempt r' = None)"
proof -
  let ?r = "(seed_row EXTENSION_PAISA False 0)\<lparr>ss_token := Some ''k'', ss_expires := Some 90000000\<rparr>"
  let ?run = "run_attempt_stages (cut attempt_demo_env 5) ''k'' False 1 5 attempt_demo_pre attempt_demo_gen (attempt_demo_remote False) sync_demo"
  obtain res where run: "run_attempt_stages attempt_demo_env ''k'' False 1 5 attempt_demo_pre attempt_demo_gen (attempt_demo_remote False) sync_demo =
      (Returned res, snd (attempt_demo_run ''k'' False))" and res: "ar_status res = STATUS_FAILURE"
    using attempt_demo_ends(2) unfolding attempt_demo_run_def STATUS_FAILURE_def by (metis attempt_result.select_convs(1) prod.collapse)
  have row: "sync_demo EXTENSION_PAISA = Some ?r" by (simp add: sync_demo_def)
  have post: "\<not> rr_post_accepted (attempt_demo_remote False)" by (simp add: attempt_demo_remote_def)
  have f: "foreign (cut attempt_demo_env 5) ''k''" using attempt_demo_foreign by (simp add: foreign_def)
  have t: "fst ?run = Timed_out" "holder (snd ?run) ''k''" by code_simp+
  have run': "?run = (Timed_out, snd ?run)" using t(1) by (simp add: prod_eq_iff)
  have "\<exists>r'. snd ?run EXTENSION_PAISA = Some r' \<and> kept ?r r'"
    using failed_attempt_stays_due [where T = sync_demo, OF run' f row post] t(2) by (simp add: cut_short_def)
  moreover have "ss_next_attempt ?r = None" by (simp add: seed_row_def)
  ultimately show ?thesis
    using failed_attempt_stays_due [where T = sync_demo, OF run attempt_demo_foreign row post] res by (auto simp: Let_def kept_def)
qed

end
