(* ===== verification/Spec2Isabelle.thy ===== *)
theory Spec2Isabelle
  imports Linker Merge_Contract Cat_Review Cc_Handlers Cc_Resolve Bank_Recon_Sound Net_Worth Cashflow Sync_Coordinator
begin

text \<open>
  Verification library of the financial dashboard (\<open>src/financial_dashboard\<close>), a service that reads
  the messages of banks (mail, SMS, statements), keeps one table of transactions, categorizes them
  and reports on them. The library models the services that decide: what is one event, whose money
  it is, what it was for, whether a bill is paid, and what the reports add up to.

  The parts and how they interact. An incoming message is a \<open>txn_data\<close>; \<open>merge_transaction\<close> asks
  \<open>find_match\<close> for a stored row of the same event and inserts, enriches or defers. A new row is
  linked to an account by \<open>link_transaction\<close> over the masks of \<open>core/masks.py\<close>, and the reference
  self-transfer rule marks it and its opposite leg. The categorization engine gives every row a
  slug, by rules first and by a language model otherwise; a human can override it. A card statement is
  reconciled with the stored rows, its missing rows are imported through the same linker and
  self-transfer rule, and its payment state follows the payments of its billing cycle. The net
  worth and cashflow reports read the result.

  The theories, in the order of their imports, and the code they model:

  \<^item> \<open>Prelude\<close>: Latin-1 strings with Python's \<open>strip\<close>, case maps and splitting, insertion-ordered
    dictionaries, and the lemmas on lists, options and folds that the components share.
  \<^item> \<open>Dates\<close> (\<open>core/dates.py\<close>): the Gregorian calendar, month windows, the trailing months. The
    package \<open>dateutil\<close> is the parameter \<open>rd\<close> with its documented behaviour \<open>relativedelta_doc\<close>,
    which \<open>relativedelta_ref\<close> satisfies.
  \<^item> \<open>Models\<close> (\<open>db/models.py\<close>): the tables as records, \<open>db\<close> one session's view of them.
  \<^item> \<open>Masks\<close> (\<open>core/masks.py\<close>) and \<open>Linker\<close> (\<open>services/linker.py\<close>): masks as patterns of digits;
    two masks match exactly when a number exists that both denote. The locale \<open>link_index\<close> is what
    the cascade needs of the preloaded index; \<open>build_link_context\<close> interprets it.
  \<^item> \<open>Txn_Match\<close>, \<open>Txn_Merge\<close>, \<open>Merge_Contract\<close> (\<open>services/txn_merge.py\<close>, \<open>parser_quirks.py\<close>,
    \<open>email_attachments.py\<close>): the matcher with its evidence, the enrichment rules, the claim of a
    source slot, the merge. The locale \<open>event_matcher\<close> states what the merge needs of a matcher, and
    \<open>find_match\<close> interprets it.
  \<^item> \<open>Cat_Text\<close>, \<open>Cat_Rules\<close>, \<open>Self_Transfer\<close>, \<open>Cat_Engine\<close>, \<open>Cat_Review\<close>
    (\<open>services/categorization\<close>): comparison forms, slugs and the direction guard, the rule cascade
    and the merchant rules, the two-leg rule, the sweeps and the backfill, assignments by hand and the
    review file. The answer of the model provider is an arbitrary function.
  \<^item> \<open>Text_Num\<close>: numbers and dates as text, as review files, settings and statements use them.
  \<^item> \<open>Cc_Cycle\<close> (\<open>cc_cycle.py\<close>), \<open>Cc_Payments\<close> and \<open>Cc_Lifecycle\<close> (\<open>reminders.py\<close>,
    \<open>snapshots.py\<close>, \<open>statement_payments.py\<close>, \<open>web/statements.py\<close>, \<open>db/init_db.py\<close>): billing cycles, reminders, the
    payment state of a statement as a labelled transition system (\<open>pay_step\<close>), with an action for every
    place of the program that writes it: uploads, tracking, reminder passes, payments received and
    deleted, marks and unmarks by hand, resynchronisation, reparses, page reprocessing, deletion, and
    the backfill of a restart. \<open>Ledger\<close> is any change of the other tables.
  \<^item> \<open>Cc_Resolve\<close> (\<open>cc_disambiguation.py\<close>): the card of a bill payment that carries no mask.
  \<^item> \<open>Contest_Groups\<close>, \<open>Cc_Recon\<close>, \<open>Cc_Recon_Sound\<close> (\<open>statements/cc.py\<close>,
    \<open>statements/contention.py\<close>): the pairing of a statement with the stored rows, and its union-find.
  \<^item> \<open>Cc_Import\<close>, \<open>Cc_Replay\<close>, \<open>Cc_Handlers\<close> (\<open>statements/cc.py\<close>, \<open>shared.py\<close>, \<open>dates.py\<close>,
    \<open>skip_summary.py\<close>, \<open>web/statements.py\<close>): the account of a statement, the import, reparsing and reprocessing a
    processed statement, both shown to be runs of \<open>pay_step\<close>.
  \<^item> \<open>Bank_Recon\<close>, \<open>Bank_Recon_Sound\<close> (\<open>statements/bank.py\<close>, \<open>statements/contention.py\<close>): the pairing
    of an account statement, by reference and then by date. The locale \<open>claim_pass\<close> states what a pass
    needs of the way it picks; both passes interpret it.
  \<^item> \<open>Group_By\<close>, \<open>Net_Worth\<close> (\<open>networth.py\<close>, \<open>snapshots.py\<close>), \<open>Cashflow\<close>
    (\<open>services/cashflow\<close>): grouping, and the two reports.
  \<^item> \<open>Sync_State\<close>, \<open>Sync_Protocol\<close>, \<open>Sync_Coordinator\<close> (\<open>services/paisa/sync_state.py\<close>,
    \<open>coordinator.py\<close>, the triggers of \<open>db/init_db.py\<close>): the lease and the revisions of the export to
    Paisa. A history is a list of committed calls in commit order, so every interleaving of
    coordinators, operators and core writes is one; an attempt runs with such a history in each of its waits.

  How the state corresponds. A table is the list of its rows in primary key order, an ORM object is
  the record of its row, a column assignment and its flush are a record update. A coroutine that
  reads and writes the session is a function from \<open>db\<close> to \<open>db\<close>; where two sources can interleave,
  as in the claim of a slot, the stale object and the table are separate arguments. Amounts are
  \<open>rat\<close> (the columns are \<open>Numeric(12, 2)\<close>), dates ordinals, times microseconds. Raised
  exceptions are \<open>None\<close> or \<open>Inl\<close> of an error. Message and log texts that no later operation reads are
  left out.

  What the lemmas show. Well-formedness: keys and unique indexes survive every operation
  (\<open>merge_transaction_total\<close>, \<open>upserts_keep_snapshots_ok\<close>), categories stay in the vocabulary.
  Safety of guesses: a match, a link, an account, a kept pairing is backed by evidence of the tables,
  and each theorem says which; where a gate sets rows aside without proof
  (\<open>find_match_insert_certificate\<close>) or a rule answers against the direction guard
  (\<open>match_rules_respect_polarity\<close>), the exception is a part of the statement. Histories: a paid
  statement is covered unless a reparse rebilled it while paid (\<open>paid_means_covered\<close>), and only four kinds of
  action reopen it (\<open>paid_stays_paid\<close>).
  Idempotence: replayed messages, recomputed payments, repeated reminders and reparsed statements change nothing.
  Accounting: every statement row is a match or a missing row, the cashflow headline
  accounts for every row, trends agree with summaries. Fencing: a coordinator that loses its lease, in
  whichever of its waits, writes nothing more; a delivered row that looks current holds the current data,
  under the settings that the tick read. Loops end: the backfill needs at
  most as many rounds as there are rows, \<open>find\<close> at most as many steps as the array has entries, and the
  trend loop, a \<open>partial_function\<close>, returns.

  Bounds and fuel. \<open>run_backfill\<close> carries fuel and is shown to finish for any fuel above the number of
  rows; \<open>uf_find\<close> carries the length of the array, enough because the parent links are acyclic
  (\<open>uf_ok\<close>); \<open>trend_loop\<close> has no fuel. Python's integers are unbounded, so no operation wraps.

  Hypotheses. \<open>relativedelta_doc\<close> is the documented arithmetic of \<open>dateutil.relativedelta\<close>;
  a date parser \<open>pd\<close> is an arbitrary function unless a property says otherwise; digests are arbitrary
  functions. \<open>keys_ok\<close> and \<open>ref_index_ok\<close> are the primary keys and unique indexes of the schema.

  Not modelled, and why. The parsers of messages and PDFs are third-party packages, so the
  ingestion pipelines (\<open>services/emails.py\<close>, \<open>sms_pipeline.py\<close>) that mostly drive them are left out, as
  are the providers of the language model, the mail and Telegram clients, the HTTP layer with its
  templates, the migrations and backups (I/O). The journal that is exported to Paisa
  (\<open>paisa/projection.py\<close>), the import and enrichment around an account statement (\<open>statements/bank.py\<close>) and the
  investments are logic of their own that the library does not reach. Simplifications inside the modelled code: the tick
  reads the settings before the claim, and the stages preflight, generate and remote call are arguments of
  an attempt, so the files that generate publishes are not part of the state; the answer of the model
  provider does not change between sweeps; \<open>clamp01\<close> leaves out the \<open>OverflowError\<close> of \<open>float\<close>; amounts are
  exact and unbounded rationals, where the columns round to two digits and SQLite sums as floating point.
  Text outside Latin-1, the infinities and NaNs of \<open>Decimal\<close>, Python's limits on
  years and the seed scripts under \<open>scripts/synth\<close> are outside the model.
\<close>

end
